(* ===== verification/Crab_Prelude.thy ===== *)
theory Crab_Prelude
  imports "HOL-Library.Word" "HOL-Library.Sublist"
begin

text \<open>
  Shared vocabulary of the development: Rust's \<^verbatim>\<open>Result\<close> and the question-mark
  operator, bytes and the big- and little-endian integer encodings of
  \<^verbatim>\<open>to_be_bytes\<close>/\<^verbatim>\<open>from_be_bytes\<close>, byte masks, and the collections of
  simplification rules the component theories extend.
\<close>

unbundle bit_operations_syntax

named_theorems codec_simps "lengths and round trips of the byte codecs"
named_theorems inv_intros "preservation of the component invariants"

section \<open>Results\<close>

type_synonym ('e, 'a) result = "'e + 'a"

abbreviation Err :: "'e \<Rightarrow> ('e, 'a) result" where "Err \<equiv> Inl"
abbreviation Ok :: "'a \<Rightarrow> ('e, 'a) result" where "Ok \<equiv> Inr"

fun bind_res :: "('e, 'a) result \<Rightarrow> ('a \<Rightarrow> ('e, 'b) result) \<Rightarrow> ('e, 'b) result" where
  "bind_res (Inl e) f = Inl e"
| "bind_res (Inr x) f = f x"

fun map_err :: "('e \<Rightarrow> 'f) \<Rightarrow> ('e, 'a) result \<Rightarrow> ('f, 'a) result" where
  "map_err f (Inl e) = Inl (f e)"
| "map_err f (Inr x) = Inr x"

lemma bind_res_Ok_iff: "bind_res r f = Inr y \<longleftrightarrow> (\<exists>x. r = Inr x \<and> f x = Inr y)"
  by (cases r) auto

lemma bind_res_Err_iff:
  "bind_res r f = Inl e \<longleftrightarrow> r = Inl e \<or> (\<exists>x. r = Inr x \<and> f x = Inl e)"
  by (cases r) auto

lemma bind_res_cong [fundef_cong]:
  "r = r' \<Longrightarrow> (\<And>x. r' = Inr x \<Longrightarrow> f x = f' x) \<Longrightarrow> bind_res r f = bind_res r' f'"
  by (cases r') auto

section \<open>Bytes\<close>

type_synonym byte = "8 word"
type_synonym bytes = "byte list"
type_synonym u16 = "16 word"
type_synonym u32 = "32 word"
type_synonym u64 = "64 word"
type_synonym u128 = "128 word"

definition be16 :: "u16 \<Rightarrow> bytes" where
  "be16 w = [ucast (drop_bit 8 w), ucast w]"

definition un_be16 :: "byte \<Rightarrow> byte \<Rightarrow> u16" where
  "un_be16 a b = push_bit 8 (ucast a) OR ucast b"

definition be32 :: "u32 \<Rightarrow> bytes" where
  "be32 w = [ucast (drop_bit 24 w), ucast (drop_bit 16 w), ucast (drop_bit 8 w), ucast w]"

definition un_be32 :: "byte \<Rightarrow> byte \<Rightarrow> byte \<Rightarrow> byte \<Rightarrow> u32" where
  "un_be32 a b c d =
     push_bit 24 (ucast a) OR push_bit 16 (ucast b) OR push_bit 8 (ucast c) OR ucast d"

definition le32 :: "u32 \<Rightarrow> bytes" where
  "le32 w = [ucast w, ucast (drop_bit 8 w), ucast (drop_bit 16 w), ucast (drop_bit 24 w)]"

definition be64 :: "u64 \<Rightarrow> bytes" where
  "be64 w = be32 (ucast (drop_bit 32 w)) @ be32 (ucast w)"

lemma length_be16 [codec_simps, simp]: "length (be16 w) = 2"
  by (simp add: be16_def)
lemma length_be32 [codec_simps, simp]: "length (be32 w) = 4"
  by (simp add: be32_def)
lemma length_le32 [codec_simps, simp]: "length (le32 w) = 4"
  by (simp add: le32_def)
lemma length_be64 [codec_simps, simp]: "length (be64 w) = 8"
  by (simp add: be64_def)

lemma byte_bit_beyond [simp]: "8 \<le> n \<Longrightarrow> \<not> bit (b :: byte) n"
  by (auto dest: bit_imp_le_length)

lemma un_be16_be16 [codec_simps, simp]:
  "un_be16 (ucast (drop_bit 8 w)) (ucast w) = w"
  unfolding un_be16_def
  by (rule bit_word_eqI) (auto simp: bit_simps)

lemma octet_cases:
  assumes "n < LENGTH(32)"
  obtains "n < 8" | k where "n = 8 + k" "k < 8" | k where "n = 16 + k" "k < 8"
    | k where "n = 24 + k" "k < 8"
proof -
  have "n < 8 \<or> (n = 8 + (n - 8) \<and> n - 8 < 8) \<or> (n = 16 + (n - 16) \<and> n - 16 < 8)
      \<or> (n = 24 + (n - 24) \<and> n - 24 < 8)"
    using assms by auto
  then show thesis using that by metis
qed

lemma un_be32_be32 [codec_simps, simp]:
  "un_be32 (ucast (drop_bit 24 w)) (ucast (drop_bit 16 w)) (ucast (drop_bit 8 w)) (ucast w) = w"
  unfolding un_be32_def
proof (rule bit_word_eqI)
  fix n assume "n < LENGTH(32)"
  then consider "n < 8" | k where "n = 8 + k" "k < 8" | k where "n = 16 + k" "k < 8"
    | k where "n = 24 + k" "k < 8"
    by (rule octet_cases)
  then show "bit (push_bit 24 (ucast (ucast (drop_bit 24 w) :: byte)) OR
      push_bit 16 (ucast (ucast (drop_bit 16 w) :: byte)) OR
      push_bit 8 (ucast (ucast (drop_bit 8 w) :: byte)) OR ucast (ucast w :: byte) :: u32) n = bit w n"
    by cases (auto simp: bit_simps)
qed

lemma be16_un_be16 [codec_simps, simp]: "be16 (un_be16 a b) = [a, b]"
  unfolding un_be16_def be16_def
  by (auto intro!: bit_word_eqI simp: bit_simps)

lemma be32_un_be32 [codec_simps, simp]: "be32 (un_be32 a b c d) = [a, b, c, d]"
  unfolding un_be32_def be32_def
  by (auto intro!: bit_word_eqI simp: bit_simps)
end
