(* ===== verification/Rust_Str.thy ===== *)
theory Rust_Str
  imports Crab_Prelude "HOL-Library.Char_ord" "HOL-Library.List_Lexorder"
begin

text \<open>
  The part of the Rust standard library's strings that the sources use. A \<^verbatim>\<open>String\<close> or
  \<^verbatim>\<open>&str\<close> is the list of its UTF-8 code units, one \<^typ>\<open>char\<close> per byte; the
  methods that only cut at ASCII characters act on it as they act on the text.
\<close>

section \<open>Text and bytes\<close>

definition byte_of_char :: "char \<Rightarrow> byte" where
  "byte_of_char c = word_of_nat (of_char c)"

definition char_of_byte :: "byte \<Rightarrow> char" where
  "char_of_byte b = char_of (unat b)"

lemma char_of_byte_of_char [codec_simps, simp]: "char_of_byte (byte_of_char c) = c"
  using nat_of_char_less_256[of c]
  by (simp add: char_of_byte_def byte_of_char_def unat_of_nat take_bit_nat_eq_self)

lemma byte_of_char_of_byte [codec_simps, simp]: "byte_of_char (char_of_byte b) = b"
  using unsigned_less[of b, where ?'a = nat]
  by (simp add: char_of_byte_def byte_of_char_def of_char_of)

definition as_bytes :: "string \<Rightarrow> bytes" where
  "as_bytes s = map byte_of_char s"

definition of_bytes :: "bytes \<Rightarrow> string" where
  "of_bytes b = map char_of_byte b"

lemma of_bytes_as_bytes [codec_simps, simp]: "of_bytes (as_bytes s) = s"
  by (simp add: of_bytes_def as_bytes_def comp_def)

lemma as_bytes_of_bytes [codec_simps, simp]: "as_bytes (of_bytes b) = b"
  by (simp add: of_bytes_def as_bytes_def comp_def)

lemma length_as_bytes [simp]: "length (as_bytes s) = length s"
  by (simp add: as_bytes_def)

lemma length_of_bytes [simp]: "length (of_bytes b) = length b"
  by (simp add: of_bytes_def)

text \<open>\<^verbatim>\<open>str::from_utf8\<close>: the well-formed byte sequences of the Unicode standard.\<close>

definition in_range :: "byte \<Rightarrow> byte \<Rightarrow> byte \<Rightarrow> bool" where
  "in_range lo hi b \<longleftrightarrow> lo \<le> b \<and> b \<le> hi"

abbreviation utf8_cont :: "byte \<Rightarrow> bool" where
  "utf8_cont \<equiv> in_range 0x80 0xBF"

fun utf8_valid :: "bytes \<Rightarrow> bool" where
  "utf8_valid [] \<longleftrightarrow> True"
| "utf8_valid (a # r) \<longleftrightarrow>
     (if a < 0x80 then utf8_valid r
      else case r of
        [] \<Rightarrow> False
      | b # r1 \<Rightarrow>
          if in_range 0xC2 0xDF a then utf8_cont b \<and> utf8_valid r1
          else (case r1 of
            [] \<Rightarrow> False
          | c # r2 \<Rightarrow>
              if in_range 0xE0 0xEF a then
                (if a = 0xE0 then in_range 0xA0 0xBF b
                 else if a = 0xED then in_range 0x80 0x9F b
                 else utf8_cont b) \<and> utf8_cont c \<and> utf8_valid r2
              else (case r2 of
                [] \<Rightarrow> False
              | d # r3 \<Rightarrow>
                  in_range 0xF0 0xF4 a
                  \<and> (if a = 0xF0 then in_range 0x90 0xBF b
                     else if a = 0xF4 then in_range 0x80 0x8F b
                     else utf8_cont b)
                  \<and> utf8_cont c \<and> utf8_cont d \<and> utf8_valid r3)))"

definition from_utf8 :: "bytes \<Rightarrow> string option" where
  "from_utf8 b = (if utf8_valid b then Some (of_bytes b) else None)"

definition valid_str :: "string \<Rightarrow> bool" where
  "valid_str s \<longleftrightarrow> utf8_valid (as_bytes s)"

lemma utf8_valid_ascii: "list_all (\<lambda>b. b < 0x80) bs \<Longrightarrow> utf8_valid bs"
  by (induction bs) auto

lemma from_utf8_as_bytes [simp]: "valid_str s \<Longrightarrow> from_utf8 (as_bytes s) = Some s"
  by (simp add: from_utf8_def valid_str_def)

section \<open>Cutting strings\<close>

definition starts_with :: "string \<Rightarrow> string \<Rightarrow> bool" where
  "starts_with s p \<longleftrightarrow> prefix p s"

definition ends_with :: "string \<Rightarrow> string \<Rightarrow> bool" where
  "ends_with s p \<longleftrightarrow> suffix p s"

definition strip_prefix :: "string \<Rightarrow> string \<Rightarrow> string option" where
  "strip_prefix s p = (if prefix p s then Some (drop (length p) s) else None)"

definition strip_suffix :: "string \<Rightarrow> string \<Rightarrow> string option" where
  "strip_suffix s p = (if suffix p s then Some (take (length s - length p) s) else None)"

text \<open>\<^verbatim>\<open>trim_start_matches\<close> removes every leading copy of the (non-empty) pattern.\<close>

function trim_start_matches :: "string \<Rightarrow> string \<Rightarrow> string" where
  "trim_start_matches s p =
     (if p \<noteq> [] \<and> prefix p s then trim_start_matches (drop (length p) s) p else s)"
  by pat_completeness auto
termination
  by (relation "measure (\<lambda>(s, _). length s)") (auto simp: prefix_def)

declare trim_start_matches.simps [simp del]

fun split_once :: "char \<Rightarrow> string \<Rightarrow> (string \<times> string) option" where
  "split_once c [] = None"
| "split_once c (x # xs) =
     (if x = c then Some ([], xs)
      else case split_once c xs of None \<Rightarrow> None | Some (a, b) \<Rightarrow> Some (x # a, b))"

definition rsplit_once :: "char \<Rightarrow> string \<Rightarrow> (string \<times> string) option" where
  "rsplit_once c s =
     (case split_once c (rev s) of None \<Rightarrow> None | Some (a, b) \<Rightarrow> Some (rev b, rev a))"

text \<open>\<^verbatim>\<open>split_once\<close> with a string pattern.\<close>

fun split_once_str :: "string \<Rightarrow> string \<Rightarrow> (string \<times> string) option" where
  "split_once_str p s =
     (if prefix p s then Some ([], drop (length p) s)
      else case s of
        [] \<Rightarrow> None
      | x # xs \<Rightarrow> (case split_once_str p xs of None \<Rightarrow> None | Some (a, b) \<Rightarrow> Some (x # a, b)))"

declare split_once_str.simps [simp del]

fun split_char :: "char \<Rightarrow> string \<Rightarrow> string list" where
  "split_char c [] = [[]]"
| "split_char c (x # xs) =
     (if x = c then [] # split_char c xs
      else case split_char c xs of [] \<Rightarrow> [[x]] | y # ys \<Rightarrow> (x # y) # ys)"

definition str_contains :: "string \<Rightarrow> string \<Rightarrow> bool" where
  "str_contains s p \<longleftrightarrow> sublist p s"

lemma strip_prefix_Some: "strip_prefix s p = Some r \<longleftrightarrow> s = p @ r"
  by (auto simp: strip_prefix_def prefix_def)

lemma strip_prefix_None: "strip_prefix s p = None \<longleftrightarrow> \<not> prefix p s"
  by (simp add: strip_prefix_def)

lemma strip_prefix_append [simp]: "strip_prefix (p @ r) p = Some r"
  by (simp add: strip_prefix_Some)

lemma split_once_None: "split_once c s = None \<longleftrightarrow> c \<notin> set s"
  by (induction s) (auto split: option.splits)

lemma split_once_append [simp]: "c \<notin> set a \<Longrightarrow> split_once c (a @ c # b) = Some (a, b)"
  by (induction a) auto

lemma split_once_SomeD: "split_once c s = Some (a, b) \<Longrightarrow> s = a @ c # b \<and> c \<notin> set a"
proof (induction s arbitrary: a b)
  case (Cons x s)
  show ?case
  proof (cases "split_once c s")
    case None
    with Cons.prems show ?thesis by (simp split: if_splits)
  next
    case (Some r)
    with Cons.prems Cons.IH[of "fst r" "snd r"] show ?thesis
      by (auto split: if_splits prod.splits)
  qed
qed simp

lemma split_once_Some: "split_once c s = Some (a, b) \<longleftrightarrow> s = a @ c # b \<and> c \<notin> set a"
  using split_once_SomeD split_once_append by blast

lemma rsplit_once_Some: "rsplit_once c s = Some (a, b) \<longleftrightarrow> s = a @ c # b \<and> c \<notin> set b"
proof -
  have "rsplit_once c s = Some (a, b) \<longleftrightarrow> split_once c (rev s) = Some (rev b, rev a)"
    by (auto simp: rsplit_once_def split: option.splits)
  also have "\<dots> \<longleftrightarrow> rev s = rev b @ c # rev a \<and> c \<notin> set b"
    by (simp add: split_once_Some)
  also have "rev s = rev b @ c # rev a \<longleftrightarrow> s = a @ c # b"
    by (simp add: rev_swap)
  finally show ?thesis .
qed

lemma rsplit_once_None: "rsplit_once c s = None \<longleftrightarrow> c \<notin> set s"
  using split_once_None[of c "rev s"] by (auto simp: rsplit_once_def split: option.splits)

lemma split_char_neq_Nil [simp]: "split_char c s \<noteq> []"
  by (induction s) (auto split: list.splits)

section \<open>White space\<close>

text \<open>Length of the UTF-8 encoding of a Unicode white-space character at the front, if any.\<close>

definition is_ws3 :: "byte \<Rightarrow> byte \<Rightarrow> byte \<Rightarrow> bool" where
  "is_ws3 a b c \<longleftrightarrow>
     (a = 0xE1 \<and> b = 0x9A \<and> c = 0x80)
     \<or> (a = 0xE2 \<and> b = 0x80 \<and> (in_range 0x80 0x8A c \<or> c = 0xA8 \<or> c = 0xA9 \<or> c = 0xAF))
     \<or> (a = 0xE2 \<and> b = 0x81 \<and> c = 0x9F)
     \<or> (a = 0xE3 \<and> b = 0x80 \<and> c = 0x80)"

definition is_ws1 :: "char \<Rightarrow> bool" where
  "is_ws1 c \<longleftrightarrow> c \<in> {CHR 0x09, CHR 0x0A, CHR 0x0B, CHR 0x0C, CHR 0x0D, CHR '' ''}"

fun ws_head :: "string \<Rightarrow> nat option" where
  "ws_head [] = None"
| "ws_head (a # r) =
     (if is_ws1 a then Some 1
      else case r of
        [] \<Rightarrow> None
      | b # r1 \<Rightarrow>
          if a = CHR 0xC2 \<and> (b = CHR 0x85 \<or> b = CHR 0xA0) then Some 2
          else (case r1 of
            [] \<Rightarrow> None
          | c # _ \<Rightarrow>
              if is_ws3 (byte_of_char a) (byte_of_char b) (byte_of_char c) then Some 3 else None))"

fun has_whitespace :: "string \<Rightarrow> bool" where
  "has_whitespace [] \<longleftrightarrow> False"
| "has_whitespace (x # xs) \<longleftrightarrow> ws_head (x # xs) \<noteq> None \<or> has_whitespace xs"

lemma ws_head_bounds: "ws_head s = Some n \<Longrightarrow> 0 < n \<and> n \<le> length s"
  by (cases s) (auto split: list.splits if_splits)

function trim_start :: "string \<Rightarrow> string" where
  "trim_start s = (case ws_head s of None \<Rightarrow> s | Some n \<Rightarrow> trim_start (drop n s))"
  by pat_completeness auto
termination
  by (relation "measure length") (auto dest!: ws_head_bounds)

declare trim_start.simps [simp del]

text \<open>A white-space character at the end: its encoding is the last one, two or three units.\<close>

definition ws_last :: "string \<Rightarrow> nat option" where
  "ws_last s =
     (if length s \<ge> 1 \<and> ws_head (drop (length s - 1) s) = Some 1 then Some 1
      else if length s \<ge> 2 \<and> ws_head (drop (length s - 2) s) = Some 2 then Some 2
      else if length s \<ge> 3 \<and> ws_head (drop (length s - 3) s) = Some 3 then Some 3
      else None)"

lemma ws_last_bounds: "ws_last s = Some n \<Longrightarrow> 0 < n \<and> n \<le> length s"
  by (auto simp: ws_last_def split: if_splits)

function trim_end :: "string \<Rightarrow> string" where
  "trim_end s = (case ws_last s of None \<Rightarrow> s | Some n \<Rightarrow> trim_end (take (length s - n) s))"
  by pat_completeness auto
termination
  by (relation "measure length") (auto dest!: ws_last_bounds)

declare trim_end.simps [simp del]

definition trim :: "string \<Rightarrow> string" where
  "trim s = trim_end (trim_start s)"

section \<open>Character classes and case\<close>

definition is_ascii_digit :: "char \<Rightarrow> bool" where
  "is_ascii_digit c \<longleftrightarrow> CHR ''0'' \<le> c \<and> c \<le> CHR ''9''"

definition is_ascii_uppercase :: "char \<Rightarrow> bool" where
  "is_ascii_uppercase c \<longleftrightarrow> CHR ''A'' \<le> c \<and> c \<le> CHR ''Z''"

definition is_ascii_lowercase :: "char \<Rightarrow> bool" where
  "is_ascii_lowercase c \<longleftrightarrow> CHR ''a'' \<le> c \<and> c \<le> CHR ''z''"

definition is_ascii_alphanumeric :: "char \<Rightarrow> bool" where
  "is_ascii_alphanumeric c \<longleftrightarrow> is_ascii_digit c \<or> is_ascii_uppercase c \<or> is_ascii_lowercase c"

definition to_lower :: "char \<Rightarrow> char" where
  "to_lower c = (if is_ascii_uppercase c then char_of (of_char c + 32 :: nat) else c)"

definition to_ascii_lowercase :: "string \<Rightarrow> string" where
  "to_ascii_lowercase s = map to_lower s"

definition eq_ignore_ascii_case :: "string \<Rightarrow> string \<Rightarrow> bool" where
  "eq_ignore_ascii_case s t \<longleftrightarrow> to_ascii_lowercase s = to_ascii_lowercase t"

section \<open>Numbers\<close>

text \<open>\<^verbatim>\<open>char::to_digit\<close> for radix 10 and 16.\<close>

definition to_digit :: "nat \<Rightarrow> char \<Rightarrow> nat option" where
  "to_digit radix c =
     (let n = of_char c in
      if 48 \<le> n \<and> n \<le> 57 then (if n - 48 < radix then Some (n - 48) else None)
      else if 97 \<le> n \<and> n \<le> 122 then (if n - 87 < radix then Some (n - 87) else None)
      else if 65 \<le> n \<and> n \<le> 90 then (if n - 55 < radix then Some (n - 55) else None)
      else None)"

definition from_digit :: "nat \<Rightarrow> char" where
  "from_digit d = (if d < 10 then char_of (48 + d) else char_of (87 + d))"

definition is_digit :: "nat \<Rightarrow> char \<Rightarrow> bool" where
  "is_digit radix c \<longleftrightarrow> to_digit radix c \<noteq> None"

definition digits_value :: "nat \<Rightarrow> string \<Rightarrow> nat" where
  "digits_value radix ds = foldl (\<lambda>acc c. acc * radix + the (to_digit radix c)) 0 ds"

text \<open>\<^verbatim>\<open>Display\<close> and \<^verbatim>\<open>LowerHex\<close> of unsigned integers.\<close>

fun num_str :: "nat \<Rightarrow> nat \<Rightarrow> string" where
  "num_str radix n =
     (if n < radix \<or> radix < 2 then [from_digit n]
      else num_str radix (n div radix) @ [from_digit (n mod radix)])"

declare num_str.simps [simp del]

abbreviation dec_str :: "nat \<Rightarrow> string" where "dec_str \<equiv> num_str 10"
abbreviation hex_str :: "nat \<Rightarrow> string" where "hex_str \<equiv> num_str 16"

definition int_str :: "int \<Rightarrow> string" where
  "int_str i = (if i < 0 then CHR ''-'' # dec_str (nat (- i)) else dec_str (nat i))"

text \<open>\<^verbatim>\<open>str::parse\<close> of an unsigned and of a signed integer with the given bounds.\<close>

definition parse_digits :: "string \<Rightarrow> nat option" where
  "parse_digits ds =
     (if ds = [] \<or> \<not> list_all (is_digit 10) ds then None else Some (digits_value 10 ds))"

definition parse_unsigned :: "nat \<Rightarrow> string \<Rightarrow> nat option" where
  "parse_unsigned hi s =
     (case parse_digits (case s of c # r \<Rightarrow> if c = CHR ''+'' then r else s | [] \<Rightarrow> s) of
        None \<Rightarrow> None
      | Some n \<Rightarrow> if n \<le> hi then Some n else None)"

abbreviation parse_u8 :: "string \<Rightarrow> nat option" where "parse_u8 \<equiv> parse_unsigned (2 ^ 8 - 1)"
abbreviation parse_u16 :: "string \<Rightarrow> nat option" where "parse_u16 \<equiv> parse_unsigned (2 ^ 16 - 1)"
abbreviation parse_u64 :: "string \<Rightarrow> nat option" where "parse_u64 \<equiv> parse_unsigned (2 ^ 64 - 1)"

definition parse_signed :: "nat \<Rightarrow> string \<Rightarrow> int option" where
  "parse_signed hi s =
     (case s of
        c # r \<Rightarrow>
          if c = CHR ''-'' then
            (case parse_digits r of None \<Rightarrow> None
             | Some n \<Rightarrow> if n \<le> hi + 1 then Some (- int n) else None)
          else map_option int (parse_unsigned hi s)
      | [] \<Rightarrow> None)"

lemma to_digit_from_digit [simp]:
  "d < radix \<Longrightarrow> radix \<le> 16 \<Longrightarrow> to_digit radix (from_digit d) = Some d"
  by (auto simp: to_digit_def from_digit_def Let_def of_char_of)

lemma from_digit_to_digit:
  "to_digit 10 c = Some d \<Longrightarrow> from_digit d = c"
  by (auto simp: to_digit_def from_digit_def Let_def split: if_splits)

lemma is_digit_from_digit [simp]: "d < radix \<Longrightarrow> radix \<le> 16 \<Longrightarrow> is_digit radix (from_digit d)"
  by (simp add: is_digit_def)

lemma digits_value_snoc [simp]:
  "digits_value radix (ds @ [c]) = digits_value radix ds * radix + the (to_digit radix c)"
  by (simp add: digits_value_def)

lemma num_str_digits [simp]:
  "2 \<le> radix \<Longrightarrow> radix \<le> 16 \<Longrightarrow> list_all (is_digit radix) (num_str radix n)"
proof (induction n rule: less_induct)
  case (less n)
  then show ?case by (subst num_str.simps) auto
qed

lemma num_str_value [simp]:
  "2 \<le> radix \<Longrightarrow> radix \<le> 16 \<Longrightarrow> digits_value radix (num_str radix n) = n"
proof (induction n rule: less_induct)
  case (less n)
  then show ?case
    by (subst num_str.simps) (auto simp: digits_value_def)
qed

lemma num_str_neq_Nil [simp]: "num_str radix n \<noteq> []"
  by (subst num_str.simps) auto

lemma num_str_leading:
  "2 \<le> radix \<Longrightarrow> radix \<le> 16 \<Longrightarrow> hd (num_str radix n) = CHR ''0'' \<Longrightarrow> length (num_str radix n) = 1"
proof (induction n rule: less_induct)
  case (less n)
  show ?case
  proof (cases "n < radix")
    case False
    with less.prems have lt: "n div radix < n" and pos: "0 < n div radix"
      by (auto simp: div_greater_zero_iff)
    from False less.prems have "hd (num_str radix (n div radix)) = CHR ''0''"
      by (subst (asm) num_str.simps) auto
    with less.IH[OF lt] less.prems have "length (num_str radix (n div radix)) = 1" by simp
    with \<open>hd (num_str radix (n div radix)) = CHR ''0''\<close>
    have "num_str radix (n div radix) = [CHR ''0'']"
      by (cases "num_str radix (n div radix)") auto
    then have "n div radix = 0"
      using num_str_value[of radix "n div radix"] less.prems by (simp add: digits_value_def to_digit_def Let_def)
    with pos show ?thesis by simp
  qed (subst num_str.simps, simp)
qed

lemma num_str_length:
  "2 \<le> radix \<Longrightarrow> radix \<le> 16 \<Longrightarrow> n < radix ^ k \<Longrightarrow> 0 < k \<Longrightarrow> length (num_str radix n) \<le> k"
proof (induction k arbitrary: n)
  case (Suc k)
  show ?case
  proof (cases "k = 0 \<or> n < radix")
    case True
    with Suc.prems show ?thesis by (subst num_str.simps) auto
  next
    case False
    then have "n div radix < radix ^ k"
      using Suc.prems by (simp add: less_mult_imp_div_less mult.commute)
    with Suc.IH[of "n div radix"] False Suc.prems show ?thesis by (subst num_str.simps) auto
  qed
qed simp

section \<open>Decimal numbers and case, read back\<close>

lemma parse_digits_dec_str [simp]: "parse_digits (dec_str n) = Some n"
  by (simp add: parse_digits_def)

lemma dec_str_hd: "dec_str n = c # r \<Longrightarrow> is_digit 10 c"
  using num_str_digits[of 10 n] by simp

lemma parse_unsigned_dec_str [simp]:
  "parse_unsigned hi (dec_str n) = (if n \<le> hi then Some n else None)"
proof -
  have "\<not> is_digit 10 (CHR ''+'')" by (simp add: is_digit_def to_digit_def Let_def)
  then show ?thesis
    using dec_str_hd[of n] parse_digits_dec_str[of n]
    by (cases "dec_str n") (auto simp: parse_unsigned_def simp del: parse_digits_dec_str)
qed

lemma is_ascii_digit_iff: "is_ascii_digit c \<longleftrightarrow> is_digit 10 c"
  by (auto simp: is_ascii_digit_def is_digit_def to_digit_def Let_def less_eq_char_def split: if_splits)

lemma to_lower_eq:
  assumes "is_ascii_lowercase l" "of_char u + 32 = (of_char l :: nat)"
  shows "to_lower c = l \<longleftrightarrow> c = l \<or> c = u"
proof -
  have l: "97 \<le> (of_char l :: nat)" "(of_char l :: nat) \<le> 122"
    using assms(1) by (auto simp: is_ascii_lowercase_def less_eq_char_def)
  then have u: "is_ascii_uppercase u" using assms(2)
    by (auto simp: is_ascii_uppercase_def less_eq_char_def)
  have nl: "\<not> is_ascii_uppercase l" using l by (auto simp: is_ascii_uppercase_def less_eq_char_def)
  have lu: "char_of (of_char u + 32 :: nat) = l" using assms(2) by simp
  show ?thesis
  proof (cases "is_ascii_uppercase c")
    case True
    then have "(of_char c :: nat) + 32 < 256" by (auto simp: is_ascii_uppercase_def less_eq_char_def)
    then have "of_char (char_of (of_char c + 32 :: nat)) = (of_char c :: nat) + 32" by (simp add: of_char_of)
    then have "char_of (of_char c + 32 :: nat) = l \<longleftrightarrow> (of_char c :: nat) + 32 = of_char l"
      by (metis of_char_eq_iff)
    also have "\<dots> \<longleftrightarrow> (of_char c :: nat) = of_char u" using assms(2) by (metis add_right_cancel)
    finally show ?thesis using True nl by (auto simp: to_lower_def)
  next
    case False
    then show ?thesis using u by (auto simp: to_lower_def)
  qed
qed
end
