(* ===== verification/Rust_Net.thy ===== *)
theory Rust_Net
  imports Rust_Str
begin

text \<open>
  \<^verbatim>\<open>std::net::IpAddr\<close> as the sources use it: parsing with the standard library's
  recursive-descent parser, \<^verbatim>\<open>Display\<close>, and the integer views of addresses. The main
  facts are the round trips: a displayed address parses back to itself.
\<close>

datatype ip_addr = V4 u32 | V6 u128

fun is_ipv4 :: "ip_addr \<Rightarrow> bool" where
  "is_ipv4 (V4 _) \<longleftrightarrow> True"
| "is_ipv4 (V6 _) \<longleftrightarrow> False"

definition octets :: "u32 \<Rightarrow> nat list" where
  "octets a = map unat (be32 a)"

definition segments :: "u128 \<Rightarrow> nat list" where
  "segments a = map (\<lambda>i. unat (ucast (drop_bit (16 * i) a) :: u16)) (rev [0..<8])"

definition of_segments :: "nat list \<Rightarrow> u128" where
  "of_segments gs = foldl (\<lambda>acc g. push_bit 16 acc OR word_of_nat g) 0 gs"

section \<open>The parser\<close>

definition read_number :: "nat \<Rightarrow> nat \<Rightarrow> bool \<Rightarrow> string \<Rightarrow> (nat \<times> string) option" where
  "read_number radix max_digits allow_zero_prefix s =
     (let ds = takeWhile (is_digit radix) s in
      if ds = [] \<or> length ds > max_digits
         \<or> (\<not> allow_zero_prefix \<and> hd ds = CHR ''0'' \<and> length ds > 1)
      then None
      else Some (digits_value radix ds, drop (length ds) s))"

definition read_octet :: "string \<Rightarrow> (nat \<times> string) option" where
  "read_octet s = (case read_number 10 3 False s of
      None \<Rightarrow> None
    | Some (n, r) \<Rightarrow> if n \<le> 255 then Some (n, r) else None)"

definition read_given_char :: "char \<Rightarrow> string \<Rightarrow> string option" where
  "read_given_char c s = (case s of [] \<Rightarrow> None | x # r \<Rightarrow> if x = c then Some r else None)"

definition read_separator ::
  "char \<Rightarrow> bool \<Rightarrow> (string \<Rightarrow> ('a \<times> string) option) \<Rightarrow> string \<Rightarrow> ('a \<times> string) option" where
  "read_separator c first inner s =
     (if first then inner s else Option.bind (read_given_char c s) inner)"

definition read_ipv4_octets :: "string \<Rightarrow> (nat list \<times> string) option" where
  "read_ipv4_octets s =
     Option.bind (read_octet s) (\<lambda>(a, s).
     Option.bind (read_separator (CHR ''.'') False read_octet s) (\<lambda>(b, s).
     Option.bind (read_separator (CHR ''.'') False read_octet s) (\<lambda>(c, s).
     Option.bind (read_separator (CHR ''.'') False read_octet s) (\<lambda>(d, s).
     Some ([a, b, c, d], s)))))"

fun of_octets :: "nat list \<Rightarrow> u32" where
  "of_octets [a, b, c, d] = un_be32 (word_of_nat a) (word_of_nat b) (word_of_nat c) (word_of_nat d)"
| "of_octets _ = 0"

fun octet_groups :: "nat list \<Rightarrow> nat list" where
  "octet_groups [a, b, c, d] = [a * 256 + b, c * 256 + d]"
| "octet_groups _ = []"

fun read_groups :: "nat \<Rightarrow> bool \<Rightarrow> string \<Rightarrow> nat list \<times> bool \<times> string" where
  "read_groups 0 first s = ([], False, s)"
| "read_groups (Suc k) first s =
     (case (if 0 < k then read_separator (CHR '':'') first read_ipv4_octets s else None) of
        Some (os, r) \<Rightarrow> (octet_groups os, True, r)
      | None \<Rightarrow>
          (case read_separator (CHR '':'') first (read_number 16 4 True) s of
             Some (g, r) \<Rightarrow> (case read_groups k False r of (gs, v4, r') \<Rightarrow> (g # gs, v4, r'))
           | None \<Rightarrow> ([], False, s)))"

definition read_ipv6 :: "string \<Rightarrow> (nat list \<times> string) option" where
  "read_ipv6 s =
     (case read_groups 8 True s of
        (head, head_ipv4, r) \<Rightarrow>
          if length head = 8 then Some (head, r)
          else if head_ipv4 then None
          else Option.bind (read_given_char (CHR '':'') r) (\<lambda>r.
            Option.bind (read_given_char (CHR '':'') r) (\<lambda>r.
              case read_groups (8 - (length head + 1)) True r of
                (tail, _, r') \<Rightarrow>
                  Some (head @ replicate (8 - length head - length tail) 0 @ tail, r'))))"

definition parse_ipv6 :: "string \<Rightarrow> u128 option" where
  "parse_ipv6 s = (case read_ipv6 s of Some (gs, []) \<Rightarrow> Some (of_segments gs) | _ \<Rightarrow> None)"

definition parse_ip :: "string \<Rightarrow> ip_addr option" where
  "parse_ip s =
     (case read_ipv4_octets s of
        Some (os, r) \<Rightarrow> if r = [] then Some (V4 (of_octets os)) else None
      | None \<Rightarrow> map_option V6 (parse_ipv6 s))"

section \<open>Display\<close>

fun join :: "string \<Rightarrow> string list \<Rightarrow> string" where
  "join sep [] = []"
| "join sep [x] = x"
| "join sep (x # y # ys) = x @ sep @ join sep (y # ys)"

definition show_ipv4 :: "u32 \<Rightarrow> string" where
  "show_ipv4 a = join ''.'' (map dec_str (octets a))"

text \<open>The first longest run of zero segments, as start and length.\<close>

fun longest_zeros :: "nat \<Rightarrow> nat \<times> nat \<Rightarrow> nat \<times> nat \<Rightarrow> nat list \<Rightarrow> nat \<times> nat" where
  "longest_zeros i cur best [] = best"
| "longest_zeros i cur best (g # gs) =
     (if g = 0 then
        (let cur' = (if snd cur = 0 then i else fst cur, Suc (snd cur)) in
         longest_zeros (Suc i) cur' (if snd cur' > snd best then cur' else best) gs)
      else longest_zeros (Suc i) (0, 0) best gs)"

definition fmt_subslice :: "nat list \<Rightarrow> string" where
  "fmt_subslice gs = join '':'' (map hex_str gs)"

definition show_ipv6 :: "u128 \<Rightarrow> string" where
  "show_ipv6 a =
     (let gs = segments a in
      if take 6 gs = [0, 0, 0, 0, 0, 0xFFFF] then ''::ffff:'' @ show_ipv4 (ucast a)
      else case longest_zeros 0 (0, 0) (0, 0) gs of
        (start, len) \<Rightarrow>
          if len > 1 then fmt_subslice (take start gs) @ ''::'' @ fmt_subslice (drop (start + len) gs)
          else fmt_subslice gs)"

fun show_ip :: "ip_addr \<Rightarrow> string" where
  "show_ip (V4 a) = show_ipv4 a"
| "show_ip (V6 a) = show_ipv6 a"

section \<open>Numbers read back\<close>

definition stops :: "(char \<Rightarrow> bool) \<Rightarrow> string \<Rightarrow> bool" where
  "stops P s \<longleftrightarrow> s = [] \<or> \<not> P (hd s)"

lemma stops_Nil [simp]: "stops P []"
  by (simp add: stops_def)

lemma stops_Cons [simp]: "stops P (c # s) \<longleftrightarrow> \<not> P c"
  by (simp add: stops_def)

lemma takeWhile_stops: "list_all P xs \<Longrightarrow> stops P ys \<Longrightarrow> takeWhile P (xs @ ys) = xs"
  by (cases ys) (auto simp: stops_def list_all_iff takeWhile_append)

lemma read_number_num_str:
  assumes "2 \<le> radix" "radix \<le> 16" "length (num_str radix n) \<le> m" "stops (is_digit radix) rest"
  shows "read_number radix m lz (num_str radix n @ rest) = Some (n, rest)"
  using assms num_str_leading[of radix n]
  by (auto simp: read_number_def takeWhile_stops Let_def)

lemma is_digit_punct [simp]:
  "\<not> is_digit radix (CHR ''.'')" "\<not> is_digit radix (CHR '':'')" "\<not> is_digit radix (CHR ''/'')"
  by (simp_all add: is_digit_def to_digit_def Let_def)

lemma is_digit_mono: "is_digit 10 c \<Longrightarrow> is_digit 16 c"
  by (auto simp: is_digit_def to_digit_def Let_def split: if_splits)

lemma read_given_char_Some [simp]: "read_given_char c s = Some r \<longleftrightarrow> s = c # r"
  by (auto simp: read_given_char_def split: list.splits)

lemma read_given_char_Cons [simp]: "read_given_char c (x # s) = (if x = c then Some s else None)"
  by (simp add: read_given_char_def)

lemma read_octet_dec_str [simp]:
  "n < 256 \<Longrightarrow> stops (is_digit 10) rest \<Longrightarrow> read_octet (dec_str n @ rest) = Some (n, rest)"
  using num_str_length[of 10 n 3] by (simp add: read_octet_def read_number_num_str)

lemma read_hex_str [simp]:
  "n < 65536 \<Longrightarrow> stops (is_digit 16) rest \<Longrightarrow> read_number 16 4 True (hex_str n @ rest) = Some (n, rest)"
  using num_str_length[of 16 n 4] by (simp add: read_number_num_str)

section \<open>IPv4\<close>

lemma octets_bounds: "\<forall>n \<in> set (octets a). n < 256"
  using unsigned_less[where ?'b = 8 and ?'a = nat] by (auto simp: octets_def)

lemma octets_list: "\<exists>a b c d. octets w = [a, b, c, d]"
  by (simp add: octets_def be32_def)

lemma of_octets_octets [simp]: "of_octets (octets w) = w"
  by (simp add: octets_def be32_def)

lemma read_ipv4_show [simp]:
  assumes "stops (is_digit 10) rest"
  shows "read_ipv4_octets (show_ipv4 w @ rest) = Some (octets w, rest)"
proof -
  obtain a b c d where o: "octets w = [a, b, c, d]" using octets_list by blast
  with octets_bounds[of w] have "a < 256" "b < 256" "c < 256" "d < 256" by auto
  with o assms show ?thesis
    by (simp add: show_ipv4_def read_ipv4_octets_def read_separator_def read_given_char_def)
qed

lemma read_octet_consumes:
  "read_octet s = Some (n, r) \<Longrightarrow> dropWhile (is_digit 10) s = r"
  by (auto simp: read_octet_def read_number_def Let_def dropWhile_eq_drop
      split: option.splits if_splits)

text \<open>An IPv4 address has a dot right after its first decimal digits.\<close>

lemma read_ipv4_dot:
  "read_ipv4_octets s = Some (os, r) \<Longrightarrow> \<exists>t. dropWhile (is_digit 10) s = CHR ''.'' # t"
  by (auto simp: read_ipv4_octets_def read_separator_def Option.bind_eq_Some_conv
      dest!: read_octet_consumes)

lemma parse_ip_show_ipv4: "parse_ip (show_ipv4 w) = Some (V4 w)"
  using read_ipv4_show[of "[]" w] by (simp add: parse_ip_def)

section \<open>IPv6\<close>

lemma hex_not_ipv4:
  assumes "list_all (is_digit 16) xs" "rest = [] \<or> hd rest = CHR '':''"
  shows "read_ipv4_octets (xs @ rest) = None"
proof (rule ccontr)
  assume "read_ipv4_octets (xs @ rest) \<noteq> None"
  then obtain t where t: "dropWhile (is_digit 10) (xs @ rest) = CHR ''.'' # t"
    using read_ipv4_dot by fastforce
  have "dropWhile (is_digit 10) (xs @ rest) = y # ys \<Longrightarrow> is_digit 16 y \<or> y = CHR '':''" for y ys
    using assms by (induction xs) (cases rest; auto split: if_splits intro: is_digit_mono)+
  from this[OF t] show False by simp
qed

lemma hex_group_not_ipv4:
  "rest = [] \<or> hd rest = CHR '':'' \<Longrightarrow> read_ipv4_octets (hex_str g @ rest) = None"
  by (rule hex_not_ipv4) simp_all

lemma read_ipv4_octets_stop [simp]:
  "stops (is_digit 10) s \<Longrightarrow> read_ipv4_octets s = None"
  by (cases s) (auto simp: read_ipv4_octets_def read_octet_def read_number_def)

lemma read_number_stop [simp]: "stops (is_digit radix) s \<Longrightarrow> read_number radix m z s = None"
  by (cases s) (auto simp: read_number_def)

text \<open>What may follow a run of groups: nothing, or the double colon.\<close>

definition group_end :: "string \<Rightarrow> bool" where
  "group_end r \<longleftrightarrow> r = [] \<or> (\<exists>t. r = '':'' @ '':'' @ t)"

lemma read_groups_end:
  "group_end r \<Longrightarrow> read_groups k b r = ([], False, r)"
  by (cases k) (auto simp: group_end_def read_separator_def read_given_char_def)

definition sep_groups :: "bool \<Rightarrow> nat list \<Rightarrow> string" where
  "sep_groups first gs = (if first \<or> gs = [] then [] else '':'') @ fmt_subslice gs"

lemma sep_groups_Cons:
  "sep_groups first (g # gs) = (if first then [] else '':'') @ hex_str g @ sep_groups False gs"
  by (cases gs) (auto simp: sep_groups_def fmt_subslice_def)

lemma sep_groups_rest:
  assumes "group_end rest" "rest' = sep_groups False gs @ rest"
  shows "rest' = [] \<or> hd rest' = CHR '':''"
  using assms
  by (cases gs) (auto simp: sep_groups_Cons group_end_def, auto simp: sep_groups_def fmt_subslice_def)

lemma read_groups_fmt:
  "length gs \<le> k \<Longrightarrow> \<forall>g \<in> set gs. g < 65536 \<Longrightarrow> group_end rest \<Longrightarrow>
     read_groups k first (sep_groups first gs @ rest) = (gs, False, rest)"
proof (induction gs arbitrary: k first)
  case Nil
  then show ?case by (simp add: sep_groups_def fmt_subslice_def read_groups_end)
next
  case (Cons g gs)
  then obtain k' where k: "k = Suc k'" by (cases k) auto
  define rest' where "rest' = sep_groups False gs @ rest"
  have r: "rest' = [] \<or> hd rest' = CHR '':''" using sep_groups_rest[OF Cons.prems(3) rest'_def] .
  then have st: "stops (is_digit 16) rest'" by (auto simp: stops_def)
  have "read_groups k' False rest' = (gs, False, rest)"
    unfolding rest'_def using Cons k by auto
  moreover have "sep_groups first (g # gs) @ rest = (if first then [] else '':'') @ hex_str g @ rest'"
    by (simp add: sep_groups_Cons rest'_def)
  moreover have "read_number 16 4 True (hex_str g @ rest') = Some (g, rest')"
    using st Cons.prems(2) by simp
  ultimately show ?case
    using k hex_group_not_ipv4[OF r, of g]
    by (cases k') (simp_all add: read_separator_def)
qed

lemma read_groups_first:
  "length gs \<le> k \<Longrightarrow> \<forall>g \<in> set gs. g < 65536 \<Longrightarrow> group_end rest \<Longrightarrow>
     read_groups k True (fmt_subslice gs @ rest) = (gs, False, rest)"
  using read_groups_fmt[of gs k rest True] by (simp add: sep_groups_def)

lemma length_segments [simp]: "length (segments a) = 8"
  by (simp add: segments_def)

lemma segments_bounds: "\<forall>g \<in> set (segments a). g < 65536"
  using unsigned_less[where ?'b = 16 and ?'a = nat] by (auto simp: segments_def)

lemma of_segments_snoc:
  "of_segments (gs @ [g]) = push_bit 16 (of_segments gs) OR word_of_nat g"
  by (simp add: of_segments_def)

lemma of_nat_unat_ucast: "(word_of_nat (unat (w :: u16)) :: u128) = ucast w"
  by (simp add: unsigned_of_nat)

lemma join_segment:
  "push_bit 16 (drop_bit (16 + k) a) OR ucast (ucast (drop_bit k a) :: u16) = drop_bit k (a :: u128)"
proof (rule bit_word_eqI)
  fix n assume "n < LENGTH(128)"
  show "bit (push_bit 16 (drop_bit (16 + k) a) OR ucast (ucast (drop_bit k a) :: u16)) n
      = bit (drop_bit k a) n"
    by (cases "n < 16")
      (auto simp: bit_simps not_less le_iff_add ac_simps dest: bit_imp_le_length)
qed

lemma of_segments_from:
  "j \<le> 8 \<Longrightarrow> of_segments (map (\<lambda>i. unat (ucast (drop_bit (16 * i) a) :: u16)) (rev [j..<8]))
     = drop_bit (16 * j) a"
proof (induction rule: inc_induct)
  case base
  show ?case by (simp add: of_segments_def)
next
  case (step j)
  then show ?case
    by (simp add: upt_conv_Cons of_segments_snoc of_nat_unat_ucast join_segment
        del: upt_Suc)
qed

lemma of_segments_segments [simp]: "of_segments (segments a) = a"
  using of_segments_from[of 0 a] by (simp add: segments_def)

text \<open>The span of zeros that is compressed really is a span of zeros.\<close>

definition zero_span :: "nat \<times> nat \<Rightarrow> nat list \<Rightarrow> bool" where
  "zero_span sp gs \<longleftrightarrow>
     fst sp + snd sp \<le> length gs \<and> (\<forall>j. fst sp \<le> j \<and> j < fst sp + snd sp \<longrightarrow> gs ! j = 0)"

lemma zero_span_append: "zero_span sp gs \<Longrightarrow> zero_span sp (gs @ hs)"
  by (auto simp: zero_span_def nth_append)

lemma longest_zeros_span:
  "zero_span best pre \<Longrightarrow> zero_span cur pre \<Longrightarrow> i = length pre \<Longrightarrow>
     (0 < snd cur \<longrightarrow> fst cur + snd cur = i) \<Longrightarrow>
     zero_span (longest_zeros i cur best gs) (pre @ gs)"
proof (induction gs arbitrary: i cur best pre)
  case Nil
  then show ?case by simp
next
  case (Cons g gs)
  show ?case
  proof (cases "g = 0")
    case True
    define cur' where "cur' = (if snd cur = 0 then i else fst cur, Suc (snd cur))"
    have c: "zero_span cur' (pre @ [0])" "fst cur' + snd cur' = Suc i"
      using Cons.prems by (auto simp: cur'_def zero_span_def nth_append less_Suc_eq)
    then have "zero_span (if snd cur' > snd best then cur' else best) (pre @ [0])"
      using Cons.prems zero_span_append by auto
    note IH = Cons.IH[OF this c(1), of "Suc i"]
    have "longest_zeros i cur best (g # gs)
        = longest_zeros (Suc i) cur' (if snd cur' > snd best then cur' else best) gs"
      using True by (simp only: longest_zeros.simps cur'_def Let_def simp_thms if_True)
    with IH c(2) Cons.prems True show ?thesis by (simp del: longest_zeros.simps)
  next
    case False
    from Cons.IH[of best "pre @ [g]" "(0, 0)" "Suc i"] Cons.prems False show ?thesis
      by (simp add: zero_span_append) (simp add: zero_span_def)
  qed
qed

lemma zero_span_split:
  "zero_span (st, len) gs \<Longrightarrow> take st gs @ replicate len 0 @ drop (st + len) gs = gs"
  by (rule nth_equalityI) (auto simp: zero_span_def nth_append min_def)

lemma un_be16_plus: "un_be16 a b = push_bit 8 (ucast a) + ucast b"
  unfolding un_be16_def by (rule disjunctive_add[symmetric]) (auto simp: bit_simps)

lemma unat_un_be16: "unat (un_be16 a b) = unat a * 256 + unat b"
proof -
  have lt: "unat a * 256 + unat b < 65536"
    using unsigned_less[of a, where ?'a = nat] unsigned_less[of b, where ?'a = nat] by simp
  have "un_be16 a b = word_of_nat (unat a * 256 + unat b)"
    by (simp add: un_be16_plus push_bit_eq_mult)
  then have "unat (un_be16 a b) = (unat a * 256 + unat b) mod 65536"
    by (simp only: unat_of_nat len_num1 len_bit0 mult_1_right mult_numeral_1_right) simp
  then show ?thesis using lt by simp
qed
lemma un_be16_low: "un_be16 (ucast (drop_bit 8 (ucast a :: u32))) (ucast (ucast a :: u32)) = ucast (a::u128)"
  unfolding un_be16_def
  by (rule bit_word_eqI) (auto simp: bit_simps)
lemma un_be16_high: "un_be16 (ucast (drop_bit 24 (ucast a :: u32))) (ucast (drop_bit 16 (ucast a :: u32))) = ucast (drop_bit 16 (a::u128))"
  unfolding un_be16_def
  by (rule bit_word_eqI) (auto simp: bit_simps)
lemma char_f: "char_of (102 :: nat) = CHR ''f''" by (simp add: char_of_def bit_0)

lemma segments_mapped:
  "take 6 (segments a) = hs \<Longrightarrow> segments a = hs @ octet_groups (octets (ucast a))"
  using arg_cong[OF un_be16_low[of a], of unat, unfolded unat_un_be16]
    arg_cong[OF un_be16_high[of a], of unat, unfolded unat_un_be16]
  by (auto simp: segments_def octets_def be32_def upt_rec)

lemma replicate_5: "replicate 5 x = [x, x, x, x, x]"
  by (simp add: numeral_eq_Suc)

lemma read_ipv6_show:
  "read_ipv6 (show_ipv6 a) = Some (segments a, [])"
proof (cases "take 6 (segments a) = [0, 0, 0, 0, 0, 0xFFFF]")
  case True
  have "read_groups (Suc (Suc 5)) True (hex_str 0xFFFF @ '':'' @ show_ipv4 (ucast a))
      = (0xFFFF # octet_groups (octets (ucast a)), True, [])"
    using hex_group_not_ipv4[of "'':'' @ show_ipv4 (ucast a)" "0xFFFF"]
      read_ipv4_show[of "[]" "ucast a"]
    by (simp only: read_groups.simps) (simp add: read_separator_def)
  then have tail: "read_groups 7 True (hex_str 0xFFFF @ '':'' @ show_ipv4 (ucast a))
      = (0xFFFF # octet_groups (octets (ucast a)), True, [])" by simp
  have "hex_str 0xFFFF = ''ffff''" by (simp add: num_str.simps from_digit_def char_f)
  with True segments_mapped[OF True] tail octets_list[of "ucast a"] show ?thesis
    by (auto simp: show_ipv6_def read_ipv6_def read_groups_end group_end_def replicate_5)
next
  case False
  obtain st len where z: "longest_zeros 0 (0, 0) (0, 0) (segments a) = (st, len)" by fastforce
  have sp: "zero_span (st, len) (segments a)"
    using longest_zeros_span[of "(0, 0)" "[]" "(0, 0)" 0 "segments a"] z
    by (simp add: zero_span_def)
  show ?thesis
  proof (cases "len > 1")
    case True
    let ?h = "take st (segments a)" and ?t = "drop (st + len) (segments a)"
    have "read_groups 8 True (fmt_subslice ?h @ ''::'' @ fmt_subslice ?t) = (?h, False, ''::'' @ fmt_subslice ?t)"
      using segments_bounds[of a] by (intro read_groups_first) (auto simp: group_end_def dest: in_set_takeD)
    moreover have "read_groups (8 - Suc st) True (fmt_subslice ?t @ []) = (?t, False, [])"
      using segments_bounds[of a] True sp
      by (intro read_groups_first) (auto simp: group_end_def zero_span_def dest: in_set_dropD)
    ultimately show ?thesis
      using True False z sp zero_span_split[OF sp]
      by (simp add: show_ipv6_def read_ipv6_def zero_span_def Let_def)
  next
    case noc: False
    have "read_groups 8 True (fmt_subslice (segments a) @ []) = (segments a, False, [])"
      using segments_bounds[of a] by (intro read_groups_first) (auto simp: group_end_def)
    with False noc z show ?thesis by (simp add: show_ipv6_def read_ipv6_def Let_def)
  qed
qed

lemma show_ipv6_not_ipv4: "read_ipv4_octets (show_ipv6 a) = None"
proof (rule ccontr)
  assume "read_ipv4_octets (show_ipv6 a) \<noteq> None"
  then obtain t where t: "dropWhile (is_digit 10) (show_ipv6 a) = CHR ''.'' # t"
    using read_ipv4_dot by fastforce
  have grp: "read_ipv4_octets (fmt_subslice gs @ rest) = None" if "group_end rest" for gs rest
  proof (cases gs)
    case Nil
    with that show ?thesis by (auto simp: fmt_subslice_def group_end_def)
  next
    case (Cons g gs')
    with hex_group_not_ipv4[OF sep_groups_rest[OF that refl], of g gs'] show ?thesis
      using sep_groups_Cons[of True g gs'] by (simp add: sep_groups_def)
  qed
  have "read_ipv4_octets (show_ipv6 a) = None"
    using grp[of "[]" "segments a"] grp[of "''::'' @ _"]
    by (auto simp: show_ipv6_def group_end_def Let_def split: prod.splits)
  then show False using \<open>read_ipv4_octets (show_ipv6 a) \<noteq> None\<close> by simp
qed

text \<open>A displayed address parses back to the same address.\<close>

lemma parse_show_ip [simp]: "parse_ip (show_ip ip) = Some ip"
proof (cases ip)
  case (V4 a)
  then show ?thesis by (simp add: parse_ip_show_ipv4)
next
  case (V6 a)
  then show ?thesis
    by (simp add: parse_ip_def show_ipv6_not_ipv4 parse_ipv6_def read_ipv6_show)
qed

lemma show_ip_inject [simp]: "show_ip a = show_ip b \<longleftrightarrow> a = b"
  by (metis parse_show_ip option.inject)

end
