(* ===== verification/Derp_Stun.thy ===== *)
theory Derp_Stun
  imports Rust_Net
begin

text \<open>
  The STUN Binding protocol, \<^verbatim>\<open>crabscale-derp/src/stun.rs\<close>: the message header, the attribute area and the
  XOR-MAPPED-ADDRESS attribute, with requests, responses and every parse error; and the server loop of
  \<^verbatim>\<open>crabscale-server/src/stun.rs\<close> over the sequence of what its socket delivers.
\<close>

definition HEADER_LEN :: nat where [simp]: "HEADER_LEN = 20"
definition TXID_LEN :: nat where [simp]: "TXID_LEN = 12"
definition MAGIC_COOKIE :: u32 where "MAGIC_COOKIE = 0x2112A442"
definition TYPE_BINDING_REQUEST :: u16 where "TYPE_BINDING_REQUEST = 0x0001"
definition TYPE_BINDING_RESPONSE :: u16 where "TYPE_BINDING_RESPONSE = 0x0101"
definition ATTR_XOR_MAPPED_ADDRESS :: u16 where "ATTR_XOR_MAPPED_ADDRESS = 0x0020"
definition FAMILY_IPV4 :: byte where "FAMILY_IPV4 = 0x01"
definition FAMILY_IPV6 :: byte where "FAMILY_IPV6 = 0x02"

datatype tx_id = TxId (tx_bytes: bytes)

datatype stun_error =
    StunTruncated | NotStun | NotBinding | MalformedAttributes | MissingXorMappedAddress
  | UnsupportedFamily byte

text \<open>\<^verbatim>\<open>{family:#04x}\<close> is the prefix \<^verbatim>\<open>0x\<close> and the value in at least two lower-case digits.\<close>

definition show_stun_error :: "stun_error \<Rightarrow> string" where
  "show_stun_error e =
     (case e of
        StunTruncated \<Rightarrow> ''STUN packet is shorter than the header''
      | NotStun \<Rightarrow> ''packet does not have the STUN magic cookie''
      | NotBinding \<Rightarrow> ''STUN message is not a Binding message''
      | MalformedAttributes \<Rightarrow> ''STUN attributes are malformed''
      | MissingXorMappedAddress \<Rightarrow> ''STUN binding response has no XOR-MAPPED-ADDRESS''
      | UnsupportedFamily family \<Rightarrow> ''STUN XOR-MAPPED-ADDRESS has unknown family 0x''
          @ [from_digit (unat family div 16), from_digit (unat family mod 16)])"

definition parse_header :: "bytes \<Rightarrow> (stun_error, u16 \<times> u16 \<times> u32 \<times> tx_id) result" where
  "parse_header packet =
     (let msg_type = un_be16 (packet ! 0) (packet ! 1);
          len = un_be16 (packet ! 2) (packet ! 3);
          cookie = un_be32 (packet ! 4) (packet ! 5) (packet ! 6) (packet ! 7) in
      if length packet < HEADER_LEN then Err StunTruncated
      else if cookie \<noteq> MAGIC_COOKIE then Err NotStun
      else Ok (msg_type, len, cookie, TxId (take TXID_LEN (drop 8 packet))))"

definition parse_binding_request :: "bytes \<Rightarrow> (stun_error, tx_id) result" where
  "parse_binding_request packet =
     bind_res (parse_header packet) (\<lambda>(msg_type, len, cookie, tx).
       if msg_type \<noteq> TYPE_BINDING_REQUEST then Err NotBinding
       else if HEADER_LEN + unat len > length packet then Err MalformedAttributes
       else Ok tx)"

text \<open>The attribute area: type, length, value, and padding to a multiple of four. \<^verbatim>\<open>None\<close> is the error entry that
  ends the list when the area is cut short.\<close>

record attribute =
  at_ty :: u16
  at_value :: bytes

definition padded_len :: "nat \<Rightarrow> nat" where
  "padded_len len = (len + 3) div 4 * 4"

function attributes :: "bytes \<Rightarrow> attribute option list" where
  "attributes area =
     (if area = [] then []
      else if length area < 4 then [None]
      else let ty = un_be16 (area ! 0) (area ! 1);
               len = unat (un_be16 (area ! 2) (area ! 3));
               padded = padded_len len in
        if length area < 4 + padded then [None]
        else Some \<lparr>at_ty = ty, at_value = take len (drop 4 area)\<rparr> # attributes (drop (4 + padded) area))"
  by pat_completeness auto
termination by (relation "measure length") auto

declare attributes.simps [simp del]

definition xor_bytes :: "bytes \<Rightarrow> bytes \<Rightarrow> bytes" where
  "xor_bytes a b = map2 (XOR) a b"

definition ipv6_octets :: "u128 \<Rightarrow> bytes" where
  "ipv6_octets a = concat (map (\<lambda>g. be16 (word_of_nat g)) (segments a))"

definition ipv6_of_octets :: "bytes \<Rightarrow> u128" where
  "ipv6_of_octets bs = of_segments (map (\<lambda>i. unat (un_be16 (bs ! (2 * i)) (bs ! (2 * i + 1)))) [0..<8])"

definition decode_xor_mapped_address :: "bytes \<Rightarrow> tx_id \<Rightarrow> (stun_error, ip_addr \<times> u16) result" where
  "decode_xor_mapped_address val tx =
     (let family = val ! 1;
          x_port = un_be16 (val ! 2) (val ! 3);
          port = x_port XOR ucast MAGIC_COOKIE;
          cookie = be32 MAGIC_COOKIE in
      if length val < 4 then Err MalformedAttributes
      else if family = FAMILY_IPV4 then
        if length val < 8 then Err MalformedAttributes
        else let b = xor_bytes (take 4 (drop 4 val)) cookie in
          Ok (V4 (un_be32 (b ! 0) (b ! 1) (b ! 2) (b ! 3)), port)
      else if family = FAMILY_IPV6 then
        if length val < 20 then Err MalformedAttributes
        else Ok (V6 (ipv6_of_octets (xor_bytes (take 16 (drop 4 val)) (cookie @ tx_bytes tx))), port)
      else Err (UnsupportedFamily family))"

definition encode_xor_mapped_address :: "ip_addr \<Rightarrow> u16 \<Rightarrow> tx_id \<Rightarrow> bytes" where
  "encode_xor_mapped_address addr port tx =
     (let cookie = be32 MAGIC_COOKIE in
      [0] @ (case addr of
        V4 v4 \<Rightarrow> [FAMILY_IPV4] @ be16 (port XOR ucast MAGIC_COOKIE) @ xor_bytes (be32 v4) cookie
      | V6 v6 \<Rightarrow> [FAMILY_IPV6] @ be16 (port XOR ucast MAGIC_COOKIE)
          @ xor_bytes (ipv6_octets v6) (cookie @ tx_bytes tx)))"

fun find_mapped :: "tx_id \<Rightarrow> attribute option list \<Rightarrow> (stun_error, tx_id \<times> ip_addr \<times> u16) result" where
  "find_mapped tx [] = Err MissingXorMappedAddress"
| "find_mapped tx (None # _) = Err MalformedAttributes"
| "find_mapped tx (Some a # rest) =
     (if at_ty a = ATTR_XOR_MAPPED_ADDRESS
      then bind_res (decode_xor_mapped_address (at_value a) tx) (\<lambda>(addr, port). Ok (tx, addr, port))
      else find_mapped tx rest)"

definition parse_binding_response :: "bytes \<Rightarrow> (stun_error, tx_id \<times> ip_addr \<times> u16) result" where
  "parse_binding_response packet =
     bind_res (parse_header packet) (\<lambda>(msg_type, len, cookie, tx).
       if msg_type \<noteq> TYPE_BINDING_RESPONSE then Err NotBinding
       else if HEADER_LEN + unat len > length packet then Err MalformedAttributes
       else find_mapped tx (attributes (take (unat len) (drop HEADER_LEN packet))))"

definition build_binding_response :: "tx_id \<Rightarrow> ip_addr \<Rightarrow> u16 \<Rightarrow> bytes" where
  "build_binding_response tx addr port =
     (let val = encode_xor_mapped_address addr port tx;
          attr_area = 4 + length val in
      be16 TYPE_BINDING_RESPONSE @ be16 (word_of_nat attr_area) @ be32 MAGIC_COOKIE @ tx_bytes tx
      @ be16 ATTR_XOR_MAPPED_ADDRESS @ be16 (word_of_nat (length val)) @ val)"

section \<open>The server loop\<close>

text \<open>A datagram longer than the buffer is cut to the buffer's 1500 bytes by the socket.\<close>

datatype stun_event = StunShutdown | RecvFailed | Datagram bytes ip_addr u16

definition STUN_BUF_LEN :: nat where "STUN_BUF_LEN = 1500"

definition answer_datagram :: "bytes \<Rightarrow> ip_addr \<Rightarrow> u16 \<Rightarrow> bytes option" where
  "answer_datagram datagram ip port =
     (let packet = take STUN_BUF_LEN datagram in
      case parse_binding_request packet of
        Inl _ \<Rightarrow> None
      | Inr tx_id \<Rightarrow> Some (build_binding_response tx_id ip port))"

fun serve_stun :: "stun_event list \<Rightarrow> (bytes \<times> ip_addr \<times> u16) list" where
  "serve_stun [] = []"
| "serve_stun (StunShutdown # _) = []"
| "serve_stun (RecvFailed # rest) = serve_stun rest"
| "serve_stun (Datagram d ip port # rest) =
     (case answer_datagram d ip port of
        None \<Rightarrow> serve_stun rest
      | Some response \<Rightarrow> (response, ip, port) # serve_stun rest)"

section \<open>Round trip\<close>

lemma length_xor_bytes [simp]: "length (xor_bytes a b) = min (length a) (length b)"
  by (simp add: xor_bytes_def)

lemma xor_bytes_cancel [simp]: "length a \<le> length b \<Longrightarrow> xor_bytes (xor_bytes a b) b = a"
  by (rule nth_equalityI) (simp_all add: xor_bytes_def xor.assoc)

lemma length_ipv6_octets [simp]: "length (ipv6_octets a) = 16"
  by (simp add: ipv6_octets_def length_concat comp_def sum_list_triv)

lemma nth_be16 [simp]: "be16 w ! 0 = ucast (drop_bit 8 w)" "be16 w ! Suc 0 = ucast w"
  by (simp_all add: be16_def)

lemma ipv6_of_octets_octets [simp]: "ipv6_of_octets (ipv6_octets a) = a"
proof -
  have "\<exists>g0 g1 g2 g3 g4 g5 g6 g7. segments a = [g0, g1, g2, g3, g4, g5, g6, g7]"
    using length_segments [of a] by (auto simp: eval_nat_numeral length_Suc_conv simp del: length_segments)
  then obtain g0 g1 g2 g3 g4 g5 g6 g7 where s: "segments a = [g0, g1, g2, g3, g4, g5, g6, g7]" by blast
  have eight: "[0..<8] = [0, 1, 2, 3, 4, 5, 6, 7::nat]" by (simp add: upt_rec)
  from s have "\<forall>g \<in> {g0, g1, g2, g3, g4, g5, g6, g7}. unat (word_of_nat g :: u16) = g"
    using segments_bounds [of a] by (auto simp: unat_of_nat)
  then have "map (\<lambda>i. unat (un_be16 (ipv6_octets a ! (2 * i)) (ipv6_octets a ! (2 * i + 1)))) [0..<8] = segments a"
    by (simp add: ipv6_octets_def s be16_def eight)
  then show ?thesis by (simp add: ipv6_of_octets_def)
qed

lemma un_be32_nth_be32 [simp]: "un_be32 (be32 w ! 0) (be32 w ! Suc 0) (be32 w ! 2) (be32 w ! 3) = w"
  by (simp add: be32_def)

lemma length_encode_xor:
  "length (tx_bytes tx) = 12 \<Longrightarrow> length (encode_xor_mapped_address addr port tx) = (if is_ipv4 addr then 8 else 20)"
  by (cases addr) (simp_all add: encode_xor_mapped_address_def Let_def)

lemma decode_encode_xor [simp]:
  assumes "length (tx_bytes tx) = 12"
  shows "decode_xor_mapped_address (encode_xor_mapped_address addr port tx) tx = Ok (addr, port)"
proof -
  obtain q where q: "port XOR ucast MAGIC_COOKIE = q" by blast
  then have p: "q XOR ucast MAGIC_COOKIE = port" by (auto simp: xor.assoc)
  show ?thesis
  proof (cases addr)
    case (V4 a)
    then show ?thesis using length_encode_xor [OF assms, of addr port]
      by (simp add: decode_xor_mapped_address_def encode_xor_mapped_address_def Let_def nth_append FAMILY_IPV4_def q p)
  next
    case (V6 a)
    then show ?thesis using length_encode_xor [OF assms, of addr port]
      by (simp add: decode_xor_mapped_address_def encode_xor_mapped_address_def Let_def nth_append assms
          FAMILY_IPV4_def FAMILY_IPV6_def q p)
  qed
qed

lemma attributes_one:
  assumes "length val mod 4 = 0" "length val < 2 ^ 16"
  shows "attributes (be16 ty @ be16 (word_of_nat (length val)) @ val) = [Some \<lparr>at_ty = ty, at_value = val\<rparr>]"
proof -
  have "unat (word_of_nat (length val) :: u16) = length val" using assms(2) by (simp add: unat_of_nat)
  moreover have "padded_len (length val) = length val" using assms(1) unfolding padded_len_def by presburger
  ultimately show ?thesis
    by (subst attributes.simps) (simp add: Let_def nth_append be16_def attributes.simps [of "[]"])
qed

lemma parse_header_built:
  assumes "length (tx_bytes tx) = 12"
  shows "parse_header (be16 ty @ be16 len @ be32 MAGIC_COOKIE @ tx_bytes tx @ rest) = Ok (ty, len, MAGIC_COOKIE, tx)"
  using assms by (simp add: parse_header_def Let_def be16_def be32_def nth_append)

lemma parse_build_response:
  assumes "length (tx_bytes tx) = 12"
  shows "parse_binding_response (build_binding_response tx addr port) = Ok (tx, addr, port)"
proof -
  let ?v = "encode_xor_mapped_address addr port tx"
  have l: "length ?v mod 4 = 0" "length ?v < 2 ^ 16" "4 + length ?v < 2 ^ 16"
    using length_encode_xor [OF assms, of addr port] by auto
  then have u: "unat (word_of_nat (4 + length ?v) :: u16) = 4 + length ?v" by (simp add: unat_of_nat del: of_nat_add)
  show ?thesis
    using assms u attributes_one [OF l(1,2)]
    by (simp add: parse_binding_response_def build_binding_response_def Let_def parse_header_built del: of_nat_add)
qed

text \<open>Requests and responses exclude each other, so a relay that answers only requests never answers an answer.\<close>

lemma response_is_no_request:
  "length (tx_bytes tx) = 12 \<Longrightarrow> parse_binding_request (build_binding_response tx addr port) = Err NotBinding"
  by (simp add: parse_binding_request_def build_binding_response_def Let_def parse_header_built
      TYPE_BINDING_RESPONSE_def TYPE_BINDING_REQUEST_def)

lemma parse_binding_request_iff:
  "parse_binding_request packet = Ok tx \<longleftrightarrow>
     20 \<le> length packet \<and> take 2 packet = be16 TYPE_BINDING_REQUEST \<and> take 4 (drop 4 packet) = be32 MAGIC_COOKIE
     \<and> tx = TxId (take 12 (drop 8 packet)) \<and> 20 + unat (un_be16 (packet ! 2) (packet ! 3)) \<le> length packet"
proof (cases "20 \<le> length packet")
  case True
  then have ex: "take 2 packet = [packet ! 0, packet ! 1]"
    "take 4 (drop 4 packet) = [packet ! 4, packet ! 5, packet ! 6, packet ! 7]"
    by (auto intro!: nth_equalityI simp: less_Suc_eq numeral_eq_Suc)
  have "un_be16 a b = w \<longleftrightarrow> [a, b] = be16 w" for a b w
    using be16_un_be16 [of a b] by (auto simp: be16_def)
  moreover have "un_be32 a b c d = w \<longleftrightarrow> [a, b, c, d] = be32 w" for a b c d w
    using be32_un_be32 [of a b c d] by (auto simp: be32_def)
  ultimately show ?thesis
    unfolding ex using True by (auto simp: parse_binding_request_def parse_header_def Let_def)
qed (auto simp: parse_binding_request_def parse_header_def)

lemma answer_datagram_Some:
  "answer_datagram d ip port = Some r \<longleftrightarrow>
     (\<exists>tx. parse_binding_request (take STUN_BUF_LEN d) = Ok tx \<and> r = build_binding_response tx ip port)"
  by (auto simp: answer_datagram_def Let_def split: sum.split)

lemma request_tx_length: "parse_binding_request packet = Ok tx \<Longrightarrow> length (tx_bytes tx) = 12"
  by (auto simp: parse_binding_request_iff)

fun datagrams :: "stun_event list \<Rightarrow> (bytes \<times> ip_addr \<times> u16) list" where
  "datagrams [] = []"
| "datagrams (StunShutdown # _) = []"
| "datagrams (RecvFailed # rest) = datagrams rest"
| "datagrams (Datagram d ip port # rest) = (d, ip, port) # datagrams rest"

text \<open>
  The STUN server answers every Binding request that reaches it before the shutdown, and nothing else, in order:
  the answers are those of the datagrams that parse as requests, each sent to the address its request came from, and a
  client that parses its answer reads back the transaction id of its request and its own address and port. An
  answer is never itself answered.
\<close>

theorem stun_server_answers_requests:
  "map snd (serve_stun es) = map snd (filter (\<lambda>(d, _). \<exists>tx. parse_binding_request (take STUN_BUF_LEN d) = Ok tx) (datagrams es))
   \<and> map (parse_binding_response \<circ> fst) (serve_stun es)
     = [Ok (tx, ip, port). (d, ip, port) \<leftarrow> datagrams es,
          tx \<leftarrow> (case parse_binding_request (take STUN_BUF_LEN d) of Inl _ \<Rightarrow> [] | Inr tx \<Rightarrow> [tx])]
   \<and> serve_stun (map (\<lambda>(r, ip, port). Datagram r ip port) (serve_stun es)) = []"
proof -
  have "answer_datagram (build_binding_response tx a p) ip port = None" if "length (tx_bytes tx) = 12" for tx a p ip port
  proof -
    have "length (build_binding_response tx a p) \<le> STUN_BUF_LEN"
      using length_encode_xor [OF that, of a p] that by (simp add: build_binding_response_def Let_def STUN_BUF_LEN_def)
    then show ?thesis using response_is_no_request [OF that] by (simp add: answer_datagram_def)
  qed
  then have silent: "answer_datagram d ip port = Some r \<Longrightarrow> answer_datagram r ip' port' = None" for d ip port r ip' port'
    using request_tx_length by (auto simp: answer_datagram_Some)
  have "serve_stun (map (\<lambda>(r, ip, port). Datagram r ip port) (serve_stun es)) = []"
    by (induction es rule: serve_stun.induct) (auto split: option.split, metis silent option.distinct(1))
  moreover have "map snd (serve_stun es) = map snd (filter (\<lambda>(d, _). \<exists>tx. parse_binding_request (take STUN_BUF_LEN d) = Ok tx) (datagrams es))"
    by (induction es rule: serve_stun.induct) (auto simp: answer_datagram_def Let_def split: option.split sum.splits)
  moreover have "map (parse_binding_response \<circ> fst) (serve_stun es)
     = [Ok (tx, ip, port). (d, ip, port) \<leftarrow> datagrams es,
          tx \<leftarrow> (case parse_binding_request (take STUN_BUF_LEN d) of Inl _ \<Rightarrow> [] | Inr tx \<Rightarrow> [tx])]"
    by (induction es rule: serve_stun.induct)
      (auto simp: answer_datagram_def Let_def parse_build_response request_tx_length split: option.split sum.splits)
  ultimately show ?thesis by blast
qed

end
