(* ===== verification/Stream_Decoding.thy ===== *)
theory Stream_Decoding
  imports Crab_Prelude
begin

text \<open>
  The interface shared by the incremental decoders of the program: a step function that
  looks at the front of a buffer and either asks for more bytes, fails, or returns one
  item with the number of bytes it occupies, and the loop that drains the buffer with it.
  The laws say that a decision is never revised when more bytes arrive; from them follows
  once that the way the bytes are cut into reads does not matter, and that a stream
  of encoded items is decoded to exactly these items.
\<close>

datatype ('e, 'x) step = More | Fail 'e | Item 'x nat

fun feed_chunks ::
  "(bytes \<Rightarrow> 'x list \<Rightarrow> bytes \<times> ('e, 'x list) result) \<Rightarrow> bytes \<Rightarrow> 'x list \<Rightarrow> bytes list
    \<Rightarrow> bytes \<times> ('e, 'x list) result" where
  "feed_chunks loop buf out [] = (buf, Ok out)"
| "feed_chunks loop buf out (c # cs) =
     (case loop (buf @ c) [] of
        (buf', Inl e) \<Rightarrow> (buf', Err e)
      | (buf', Inr new) \<Rightarrow> feed_chunks loop buf' (out @ new) cs)"

locale frame_stream =
  fixes step :: "bytes \<Rightarrow> ('e, 'x) step"
    and loop :: "bytes \<Rightarrow> 'x list \<Rightarrow> bytes \<times> ('e, 'x list) result"
  assumes loop_unfold: "loop b out =
      (case step b of
         More \<Rightarrow> (b, Ok out)
       | Fail e \<Rightarrow> (b, Err e)
       | Item x c \<Rightarrow> loop (drop c b) (out @ [x]))"
    and step_Nil: "step [] = More"
    and Item_bounds: "step b = Item x c \<Longrightarrow> 0 < c \<and> c \<le> length b"
    and Item_stable: "step b = Item x c \<Longrightarrow> step (b @ r) = Item x c"
    and Fail_stable: "step b = Fail e \<Longrightarrow> step (b @ r) = Fail e"
begin

lemma loop_More: "step b = More \<Longrightarrow> loop b out = (b, Ok out)"
  by (subst loop_unfold) simp

lemma loop_Fail: "step b = Fail e \<Longrightarrow> loop b out = (b, Err e)"
  by (subst loop_unfold) simp

lemma loop_Item: "step b = Item x c \<Longrightarrow> loop b out = loop (drop c b) (out @ [x])"
  by (subst loop_unfold) simp

lemma loop_append:
  "loop b out = (b', res) \<Longrightarrow>
     loop (b @ r) out = (case res of Inl e \<Rightarrow> (b' @ r, Err e) | Inr out' \<Rightarrow> loop (b' @ r) out')"
proof (induction "length b" arbitrary: b out rule: less_induct)
  case less
  show ?case
  proof (cases "step b")
    case More
    then show ?thesis using less.prems by (auto simp: loop_More)
  next
    case (Fail e)
    then show ?thesis using less.prems by (auto simp: loop_Fail loop_Fail[OF Fail_stable])
  next
    case (Item x c)
    with Item_bounds have c: "0 < c" "c \<le> length b" by auto
    from Item have "loop (drop c b) (out @ [x]) = (b', res)"
      using less.prems by (simp add: loop_Item)
    with less.hyps[of "drop c b" "out @ [x]"] c
    have "loop (drop c b @ r) (out @ [x])
        = (case res of Inl e \<Rightarrow> (b' @ r, Err e) | Inr out' \<Rightarrow> loop (b' @ r) out')"
      by simp
    then show ?thesis using Item c by (simp add: loop_Item[OF Item_stable])
  qed
qed

lemma loop_acc:
  "loop b out = (fst (loop b []), case snd (loop b []) of Inl e \<Rightarrow> Err e | Inr xs \<Rightarrow> Ok (out @ xs))"
proof (induction "length b" arbitrary: b out rule: less_induct)
  case less
  show ?case
  proof (cases "step b")
    case (Item x c)
    with Item_bounds have "length (drop c b) < length b" by fastforce
    from less[OF this, of "out @ [x]"] less[OF this, of "[x]"] show ?thesis
      by (simp add: loop_Item[OF Item] split: sum.split)
  qed (simp_all add: loop_More loop_Fail)
qed

lemma loop_residue: "loop b out = (b', Inr xs) \<Longrightarrow> step b' = More"
proof (induction "length b" arbitrary: b out rule: less_induct)
  case less
  show ?case
  proof (cases "step b")
    case (Item x c)
    with Item_bounds have "length (drop c b) < length b" by fastforce
    from less.hyps[OF this, of "out @ [x]"] less.prems Item show ?thesis
      by (simp add: loop_Item)
  qed (use less.prems in \<open>auto simp: loop_More loop_Fail\<close>)
qed

text \<open>How the input is cut into reads does not matter: same items, same error.\<close>

lemma feed_chunks_concat:
  "step b = More \<Longrightarrow>
     snd (feed_chunks loop b out cs) = snd (loop (b @ concat cs) out)
     \<and> (\<forall>xs. snd (feed_chunks loop b out cs) = Inr xs \<longrightarrow>
           fst (feed_chunks loop b out cs) = fst (loop (b @ concat cs) out))"
proof (induction cs arbitrary: b out)
  case Nil
  then show ?case by (simp add: loop_More)
next
  case (Cons c cs)
  obtain b' res where l: "loop (b @ c) [] = (b', res)" by fastforce
  then have lo: "loop (b @ c) out = (b', case res of Inl e \<Rightarrow> Err e | Inr ys \<Rightarrow> Ok (out @ ys))"
    by (subst loop_acc) simp
  have ap: "loop (b @ c @ concat cs) out
      = (case res of Inl e \<Rightarrow> (b' @ concat cs, Err e) | Inr ys \<Rightarrow> loop (b' @ concat cs) (out @ ys))"
    using loop_append[OF lo, of "concat cs"] by (cases res) auto
  show ?case
    using Cons.IH[of b'] loop_residue[of "b @ c" "[]" b'] l ap by (cases res) simp_all
qed

end

text \<open>A stream decoder together with the encoder of its items.\<close>

locale frame_codec = frame_stream step loop
  for step :: "bytes \<Rightarrow> ('e, 'x) step"
    and loop :: "bytes \<Rightarrow> 'x list \<Rightarrow> bytes \<times> ('e, 'x list) result" +
  fixes enc :: "'x \<Rightarrow> bytes"
    and ok :: "'x \<Rightarrow> bool"
  assumes step_enc: "ok x \<Longrightarrow> step (enc x @ r) = Item x (length (enc x))"
begin

lemma loop_encoded:
  "list_all ok xs \<Longrightarrow> loop (concat (map enc xs) @ r) out = loop r (out @ xs)"
  by (induction xs arbitrary: out) (simp_all add: loop_Item[OF step_enc])

lemma feed_chunks_encoded:
  assumes "list_all ok xs" and "concat cs = concat (map enc xs)"
  shows "feed_chunks loop [] [] cs = ([], Ok xs)"
proof -
  have "loop (concat cs) [] = ([], Ok xs)"
    using loop_encoded[OF assms(1), of "[]" "[]"] assms(2) by (simp add: loop_More step_Nil)
  with feed_chunks_concat[OF step_Nil, of "[]" cs] show ?thesis
    by (simp add: prod_eq_iff)
qed

lemma enc_inj: "ok x \<Longrightarrow> ok y \<Longrightarrow> enc x = enc y \<Longrightarrow> x = y"
  using step_enc[of x "[]"] step_enc[of y "[]"] by simp

end

end
