(* ===== verification/Derp_Frame.thy ===== *)
theory Derp_Frame
  imports Stream_Decoding
begin

text \<open>
  DERP framing, \<^verbatim>\<open>crabscale-derp/src/frame.rs\<close>: the one-byte frame type, the five-byte
  header with its 1 MiB body ceiling, \<^verbatim>\<open>encode_frame\<close>/\<^verbatim>\<open>decode_frame\<close> and the buffering
  \<^verbatim>\<open>FrameDecoder\<close>; and \<^verbatim>\<open>crabscale-derp/src/codec.rs\<close>: the tokio codec and the
  blocking-style \<^verbatim>\<open>read_frame\<close>/\<^verbatim>\<open>write_frame\<close> over a byte stream. A \<^verbatim>\<open>usize\<close> is 64 bits
  wide, so the cast of a \<^verbatim>\<open>u32\<close> length to it keeps the value; the cast of a length to
  \<^verbatim>\<open>u32\<close> in the header encoder truncates and is modelled with its truncation.
\<close>

section \<open>Constants and errors\<close>

definition FRAME_HEADER_LEN :: nat where [simp]: "FRAME_HEADER_LEN = 5"
definition MAX_PACKET_PAYLOAD_LEN :: nat where "MAX_PACKET_PAYLOAD_LEN = 64 * 1024"
definition MAX_FRAME_BODY_LEN :: nat where "MAX_FRAME_BODY_LEN = 1024 * 1024"
definition MAGIC :: bytes where
  "MAGIC = [0x44, 0x45, 0x52, 0x50, 0xF0, 0x9F, 0x94, 0x91]"
definition PROTOCOL_VERSION :: u32 where "PROTOCOL_VERSION = 2"

datatype frame_error =
    Truncated
  | Oversized
  | PacketTooLarge
  | InvalidFrameType byte
  | InvalidBodyLength nat nat
  | InvalidMagic
  | InvalidPeerGoneReason byte
  | CryptoFailed
  | InvalidUtf8

section \<open>Frame types\<close>

datatype frame_type =
    ServerKey | ClientInfo | ServerInfo | SendPacket | RecvPacket | KeepAlive | NotePreferred
  | PeerGone | PeerPresent | ForwardPacket | WatchConns | Ping | Pong | Health | Restarting

fun frame_type_code :: "frame_type \<Rightarrow> byte" where
  "frame_type_code ServerKey = 0x01"
| "frame_type_code ClientInfo = 0x02"
| "frame_type_code ServerInfo = 0x03"
| "frame_type_code SendPacket = 0x04"
| "frame_type_code RecvPacket = 0x05"
| "frame_type_code KeepAlive = 0x06"
| "frame_type_code NotePreferred = 0x07"
| "frame_type_code PeerGone = 0x08"
| "frame_type_code PeerPresent = 0x09"
| "frame_type_code ForwardPacket = 0x0A"
| "frame_type_code WatchConns = 0x10"
| "frame_type_code Ping = 0x12"
| "frame_type_code Pong = 0x13"
| "frame_type_code Health = 0x14"
| "frame_type_code Restarting = 0x15"

definition frame_type_try_from :: "byte \<Rightarrow> (frame_error, frame_type) result" where
  "frame_type_try_from v =
    (if v = 0x01 then Ok ServerKey
     else if v = 0x02 then Ok ClientInfo
     else if v = 0x03 then Ok ServerInfo
     else if v = 0x04 then Ok SendPacket
     else if v = 0x05 then Ok RecvPacket
     else if v = 0x06 then Ok KeepAlive
     else if v = 0x07 then Ok NotePreferred
     else if v = 0x08 then Ok PeerGone
     else if v = 0x09 then Ok PeerPresent
     else if v = 0x0A then Ok ForwardPacket
     else if v = 0x10 then Ok WatchConns
     else if v = 0x12 then Ok Ping
     else if v = 0x13 then Ok Pong
     else if v = 0x14 then Ok Health
     else if v = 0x15 then Ok Restarting
     else Err (InvalidFrameType v))"

definition is_server_to_client :: "frame_type \<Rightarrow> bool" where
  "is_server_to_client t \<longleftrightarrow>
     t \<in> {ServerKey, ServerInfo, RecvPacket, KeepAlive, NotePreferred, PeerGone, PeerPresent,
          Ping, Health, Restarting}"

section \<open>Headers and whole frames\<close>

record frame_header =
  fh_ty :: frame_type
  fh_len :: nat

definition frame_header_new :: "frame_type \<Rightarrow> nat \<Rightarrow> (frame_error, frame_header) result" where
  "frame_header_new ty len =
     (if len > MAX_FRAME_BODY_LEN then Err Oversized else Ok \<lparr>fh_ty = ty, fh_len = len\<rparr>)"

definition frame_header_encode :: "frame_header \<Rightarrow> bytes" where
  "frame_header_encode h = frame_type_code (fh_ty h) # be32 (word_of_nat (fh_len h))"

definition frame_header_decode :: "bytes \<Rightarrow> (frame_error, frame_header \<times> nat) result" where
  "frame_header_decode buf =
     (case buf of
        b0 # b1 # b2 # b3 # b4 # _ \<Rightarrow>
          bind_res (frame_type_try_from b0) (\<lambda>ty.
          bind_res (frame_header_new ty (unat (un_be32 b1 b2 b3 b4))) (\<lambda>h.
          Ok (h, FRAME_HEADER_LEN)))
      | _ \<Rightarrow> Err Truncated)"

definition encode_frame :: "frame_type \<Rightarrow> bytes \<Rightarrow> (frame_error, bytes) result" where
  "encode_frame ty payload =
     bind_res (frame_header_new ty (length payload)) (\<lambda>h.
     Ok (frame_header_encode h @ payload))"

definition decode_frame :: "bytes \<Rightarrow> (frame_error, frame_type \<times> bytes \<times> nat) result" where
  "decode_frame buf =
     bind_res (frame_header_decode buf) (\<lambda>(h, header_len).
       let end = header_len + fh_len h in
       if length buf < end then Err Truncated
       else Ok (fh_ty h, take (fh_len h) (drop header_len buf), end))"

section \<open>The buffering decoder\<close>

record frame_decoder =
  fd_buf :: bytes

definition frame_decoder_new :: frame_decoder where
  "frame_decoder_new = \<lparr>fd_buf = []\<rparr>"

lemma frame_header_decode_Ok:
  "frame_header_decode buf = Inr (h, n) \<Longrightarrow> n = 5 \<and> 5 \<le> length buf \<and> fh_len h \<le> MAX_FRAME_BODY_LEN"
  by (auto simp: frame_header_decode_def frame_header_new_def bind_res_Ok_iff
      split: list.splits if_splits)

lemma decode_frame_Ok:
  "decode_frame buf = Inr (ty, p, n) \<Longrightarrow>
     n = 5 + length p \<and> n \<le> length buf \<and> p = take (length p) (drop 5 buf)
     \<and> length p \<le> MAX_FRAME_BODY_LEN"
  by (auto simp: decode_frame_def bind_res_Ok_iff Let_def split: if_splits
      dest!: frame_header_decode_Ok)

function frame_decoder_loop ::
  "bytes \<Rightarrow> (frame_type \<times> bytes) list \<Rightarrow> bytes \<times> (frame_error, (frame_type \<times> bytes) list) result" where
  "frame_decoder_loop buf out =
     (case decode_frame buf of
        Inr (ty, payload, consumed) \<Rightarrow> frame_decoder_loop (drop consumed buf) (out @ [(ty, payload)])
      | Inl e \<Rightarrow> if e = Truncated then (buf, Ok out) else (buf, Err e))"
  by pat_completeness auto
termination
  by (relation "measure (\<lambda>(buf, _). length buf)") (auto dest!: decode_frame_Ok)

definition frame_decoder_feed ::
  "frame_decoder \<Rightarrow> bytes \<Rightarrow> frame_decoder \<times> (frame_error, (frame_type \<times> bytes) list) result" where
  "frame_decoder_feed d data =
     (case frame_decoder_loop (fd_buf d @ data) [] of
        (buf, r) \<Rightarrow> (d\<lparr>fd_buf := buf\<rparr>, r))"
declare frame_decoder_loop.simps [simp del]

section \<open>The tokio codec\<close>

record frame =
  f_ty :: frame_type
  f_payload :: bytes

definition frame_new :: "frame_type \<Rightarrow> bytes \<Rightarrow> frame" where
  "frame_new ty payload = \<lparr>f_ty = ty, f_payload = payload\<rparr>"

datatype io_error = InvalidData frame_error | UnexpectedEof string | IoError

record derp_codec =
  max_body_len :: nat

definition derp_codec_new :: derp_codec where
  "derp_codec_new = \<lparr>max_body_len = MAX_FRAME_BODY_LEN\<rparr>"

definition derp_codec_with_max_body_len :: "nat \<Rightarrow> derp_codec" where
  "derp_codec_with_max_body_len n = \<lparr>max_body_len = n\<rparr>"

text \<open>\<^verbatim>\<open>#[derive(Default)]\<close> on the codec gives every field the default of its type.\<close>

definition derp_codec_default :: derp_codec where
  "derp_codec_default = \<lparr>max_body_len = 0\<rparr>"

definition derp_codec_decode ::
  "derp_codec \<Rightarrow> bytes \<Rightarrow> bytes \<times> (io_error, frame option) result" where
  "derp_codec_decode c src =
     (if length src < FRAME_HEADER_LEN then (src, Ok None)
      else case map_err InvalidData (frame_header_decode src) of
        Inl e \<Rightarrow> (src, Err e)
      | Inr (h, _) \<Rightarrow>
          if fh_len h > max_body_len c then (src, Err (InvalidData Oversized))
          else let total = FRAME_HEADER_LEN + fh_len h in
            if length src < total then (src, Ok None)
            else (drop total src,
                  Ok (Some \<lparr>f_ty = fh_ty h, f_payload = drop FRAME_HEADER_LEN (take total src)\<rparr>)))"

definition derp_codec_encode :: "derp_codec \<Rightarrow> frame \<Rightarrow> bytes \<Rightarrow> (io_error, bytes) result" where
  "derp_codec_encode c item dst =
     (if length (f_payload item) > max_body_len c then Err (InvalidData Oversized)
      else bind_res (map_err InvalidData (frame_header_new (f_ty item) (length (f_payload item)))) (\<lambda>h.
        Ok (dst @ frame_header_encode h @ f_payload item)))"

section \<open>Reading and writing one frame on a byte stream\<close>

text \<open>
  A reader is the sequence of what its successive polls will deliver: a chunk of bytes
  (cut by the reader when the caller asks for fewer; an empty chunk is the zero-length
  read that signals end of file) or an I/O error; after the last one the stream is at its end.
\<close>

datatype read_event = Data bytes | ReadError

datatype fill_end = Filled | Eof | ReadFailed

fun fill :: "nat \<Rightarrow> bytes \<Rightarrow> read_event list \<Rightarrow> bytes \<times> fill_end \<times> read_event list" where
  "fill k acc r =
     (if k = 0 then (acc, Filled, r)
      else case r of
        [] \<Rightarrow> (acc, Eof, [])
      | ReadError # r' \<Rightarrow> (acc, ReadFailed, r')
      | Data c # r' \<Rightarrow>
          if c = [] then (acc, Eof, r')
          else if length c \<le> k then fill (k - length c) (acc @ c) r'
          else (acc @ take k c, Filled, Data (drop k c) # r'))"

declare fill.simps [simp del]

definition read_frame :: "read_event list \<Rightarrow> read_event list \<times> (io_error, frame option) result" where
  "read_frame r =
     (case fill FRAME_HEADER_LEN [] r of
        (header, Eof, r') \<Rightarrow>
          (r', if header = [] then Ok None
               else Err (UnexpectedEof ''DERP connection closed mid-header''))
      | (header, ReadFailed, r') \<Rightarrow> (r', Err IoError)
      | (header, Filled, r') \<Rightarrow>
          (case map_err InvalidData (frame_header_decode header) of
             Inl e \<Rightarrow> (r', Err e)
           | Inr (parsed, _) \<Rightarrow>
               (case fill (fh_len parsed) [] r' of
                  (payload, Filled, r'') \<Rightarrow>
                    (r'', Ok (Some \<lparr>f_ty = fh_ty parsed, f_payload = payload\<rparr>))
                | (payload, _, r'') \<Rightarrow>
                    (r'', Err (UnexpectedEof ''DERP connection closed mid-frame'')))))"

text \<open>The bytes handed to \<^verbatim>\<open>write_all\<close>; the writer itself is the peer's reader.\<close>

definition write_frame :: "frame \<Rightarrow> (io_error, bytes) result" where
  "write_frame f =
     bind_res (map_err InvalidData (frame_header_new (f_ty f) (length (f_payload f)))) (\<lambda>h.
     Ok (frame_header_encode h @ f_payload f))"

section \<open>Headers\<close>

lemma frame_type_try_from_code [codec_simps, simp]:
  "frame_type_try_from (frame_type_code t) = Ok t"
  by (cases t) (simp_all add: frame_type_try_from_def)

lemma frame_type_code_try_from:
  "frame_type_try_from v = Inr t \<longleftrightarrow> v = frame_type_code t"
proof
  show "frame_type_try_from v = Inr t \<Longrightarrow> v = frame_type_code t"
    by (auto simp: frame_type_try_from_def split: if_splits)
qed simp

lemma frame_type_code_inj [simp]: "frame_type_code s = frame_type_code t \<longleftrightarrow> s = t"
  by (auto dest: arg_cong[of _ _ frame_type_try_from])

lemma body_len_word:
  "n \<le> MAX_FRAME_BODY_LEN \<Longrightarrow> unat (word_of_nat n :: u32) = n"
  by (simp add: MAX_FRAME_BODY_LEN_def unat_of_nat take_bit_nat_eq_self)

lemma length_frame_header_encode [codec_simps, simp]: "length (frame_header_encode h) = 5"
  by (simp add: frame_header_encode_def)

lemma frame_header_decode_encode [codec_simps, simp]:
  assumes "n \<le> MAX_FRAME_BODY_LEN"
  shows "frame_header_decode (frame_header_encode \<lparr>fh_ty = ty, fh_len = n\<rparr> @ rest)
           = Ok (\<lparr>fh_ty = ty, fh_len = n\<rparr>, 5)"
  using assms
  by (simp add: frame_header_encode_def frame_header_decode_def be32_def frame_header_new_def
      body_len_word)

lemma frame_header_decode_append:
  "frame_header_decode b \<noteq> Inl Truncated \<Longrightarrow> frame_header_decode (b @ r) = frame_header_decode b"
  by (auto simp: frame_header_decode_def split: list.splits)

lemma frame_type_try_from_Err: "frame_type_try_from v = Inl e \<Longrightarrow> e = InvalidFrameType v"
  by (simp add: frame_type_try_from_def split: if_splits)

lemma frame_header_decode_Truncated [simp]:
  "frame_header_decode b = Inl Truncated \<longleftrightarrow> length b < 5"
  by (auto simp: frame_header_decode_def bind_res_Err_iff frame_header_new_def
      split: list.splits if_splits dest: frame_type_try_from_Err)

lemma decode_frame_append:
  "decode_frame b \<noteq> Inl Truncated \<Longrightarrow> decode_frame (b @ r) = decode_frame b"
  by (cases "frame_header_decode b")
    (auto simp: decode_frame_def frame_header_decode_append Let_def dest!: frame_header_decode_Ok)

section \<open>Whole frames and streams of frames\<close>

definition derp_step :: "bytes \<Rightarrow> (frame_error, frame_type \<times> bytes) step" where
  "derp_step b = (case decode_frame b of
      Inr (ty, p, n) \<Rightarrow> Item (ty, p) n
    | Inl e \<Rightarrow> if e = Truncated then More else Fail e)"

definition wire :: "frame_type \<times> bytes \<Rightarrow> bytes" where
  "wire f = frame_header_encode \<lparr>fh_ty = fst f, fh_len = length (snd f)\<rparr> @ snd f"

definition fits :: "frame_type \<times> bytes \<Rightarrow> bool" where
  "fits f \<longleftrightarrow> length (snd f) \<le> MAX_FRAME_BODY_LEN"

lemma write_frame_wire: "write_frame f = (if fits (f_ty f, f_payload f) then Ok (wire (f_ty f, f_payload f)) else Err (InvalidData Oversized))"
  by (simp add: write_frame_def wire_def fits_def frame_header_new_def)

lemma encode_frame_wire: "encode_frame ty p = (if fits (ty, p) then Ok (wire (ty, p)) else Err Oversized)"
  by (simp add: encode_frame_def wire_def fits_def frame_header_new_def)

lemma length_wire [codec_simps, simp]: "length (wire f) = 5 + length (snd f)"
  by (simp add: wire_def)

lemma decode_frame_wire [codec_simps, simp]:
  "fits f \<Longrightarrow> decode_frame (wire f @ rest) = Ok (fst f, snd f, 5 + length (snd f))"
  by (simp add: decode_frame_def wire_def fits_def Let_def)

interpretation derp: frame_codec derp_step frame_decoder_loop wire fits
proof
  show "frame_decoder_loop b out =
      (case derp_step b of More \<Rightarrow> (b, Ok out) | Fail e \<Rightarrow> (b, Err e)
       | Item x c \<Rightarrow> frame_decoder_loop (drop c b) (out @ [x]))" for b out
    by (subst frame_decoder_loop.simps) (auto simp: derp_step_def split: sum.splits)
  show "derp_step [] = More"
    by (simp add: derp_step_def decode_frame_def frame_header_decode_def)
  show "0 < c \<and> c \<le> length b" if "derp_step b = Item x c" for b x c
    using that by (auto simp: derp_step_def split: sum.splits if_splits dest!: decode_frame_Ok)
  show "derp_step (b @ r) = Item x c" if "derp_step b = Item x c" for b x c r
    using that by (auto simp: derp_step_def decode_frame_append split: sum.splits if_splits)
  show "derp_step (b @ r) = Fail e" if "derp_step b = Fail e" for b e r
    using that by (auto simp: derp_step_def decode_frame_append split: sum.splits if_splits)
  show "derp_step (wire x @ r) = Item x (length (wire x))" if "fits x" for x r
    using that by (simp add: derp_step_def)
qed

text \<open>The reads of a connection, each passed to \<^verbatim>\<open>feed\<close>, up to the first error.\<close>

fun frame_decoder_run ::
  "frame_decoder \<Rightarrow> (frame_type \<times> bytes) list \<Rightarrow> bytes list
    \<Rightarrow> frame_decoder \<times> (frame_error, (frame_type \<times> bytes) list) result" where
  "frame_decoder_run d out [] = (d, Ok out)"
| "frame_decoder_run d out (c # cs) =
     (case frame_decoder_feed d c of
        (d', Inl e) \<Rightarrow> (d', Err e)
      | (d', Inr new) \<Rightarrow> frame_decoder_run d' (out @ new) cs)"

lemma frame_decoder_run_chunks:
  "frame_decoder_run d out cs =
     (case feed_chunks frame_decoder_loop (fd_buf d) out cs of (b, r) \<Rightarrow> (d\<lparr>fd_buf := b\<rparr>, r))"
  by (induction cs arbitrary: d out)
    (auto simp: frame_decoder_feed_def split: prod.splits sum.splits)

lemma concat_encoded_frames:
  "list_all2 (\<lambda>(ty, p) w. encode_frame ty p = Ok w) fs ws \<Longrightarrow>
     list_all fits fs \<and> concat ws = concat (map wire fs)"
  by (induction rule: list_all2_induct) (auto simp: encode_frame_wire split: if_splits)

section \<open>Correctness of the framing layer\<close>

text \<open>
  C13. A sequence of frames, each encoded with \<^verbatim>\<open>encode_frame\<close>, is recovered by
  \<^verbatim>\<open>FrameDecoder::feed\<close> in order and without loss, however the byte stream is cut into
  reads, and the decoder's buffer is empty afterwards.
\<close>

theorem frame_stream_roundtrip:
  assumes "list_all2 (\<lambda>(ty, p) w. encode_frame ty p = Ok w) fs ws"
    and "concat reads = concat ws"
  shows "frame_decoder_run frame_decoder_new [] reads = (frame_decoder_new, Ok fs)"
  using derp.feed_chunks_encoded[of fs reads] concat_encoded_frames[OF assms(1)] assms(2)
  by (simp add: frame_decoder_run_chunks frame_decoder_new_def)

theorem frame_stream_roundtrip_witness:
  "frame_decoder_run frame_decoder_new []
     [[0x14, 0, 0], [0, 2, 7], [9, 0x06, 0, 0, 0], [0]]
   = (frame_decoder_new, Ok [(Health, [7, 9]), (KeepAlive, [])])"
  by (rule frame_stream_roundtrip[where ws = "[[0x14, 0, 0, 0, 2, 7, 9], [0x06, 0, 0, 0, 0]]"])
    (simp_all add: encode_frame_def frame_header_new_def frame_header_encode_def
      MAX_FRAME_BODY_LEN_def be32_def)

text \<open>
  Whatever bytes arrive, valid or not, cutting them into several reads gives the same
  frames, or the same error, as one read of all of them.
\<close>

theorem frame_decoder_chunking:
  "snd (frame_decoder_run frame_decoder_new [] reads)
     = snd (frame_decoder_feed frame_decoder_new (concat reads))"
  using derp.feed_chunks_concat[OF derp.step_Nil, of "[]" reads]
  by (auto simp: frame_decoder_run_chunks frame_decoder_feed_def frame_decoder_new_def
      split: prod.splits)

lemma derp_codec_decode_frame:
  "derp_codec_decode derp_codec_new src =
     (case decode_frame src of
        Inr (ty, p, n) \<Rightarrow> (drop n src, Ok (Some (frame_new ty p)))
      | Inl e \<Rightarrow> (src, if e = Truncated then Ok None else Err (InvalidData e)))"
proof (cases "frame_header_decode src")
  case (Inl e)
  then show ?thesis
    by (cases "length src < 5")
      (auto simp: derp_codec_decode_def decode_frame_def
        simp flip: frame_header_decode_Truncated)
next
  case (Inr a)
  then obtain h n where a: "frame_header_decode src = Inr (h, n)" by (cases a) auto
  from frame_header_decode_Ok[OF a] show ?thesis
    by (auto simp: a derp_codec_decode_def decode_frame_def derp_codec_new_def frame_new_def
        Let_def drop_take)
qed

text \<open>A reader that delivers bytes until it reaches its end, with no I/O error on the way.\<close>

fun all_data :: "read_event list \<Rightarrow> bool" where
  "all_data [] \<longleftrightarrow> True"
| "all_data (Data c # r) \<longleftrightarrow> c \<noteq> [] \<and> all_data r"
| "all_data (ReadError # r) \<longleftrightarrow> False"

fun content :: "read_event list \<Rightarrow> bytes" where
  "content [] = []"
| "content (Data c # r) = c @ content r"
| "content (ReadError # r) = []"

lemma fill_enough:
  "all_data r \<Longrightarrow> k \<le> length (content r) \<Longrightarrow>
     \<exists>r'. fill k acc r = (acc @ take k (content r), Filled, r')
        \<and> all_data r' \<and> content r' = drop k (content r)"
proof (induction r arbitrary: k acc rule: all_data.induct)
  case 1
  then show ?case by (simp add: fill.simps)
next
  case (2 c r)
  then show ?case
    using "2.IH"[of "k - length c" "acc @ c"] by (subst fill.simps) auto
next
  case (3 r)
  then show ?case by simp
qed

lemma fill_short:
  "all_data r \<Longrightarrow> length (content r) < k \<Longrightarrow> fill k acc r = (acc @ content r, Eof, [])"
proof (induction r arbitrary: k acc rule: all_data.induct)
  case 1
  then show ?case by (simp add: fill.simps)
next
  case (2 c r)
  then show ?case by (subst fill.simps) auto
next
  case (3 r)
  then show ?case by simp
qed

text \<open>What a reader still holds; every frame that is read makes it smaller, so loops over frames end.\<close>

definition reader_size :: "read_event list \<Rightarrow> nat" where
  "reader_size r = sum_list (map (\<lambda>e. case e of Data c \<Rightarrow> Suc (length c) | ReadError \<Rightarrow> 1) r)"

lemma reader_size_simps [simp]:
  "reader_size [] = 0" "reader_size (Data c # r) = Suc (length c + reader_size r)"
  "reader_size (ReadError # r) = Suc (reader_size r)"
  by (simp_all add: reader_size_def)

lemma fill_size:
  "fill k acc r = (out, e, r') \<Longrightarrow> reader_size r' \<le> reader_size r \<and> (0 < k \<and> e = Filled \<longrightarrow> reader_size r' < reader_size r)"
proof (induction r arbitrary: k acc out e r')
  case Nil
  then show ?case by (simp add: fill.simps split: if_splits)
next
  case (Cons x r)
  show ?case
  proof (cases "x = ReadError \<or> k = 0")
    case True
    with Cons.prems show ?thesis by (auto simp: fill.simps [of k acc "x # r"] split: if_splits)
  next
    case False
    then obtain c where x: "x = Data c" by (cases x) auto
    show ?thesis
      using Cons.prems False Cons.IH [of "k - length c" "acc @ c" out e r']
      by (auto simp: x fill.simps [of k acc "Data c # r"] split: if_splits)
  qed
qed

lemma read_frame_consumes:
  assumes "read_frame r = (r', Inr (Some f))"
  shows "reader_size r' < reader_size r"
proof -
  obtain header e1 r1 where f1: "fill 5 [] r = (header, e1, r1)" by (metis prod_cases3)
  with assms obtain h n where h: "e1 = Filled" "frame_header_decode header = Inr (h, n)"
    by (cases e1; cases "frame_header_decode header") (auto simp: read_frame_def split: if_splits)
  obtain payload e2 r2 where f2: "fill (fh_len h) [] r1 = (payload, e2, r2)" by (metis prod_cases3)
  with assms f1 h have "r' = r2" by (cases e2) (auto simp: read_frame_def)
  then show ?thesis using fill_size [OF f1] fill_size [OF f2] h by auto
qed

lemma read_frame_wire:
  assumes "all_data r" "content r = wire (ty, p) @ rest" "fits (ty, p)"
  obtains r' where "read_frame r = (r', Ok (Some (frame_new ty p)))" "all_data r'" "content r' = rest"
proof -
  let ?h = "\<lparr>fh_ty = ty, fh_len = length p\<rparr>"
  have w: "wire (ty, p) = frame_header_encode ?h @ p" by (simp add: wire_def)
  obtain r1 where r1: "fill 5 [] r = (frame_header_encode ?h, Filled, r1)" "all_data r1" "content r1 = p @ rest"
    using fill_enough [OF assms(1), of 5 "[]"] by (auto simp: assms(2) w)
  obtain r2 where r2: "fill (length p) [] r1 = (p, Filled, r2)" "all_data r2" "content r2 = rest"
    using fill_enough [OF r1(2), of "length p" "[]"] r1(3) by auto
  have "frame_header_decode (frame_header_encode ?h) = Inr (?h, 5)"
    using frame_header_decode_encode [of "length p" ty "[]"] assms(3) by (simp add: fits_def)
  then show thesis using that [of r2] r1 r2 by (simp add: read_frame_def frame_new_def)
qed

text \<open>
  C28. Reading a frame directly from a connection gives what decoding the whole byte
  sequence gives, whatever the sizes of the reads: the frame and the bytes after it, end of
  stream exactly at a frame boundary, an end-of-file error inside a header or a body, and
  the decoder's own errors otherwise.
\<close>

theorem read_frame_decode_frame:
  assumes "all_data r"
  shows "snd (read_frame r) =
           (if content r = [] then Ok None
            else case decode_frame (content r) of
              Inr (ty, p, n) \<Rightarrow> Ok (Some (frame_new ty p))
            | Inl e \<Rightarrow>
                if e = Truncated then
                  Err (UnexpectedEof (if length (content r) < 5
                    then ''DERP connection closed mid-header''
                    else ''DERP connection closed mid-frame''))
                else Err (InvalidData e))
         \<and> (\<forall>ty p n. decode_frame (content r) = Inr (ty, p, n) \<longrightarrow>
              content (fst (read_frame r)) = drop n (content r))"
proof (cases "length (content r) < 5")
  case True
  then have "decode_frame (content r) = Inl Truncated"
    using frame_header_decode_Truncated[of "content r"] by (simp add: decode_frame_def del: frame_header_decode_Truncated)
  then show ?thesis using fill_short[OF assms True, of "[]"] True
    by (auto simp: read_frame_def)
next
  case False
  then obtain r1 where r1: "fill 5 [] r = (take 5 (content r), Filled, r1)" "all_data r1"
      "content r1 = drop 5 (content r)"
    using fill_enough[OF assms, of 5 "[]"] by auto
  have hd: "frame_header_decode (content r) = frame_header_decode (take 5 (content r))"
    using frame_header_decode_append[of "take 5 (content r)" "drop 5 (content r)"] False by simp
  show ?thesis
  proof (cases "frame_header_decode (take 5 (content r))")
    case (Inl e)
    then have "e \<noteq> Truncated" using False frame_header_decode_Truncated[of "content r"] hd by auto
    then show ?thesis using Inl hd r1(1) False
      by (auto simp: read_frame_def decode_frame_def)
  next
    case (Inr a)
    then obtain h where h: "frame_header_decode (take 5 (content r)) = Inr (h, 5)"
      by (cases a) (auto dest: frame_header_decode_Ok)
    show ?thesis
    proof (cases "fh_len h \<le> length (content r1)")
      case True
      from fill_enough[OF r1(2) this, of "[]"] r1 h hd True False show ?thesis
        by (auto simp: read_frame_def decode_frame_def frame_new_def Let_def add.commute)
    next
      case short: False
      with fill_short[OF r1(2), of "fh_len h" "[]"] r1 h hd False show ?thesis
        by (auto simp: read_frame_def decode_frame_def Let_def)
    qed
  qed
qed

theorem read_frame_decode_frame_witness:
  "snd (read_frame [Data [0x14, 0, 0], Data [0, 2, 7], Data [9, 6]])
     = Ok (Some (frame_new Health [7, 9]))
   \<and> content (fst (read_frame [Data [0x14, 0, 0], Data [0, 2, 7], Data [9, 6]])) = [6]"
  using read_frame_decode_frame[of "[Data [0x14, 0, 0], Data [0, 2, 7], Data [9, 6]]"]
  by (simp add: decode_frame_def frame_header_decode_def frame_type_try_from_def
      frame_header_new_def un_be32_def MAX_FRAME_BODY_LEN_def)

text \<open>
  \<^verbatim>\<open>DerpCodec::new\<close> decodes exactly what \<^verbatim>\<open>decode_frame\<close> decodes and keeps the
  undecoded bytes, its encoder writes what \<^verbatim>\<open>encode_frame\<close> returns, and the codec obtained
  from the derived \<^verbatim>\<open>Default\<close> accepts no body at all: it refuses to encode every frame
  with a non-empty payload.
\<close>

theorem derp_codec_agrees:
  "derp_codec_decode derp_codec_new src =
     (case decode_frame src of
        Inr (ty, p, n) \<Rightarrow> (drop n src, Ok (Some (frame_new ty p)))
      | Inl e \<Rightarrow> (src, if e = Truncated then Ok None else Err (InvalidData e)))
   \<and> derp_codec_encode derp_codec_new (frame_new ty0 p0) dst =
       bind_res (map_err InvalidData (encode_frame ty0 p0)) (\<lambda>w. Ok (dst @ w))
   \<and> derp_codec_encode derp_codec_default (frame_new ty0 (b # p1)) dst
       = Err (InvalidData Oversized)"
  by (intro conjI derp_codec_decode_frame)
    (simp_all add: derp_codec_encode_def derp_codec_new_def frame_new_def
      encode_frame_def frame_header_new_def derp_codec_default_def)

end
