(* ===== verification/Derp_Bodies.thy ===== *)
theory Derp_Bodies
  imports Derp_Frame Rust_Str
begin

text \<open>
  Typed DERP frame bodies, \<^verbatim>\<open>crabscale-derp/src/frames.rs\<close>, and the node keys of
  \<^verbatim>\<open>crabscale-derp/src/keys.rs\<close>. A fixed-size array is a byte list together with the
  well-formedness predicate that gives its length. The curve operations behind
  \<^verbatim>\<open>SecretKey::public\<close> belong to the \<^verbatim>\<open>crypto_box\<close> crate and are not modelled.
\<close>

section \<open>Keys\<close>

definition KEY_LEN :: nat where [simp]: "KEY_LEN = 32"

datatype node_key = NodeKey (to_bytes: bytes)

definition wf_key :: "node_key \<Rightarrow> bool" where
  "wf_key k \<longleftrightarrow> length (to_bytes k) = KEY_LEN"

section \<open>Layout constants\<close>

definition NONCE_LEN :: nat where [simp]: "NONCE_LEN = 24"
definition SERVER_KEY_BODY_LEN :: nat where "SERVER_KEY_BODY_LEN = length MAGIC + KEY_LEN"
definition CLIENT_INFO_PREFIX_LEN :: nat where [simp]: "CLIENT_INFO_PREFIX_LEN = KEY_LEN + NONCE_LEN"
definition SERVER_INFO_PREFIX_LEN :: nat where [simp]: "SERVER_INFO_PREFIX_LEN = NONCE_LEN"
definition SEND_PACKET_PREFIX_LEN :: nat where [simp]: "SEND_PACKET_PREFIX_LEN = KEY_LEN"
definition RECV_PACKET_PREFIX_LEN :: nat where [simp]: "RECV_PACKET_PREFIX_LEN = KEY_LEN"
definition FORWARD_PACKET_PREFIX_LEN :: nat where [simp]: "FORWARD_PACKET_PREFIX_LEN = KEY_LEN * 2"
definition PEER_GONE_BODY_LEN :: nat where [simp]: "PEER_GONE_BODY_LEN = KEY_LEN + 1"
definition NOTE_PREFERRED_BODY_LEN :: nat where [simp]: "NOTE_PREFERRED_BODY_LEN = 1"
definition PING_BODY_LEN :: nat where [simp]: "PING_BODY_LEN = 8"
definition RESTARTING_BODY_LEN :: nat where [simp]: "RESTARTING_BODY_LEN = 8"
definition PEER_PRESENT_KEY_LEN :: nat where [simp]: "PEER_PRESENT_KEY_LEN = KEY_LEN"
definition PEER_PRESENT_IP_PORT_LEN :: nat where [simp]: "PEER_PRESENT_IP_PORT_LEN = 16 + 2"
definition PEER_PRESENT_FULL_LEN :: nat where [simp]: "PEER_PRESENT_FULL_LEN = KEY_LEN + 16 + 2 + 1"

lemma length_MAGIC [simp]: "length MAGIC = 8"
  by (simp add: MAGIC_def)

lemma SERVER_KEY_BODY_LEN_val [simp]: "SERVER_KEY_BODY_LEN = 40"
  by (simp add: SERVER_KEY_BODY_LEN_def)

datatype peer_present_flags = Regular | MeshPeer | Prober | NotIdeal

fun peer_present_flag_code :: "peer_present_flags \<Rightarrow> byte" where
  "peer_present_flag_code Regular = 0x01"
| "peer_present_flag_code MeshPeer = 0x02"
| "peer_present_flag_code Prober = 0x04"
| "peer_present_flag_code NotIdeal = 0x08"

datatype peer_gone_reason = Disconnected | NotHere

fun peer_gone_reason_code :: "peer_gone_reason \<Rightarrow> byte" where
  "peer_gone_reason_code Disconnected = 0x00"
| "peer_gone_reason_code NotHere = 0x01"

definition peer_gone_reason_try_from :: "byte \<Rightarrow> (frame_error, peer_gone_reason) result" where
  "peer_gone_reason_try_from v =
     (if v = 0x00 then Ok Disconnected
      else if v = 0x01 then Ok NotHere
      else Err (InvalidPeerGoneReason v))"

section \<open>Bodies\<close>

text \<open>\<^verbatim>\<open>ServerKey\<close>: connection magic, then the relay's public key.\<close>

record server_key_body =
  skb_key :: node_key

definition server_key_encode :: "server_key_body \<Rightarrow> bytes" where
  "server_key_encode b = MAGIC @ to_bytes (skb_key b)"

definition server_key_decode :: "bytes \<Rightarrow> (frame_error, server_key_body) result" where
  "server_key_decode body =
     (if length body \<noteq> SERVER_KEY_BODY_LEN
      then Err (InvalidBodyLength SERVER_KEY_BODY_LEN (length body))
      else if take (length MAGIC) body \<noteq> MAGIC then Err InvalidMagic
      else Ok \<lparr>skb_key = NodeKey (drop (length MAGIC) body)\<rparr>)"

text \<open>\<^verbatim>\<open>ClientInfo\<close> and \<^verbatim>\<open>ServerInfo\<close>: fixed prefixes before an encrypted payload.\<close>

record client_info_body =
  cib_key :: node_key
  cib_nonce :: bytes

definition client_info_encode_prefix :: "client_info_body \<Rightarrow> bytes" where
  "client_info_encode_prefix b = to_bytes (cib_key b) @ cib_nonce b"

definition client_info_decode_prefix :: "bytes \<Rightarrow> (frame_error, client_info_body) result" where
  "client_info_decode_prefix body =
     (if length body < CLIENT_INFO_PREFIX_LEN then Err Truncated
      else Ok \<lparr>cib_key = NodeKey (take KEY_LEN body),
               cib_nonce = take NONCE_LEN (drop KEY_LEN body)\<rparr>)"

record server_info_body =
  sib_nonce :: bytes

definition server_info_encode_prefix :: "server_info_body \<Rightarrow> bytes" where
  "server_info_encode_prefix b = sib_nonce b"

definition server_info_decode_prefix :: "bytes \<Rightarrow> (frame_error, server_info_body) result" where
  "server_info_decode_prefix body =
     (if length body < SERVER_INFO_PREFIX_LEN then Err Truncated
      else Ok \<lparr>sib_nonce = take SERVER_INFO_PREFIX_LEN body\<rparr>)"

text \<open>Packet frames: key prefixes before the relayed packet.\<close>

record send_packet_body =
  spb_dest :: node_key

definition send_packet_encode_prefix :: "send_packet_body \<Rightarrow> bytes" where
  "send_packet_encode_prefix b = to_bytes (spb_dest b)"

definition send_packet_decode_prefix :: "bytes \<Rightarrow> (frame_error, send_packet_body) result" where
  "send_packet_decode_prefix body =
     (if length body < SEND_PACKET_PREFIX_LEN then Err Truncated
      else Ok \<lparr>spb_dest = NodeKey (take SEND_PACKET_PREFIX_LEN body)\<rparr>)"

record recv_packet_body =
  rpb_src :: node_key

definition recv_packet_encode_prefix :: "recv_packet_body \<Rightarrow> bytes" where
  "recv_packet_encode_prefix b = to_bytes (rpb_src b)"

definition recv_packet_decode_prefix :: "bytes \<Rightarrow> (frame_error, recv_packet_body) result" where
  "recv_packet_decode_prefix body =
     (if length body < RECV_PACKET_PREFIX_LEN then Err Truncated
      else Ok \<lparr>rpb_src = NodeKey (take RECV_PACKET_PREFIX_LEN body)\<rparr>)"

record forward_packet_body =
  fpb_src :: node_key
  fpb_dest :: node_key

definition forward_packet_encode_prefix :: "forward_packet_body \<Rightarrow> bytes" where
  "forward_packet_encode_prefix b = to_bytes (fpb_src b) @ to_bytes (fpb_dest b)"

definition forward_packet_decode_prefix :: "bytes \<Rightarrow> (frame_error, forward_packet_body) result" where
  "forward_packet_decode_prefix body =
     (if length body < FORWARD_PACKET_PREFIX_LEN then Err Truncated
      else Ok \<lparr>fpb_src = NodeKey (take KEY_LEN body),
               fpb_dest = NodeKey (take KEY_LEN (drop KEY_LEN body))\<rparr>)"

text \<open>Status frames.\<close>

record note_preferred_body =
  npb_preferred :: bool

definition note_preferred_encode :: "note_preferred_body \<Rightarrow> bytes" where
  "note_preferred_encode b = [if npb_preferred b then 1 else 0]"

definition note_preferred_decode :: "bytes \<Rightarrow> (frame_error, note_preferred_body) result" where
  "note_preferred_decode body =
     (if length body \<noteq> NOTE_PREFERRED_BODY_LEN
      then Err (InvalidBodyLength NOTE_PREFERRED_BODY_LEN (length body))
      else Ok \<lparr>npb_preferred = (body ! 0 \<noteq> 0)\<rparr>)"

record peer_gone_body =
  pgb_key :: node_key
  pgb_reason :: peer_gone_reason

definition peer_gone_encode :: "peer_gone_body \<Rightarrow> bytes" where
  "peer_gone_encode b = to_bytes (pgb_key b) @ [peer_gone_reason_code (pgb_reason b)]"

definition peer_gone_decode :: "bytes \<Rightarrow> (frame_error, peer_gone_body) result" where
  "peer_gone_decode body =
     (if length body \<noteq> PEER_GONE_BODY_LEN
      then Err (InvalidBodyLength PEER_GONE_BODY_LEN (length body))
      else bind_res (peer_gone_reason_try_from (body ! KEY_LEN)) (\<lambda>r.
        Ok \<lparr>pgb_key = NodeKey (take KEY_LEN body), pgb_reason = r\<rparr>))"

record peer_present_body =
  ppb_key :: node_key
  ppb_ip :: "bytes option"
  ppb_port :: "u16 option"
  ppb_flags :: byte

definition peer_present_new :: "node_key \<Rightarrow> byte \<Rightarrow> peer_present_body" where
  "peer_present_new key flags = \<lparr>ppb_key = key, ppb_ip = None, ppb_port = None, ppb_flags = flags\<rparr>"

definition peer_present_encode :: "peer_present_body \<Rightarrow> bytes" where
  "peer_present_encode b =
     to_bytes (ppb_key b)
     @ (case ppb_ip b of None \<Rightarrow> replicate 16 0 | Some ip \<Rightarrow> ip)
     @ be16 (case ppb_port b of None \<Rightarrow> 0 | Some p \<Rightarrow> p)
     @ [ppb_flags b]"

definition peer_present_decode :: "bytes \<Rightarrow> (frame_error, peer_present_body) result" where
  "peer_present_decode body =
     (let len = length body;
          key = NodeKey (take KEY_LEN body);
          ip = take 16 (drop KEY_LEN body);
          port = un_be16 (body ! (KEY_LEN + 16)) (body ! (KEY_LEN + 17)) in
      if len < PEER_PRESENT_KEY_LEN then Err Truncated
      else if len = PEER_PRESENT_KEY_LEN
        then Ok \<lparr>ppb_key = key, ppb_ip = None, ppb_port = None, ppb_flags = 0\<rparr>
      else if len = PEER_PRESENT_KEY_LEN + PEER_PRESENT_IP_PORT_LEN
        then Ok \<lparr>ppb_key = key, ppb_ip = Some ip, ppb_port = Some port, ppb_flags = 0\<rparr>
      else if len \<ge> PEER_PRESENT_FULL_LEN
        then Ok \<lparr>ppb_key = key, ppb_ip = Some ip, ppb_port = Some port,
                 ppb_flags = body ! (KEY_LEN + 16 + 2)\<rparr>
      else Err (InvalidBodyLength PEER_PRESENT_FULL_LEN len))"

record ping_body =
  pb_payload :: bytes

definition ping_encode :: "ping_body \<Rightarrow> bytes" where
  "ping_encode b = pb_payload b"

definition ping_decode :: "bytes \<Rightarrow> (frame_error, ping_body) result" where
  "ping_decode body =
     (if length body \<noteq> PING_BODY_LEN then Err (InvalidBodyLength PING_BODY_LEN (length body))
      else Ok \<lparr>pb_payload = body\<rparr>)"

record pong_body =
  pob_payload :: bytes

definition pong_encode :: "pong_body \<Rightarrow> bytes" where
  "pong_encode b = pob_payload b"

definition pong_decode :: "bytes \<Rightarrow> (frame_error, pong_body) result" where
  "pong_decode body =
     (if length body \<noteq> PING_BODY_LEN then Err (InvalidBodyLength PING_BODY_LEN (length body))
      else Ok \<lparr>pob_payload = body\<rparr>)"

text \<open>\<^verbatim>\<open>Health\<close> carries text; \<^verbatim>\<open>Restarting\<close> two durations.\<close>

datatype health_body = HealthBody (health_text: string)

definition health_encode :: "health_body \<Rightarrow> bytes" where
  "health_encode b = as_bytes (health_text b)"

definition health_decode :: "bytes \<Rightarrow> (frame_error, health_body) result" where
  "health_decode body =
     (case from_utf8 body of None \<Rightarrow> Err InvalidUtf8 | Some s \<Rightarrow> Ok (HealthBody s))"

record restarting_body =
  rb_reconnect_ms :: u32
  rb_total_ms :: u32

definition restarting_encode :: "restarting_body \<Rightarrow> bytes" where
  "restarting_encode b = be32 (rb_reconnect_ms b) @ be32 (rb_total_ms b)"

definition restarting_decode :: "bytes \<Rightarrow> (frame_error, restarting_body) result" where
  "restarting_decode body =
     (if length body \<noteq> RESTARTING_BODY_LEN
      then Err (InvalidBodyLength RESTARTING_BODY_LEN (length body))
      else Ok \<lparr>rb_reconnect_ms = un_be32 (body ! 0) (body ! 1) (body ! 2) (body ! 3),
               rb_total_ms = un_be32 (body ! 4) (body ! 5) (body ! 6) (body ! 7)\<rparr>)"

definition validate_frame_body :: "frame_type \<Rightarrow> nat \<Rightarrow> (frame_error, unit) result" where
  "validate_frame_body ty body_len =
     (if body_len > MAX_FRAME_BODY_LEN then Err Oversized
      else let packet_len =
          (case ty of
             SendPacket \<Rightarrow> body_len - SEND_PACKET_PREFIX_LEN
           | RecvPacket \<Rightarrow> body_len - SEND_PACKET_PREFIX_LEN
           | ForwardPacket \<Rightarrow> body_len - FORWARD_PACKET_PREFIX_LEN
           | _ \<Rightarrow> 0) in
        if packet_len > MAX_PACKET_PAYLOAD_LEN then Err PacketTooLarge else Ok ())"

section \<open>The interface of a typed body\<close>

text \<open>
  Every body type promises the same: the encoder's output has the declared length, the
  decoder reads it back from the front of a body, and (for the prefix bodies) what follows
  the prefix is left to the caller. \<^term>\<open>room\<close> is what may follow.
\<close>

locale body_codec =
  fixes enc :: "'b \<Rightarrow> bytes"
    and dec :: "bytes \<Rightarrow> (frame_error, 'b) result"
    and wf :: "'b \<Rightarrow> bool"
    and room :: "bytes \<Rightarrow> bool"
    and len :: nat
  assumes length_enc: "wf b \<Longrightarrow> length (enc b) = len"
    and dec_enc: "wf b \<Longrightarrow> room t \<Longrightarrow> dec (enc b @ t) = Ok b"
    and room_Nil: "room []"
begin

lemma enc_inject: "wf b \<Longrightarrow> wf b' \<Longrightarrow> enc b = enc b' \<longleftrightarrow> b = b'"
  by (metis dec_enc room_Nil sum.inject(2))

lemma trailing: "wf b \<Longrightarrow> drop len (enc b @ t) = t"
  using length_enc[of b] by simp

text \<open>Through the framing layer: encode, frame, deframe, decode.\<close>

lemma framed:
  assumes "wf b" "room t" "encode_frame ty (enc b @ t) = Ok w"
  shows "\<exists>n. decode_frame (w @ rest) = Ok (ty, enc b @ t, n) \<and> n = length w
           \<and> dec (enc b @ t) = Ok b"
proof -
  have "fits (ty, enc b @ t)" "w = wire (ty, enc b @ t)"
    using assms(3) by (simp_all add: encode_frame_wire split: if_splits)
  then show ?thesis using assms(1,2) by (simp add: dec_enc)
qed

end

lemma take_key [simp]: "wf_key k \<Longrightarrow> take 32 (to_bytes k @ r) = to_bytes k"
  by (simp add: wf_key_def)

lemma drop_key [simp]: "wf_key k \<Longrightarrow> drop 32 (to_bytes k @ r) = r"
  by (simp add: wf_key_def)

lemma wf_key_length [simp]: "wf_key k \<Longrightarrow> length (to_bytes k) = 32"
  by (simp add: wf_key_def)

lemma nth_after_key [simp]: "wf_key k \<Longrightarrow> (to_bytes k @ r) ! 32 = r ! 0"
  by (simp add: nth_append)

lemma reason_try_from_code [codec_simps, simp]:
  "peer_gone_reason_try_from (peer_gone_reason_code r) = Ok r"
  by (cases r) (simp_all add: peer_gone_reason_try_from_def)

interpretation server_key: body_codec server_key_encode server_key_decode
    "\<lambda>b. wf_key (skb_key b)" "\<lambda>t. t = []" 40
  by unfold_locales (auto simp: server_key_encode_def server_key_decode_def)

interpretation client_info: body_codec client_info_encode_prefix client_info_decode_prefix
    "\<lambda>b. wf_key (cib_key b) \<and> length (cib_nonce b) = 24" "\<lambda>_. True" 56
  by unfold_locales (auto simp: client_info_encode_prefix_def client_info_decode_prefix_def)

interpretation server_info: body_codec server_info_encode_prefix server_info_decode_prefix
    "\<lambda>b. length (sib_nonce b) = 24" "\<lambda>_. True" 24
  by unfold_locales (auto simp: server_info_encode_prefix_def server_info_decode_prefix_def)

interpretation send_packet: body_codec send_packet_encode_prefix send_packet_decode_prefix
    "\<lambda>b. wf_key (spb_dest b)" "\<lambda>_. True" 32
  by unfold_locales (auto simp: send_packet_encode_prefix_def send_packet_decode_prefix_def)

interpretation recv_packet: body_codec recv_packet_encode_prefix recv_packet_decode_prefix
    "\<lambda>b. wf_key (rpb_src b)" "\<lambda>_. True" 32
  by unfold_locales (auto simp: recv_packet_encode_prefix_def recv_packet_decode_prefix_def)

interpretation forward_packet: body_codec forward_packet_encode_prefix forward_packet_decode_prefix
    "\<lambda>b. wf_key (fpb_src b) \<and> wf_key (fpb_dest b)" "\<lambda>_. True" 64
  by unfold_locales (auto simp: forward_packet_encode_prefix_def forward_packet_decode_prefix_def)

interpretation note_preferred: body_codec note_preferred_encode note_preferred_decode
    "\<lambda>_. True" "\<lambda>t. t = []" 1
  by unfold_locales (auto simp: note_preferred_encode_def note_preferred_decode_def)

interpretation peer_gone: body_codec peer_gone_encode peer_gone_decode
    "\<lambda>b. wf_key (pgb_key b)" "\<lambda>t. t = []" 33
  by unfold_locales (auto simp: peer_gone_encode_def peer_gone_decode_def)

interpretation ping: body_codec ping_encode ping_decode
    "\<lambda>b. length (pb_payload b) = 8" "\<lambda>t. t = []" 8
  by unfold_locales (auto simp: ping_encode_def ping_decode_def)

interpretation pong: body_codec pong_encode pong_decode
    "\<lambda>b. length (pob_payload b) = 8" "\<lambda>t. t = []" 8
  by unfold_locales (auto simp: pong_encode_def pong_decode_def)

interpretation restarting: body_codec restarting_encode restarting_decode
    "\<lambda>_. True" "\<lambda>t. t = []" 8
  by unfold_locales
    (auto simp: restarting_encode_def restarting_decode_def be32_def)

text \<open>\<^verbatim>\<open>PeerPresent\<close> is read back whole when the IP and the port are known.\<close>

interpretation peer_present: body_codec peer_present_encode peer_present_decode
    "\<lambda>b. wf_key (ppb_key b) \<and> (\<exists>ip. ppb_ip b = Some ip \<and> length ip = 16) \<and> ppb_port b \<noteq> None"
    "\<lambda>_. True" 51
proof
  fix b :: peer_present_body and t :: bytes
  assume wf: "wf_key (ppb_key b) \<and> (\<exists>ip. ppb_ip b = Some ip \<and> length ip = 16) \<and> ppb_port b \<noteq> None"
  then obtain ip p where "ppb_ip b = Some ip" "length ip = 16" "ppb_port b = Some p" "wf_key (ppb_key b)"
    by auto
  then show "peer_present_decode (peer_present_encode b @ t) = Ok b"
    by (cases b) (simp add: peer_present_encode_def peer_present_decode_def be16_def nth_append)
qed (auto simp: peer_present_encode_def)

section \<open>Correctness of the typed bodies\<close>

lemma health_decode_encode [codec_simps, simp]:
  "valid_str s \<Longrightarrow> health_decode (health_encode (HealthBody s)) = Ok (HealthBody s)"
  by (simp add: health_decode_def health_encode_def)

text \<open>
  Every typed body survives encoding and decoding: with well-formed keys and nonces the
  decoders return the value that was encoded, and the prefix decoders do so whatever payload
  follows the prefix.
\<close>

theorem typed_bodies_roundtrip:
  assumes "wf_key k" "wf_key k'" "length nonce = 24" "length ip = 16" "length echo = 8" "valid_str s"
  shows "server_key_decode (server_key_encode \<lparr>skb_key = k\<rparr>) = Ok \<lparr>skb_key = k\<rparr>
    \<and> client_info_decode_prefix (client_info_encode_prefix \<lparr>cib_key = k, cib_nonce = nonce\<rparr> @ t)
           = Ok \<lparr>cib_key = k, cib_nonce = nonce\<rparr>
    \<and> server_info_decode_prefix (server_info_encode_prefix \<lparr>sib_nonce = nonce\<rparr> @ t)
           = Ok \<lparr>sib_nonce = nonce\<rparr>
    \<and> send_packet_decode_prefix (send_packet_encode_prefix \<lparr>spb_dest = k\<rparr> @ t) = Ok \<lparr>spb_dest = k\<rparr>
    \<and> recv_packet_decode_prefix (recv_packet_encode_prefix \<lparr>rpb_src = k\<rparr> @ t) = Ok \<lparr>rpb_src = k\<rparr>
    \<and> forward_packet_decode_prefix (forward_packet_encode_prefix \<lparr>fpb_src = k, fpb_dest = k'\<rparr> @ t)
           = Ok \<lparr>fpb_src = k, fpb_dest = k'\<rparr>
    \<and> note_preferred_decode (note_preferred_encode \<lparr>npb_preferred = b\<rparr>) = Ok \<lparr>npb_preferred = b\<rparr>
    \<and> peer_gone_decode (peer_gone_encode \<lparr>pgb_key = k, pgb_reason = r\<rparr>)
           = Ok \<lparr>pgb_key = k, pgb_reason = r\<rparr>
    \<and> peer_present_decode (peer_present_encode
             \<lparr>ppb_key = k, ppb_ip = Some ip, ppb_port = Some port, ppb_flags = fl\<rparr> @ t)
           = Ok \<lparr>ppb_key = k, ppb_ip = Some ip, ppb_port = Some port, ppb_flags = fl\<rparr>
    \<and> ping_decode (ping_encode \<lparr>pb_payload = echo\<rparr>) = Ok \<lparr>pb_payload = echo\<rparr>
    \<and> pong_decode (pong_encode \<lparr>pob_payload = echo\<rparr>) = Ok \<lparr>pob_payload = echo\<rparr>
    \<and> health_decode (health_encode (HealthBody s)) = Ok (HealthBody s)
    \<and> restarting_decode (restarting_encode \<lparr>rb_reconnect_ms = a, rb_total_ms = c\<rparr>)
           = Ok \<lparr>rb_reconnect_ms = a, rb_total_ms = c\<rparr>"
  using assms
  by (simp add: client_info.dec_enc server_info.dec_enc send_packet.dec_enc
      recv_packet.dec_enc forward_packet.dec_enc peer_present.dec_enc
      server_key.dec_enc[where t = "[]", simplified] note_preferred.dec_enc[where t = "[]", simplified]
      peer_gone.dec_enc[where t = "[]", simplified] ping.dec_enc[where t = "[]", simplified]
      pong.dec_enc[where t = "[]", simplified] restarting.dec_enc[where t = "[]", simplified])

lemma length_8E:
  assumes "length xs = 8"
  obtains a b c d e f g h where "xs = [a, b, c, d, e, f, g, h]"
  using assms by (auto simp: numeral_eq_Suc length_Suc_conv)

lemma peer_gone_reason_code_try_from:
  "peer_gone_reason_try_from v = Inr r \<Longrightarrow> peer_gone_reason_code r = v"
  by (auto simp: peer_gone_reason_try_from_def split: if_splits)

lemma take_32_snoc: "length xs = 33 \<Longrightarrow> take 32 xs @ [xs ! 32] = xs"
  using take_Suc_conv_app_nth[of 32 xs] by simp

text \<open>
  Fixed-width bodies are decoded strictly: whatever \<^verbatim>\<open>ServerKey\<close>, \<^verbatim>\<open>PeerGone\<close>,
  \<^verbatim>\<open>Ping\<close>, \<^verbatim>\<open>Restarting\<close> or \<^verbatim>\<open>Health\<close> body is accepted is the encoding of the decoded
  value, so two different bodies are never read as the same message.
\<close>

theorem fixed_bodies_canonical:
  "(server_key_decode body = Ok b1 \<longrightarrow> server_key_encode b1 = body)
   \<and> (peer_gone_decode body = Ok b2 \<longrightarrow> peer_gone_encode b2 = body)
   \<and> (ping_decode body = Ok b3 \<longrightarrow> ping_encode b3 = body)
   \<and> (restarting_decode body = Ok b4 \<longrightarrow> restarting_encode b4 = body)
   \<and> (health_decode body = Ok b5 \<longrightarrow> health_encode b5 = body)"
proof (intro conjI impI)
  show "server_key_encode b1 = body" if "server_key_decode body = Ok b1"
    using that append_take_drop_id[of 8 body]
    by (auto simp: server_key_decode_def server_key_encode_def simp del: append_take_drop_id
        split: if_splits)
  show "peer_gone_encode b2 = body" if "peer_gone_decode body = Ok b2"
    using that take_32_snoc[of body]
    by (auto simp: peer_gone_decode_def peer_gone_encode_def bind_res_Ok_iff
        peer_gone_reason_code_try_from split: if_splits)
  show "ping_encode b3 = body" if "ping_decode body = Ok b3"
    using that by (auto simp: ping_decode_def ping_encode_def split: if_splits)
  show "restarting_encode b4 = body" if "restarting_decode body = Ok b4"
    using that by (auto simp: restarting_decode_def restarting_encode_def split: if_splits
        elim!: length_8E)
  show "health_encode b5 = body" if "health_decode body = Ok b5"
    using that by (auto simp: health_decode_def health_encode_def from_utf8_def
        split: option.splits if_splits)
qed

end
