(* ===== verification/Derp_Handshake.thy ===== *)
theory Derp_Handshake
  imports Derp_Bodies
begin

text \<open>
  The DERP login handshake, \<^verbatim>\<open>crabscale-derp/src/handshake.rs\<close> and the secret keys of \<^verbatim>\<open>keys.rs\<close>. The
  \<^verbatim>\<open>crypto_box\<close> construction and the JSON codec of the payloads are third-party code: they are the fields
  of \<^verbatim>\<open>nacl\<close>, an argument of every operation; the random nonce is an argument too.
\<close>

section \<open>Keys\<close>

definition hex_byte :: "byte \<Rightarrow> string" where
  "hex_byte b = [from_digit (unat b div 16), from_digit (unat b mod 16)]"

definition show_node_key :: "node_key \<Rightarrow> string" where
  "show_node_key k = ''node:'' @ take 16 (concat (map hex_byte (to_bytes k)))"

datatype secret_key = SecretKey (secret_bytes: bytes)

definition show_secret_key :: "secret_key \<Rightarrow> string" where
  "show_secret_key k = ''SecretKey([redacted])''"

section \<open>Payloads\<close>

datatype handshake_error = DecryptionFailed | UnsupportedDerpVersion | InvalidPayload string | KeyMismatch

definition show_handshake_error :: "handshake_error \<Rightarrow> string" where
  "show_handshake_error e =
     (case e of
        DecryptionFailed \<Rightarrow> ''failed to open crypto_box payload''
      | UnsupportedDerpVersion \<Rightarrow> ''unsupported DERP protocol version''
      | InvalidPayload m \<Rightarrow> ''invalid DERP handshake JSON: '' @ m
      | KeyMismatch \<Rightarrow> ''DERP client key does not match'')"

record client_info_payload =
  cip_can_ack_pings :: bool
  cip_is_prober :: bool
  cip_mesh_key :: string
  cip_version :: u32

definition client_info_payload_default :: client_info_payload where
  "client_info_payload_default =
     \<lparr>cip_can_ack_pings = False, cip_is_prober = False, cip_mesh_key = '''', cip_version = PROTOCOL_VERSION\<rparr>"

record server_info_payload =
  sip_version :: u32
  sip_token_bucket_bytes_per_second :: "u32 option"
  sip_token_bucket_bytes_burst :: "u32 option"

definition server_info_payload_default :: server_info_payload where
  "server_info_payload_default =
     \<lparr>sip_version = PROTOCOL_VERSION, sip_token_bucket_bytes_per_second = None, sip_token_bucket_bytes_burst = None\<rparr>"

text \<open>The public half of a secret, sealing and opening (other party's public key, own secret, nonce, text), and
  serde's JSON of the two payloads.\<close>

record nacl =
  nb_public :: "bytes \<Rightarrow> bytes"
  nb_seal :: "bytes \<Rightarrow> bytes \<Rightarrow> bytes \<Rightarrow> bytes \<Rightarrow> bytes option"
  nb_open :: "bytes \<Rightarrow> bytes \<Rightarrow> bytes \<Rightarrow> bytes \<Rightarrow> bytes option"
  nb_client_json :: "client_info_payload \<Rightarrow> (string, bytes) result"
  nb_client_of_json :: "bytes \<Rightarrow> (string, client_info_payload) result"
  nb_server_json :: "server_info_payload \<Rightarrow> (string, bytes) result"
  nb_server_of_json :: "bytes \<Rightarrow> (string, server_info_payload) result"

definition secret_public :: "nacl \<Rightarrow> secret_key \<Rightarrow> node_key" where
  "secret_public c s = NodeKey (nb_public c (secret_bytes s))"

section \<open>Sealing\<close>

definition seal_to :: "nacl \<Rightarrow> node_key \<Rightarrow> secret_key \<Rightarrow> bytes \<Rightarrow> bytes \<Rightarrow> (frame_error, bytes) result" where
  "seal_to c recipient_public sender_secret nonce plaintext =
     (case nb_seal c (to_bytes recipient_public) (secret_bytes sender_secret) nonce plaintext of
        None \<Rightarrow> Err CryptoFailed
      | Some ciphertext \<Rightarrow> Ok ciphertext)"

definition open_from :: "nacl \<Rightarrow> node_key \<Rightarrow> secret_key \<Rightarrow> bytes \<Rightarrow> bytes \<Rightarrow> (frame_error, bytes) result" where
  "open_from c sender_public recipient_secret nonce ciphertext =
     (case nb_open c (to_bytes sender_public) (secret_bytes recipient_secret) nonce ciphertext of
        None \<Rightarrow> Err CryptoFailed
      | Some plaintext \<Rightarrow> Ok plaintext)"

definition make_client_info ::
  "nacl \<Rightarrow> bytes \<Rightarrow> secret_key \<Rightarrow> node_key \<Rightarrow> client_info_payload \<Rightarrow> (handshake_error, node_key \<times> bytes \<times> bytes) result" where
  "make_client_info c nonce client_secret server_public payload =
     bind_res (map_err InvalidPayload (nb_client_json c payload)) (\<lambda>json.
     bind_res (map_err (\<lambda>_. DecryptionFailed) (seal_to c server_public client_secret nonce json)) (\<lambda>ciphertext.
     Ok (secret_public c client_secret, nonce, ciphertext)))"

definition open_client_info ::
  "nacl \<Rightarrow> node_key \<Rightarrow> secret_key \<Rightarrow> bytes \<Rightarrow> bytes \<Rightarrow> (handshake_error, client_info_payload) result" where
  "open_client_info c client_public server_secret nonce ciphertext =
     bind_res (map_err (\<lambda>_. DecryptionFailed) (open_from c client_public server_secret nonce ciphertext)) (\<lambda>plaintext.
     map_err InvalidPayload (nb_client_of_json c plaintext))"

definition make_server_info ::
  "nacl \<Rightarrow> bytes \<Rightarrow> secret_key \<Rightarrow> node_key \<Rightarrow> server_info_payload \<Rightarrow> (handshake_error, bytes \<times> bytes) result" where
  "make_server_info c nonce server_secret client_public payload =
     bind_res (map_err InvalidPayload (nb_server_json c payload)) (\<lambda>json.
     bind_res (map_err (\<lambda>_. DecryptionFailed) (seal_to c client_public server_secret nonce json)) (\<lambda>ciphertext.
     Ok (nonce, ciphertext)))"

definition open_server_info ::
  "nacl \<Rightarrow> node_key \<Rightarrow> secret_key \<Rightarrow> bytes \<Rightarrow> bytes \<Rightarrow> (handshake_error, server_info_payload) result" where
  "open_server_info c server_public client_secret nonce ciphertext =
     bind_res (map_err (\<lambda>_. DecryptionFailed) (open_from c server_public client_secret nonce ciphertext)) (\<lambda>plaintext.
     map_err InvalidPayload (nb_server_of_json c plaintext))"

section \<open>What the third-party code promises\<close>

text \<open>Both ends of a box derive the same shared key from their own secret and the other's public key, so what one
  seals the other opens; ciphertext is 16 bytes longer than its text; public keys have 32 bytes; and serde reads
  back what it wrote, in at most six bytes for a byte of a string.\<close>

definition wf_secret :: "secret_key \<Rightarrow> bool" where
  "wf_secret s \<longleftrightarrow> length (secret_bytes s) = KEY_LEN"

definition box_opens :: "nacl \<Rightarrow> bool" where
  "box_opens c \<longleftrightarrow>
     (\<forall>a b n m. length a = KEY_LEN \<and> length b = KEY_LEN \<and> length n = NONCE_LEN \<and> length m \<le> MAX_FRAME_BODY_LEN \<longrightarrow>
        (\<exists>x. nb_seal c (nb_public c b) a n m = Some x \<and> length x = length m + 16
           \<and> nb_open c (nb_public c a) b n x = Some m))
     \<and> (\<forall>a. length a = KEY_LEN \<longrightarrow> length (nb_public c a) = KEY_LEN)"

definition json_reads_back :: "nacl \<Rightarrow> bool" where
  "json_reads_back c \<longleftrightarrow>
     (\<forall>p. valid_str (cip_mesh_key p) \<longrightarrow>
        (\<exists>j. nb_client_json c p = Ok j \<and> nb_client_of_json c j = Ok p \<and> length j \<le> 100 + 6 * length (cip_mesh_key p)))
     \<and> (\<forall>p. \<exists>j. nb_server_json c p = Ok j \<and> nb_server_of_json c j = Ok p \<and> length j \<le> 120)"

lemma box_opensD:
  assumes "box_opens c" "wf_secret a" "wf_secret b" "length n = 24" "length m \<le> 1000"
  obtains x where "seal_to c (secret_public c b) a n m = Ok x" "length x = length m + 16"
    "open_from c (secret_public c a) b n x = Ok m"
proof -
  have "length m \<le> MAX_FRAME_BODY_LEN" using assms(5) by (simp add: MAX_FRAME_BODY_LEN_def)
  then obtain x where "nb_seal c (nb_public c (secret_bytes b)) (secret_bytes a) n m = Some x" "length x = length m + 16"
    "nb_open c (nb_public c (secret_bytes a)) (secret_bytes b) n x = Some m"
    using assms(1-4) unfolding box_opens_def wf_secret_def NONCE_LEN_def by blast
  then show thesis by (intro that [of x]) (simp_all add: seal_to_def open_from_def secret_public_def)
qed

lemma wf_secret_public: "box_opens c \<Longrightarrow> wf_secret s \<Longrightarrow> length (to_bytes (secret_public c s)) = 32"
  by (simp add: secret_public_def box_opens_def wf_secret_def KEY_LEN_def)

lemma client_info_roundtrip:
  assumes "box_opens c" "json_reads_back c" "wf_secret a" "wf_secret b" "length n = 24"
    and "valid_str (cip_mesh_key p)" "length (cip_mesh_key p) \<le> 150"
  obtains x where "make_client_info c n a (secret_public c b) p = Ok (secret_public c a, n, x)"
    "length x \<le> 116 + 6 * length (cip_mesh_key p)" "open_client_info c (secret_public c a) b n x = Ok p"
proof -
  obtain j where j: "nb_client_json c p = Ok j" "nb_client_of_json c j = Ok p" "length j \<le> 100 + 6 * length (cip_mesh_key p)"
    using assms(2,6) unfolding json_reads_back_def by blast
  then have "length j \<le> 1000" using assms(7) by simp
  with assms(1,3,4,5) obtain x where "seal_to c (secret_public c b) a n j = Ok x" "length x = length j + 16"
    "open_from c (secret_public c a) b n x = Ok j" by (rule box_opensD)
  with j show thesis by (intro that [of x]) (simp_all add: make_client_info_def open_client_info_def)
qed

lemma server_info_roundtrip:
  assumes "box_opens c" "json_reads_back c" "wf_secret b" "wf_secret a" "length n = 24"
  obtains x where "make_server_info c n b (secret_public c a) p = Ok (n, x)"
    "length x \<le> 136" "open_server_info c (secret_public c b) a n x = Ok p"
proof -
  obtain j where j: "nb_server_json c p = Ok j" "nb_server_of_json c j = Ok p" "length j \<le> 120"
    using assms(2) unfolding json_reads_back_def by blast
  then have "length j \<le> 1000" by simp
  with assms(1,3,4,5) obtain x where "seal_to c (secret_public c a) b n j = Ok x" "length x = length j + 16"
    "open_from c (secret_public c b) a n x = Ok j" by (rule box_opensD)
  with j show thesis by (intro that [of x]) (simp_all add: make_server_info_def open_server_info_def)
qed

section \<open>An instance\<close>

text \<open>A box without secrecy and a fixed layout for the payloads: the promises above can be kept together.\<close>

definition opt32 :: "u32 option \<Rightarrow> bytes" where
  "opt32 v = (case v of None \<Rightarrow> [0] | Some w \<Rightarrow> 1 # be32 w)"

fun un_opt32 :: "bytes \<Rightarrow> (u32 option \<times> bytes) option" where
  "un_opt32 (t # bs) =
     (if t = 0 then Some (None, bs)
      else case bs of a # b # c # d # r \<Rightarrow> Some (Some (un_be32 a b c d), r) | _ \<Rightarrow> None)"
| "un_opt32 [] = None"

definition plain_box :: nacl where
  "plain_box = \<lparr>nb_public = (\<lambda>s. s), nb_seal = (\<lambda>_ _ _ m. Some (replicate 16 0 @ m)),
     nb_open = (\<lambda>_ _ _ x. if length x < 16 then None else Some (drop 16 x)),
     nb_client_json = (\<lambda>p. Ok ((if cip_can_ack_pings p then 1 else 0) # (if cip_is_prober p then 1 else 0)
        # be32 (cip_version p) @ as_bytes (cip_mesh_key p))),
     nb_client_of_json = (\<lambda>j. case j of
        x # y # a # b # c # d # r \<Rightarrow>
          Ok \<lparr>cip_can_ack_pings = (x \<noteq> 0), cip_is_prober = (y \<noteq> 0), cip_mesh_key = of_bytes r, cip_version = un_be32 a b c d\<rparr>
      | _ \<Rightarrow> Err ''short''),
     nb_server_json = (\<lambda>p. Ok (be32 (sip_version p) @ opt32 (sip_token_bucket_bytes_per_second p)
        @ opt32 (sip_token_bucket_bytes_burst p))),
     nb_server_of_json = (\<lambda>j. case j of
        a # b # c # d # r \<Rightarrow> (case un_opt32 r of
           Some (rate, r') \<Rightarrow> (case un_opt32 r' of
              Some (burst, _) \<Rightarrow> Ok \<lparr>sip_version = un_be32 a b c d, sip_token_bucket_bytes_per_second = rate,
                 sip_token_bucket_bytes_burst = burst\<rparr>
            | None \<Rightarrow> Err ''short'')
         | None \<Rightarrow> Err ''short'')
      | _ \<Rightarrow> Err ''short'')\<rparr>"

lemma un_opt32_opt32 [simp]: "un_opt32 (opt32 v @ r) = Some (v, r)"
  by (cases v) (simp_all add: opt32_def be32_def)

lemma length_opt32: "length (opt32 v) \<le> 5"
  by (cases v) (simp_all add: opt32_def)

lemma plain_box_opens: "box_opens plain_box"
  by (simp add: box_opens_def plain_box_def)

lemma plain_box_json: "json_reads_back plain_box"
proof -
  have "length (opt32 v) + length (opt32 w) \<le> 116" for v w using length_opt32 [of v] length_opt32 [of w] by simp
  then show ?thesis
    using un_opt32_opt32 [of _ "[]"] by (simp add: json_reads_back_def plain_box_def be32_def [of "cip_version _"] be32_def [of "sip_version _"])
qed

end
