(* ===== verification/Derp_Relay.thy ===== *)
theory Derp_Relay
  imports Derp_Handshake
begin

text \<open>
  The relay core, \<^verbatim>\<open>crabscale-derp/src/server.rs\<close>: login, the registry of connections, packet routing, keepalives
  and presence notices. The tasks of the connections interleave at the registry's lock, so a run of the relay is a
  sequence of the steps they take while they hold it.
\<close>

definition DEFAULT_KEEPALIVE_INTERVAL :: nat where "DEFAULT_KEEPALIVE_INTERVAL = 60"
definition OUTBOUND_CAPACITY :: nat where "OUTBOUND_CAPACITY = 256"

section \<open>State\<close>

text \<open>The outbound channel of a connection (\<^verbatim>\<open>tokio::sync::mpsc\<close>): the frames it accepted, how many of them the writer
  task has taken, and whether the writer is gone. \<^verbatim>\<open>try_send\<close> fails on a full or closed channel.\<close>

record channel =
  ch_sent :: "frame list"
  ch_taken :: nat
  ch_closed :: bool

definition channel_new :: channel where
  "channel_new = \<lparr>ch_sent = [], ch_taken = 0, ch_closed = False\<rparr>"

definition accepts :: "channel \<Rightarrow> bool" where
  "accepts ch \<longleftrightarrow> \<not> ch_closed ch \<and> length (ch_sent ch) - ch_taken ch < OUTBOUND_CAPACITY"

definition try_send :: "frame \<Rightarrow> channel \<Rightarrow> channel" where
  "try_send f ch = (if accepts ch then ch\<lparr>ch_sent := ch_sent ch @ [f]\<rparr> else ch)"

record conn_entry =
  ce_node :: node_key
  ce_out :: channel

record relay =
  rl_secret :: secret_key
  rl_public :: node_key
  rl_by_key :: "node_key \<rightharpoonup> u64 set"
  rl_conns :: "u64 \<rightharpoonup> conn_entry"
  rl_next_id :: u64
  rl_keepalive :: "nat option"
  rl_verify :: "(node_key \<Rightarrow> bool) option"
  rl_packets_total :: u64
  rl_packets_dropped_total :: u64

definition relay_new :: "nacl \<Rightarrow> secret_key \<Rightarrow> relay" where
  "relay_new c server_secret =
     \<lparr>rl_secret = server_secret, rl_public = secret_public c server_secret, rl_by_key = Map.empty, rl_conns = Map.empty,
      rl_next_id = 1, rl_keepalive = None, rl_verify = None, rl_packets_total = 0, rl_packets_dropped_total = 0\<rparr>"

definition with_keepalive_interval :: "nat \<Rightarrow> relay \<Rightarrow> relay" where
  "with_keepalive_interval interval r = r\<lparr>rl_keepalive := Some interval\<rparr>"

definition with_verify :: "(node_key \<Rightarrow> bool) \<Rightarrow> relay \<Rightarrow> relay" where
  "with_verify verify r = r\<lparr>rl_verify := Some verify\<rparr>"

definition registered_nodes :: "relay \<Rightarrow> nat" where
  "registered_nodes r = card (dom (rl_by_key r))"

section \<open>Login\<close>

text \<open>Frames before \<^verbatim>\<open>ClientInfo\<close> are skipped; the end of the stream or a read error ends the connection.\<close>

function await_client_info :: "read_event list \<Rightarrow> (bytes \<times> read_event list) option" where
  "await_client_info reader =
     (case read_frame reader of
        (rest, Inr (Some frame)) \<Rightarrow>
          if f_ty frame = ClientInfo then Some (f_payload frame, rest)
          else await_client_info rest
      | _ \<Rightarrow> None)"
  by pat_completeness auto
termination by (relation "measure reader_size") (auto dest: read_frame_consumes [OF sym])

declare await_client_info.simps [simp del]

definition accept_client_info :: "nacl \<Rightarrow> relay \<Rightarrow> bytes \<Rightarrow> node_key option" where
  "accept_client_info c r body =
     (case client_info_decode_prefix body of
        Inl _ \<Rightarrow> None
      | Inr pre \<Rightarrow>
          (case open_client_info c (cib_key pre) (rl_secret r) (cib_nonce pre) (drop CLIENT_INFO_PREFIX_LEN body) of
             Inl _ \<Rightarrow> None
           | Inr payload \<Rightarrow>
               (case rl_verify r of
                  Some verify \<Rightarrow> if \<not> verify (cib_key pre) then None else Some (cib_key pre)
                | None \<Rightarrow> Some (cib_key pre))))"

definition server_key_frame :: "relay \<Rightarrow> frame" where
  "server_key_frame r = frame_new ServerKey (server_key_encode \<lparr>skb_key = rl_public r\<rparr>)"

definition server_info_frame :: "nacl \<Rightarrow> bytes \<Rightarrow> relay \<Rightarrow> node_key \<Rightarrow> frame option" where
  "server_info_frame c nonce r node_key =
     (case make_server_info c nonce (rl_secret r) node_key (server_info_payload_default\<lparr>sip_version := PROTOCOL_VERSION\<rparr>) of
        Inl _ \<Rightarrow> None
      | Inr (nonce, ciphertext) \<Rightarrow>
          Some (frame_new ServerInfo (server_info_encode_prefix \<lparr>sib_nonce = nonce\<rparr> @ ciphertext)))"

text \<open>The part of \<^verbatim>\<open>run_conn\<close> before the client is registered: the bytes it writes, and the node key with the rest of
  the stream when the client is admitted. The first two arguments say whether the two writes reach the peer.\<close>

definition relay_login ::
  "bool \<Rightarrow> bool \<Rightarrow> nacl \<Rightarrow> bytes \<Rightarrow> relay \<Rightarrow> read_event list \<Rightarrow> bytes \<times> (node_key \<times> read_event list) option" where
  "relay_login w1 w2 c nonce r reader =
     (case write_frame (server_key_frame r) of
        Inl _ \<Rightarrow> ([], None)
      | Inr hello \<Rightarrow>
          if \<not> w1 then ([], None)
          else case await_client_info reader of
            None \<Rightarrow> (hello, None)
          | Some (client, rest) \<Rightarrow>
              (case accept_client_info c r client of
                 None \<Rightarrow> (hello, None)
               | Some node_key \<Rightarrow>
                   (case server_info_frame c nonce r node_key of
                      None \<Rightarrow> (hello, None)
                    | Some info \<Rightarrow>
                        (case write_frame info of
                           Inl _ \<Rightarrow> (hello, None)
                         | Inr reply \<Rightarrow> if \<not> w2 then (hello, None) else (hello @ reply, Some (node_key, rest))))))"

section \<open>The registry\<close>

definition push :: "frame \<Rightarrow> conn_entry \<Rightarrow> conn_entry" where
  "push f e = e\<lparr>ce_out := try_send f (ce_out e)\<rparr>"

definition broadcast :: "frame \<Rightarrow> (u64 \<rightharpoonup> conn_entry) \<Rightarrow> (u64 \<rightharpoonup> conn_entry)" where
  "broadcast f conns = (\<lambda>i. map_option (push f) (conns i))"

definition push_to :: "u64 set \<Rightarrow> frame \<Rightarrow> (u64 \<rightharpoonup> conn_entry) \<Rightarrow> (u64 \<rightharpoonup> conn_entry)" where
  "push_to targets f conns = (\<lambda>i. if i \<in> targets then map_option (push f) (conns i) else conns i)"

definition present_frame :: "node_key \<Rightarrow> frame" where
  "present_frame node = frame_new PeerPresent (peer_present_encode (peer_present_new node (peer_present_flag_code Regular)))"

definition gone_frame :: "node_key \<Rightarrow> peer_gone_reason \<Rightarrow> frame" where
  "gone_frame node reason = frame_new PeerGone (peer_gone_encode \<lparr>pgb_key = node, pgb_reason = reason\<rparr>)"

text \<open>\<^verbatim>\<open>peers\<close> are the keys of \<^verbatim>\<open>by_key\<close> in the order of the hash map's iterator.\<close>

fun snapshot :: "node_key \<Rightarrow> node_key list \<Rightarrow> node_key set \<Rightarrow> channel \<Rightarrow> channel" where
  "snapshot node [] announced out = out"
| "snapshot node (peer # peers) announced out =
     (if peer \<noteq> node \<and> peer \<notin> announced
      then snapshot node peers (insert peer announced) (try_send (present_frame peer) out)
      else snapshot node peers announced out)"

definition relay_register :: "node_key \<Rightarrow> node_key list \<Rightarrow> relay \<Rightarrow> u64 \<times> relay" where
  "relay_register node peers r =
     (let cid = rl_next_id r;
          conns = broadcast (present_frame node) (rl_conns r);
          out = snapshot node peers {} channel_new;
          ids = (case rl_by_key r node of None \<Rightarrow> {} | Some ids \<Rightarrow> ids) in
      (cid, r\<lparr>rl_next_id := cid + 1, rl_by_key := (rl_by_key r)(node \<mapsto> insert cid ids),
             rl_conns := conns(cid \<mapsto> \<lparr>ce_node = node, ce_out = out\<rparr>)\<rparr>))"

definition deregister :: "u64 \<Rightarrow> relay \<Rightarrow> relay" where
  "deregister cid r =
     (case rl_conns r cid of
        None \<Rightarrow> r
      | Some entry \<Rightarrow>
          let node = ce_node entry; conns = (rl_conns r)(cid := None) in
          (case rl_by_key r node of
             None \<Rightarrow> r\<lparr>rl_conns := conns\<rparr>
           | Some ids \<Rightarrow>
               if ids - {cid} = {}
               then r\<lparr>rl_by_key := (rl_by_key r)(node := None), rl_conns := broadcast (gone_frame node Disconnected) conns\<rparr>
               else r\<lparr>rl_by_key := (rl_by_key r)(node \<mapsto> ids - {cid}), rl_conns := conns\<rparr>))"

definition recv_frame :: "node_key \<Rightarrow> bytes \<Rightarrow> frame" where
  "recv_frame src packet = frame_new RecvPacket (recv_packet_encode_prefix \<lparr>rpb_src = src\<rparr> @ packet)"

definition count_dropped :: "relay \<Rightarrow> relay" where
  "count_dropped r = r\<lparr>rl_packets_dropped_total := rl_packets_dropped_total r + 1\<rparr>"

definition count_relayed :: "relay \<Rightarrow> relay" where
  "count_relayed r = r\<lparr>rl_packets_total := rl_packets_total r + 1\<rparr>"

definition delivered_to :: "u64 set \<Rightarrow> (u64 \<rightharpoonup> conn_entry) \<Rightarrow> bool" where
  "delivered_to targets conns \<longleftrightarrow>
     (\<exists>i \<in> targets. case conns i of None \<Rightarrow> False | Some e \<Rightarrow> accepts (ce_out e))"

definition route_send_packet :: "u64 \<Rightarrow> node_key \<Rightarrow> bytes \<Rightarrow> relay \<Rightarrow> relay" where
  "route_send_packet from dest packet r =
     (if length packet > MAX_PACKET_PAYLOAD_LEN then count_dropped r
      else case rl_conns r from of
        None \<Rightarrow> r
      | Some sender \<Rightarrow>
          let src = ce_node sender;
              targets = (case rl_by_key r dest of None \<Rightarrow> {} | Some ids \<Rightarrow> ids) in
          if targets = {}
          then count_dropped (r\<lparr>rl_conns := push_to {from} (gone_frame dest NotHere) (rl_conns r)\<rparr>)
          else let r' = r\<lparr>rl_conns := push_to targets (recv_frame src packet) (rl_conns r)\<rparr> in
            if delivered_to targets (rl_conns r) then count_relayed r' else count_dropped r')"

definition send_keepalive :: "u64 \<Rightarrow> relay \<Rightarrow> relay" where
  "send_keepalive cid r = r\<lparr>rl_conns := push_to {cid} (frame_new KeepAlive []) (rl_conns r)\<rparr>"

definition handle_data_frame :: "u64 \<Rightarrow> frame \<Rightarrow> relay \<Rightarrow> bool \<times> relay" where
  "handle_data_frame cid frame r =
     (case f_ty frame of
        SendPacket \<Rightarrow>
          (case send_packet_decode_prefix (f_payload frame) of
             Inl _ \<Rightarrow> (True, r)
           | Inr body \<Rightarrow>
               (True, route_send_packet cid (spb_dest body) (drop SEND_PACKET_PREFIX_LEN (f_payload frame)) r))
      | Pong \<Rightarrow> (True, r)
      | ForwardPacket \<Rightarrow> (True, r)
      | WatchConns \<Rightarrow> (True, r)
      | PeerPresent \<Rightarrow> (True, r)
      | PeerGone \<Rightarrow> (True, r)
      | Ping \<Rightarrow> (False, r)
      | _ \<Rightarrow> (False, r))"

section \<open>Runs\<close>

text \<open>A connection arrives (with what its stream delivers during login and the iteration order of the hash map), a
  frame is read from a connection, a connection ends, its keepalive timer ticks, its writer task takes a frame or
  fails.\<close>

datatype relay_op =
    Connect bool bool bytes "read_event list" "node_key list"
  | Receive u64 frame
  | Hangup u64
  | Tick u64
  | WriterTakes u64
  | WriterFails u64

definition on_channel :: "u64 \<Rightarrow> (channel \<Rightarrow> channel) \<Rightarrow> relay \<Rightarrow> relay" where
  "on_channel cid f r =
     r\<lparr>rl_conns := (\<lambda>i. if i = cid then map_option (\<lambda>e. e\<lparr>ce_out := f (ce_out e)\<rparr>) (rl_conns r i) else rl_conns r i)\<rparr>"

definition writer_take :: "channel \<Rightarrow> channel" where
  "writer_take ch = (if ch_taken ch < length (ch_sent ch) \<and> \<not> ch_closed ch then ch\<lparr>ch_taken := ch_taken ch + 1\<rparr> else ch)"

definition writer_fail :: "channel \<Rightarrow> channel" where
  "writer_fail ch = ch\<lparr>ch_closed := True\<rparr>"

fun relay_step :: "nacl \<Rightarrow> relay_op \<Rightarrow> relay \<Rightarrow> relay" where
  "relay_step c (Connect w1 w2 nonce reader peers) r =
     (case snd (relay_login w1 w2 c nonce r reader) of
        None \<Rightarrow> r
      | Some (node, _) \<Rightarrow> snd (relay_register node peers r))"
| "relay_step c (Receive cid frame) r =
     (let (go_on, r') = handle_data_frame cid frame r in if go_on then r' else deregister cid r')"
| "relay_step c (Hangup cid) r = deregister cid r"
| "relay_step c (Tick cid) r = (if rl_keepalive r = None then r else send_keepalive cid r)"
| "relay_step c (WriterTakes cid) r = on_channel cid writer_take r"
| "relay_step c (WriterFails cid) r = on_channel cid writer_fail r"

fun relay_run :: "nacl \<Rightarrow> relay_op list \<Rightarrow> relay \<Rightarrow> relay" where
  "relay_run c [] r = r"
| "relay_run c (op # ops) r = relay_run c ops (relay_step c op r)"

end
