(* ===== verification/Derp_Client.thy ===== *)
theory Derp_Client
  imports Derp_Relay
begin

text \<open>
  The minimal DERP client, \<^verbatim>\<open>crabscale-derp/src/client.rs\<close>: the client's half of the login handshake and the receive
  loops that skip control frames. A panic is an error value of its own; \<^verbatim>\<open>debug\<close> says whether debug assertions are
  compiled in.
\<close>

datatype client_error = ClientIo io_error | UnexpectedFrame frame_type | ClientPanic string

record client =
  cl_reader :: "read_event list"
  cl_node_key :: node_key
  cl_server_public :: node_key

section \<open>Connecting\<close>

definition client_hello :: client_info_payload where
  "client_hello = client_info_payload_default\<lparr>cip_can_ack_pings := True, cip_version := PROTOCOL_VERSION\<rparr>"

definition client_info_frame :: "node_key \<Rightarrow> bytes \<Rightarrow> bytes \<Rightarrow> frame" where
  "client_info_frame node_key nonce ciphertext =
     frame_new ClientInfo (client_info_encode_prefix \<lparr>cib_key = node_key, cib_nonce = nonce\<rparr> @ ciphertext)"

text \<open>Step 3, after \<^verbatim>\<open>ClientInfo\<close> is sent.\<close>

definition finish_connect ::
  "bool \<Rightarrow> nacl \<Rightarrow> secret_key \<Rightarrow> node_key \<Rightarrow> node_key \<Rightarrow> read_event list \<Rightarrow> (client_error, client) result" where
  "finish_connect debug c client_secret node_key server_public reader =
     (case read_frame reader of
        (reader, Inr (Some info_frame)) \<Rightarrow>
          if debug \<and> f_ty info_frame \<noteq> ServerInfo then Err (ClientPanic ''assertion failed'')
          else (case server_info_decode_prefix (f_payload info_frame) of
             Inl _ \<Rightarrow> Err (ClientPanic ''unwrap'')
           | Inr pre \<Rightarrow>
               (case open_server_info c server_public client_secret (sib_nonce pre)
                       (drop SERVER_INFO_PREFIX_LEN (f_payload info_frame)) of
                  Inl _ \<Rightarrow> Err (ClientPanic ''failed to open ServerInfo'')
                | Inr info \<Rightarrow>
                    if debug \<and> \<not> sip_version info \<ge> PROTOCOL_VERSION then Err (ClientPanic ''assertion failed'')
                    else Ok \<lparr>cl_reader = reader, cl_node_key = node_key, cl_server_public = server_public\<rparr>))
      | _ \<Rightarrow> Err (ClientPanic ''stream ended before ServerInfo''))"

text \<open>The bytes written, and the connected client. \<^verbatim>\<open>w\<close> says whether the write of \<^verbatim>\<open>ClientInfo\<close> succeeds.\<close>

definition connect_halves ::
  "bool \<Rightarrow> bool \<Rightarrow> nacl \<Rightarrow> bytes \<Rightarrow> secret_key \<Rightarrow> read_event list \<Rightarrow> bytes \<times> (client_error, client) result" where
  "connect_halves debug w c nonce client_secret reader =
     (case read_frame reader of
        (reader, Inr (Some key_frame)) \<Rightarrow>
          if debug \<and> f_ty key_frame \<noteq> ServerKey then ([], Err (ClientPanic ''assertion failed''))
          else (case server_key_decode (f_payload key_frame) of
             Inl _ \<Rightarrow> ([], Err (ClientPanic ''server sent an invalid ServerKey''))
           | Inr server_key_body \<Rightarrow>
               let server_public = skb_key server_key_body in
               (case make_client_info c nonce client_secret server_public client_hello of
                  Inl _ \<Rightarrow> ([], Err (ClientPanic ''unwrap''))
                | Inr (node_key, nonce, ciphertext) \<Rightarrow>
                    (case write_frame (client_info_frame node_key nonce ciphertext) of
                       Inl _ \<Rightarrow> ([], Err (ClientPanic ''failed to send ClientInfo''))
                     | Inr bytes \<Rightarrow>
                         if \<not> w then ([], Err (ClientPanic ''failed to send ClientInfo''))
                         else (bytes, finish_connect debug c client_secret node_key server_public reader))))
      | _ \<Rightarrow> ([], Err (ClientPanic ''stream ended before ServerKey'')))"

section \<open>Sending and receiving\<close>

definition client_send_packet :: "node_key \<Rightarrow> bytes \<Rightarrow> (io_error, bytes) result" where
  "client_send_packet dest packet =
     write_frame (frame_new SendPacket (send_packet_encode_prefix \<lparr>spb_dest = dest\<rparr> @ packet))"

definition stream_ended :: client_error where
  "stream_ended = ClientIo (UnexpectedEof ''DERP stream ended'')"

text \<open>\<^verbatim>\<open>next\<close>: a frame, an error, or the end of the stream.\<close>

definition client_next :: "read_event list \<Rightarrow> read_event list \<times> (io_error, frame) result option" where
  "client_next reader =
     (case read_frame reader of
        (rest, Inl e) \<Rightarrow> (rest, Some (Err e))
      | (rest, Inr None) \<Rightarrow> (rest, None)
      | (rest, Inr (Some f)) \<Rightarrow> (rest, Some (Ok f)))"

lemma client_next_consumes: "client_next r = (r', Some (Inr f)) \<Longrightarrow> reader_size r' < reader_size r"
  by (auto simp: client_next_def split: prod.splits sum.splits option.splits dest: read_frame_consumes)

text \<open>The frames the client skips while it waits for a packet.\<close>

definition informational :: "frame_type \<Rightarrow> bool" where
  "informational ty \<longleftrightarrow>
     ty \<in> {KeepAlive, PeerGone, PeerPresent, NotePreferred, Health, ServerKey, ServerInfo, Restarting}"

text \<open>Copying a slice of another length into the eight-byte array of a \<^verbatim>\<open>Pong\<close> panics, so a shorter \<^verbatim>\<open>Ping\<close> ends in a
  panic. The writes go to \<^verbatim>\<open>out\<close>; the first argument says whether they succeed.\<close>

function recv_packet ::
  "bool \<Rightarrow> read_event list \<Rightarrow> bytes \<Rightarrow> read_event list \<times> bytes \<times> (client_error, node_key \<times> bytes) result" where
  "recv_packet w reader out =
     (case client_next reader of
        (rest, None) \<Rightarrow> (rest, out, Err stream_ended)
      | (rest, Some (Inl e)) \<Rightarrow> (rest, out, Err (ClientIo e))
      | (rest, Some (Inr frame)) \<Rightarrow>
          if f_ty frame = RecvPacket then
            (rest, out, (case recv_packet_decode_prefix (f_payload frame) of
               Inl e \<Rightarrow> Err (ClientIo (InvalidData e))
             | Inr body \<Rightarrow> Ok (rpb_src body, drop RECV_PACKET_PREFIX_LEN (f_payload frame))))
          else if f_ty frame = Ping then
            if length (take 8 (f_payload frame)) \<noteq> 8 then (rest, out, Err (ClientPanic ''copy_from_slice''))
            else (case write_frame (frame_new Pong (pong_encode \<lparr>pob_payload = take 8 (f_payload frame)\<rparr>)) of
               Inl e \<Rightarrow> (rest, out, Err (ClientIo e))
             | Inr bytes \<Rightarrow> if w then recv_packet w rest (out @ bytes) else (rest, out, Err (ClientIo IoError)))
          else if informational (f_ty frame) then recv_packet w rest out
          else (rest, out, Err (UnexpectedFrame (f_ty frame))))"
  by pat_completeness auto
termination by (relation "measure (\<lambda>(_, r, _). reader_size r)") (auto dest: client_next_consumes [OF sym])

declare recv_packet.simps [simp del]

text \<open>The three waiting loops skip every frame of another type.\<close>

function recv_until ::
  "frame_type \<Rightarrow> (bytes \<Rightarrow> (frame_error, 'a) result) \<Rightarrow> read_event list \<Rightarrow> read_event list \<times> (client_error, 'a) result" where
  "recv_until ty decode reader =
     (case client_next reader of
        (rest, None) \<Rightarrow> (rest, Err stream_ended)
      | (rest, Some (Inl e)) \<Rightarrow> (rest, Err (ClientIo e))
      | (rest, Some (Inr frame)) \<Rightarrow>
          if f_ty frame = ty then (rest, map_err (\<lambda>e. ClientIo (InvalidData e)) (decode (f_payload frame)))
          else recv_until ty decode rest)"
  by pat_completeness auto
termination by (relation "measure (\<lambda>(_, _, r). reader_size r)") (auto dest: client_next_consumes [OF sym])

declare recv_until.simps [simp del]

definition recv_peer_gone :: "read_event list \<Rightarrow> read_event list \<times> (client_error, node_key \<times> peer_gone_reason) result" where
  "recv_peer_gone = recv_until PeerGone (\<lambda>p. bind_res (peer_gone_decode p) (\<lambda>b. Ok (pgb_key b, pgb_reason b)))"

definition recv_peer_present :: "read_event list \<Rightarrow> read_event list \<times> (client_error, node_key) result" where
  "recv_peer_present = recv_until PeerPresent (\<lambda>p. bind_res (peer_present_decode p) (\<lambda>b. Ok (ppb_key b)))"

definition recv_note_preferred :: "read_event list \<Rightarrow> read_event list \<times> (client_error, note_preferred_body) result" where
  "recv_note_preferred = recv_until NotePreferred note_preferred_decode"

section \<open>Login completes\<close>

lemma await_client_info_wire:
  assumes "all_data r" "content r = wire (ClientInfo, p) @ rest" "fits (ClientInfo, p)"
  obtains r' where "await_client_info r = Some (p, r')" "all_data r'" "content r' = rest"
proof -
  obtain r' where r': "read_frame r = (r', Ok (Some (frame_new ClientInfo p)))" "all_data r'" "content r' = rest"
    using assms by (rule read_frame_wire)
  then show thesis using that [of r'] by (simp add: await_client_info.simps [of r] frame_new_def)
qed

lemma server_key_frame_fits [simp]:
  "length (to_bytes (rl_public r)) = 32 \<Longrightarrow> length (f_payload (server_key_frame r)) = 40"
  by (simp add: server_key_frame_def frame_new_def server_key_encode_def)

lemma relay_login_hello:
  assumes "length (to_bytes (rl_public r)) = 32"
  obtains tl1 where "fst (relay_login True True c n r reader)
    = wire (ServerKey, server_key_encode \<lparr>skb_key = rl_public r\<rparr>) @ tl1"
proof -
  have "fits (ServerKey, server_key_encode \<lparr>skb_key = rl_public r\<rparr>)"
    using assms by (simp add: fits_def server_key_encode_def MAX_FRAME_BODY_LEN_def)
  then have "write_frame (server_key_frame r) = Ok (wire (ServerKey, server_key_encode \<lparr>skb_key = rl_public r\<rparr>))"
    by (simp add: write_frame_wire server_key_frame_def frame_new_def)
  then have "\<exists>tl1. fst (relay_login True True c n r reader) = wire (ServerKey, server_key_encode \<lparr>skb_key = rl_public r\<rparr>) @ tl1"
    by (auto simp: relay_login_def split: option.split sum.split)
  then show thesis using that by blast
qed

lemma relay_login_answers:
  assumes c: "box_opens c" "json_reads_back c" and r: "rl_public r = secret_public c (rl_secret r)"
    and wf: "wf_secret (rl_secret r)" "wf_secret a"
    and n: "length n = 24" "length n' = 24" and v: "\<forall>v. rl_verify r = Some v \<longrightarrow> v (secret_public c a)"
    and x: "make_client_info c n' a (rl_public r) client_hello = Ok (secret_public c a, n', x)" "length x \<le> 116"
      "open_client_info c (secret_public c a) (rl_secret r) n' x = Ok client_hello"
    and rd: "all_data reader"
      "content reader = wire (ClientInfo, client_info_encode_prefix \<lparr>cib_key = secret_public c a, cib_nonce = n'\<rparr> @ x) @ rest"
  obtains y reader' where
    "relay_login True True c n r reader =
      (wire (ServerKey, server_key_encode \<lparr>skb_key = rl_public r\<rparr>) @ wire (ServerInfo, n @ y), Some (secret_public c a, reader'))"
    "all_data reader'" "content reader' = rest" "length y \<le> 136"
    "open_server_info c (rl_public r) a n y = Ok server_info_payload_default"
proof -
  let ?k = "secret_public c a" and ?s = "wire (ServerKey, server_key_encode \<lparr>skb_key = rl_public r\<rparr>)"
  let ?b = "client_info_encode_prefix \<lparr>cib_key = ?k, cib_nonce = n'\<rparr> @ x"
  have k: "length (to_bytes ?k) = 32" "length (to_bytes (rl_public r)) = 32" using c r wf by (simp_all add: wf_secret_public)
  have "fits (ClientInfo, ?b)" using x(2) n k by (simp add: fits_def client_info_encode_prefix_def MAX_FRAME_BODY_LEN_def)
  with rd obtain reader' where reader': "await_client_info reader = Some (?b, reader')" "all_data reader'" "content reader' = rest"
    by (rule await_client_info_wire)
  have acc: "accept_client_info c r ?b = Some ?k"
    using v x(3) k n by (auto simp: accept_client_info_def client_info_decode_prefix_def client_info_encode_prefix_def
        KEY_LEN_def split: option.split)
  obtain y where y: "make_server_info c n (rl_secret r) ?k server_info_payload_default = Ok (n, y)" "length y \<le> 136"
    "open_server_info c (secret_public c (rl_secret r)) a n y = Ok server_info_payload_default"
    using c wf n(1) by (rule server_info_roundtrip)
  have "server_info_payload_default\<lparr>sip_version := PROTOCOL_VERSION\<rparr> = server_info_payload_default"
    by (simp add: server_info_payload_default_def)
  with y have info: "server_info_frame c n r ?k = Some (frame_new ServerInfo (n @ y))"
    by (simp add: server_info_frame_def server_info_encode_prefix_def)
  have "write_frame (server_key_frame r) = Ok ?s"
    using k by (simp add: write_frame_wire server_key_frame_def frame_new_def fits_def server_key_encode_def MAX_FRAME_BODY_LEN_def)
  moreover have "write_frame (frame_new ServerInfo (n @ y)) = Ok (wire (ServerInfo, n @ y))"
    using y(2) n by (simp add: write_frame_wire frame_new_def fits_def MAX_FRAME_BODY_LEN_def)
  ultimately have "relay_login True True c n r reader = (?s @ wire (ServerInfo, n @ y), Some (?k, reader'))"
    using reader'(1) acc info by (simp add: relay_login_def)
  then show thesis by (rule that) (use reader'(2,3) y r in auto)
qed

lemma server_key_decode_encode': "length (to_bytes k) = 32 \<Longrightarrow> server_key_decode (server_key_encode \<lparr>skb_key = k\<rparr>) = Ok \<lparr>skb_key = k\<rparr>"
  by (simp add: server_key_decode_def server_key_encode_def)

lemma hello_made:
  assumes "box_opens c" "json_reads_back c" "wf_secret a" "wf_secret s" "length n = 24"
  obtains x where "make_client_info c n a (secret_public c s) client_hello = Ok (secret_public c a, n, x)"
    "length x \<le> 116" "open_client_info c (secret_public c a) s n x = Ok client_hello"
proof -
  have m: "cip_mesh_key client_hello = []" by (simp add: client_hello_def client_info_payload_default_def)
  then have "valid_str (cip_mesh_key client_hello)" "length (cip_mesh_key client_hello) \<le> 150"
    by (simp_all add: valid_str_def as_bytes_def)
  with assms obtain x where "make_client_info c n a (secret_public c s) client_hello = Ok (secret_public c a, n, x)"
      "length x \<le> 116 + 6 * length (cip_mesh_key client_hello)" "open_client_info c (secret_public c a) s n x = Ok client_hello"
    by (rule client_info_roundtrip)
  then show thesis using that m by simp
qed

text \<open>The client's message depends on the relay's first frame only.\<close>

lemma connect_writes:
  assumes k: "length (to_bytes (secret_public c a)) = 32" "length (to_bytes server) = 32" "length n = 24"
    and x: "make_client_info c n a server client_hello = Ok (secret_public c a, n, x)" "length x \<le> 116"
    and rc: "all_data rc" "content rc = wire (ServerKey, server_key_encode \<lparr>skb_key = server\<rparr>) @ tl1"
  obtains rc1 where "connect_halves debug True c n a rc
      = (wire (ClientInfo, client_info_encode_prefix \<lparr>cib_key = secret_public c a, cib_nonce = n\<rparr> @ x),
         finish_connect debug c a (secret_public c a) server rc1)"
    "all_data rc1" "content rc1 = tl1"
proof -
  let ?sk = "server_key_encode \<lparr>skb_key = server\<rparr>" and ?k = "secret_public c a"
  have "fits (ServerKey, ?sk)" using k by (simp add: fits_def server_key_encode_def MAX_FRAME_BODY_LEN_def)
  with rc obtain rc1 where rc1: "read_frame rc = (rc1, Ok (Some (frame_new ServerKey ?sk)))" "all_data rc1" "content rc1 = tl1"
    by (rule read_frame_wire)
  have "fits (ClientInfo, client_info_encode_prefix \<lparr>cib_key = ?k, cib_nonce = n\<rparr> @ x)"
    using x(2) k by (simp add: fits_def client_info_encode_prefix_def MAX_FRAME_BODY_LEN_def)
  then have "connect_halves debug True c n a rc = (wire (ClientInfo, client_info_encode_prefix \<lparr>cib_key = ?k, cib_nonce = n\<rparr> @ x),
      finish_connect debug c a ?k server rc1)"
    using rc1(1) server_key_decode_encode' [OF k(2)] x(1)
    by (simp add: connect_halves_def Let_def client_info_frame_def write_frame_wire frame_new_def)
  then show thesis using rc1(2,3) by (rule that)
qed

definition sample_secret :: "byte \<Rightarrow> secret_key" where
  "sample_secret b = SecretKey (replicate 32 b)"

definition sample_nonce :: bytes where
  "sample_nonce = replicate 24 7"

lemma sample_nonce_length: "length sample_nonce = 24"
  by (simp add: sample_nonce_def)

lemma sample_secret_wf [simp]: "wf_secret (sample_secret b)"
  by (simp add: wf_secret_def sample_secret_def KEY_LEN_def)

definition sample_relay :: relay where
  "sample_relay = relay_new plain_box (sample_secret 1)"

definition sample_info :: "byte \<Rightarrow> bytes" where
  "sample_info b = client_info_encode_prefix \<lparr>cib_key = NodeKey (replicate 32 b), cib_nonce = sample_nonce\<rparr>
     @ replicate 16 0 @ [1, 0, 0, 0, 0, 2]"

lemma sample_hello:
  "make_client_info plain_box sample_nonce (sample_secret b) k client_hello
     = Ok (NodeKey (replicate 32 b), sample_nonce, replicate 16 0 @ [1, 0, 0, 0, 0, 2])"
  by (simp add: make_client_info_def plain_box_def client_hello_def client_info_payload_default_def seal_to_def
      secret_public_def sample_secret_def as_bytes_def be32_def PROTOCOL_VERSION_def)

lemma sample_public: "secret_public plain_box (sample_secret b) = NodeKey (replicate 32 b)"
  by (simp add: secret_public_def plain_box_def sample_secret_def)

lemma sample_relay_simps [simp]:
  "rl_secret sample_relay = sample_secret 1" "rl_public sample_relay = NodeKey (replicate 32 1)"
  "rl_verify sample_relay = None" "length sample_nonce = 24"
  by (simp_all add: sample_relay_def relay_new_def sample_public sample_nonce_def)

text \<open>
  C25. Login completes on both ends. When the client's stream delivers what the relay writes and the relay's stream
  what the client writes, in pieces of any size, the relay admits the client under the client's own public key (unless
  its admission check refuses that key), and the client is connected to the relay's public key; both go on reading
  exactly after the handshake. That \<^verbatim>\<open>crypto_box\<close> opens what it sealed and the JSON codec reads back what it wrote are
  hypotheses.
\<close>

theorem login_completes:
  assumes c: "box_opens c" "json_reads_back c" and r: "rl_public r = secret_public c (rl_secret r)"
    and wf: "wf_secret (rl_secret r)" "wf_secret a"
    and n: "length n = 24" "length n' = 24" and v: "\<forall>v. rl_verify r = Some v \<longrightarrow> v (secret_public c a)"
    and rr: "all_data rr" "content rr = fst (connect_halves debug True c n' a rc) @ rest"
    and rc: "all_data rc" "content rc = fst (relay_login True True c n r rr) @ rest'"
  shows "(\<exists>rr'. snd (relay_login True True c n r rr) = Some (secret_public c a, rr') \<and> all_data rr' \<and> content rr' = rest)
     \<and> (\<exists>rc'. snd (connect_halves debug True c n' a rc)
          = Ok \<lparr>cl_reader = rc', cl_node_key = secret_public c a, cl_server_public = rl_public r\<rparr> \<and> all_data rc' \<and> content rc' = rest')"
proof -
  let ?k = "secret_public c a" and ?sk = "server_key_encode \<lparr>skb_key = rl_public r\<rparr>"
  have k: "length (to_bytes ?k) = 32" "length (to_bytes (rl_public r)) = 32" using c r wf by (simp_all add: wf_secret_public)
  obtain tl1 where "fst (relay_login True True c n r rr) = wire (ServerKey, ?sk) @ tl1"
    using k(2) by (rule relay_login_hello)
  with rc(2) have tl1: "content rc = wire (ServerKey, ?sk) @ (tl1 @ rest')" by simp
  obtain x where "make_client_info c n' a (secret_public c (rl_secret r)) client_hello = Ok (?k, n', x)" and x': "length x \<le> 116"
    and x'': "open_client_info c ?k (rl_secret r) n' x = Ok client_hello"
    using c wf(2,1) n(2) by (rule hello_made)
  then have x: "make_client_info c n' a (rl_public r) client_hello = Ok (?k, n', x)" using r by simp
  let ?b = "client_info_encode_prefix \<lparr>cib_key = ?k, cib_nonce = n'\<rparr> @ x"
  obtain rc1 where conn: "connect_halves debug True c n' a rc = (wire (ClientInfo, ?b), finish_connect debug c a ?k (rl_public r) rc1)"
    and rc1: "all_data rc1" "content rc1 = tl1 @ rest'"
    using k n(2) x x' rc(1) tl1 by (rule connect_writes)
  with rr have "content rr = wire (ClientInfo, ?b) @ rest" by simp
  from relay_login_answers [OF c r wf n v x x' x'' rr(1) this] obtain y rr' where
    login: "relay_login True True c n r rr = (wire (ServerKey, ?sk) @ wire (ServerInfo, n @ y), Some (?k, rr'))"
    and rr': "all_data rr'" "content rr' = rest"
    and y: "length y \<le> 136" "open_server_info c (rl_public r) a n y = Ok server_info_payload_default" .
  have "content rc1 = wire (ServerInfo, n @ y) @ rest'" using rc(2) login rc1(2) tl1 by simp
  moreover have "fits (ServerInfo, n @ y)" using y n by (simp add: fits_def MAX_FRAME_BODY_LEN_def)
  ultimately obtain rc' where rc': "read_frame rc1 = (rc', Ok (Some (frame_new ServerInfo (n @ y))))" "all_data rc'" "content rc' = rest'"
    by (rule read_frame_wire [OF rc1(1)])
  have "finish_connect debug c a ?k (rl_public r) rc1 = Ok \<lparr>cl_reader = rc', cl_node_key = ?k, cl_server_public = rl_public r\<rparr>"
    using rc'(1) y n by (simp add: finish_connect_def frame_new_def server_info_decode_prefix_def server_info_payload_default_def)
  then show ?thesis using conn login rr' rc' by simp
qed

theorem login_completes_witness:
  "\<exists>rr rc rr' rc'. all_data rr \<and> all_data rc
     \<and> snd (relay_login True True plain_box sample_nonce sample_relay rr) = Some (NodeKey (replicate 32 2), rr')
     \<and> snd (connect_halves True True plain_box sample_nonce (sample_secret 2) rc)
         = Ok \<lparr>cl_reader = rc', cl_node_key = NodeKey (replicate 32 2), cl_server_public = NodeKey (replicate 32 1)\<rparr>"
proof -
  define rr where "rr = [Data (wire (ClientInfo, sample_info 2))]"
  define rc where "rc = [Data (fst (relay_login True True plain_box sample_nonce sample_relay rr))]"
  obtain tl1 where tl1: "fst (relay_login True True plain_box sample_nonce sample_relay rr)
      = wire (ServerKey, server_key_encode \<lparr>skb_key = NodeKey (replicate 32 1)\<rparr>) @ tl1"
    by (rule relay_login_hello [of sample_relay plain_box sample_nonce rr]) auto
  then have rc: "all_data rc" "content rc = wire (ServerKey, server_key_encode \<lparr>skb_key = NodeKey (replicate 32 1)\<rparr>) @ tl1"
    by (auto simp: rc_def wire_def frame_header_encode_def)
  have hello: "make_client_info plain_box sample_nonce (sample_secret 2) (NodeKey (replicate 32 1)) client_hello
      = Ok (secret_public plain_box (sample_secret 2), sample_nonce, replicate 16 0 @ [1, 0, 0, 0, 0, 2])"
    by (simp add: sample_hello sample_public)
  have "fst (connect_halves True True plain_box sample_nonce (sample_secret 2) rc) = wire (ClientInfo, sample_info 2)"
    by (rule connect_writes [where debug = True, OF _ _ _ hello _ rc]) (simp_all add: sample_public sample_info_def)
  then have rr: "all_data rr" "content rr = fst (connect_halves True True plain_box sample_nonce (sample_secret 2) rc) @ []"
    by (auto simp: rr_def wire_def frame_header_encode_def)
  have "content rc = fst (relay_login True True plain_box sample_nonce sample_relay rr) @ []" by (simp add: rc_def)
  from login_completes [OF plain_box_opens plain_box_json _ _ _ _ _ _ rr rc(1) this]
  show ?thesis using rr(1) rc(1) by (auto simp: sample_public)
qed

end
