(* ===== verification/Derp_Presence.thy ===== *)
theory Derp_Presence
  imports Derp_Client
begin

text \<open>
  What the relay guarantees over every interleaving of its connections: the two halves of the registry agree, only
  admitted keys are registered, a relayed packet carries the key of the connection that sent it and reaches only the
  connections of its destination, and the presence notices a client receives add up to the keys that are registered.
\<close>

section \<open>The registry\<close>

definition node_at :: "(u64 \<rightharpoonup> conn_entry) \<Rightarrow> u64 \<rightharpoonup> node_key" where
  "node_at conns i = map_option ce_node (conns i)"

definition ids_of :: "relay \<Rightarrow> node_key \<Rightarrow> u64 set" where
  "ids_of r k = {i. node_at (rl_conns r) i = Some k}"

definition admits :: "relay \<Rightarrow> node_key \<Rightarrow> bool" where
  "admits r k \<longleftrightarrow> wf_key k \<and> (case rl_verify r of None \<Rightarrow> True | Some verify \<Rightarrow> verify k)"

definition relay_ok :: "relay \<Rightarrow> bool" where
  "relay_ok r \<longleftrightarrow>
     (\<forall>k. rl_by_key r k = (if ids_of r k = {} then None else Some (ids_of r k)))
     \<and> (\<forall>i k. node_at (rl_conns r) i = Some k \<longrightarrow> i < rl_next_id r \<and> admits r k)"

definition fresh_relay :: "relay \<Rightarrow> bool" where
  "fresh_relay r \<longleftrightarrow> rl_by_key r = Map.empty \<and> rl_conns r = Map.empty \<and> rl_next_id r = 1"

lemma fresh_relay_ok: "fresh_relay r \<Longrightarrow> relay_ok r"
  by (simp add: fresh_relay_def relay_ok_def ids_of_def node_at_def)

lemma push_node [simp]: "ce_node (push f e) = ce_node e"
  by (simp add: push_def)

lemma broadcast_push_to: "broadcast f conns = push_to UNIV f conns"
  by (simp add: broadcast_def push_to_def)

lemma node_at_push_to [simp]: "node_at (push_to T f conns) = node_at conns"
  by (rule ext) (simp add: node_at_def push_to_def option.map_comp comp_def)

lemma node_at_upd [simp]:
  "node_at (conns(i \<mapsto> e)) = (node_at conns)(i \<mapsto> ce_node e)" "node_at (conns(i := None)) = (node_at conns)(i := None)"
  by (auto simp: node_at_def)

lemma count_simps [simp]:
  "rl_conns (count_dropped r) = rl_conns r" "rl_conns (count_relayed r) = rl_conns r"
  "rl_by_key (count_dropped r) = rl_by_key r" "rl_by_key (count_relayed r) = rl_by_key r"
  "rl_next_id (count_dropped r) = rl_next_id r" "rl_next_id (count_relayed r) = rl_next_id r"
  "rl_verify (count_dropped r) = rl_verify r" "rl_verify (count_relayed r) = rl_verify r"
  "rl_keepalive (count_dropped r) = rl_keepalive r" "rl_keepalive (count_relayed r) = rl_keepalive r"
  by (simp_all add: count_dropped_def count_relayed_def)

text \<open>Two relays with the same registrations; only queues and counters differ.\<close>

definition same_registry :: "relay \<Rightarrow> relay \<Rightarrow> bool" where
  "same_registry r r' \<longleftrightarrow> rl_by_key r' = rl_by_key r \<and> node_at (rl_conns r') = node_at (rl_conns r)
     \<and> rl_next_id r' = rl_next_id r \<and> rl_verify r' = rl_verify r"

lemma same_registry_ok: "same_registry r r' \<Longrightarrow> relay_ok r \<Longrightarrow> relay_ok r'"
  by (simp add: same_registry_def relay_ok_def ids_of_def admits_def)

lemma same_registry_refl [simp]: "same_registry r r"
  by (simp add: same_registry_def)

lemma same_registry_send_keepalive: "same_registry r (send_keepalive i r)"
  by (simp add: same_registry_def send_keepalive_def)

lemma same_registry_on_channel: "same_registry r (on_channel i f r)"
  by (auto simp: same_registry_def on_channel_def node_at_def option.map_comp comp_def fun_eq_iff)

lemma same_registry_route: "same_registry r (route_send_packet from dest packet r)"
  by (simp add: same_registry_def route_send_packet_def Let_def split: option.split)

lemma same_registry_handle: "same_registry r (snd (handle_data_frame i f r))"
  by (simp add: handle_data_frame_def same_registry_route split: frame_type.split sum.split)

lemma deregister_ok:
  assumes "relay_ok r"
  shows "relay_ok (deregister i r)" "rl_next_id (deregister i r) = rl_next_id r" "rl_verify (deregister i r) = rl_verify r"
proof -
  show "rl_next_id (deregister i r) = rl_next_id r" "rl_verify (deregister i r) = rl_verify r"
    by (simp_all add: deregister_def Let_def split: option.split)
  show "relay_ok (deregister i r)"
  proof (cases "rl_conns r i")
    case None
    with assms show ?thesis by (simp add: deregister_def)
  next
    case (Some e)
    let ?k = "ce_node e"
    have i: "i \<in> ids_of r ?k" using Some by (simp add: ids_of_def node_at_def)
    then have b: "rl_by_key r ?k = Some (ids_of r ?k)" using assms by (auto simp: relay_ok_def)
    let ?r = "deregister i r"
    have n: "node_at (rl_conns ?r) = (node_at (rl_conns r))(i := None)"
      by (simp add: deregister_def Some b Let_def broadcast_push_to)
    have ids: "ids_of ?r k = (if k = ?k then ids_of r k - {i} else ids_of r k)" for k
      using Some by (auto simp: ids_of_def n) (simp add: node_at_def)
    have "rl_by_key ?r = (rl_by_key r)(?k := if ids_of r ?k - {i} = {} then None else Some (ids_of r ?k - {i}))"
      by (simp add: deregister_def Some b Let_def)
    moreover have "rl_verify ?r = rl_verify r" "rl_next_id ?r = rl_next_id r"
      by (simp_all add: deregister_def Some b Let_def)
    ultimately show ?thesis using assms by (auto simp: relay_ok_def ids n admits_def)
  qed
qed

lemma relay_login_admits:
  assumes "snd (relay_login w1 w2 c nonce r reader) = Some (node, rest)"
  shows "admits r node"
proof -
  obtain body where "accept_client_info c r body = Some node"
    using assms by (auto simp: relay_login_def split: sum.splits option.splits if_splits)
  then show ?thesis
    by (auto simp: accept_client_info_def client_info_decode_prefix_def admits_def wf_key_def KEY_LEN_def
        split: if_splits sum.splits option.splits)
qed

lemma register_conns:
  "rl_conns (snd (relay_register node peers r))
     = (push_to UNIV (present_frame node) (rl_conns r))
         (rl_next_id r \<mapsto> \<lparr>ce_node = node, ce_out = snapshot node peers {} channel_new\<rparr>)"
  by (simp add: relay_register_def Let_def broadcast_push_to)

lemma register_ok:
  assumes "relay_ok r" "admits r node" "unat (rl_next_id r) + 1 < 2 ^ 64"
  shows "relay_ok (snd (relay_register node peers r))"
proof -
  let ?r = "snd (relay_register node peers r)" and ?i = "rl_next_id r"
  have lt: "?i < ?i + 1"
  proof -
    have "unat (?i + 1) = unat ?i + 1" using assms(3) by (simp add: unat_word_ariths)
    then show ?thesis by (simp add: word_less_nat_alt)
  qed
  have n: "node_at (rl_conns ?r) = (node_at (rl_conns r))(?i \<mapsto> node)" by (simp add: register_conns)
  have new: "node_at (rl_conns r) ?i = None"
    using assms(1) by (cases "node_at (rl_conns r) ?i") (auto simp: relay_ok_def)
  have ids: "ids_of ?r k = (if k = node then insert ?i (ids_of r k) else ids_of r k)" for k
    using new by (auto simp: ids_of_def n)
  have "rl_by_key ?r = (rl_by_key r)(node \<mapsto> insert ?i (case rl_by_key r node of None \<Rightarrow> {} | Some ids \<Rightarrow> ids))"
    "rl_next_id ?r = ?i + 1" "rl_verify ?r = rl_verify r"
    by (simp_all add: relay_register_def Let_def)
  moreover have "i < ?i + 1" if "node_at (rl_conns r) i = Some k" for i k
    using assms(1) that lt unfolding relay_ok_def by (blast intro: order.strict_trans)
  ultimately show ?thesis
    using assms(1,2) lt by (auto simp: relay_ok_def ids n admits_def split: if_splits)
qed

lemma step_ok:
  assumes "relay_ok r" "unat (rl_next_id r) + 1 < 2 ^ 64"
  shows "relay_ok (relay_step c op r) \<and> unat (rl_next_id (relay_step c op r)) \<le> unat (rl_next_id r) + 1
     \<and> rl_verify (relay_step c op r) = rl_verify r"
proof -
  have same: "relay_ok r' \<and> unat (rl_next_id r') \<le> unat (rl_next_id r) + 1 \<and> rl_verify r' = rl_verify r"
    if "same_registry r r'" for r'
    using that same_registry_ok [OF that assms(1)] by (simp add: same_registry_def)
  show ?thesis
  proof (cases op)
    case (Connect w1 w2 nonce reader peers)
    have "unat (rl_next_id r + 1) \<le> unat (rl_next_id r) + 1" using assms(2) by (simp add: unat_word_ariths)
    then show ?thesis
      using same [OF same_registry_refl] register_ok [OF assms(1) relay_login_admits assms(2), of w1 w2 c nonce reader _ _ peers]
      by (auto simp: Connect split: option.split) (simp_all add: relay_register_def Let_def)
  next
    case (Receive i f)
    obtain go r' where h: "handle_data_frame i f r = (go, r')" by (cases "handle_data_frame i f r")
    then have s: "same_registry r r'" using same_registry_handle [of r i f] by simp
    then show ?thesis using same [OF s] deregister_ok [of r' i] by (simp add: Receive h)
  next
    case (Hangup i)
    then show ?thesis using deregister_ok [OF assms(1), of i] by simp
  next
    case (Tick i)
    then show ?thesis using same [OF same_registry_send_keepalive] same [OF same_registry_refl] by simp
  next
    case (WriterTakes i)
    then show ?thesis using same [OF same_registry_on_channel] by simp
  next
    case (WriterFails i)
    then show ?thesis using same [OF same_registry_on_channel] by simp
  qed
qed

lemma run_append: "relay_run c (xs @ ys) r = relay_run c ys (relay_run c xs r)"
  by (induction xs arbitrary: r) auto

lemma run_ok:
  assumes "relay_ok r" "unat (rl_next_id r) + length ops < 2 ^ 64"
  shows "relay_ok (relay_run c ops r) \<and> unat (rl_next_id (relay_run c ops r)) \<le> unat (rl_next_id r) + length ops
     \<and> rl_verify (relay_run c ops r) = rl_verify r"
  using assms
proof (induction ops arbitrary: r)
  case (Cons op ops)
  then have "relay_ok (relay_step c op r)" "unat (rl_next_id (relay_step c op r)) \<le> unat (rl_next_id r) + 1"
    "rl_verify (relay_step c op r) = rl_verify r"
    using step_ok [of r c op] by auto
  then show ?case using Cons.IH [of "relay_step c op r"] Cons.prems by auto
qed simp

section \<open>Packets\<close>

lemma push_sent: "ch_sent (ce_out (push f e)) = ch_sent (ce_out e) @ (if accepts (ce_out e) then [f] else [])"
  by (simp add: push_def try_send_def)

lemma push_to_Some:
  "push_to T f conns j = Some e' \<longleftrightarrow> (\<exists>e. conns j = Some e \<and> e' = (if j \<in> T then push f e else e))"
  by (auto simp: push_to_def)

text \<open>A connection keeps its node; a frame of its queue was there before, or is the frame that was pushed.\<close>

definition carries :: "relay \<Rightarrow> u64 \<Rightarrow> node_key \<Rightarrow> frame \<Rightarrow> bool" where
  "carries r j k f \<longleftrightarrow> (\<exists>e. rl_conns r j = Some e \<and> ce_node e = k \<and> f \<in> set (ch_sent (ce_out e)))"

lemma carries_push_to:
  "rl_conns r' = push_to T g (rl_conns r) \<Longrightarrow> carries r' j k f \<Longrightarrow>
     carries r j k f \<or> (f = g \<and> j \<in> T \<and> node_at (rl_conns r) j = Some k)"
  by (auto simp: carries_def push_to_Some push_sent node_at_def split: if_splits)

lemma frame_kinds [simp]:
  "f_ty (present_frame k) = PeerPresent" "f_ty (gone_frame k why) = PeerGone" "f_ty (recv_frame k p) = RecvPacket"
  "f_ty (frame_new ty p) = ty" "f_payload (frame_new ty p) = p"
  by (simp_all add: present_frame_def gone_frame_def recv_frame_def frame_new_def)

lemma snapshot_kinds:
  "\<forall>f \<in> set (ch_sent ch). f_ty f = PeerPresent \<Longrightarrow> \<forall>f \<in> set (ch_sent (snapshot node peers seen ch)). f_ty f = PeerPresent"
proof (induction peers arbitrary: seen ch)
  case (Cons p ps)
  have "\<forall>f \<in> set (ch_sent (try_send (present_frame p) ch)). f_ty f = PeerPresent"
    using Cons.prems by (simp add: try_send_def)
  with Cons show ?case by simp
qed simp

lemma carries_deregister:
  "carries (deregister i r) j k f \<Longrightarrow> carries r j k f \<or> f_ty f = PeerGone"
proof (cases "rl_conns r i")
  case (Some e)
  let ?k = "ce_node e" and ?conns = "(rl_conns r)(i := None)"
  assume c: "carries (deregister i r) j k f"
  consider "rl_conns (deregister i r) = ?conns" | "rl_conns (deregister i r) = push_to UNIV (gone_frame ?k Disconnected) ?conns"
    by (cases "rl_by_key r ?k"; cases "the (rl_by_key r ?k) - {i} = {}") (simp_all add: deregister_def Some Let_def broadcast_push_to)
  then show ?thesis
  proof cases
    case 1
    with c show ?thesis by (auto simp: carries_def split: if_splits)
  next
    case 2
    then have "carries (r\<lparr>rl_conns := ?conns\<rparr>) j k f \<or> f = gone_frame ?k Disconnected"
      using carries_push_to [of "deregister i r" UNIV "gone_frame ?k Disconnected" "r\<lparr>rl_conns := ?conns\<rparr>" j k f] c by auto
    then show ?thesis by (auto simp: carries_def split: if_splits)
  qed
qed (simp add: deregister_def)

lemma carries_route:
  assumes "relay_ok r" "carries (route_send_packet i dest packet r) j k f" "f_ty f = RecvPacket"
  shows "carries r j k f \<or> (k = dest \<and> length packet \<le> MAX_PACKET_PAYLOAD_LEN
     \<and> (\<exists>e. rl_conns r i = Some e \<and> f = recv_frame (ce_node e) packet))"
proof (cases "length packet > MAX_PACKET_PAYLOAD_LEN \<or> rl_conns r i = None")
  case True
  with assms(2) show ?thesis
    by (cases "length packet > MAX_PACKET_PAYLOAD_LEN") (auto simp: route_send_packet_def carries_def)
next
  case False
  then obtain e where e: "rl_conns r i = Some e" and l: "length packet \<le> MAX_PACKET_PAYLOAD_LEN" by auto
  let ?r = "route_send_packet i dest packet r"
  have t: "(case rl_by_key r dest of None \<Rightarrow> {} | Some ids \<Rightarrow> ids) = ids_of r dest"
    using assms(1) by (simp add: relay_ok_def)
  have "rl_conns ?r = (if ids_of r dest = {} then push_to {i} (gone_frame dest NotHere) (rl_conns r)
      else push_to (ids_of r dest) (recv_frame (ce_node e) packet) (rl_conns r))"
    using e l by (simp add: route_send_packet_def t Let_def)
  then consider "rl_conns ?r = push_to {i} (gone_frame dest NotHere) (rl_conns r)"
    | "rl_conns ?r = push_to (ids_of r dest) (recv_frame (ce_node e) packet) (rl_conns r)"
    by (cases "ids_of r dest = {}") simp_all
  then have "carries r j k f \<or> (f = recv_frame (ce_node e) packet \<and> j \<in> ids_of r dest \<and> node_at (rl_conns r) j = Some k)"
  proof cases
    case 1
    then show ?thesis using carries_push_to [OF 1 assms(2)] assms(3) by auto
  next
    case 2
    then show ?thesis using carries_push_to [OF 2 assms(2)] by auto
  qed
  then show ?thesis using e l by (auto simp: ids_of_def)
qed

text \<open>The origin of a relayed packet: the step of the run in which a connection of the source sent it.\<close>

definition sent_by :: "nacl \<Rightarrow> relay_op list \<Rightarrow> relay \<Rightarrow> node_key \<Rightarrow> frame \<Rightarrow> bool" where
  "sent_by c ops r0 k f \<longleftrightarrow>
     (\<exists>pre post i fr e packet. ops = pre @ Receive i fr # post \<and> rl_conns (relay_run c pre r0) i = Some e
        \<and> f_ty fr = SendPacket \<and> f_payload fr = to_bytes k @ packet \<and> wf_key k
        \<and> length packet \<le> MAX_PACKET_PAYLOAD_LEN \<and> f = recv_frame (ce_node e) packet)"

lemma sent_by_snoc: "sent_by c ops r0 k f \<Longrightarrow> sent_by c (ops @ [op]) r0 k f"
  unfolding sent_by_def by (metis append.assoc append_Cons)

lemma carries_step:
  assumes "relay_ok r" "carries (relay_step c op r) j k f" "f_ty f = RecvPacket"
  shows "carries r j k f \<or> (\<exists>i fr e packet. op = Receive i fr \<and> rl_conns r i = Some e \<and> f_ty fr = SendPacket
     \<and> f_payload fr = to_bytes k @ packet \<and> wf_key k \<and> length packet \<le> MAX_PACKET_PAYLOAD_LEN
     \<and> f = recv_frame (ce_node e) packet)"
proof (cases op)
  case (Connect w1 w2 nonce reader peers)
  show ?thesis
  proof (cases "snd (relay_login w1 w2 c nonce r reader)")
    case None
    with assms(2) show ?thesis by (simp add: Connect)
  next
    case (Some a)
    then obtain node rest where a: "snd (relay_login w1 w2 c nonce r reader) = Some (node, rest)" by (cases a) auto
    have "carries r j k f"
    proof (cases "j = rl_next_id r")
      case True
      then have "f \<in> set (ch_sent (snapshot node peers {} channel_new))"
        using assms(2) a by (auto simp: Connect carries_def register_conns)
      then have "f_ty f = PeerPresent" using snapshot_kinds [of channel_new node peers "{}"] by (simp add: channel_new_def)
      with assms(3) show ?thesis by simp
    next
      case False
      then show ?thesis
        using assms(2,3) a by (auto simp: Connect carries_def register_conns push_to_Some push_sent split: if_splits)
    qed
    then show ?thesis ..
  qed
next
  case (Receive i fr)
  show ?thesis
  proof (cases "f_ty fr = SendPacket")
    case True
    show ?thesis
    proof (cases "send_packet_decode_prefix (f_payload fr)")
      case (Inl x)
      with assms(2) True show ?thesis by (simp add: Receive handle_data_frame_def)
    next
      case (Inr b)
      then have b: "f_payload fr = to_bytes (spb_dest b) @ drop 32 (f_payload fr)" "wf_key (spb_dest b)"
        by (auto simp: send_packet_decode_prefix_def wf_key_def KEY_LEN_def split: if_splits)
      have "carries (route_send_packet i (spb_dest b) (drop 32 (f_payload fr)) r) j k f"
        using assms(2) True Inr by (simp add: Receive handle_data_frame_def KEY_LEN_def)
      from carries_route [OF assms(1) this assms(3)] b show ?thesis using Receive True by blast
    qed
  next
    case False
    then have "snd (handle_data_frame i fr r) = r" by (simp add: handle_data_frame_def split: frame_type.split)
    then obtain go where "handle_data_frame i fr r = (go, r)" by (metis prod.collapse)
    then have "carries r j k f \<or> carries (deregister i r) j k f" using assms(2) by (auto simp: Receive split: if_splits)
    then show ?thesis using carries_deregister [of i r j k f] assms(3) by auto
  qed
next
  case (Hangup i)
  then show ?thesis using carries_deregister [of i r j k f] assms(2,3) by auto
next
  case (Tick i)
  then show ?thesis using carries_push_to [of "send_keepalive i r" "{i}" "frame_new KeepAlive []" r j k f] assms(2,3)
    by (auto simp: send_keepalive_def split: if_splits)
next
  case (WriterTakes i)
  then show ?thesis using assms(2) by (auto simp: carries_def on_channel_def writer_take_def split: if_splits)
next
  case (WriterFails i)
  then show ?thesis using assms(2) by (auto simp: carries_def on_channel_def writer_fail_def split: if_splits)
qed

lemma run_carries:
  assumes "fresh_relay r0" "length ops + 1 < 2 ^ 64" "carries (relay_run c ops r0) j k f" "f_ty f = RecvPacket"
  shows "sent_by c ops r0 k f"
  using assms(2-4)
proof (induction ops rule: rev_induct)
  case Nil
  then show ?case using assms(1) by (simp add: carries_def fresh_relay_def)
next
  case (snoc op ops)
  have ok: "relay_ok (relay_run c ops r0)"
    using run_ok [OF fresh_relay_ok [OF assms(1)], of ops c] snoc.prems(1) assms(1) by (simp add: fresh_relay_def)
  have "carries (relay_step c op (relay_run c ops r0)) j k f" using snoc.prems(2) by (simp add: run_append)
  from carries_step [OF ok this assms(4)] show ?case
  proof
    assume "carries (relay_run c ops r0) j k f"
    then have "sent_by c ops r0 k f" using snoc by simp
    then show ?thesis by (rule sent_by_snoc)
  next
    assume "\<exists>i fr e packet. op = Receive i fr \<and> rl_conns (relay_run c ops r0) i = Some e \<and> f_ty fr = SendPacket
       \<and> f_payload fr = to_bytes k @ packet \<and> wf_key k \<and> length packet \<le> MAX_PACKET_PAYLOAD_LEN
       \<and> f = recv_frame (ce_node e) packet"
    then show ?thesis unfolding sent_by_def by blast
  qed
qed

section \<open>Presence\<close>

text \<open>What a client knows of the other nodes from the frames it received, with the decoders of the protocol.\<close>

definition view_frame :: "frame \<Rightarrow> node_key set \<Rightarrow> node_key set" where
  "view_frame f known =
     (case f_ty f of
        PeerPresent \<Rightarrow> (case peer_present_decode (f_payload f) of Inl _ \<Rightarrow> known | Inr b \<Rightarrow> insert (ppb_key b) known)
      | PeerGone \<Rightarrow> (case peer_gone_decode (f_payload f) of Inl _ \<Rightarrow> known | Inr b \<Rightarrow> known - {pgb_key b})
      | _ \<Rightarrow> known)"

definition view :: "frame list \<Rightarrow> node_key set" where
  "view fs = fold view_frame fs {}"

lemma view_snoc [simp]: "view (fs @ [f]) = view_frame f (view fs)"
  by (simp add: view_def)

lemma view_present [simp]: "wf_key k \<Longrightarrow> view_frame (present_frame k) s = insert k s"
  by (simp add: view_frame_def present_frame_def frame_new_def peer_present_decode_def peer_present_encode_def
      peer_present_new_def Let_def KEY_LEN_def)

lemma view_gone [simp]: "wf_key k \<Longrightarrow> view_frame (gone_frame k why) s = s - {k}"
  by (simp add: view_frame_def gone_frame_def frame_new_def peer_gone_decode_def peer_gone_encode_def KEY_LEN_def nth_append)

lemma view_other [simp]: "f_ty f \<noteq> PeerPresent \<Longrightarrow> f_ty f \<noteq> PeerGone \<Longrightarrow> view_frame f s = s"
  by (simp add: view_frame_def split: frame_type.split)

lemma snapshot_view:
  assumes "\<forall>p \<in> set peers. wf_key p" "\<not> ch_closed ch" "length (ch_sent ch) - ch_taken ch + length peers \<le> OUTBOUND_CAPACITY"
    "view (ch_sent ch) = seen"
  shows "view (ch_sent (snapshot node peers seen ch)) = seen \<union> (set peers - {node})"
  using assms
proof (induction peers arbitrary: seen ch)
  case (Cons p ps)
  show ?case
  proof (cases "p \<noteq> node \<and> p \<notin> seen")
    case True
    let ?ch = "ch\<lparr>ch_sent := ch_sent ch @ [present_frame p]\<rparr>"
    have "try_send (present_frame p) ch = ?ch" using Cons.prems by (simp add: try_send_def accepts_def)
    moreover have "view (ch_sent (snapshot node ps (insert p seen) ?ch)) = insert p seen \<union> (set ps - {node})"
      using Cons.prems by (intro Cons.IH) auto
    ultimately show ?thesis using True by auto
  next
    case False
    then show ?thesis using Cons.IH [of ch seen] Cons.prems by auto
  qed
qed simp

text \<open>A connection is up to date when its view gives the registered keys, its own apart.\<close>

definition up_to_date :: "relay \<Rightarrow> u64 \<Rightarrow> bool" where
  "up_to_date r j \<longleftrightarrow>
     (\<forall>e. rl_conns r j = Some e \<longrightarrow> view (ch_sent (ce_out e)) - {ce_node e} = dom (rl_by_key r) - {ce_node e})"

definition keeps_up :: "relay \<Rightarrow> u64 \<Rightarrow> bool" where
  "keeps_up r j \<longleftrightarrow> card (dom (rl_by_key r)) \<le> OUTBOUND_CAPACITY \<and> (\<forall>e. rl_conns r j = Some e \<longrightarrow> accepts (ce_out e))"

text \<open>A new connection iterates over the keys of the registry, each once.\<close>

fun op_iterates :: "relay_op \<Rightarrow> relay \<Rightarrow> bool" where
  "op_iterates (Connect _ _ _ _ peers) r \<longleftrightarrow> distinct peers \<and> set peers = dom (rl_by_key r)"
| "op_iterates _ r \<longleftrightarrow> True"

lemma up_to_date_push:
  assumes "up_to_date r j" "keeps_up r j" "rl_conns r' = push_to T f (rl_conns r)"
    and "\<And>e s. rl_conns r j = Some e \<Longrightarrow> s - {ce_node e} = dom (rl_by_key r) - {ce_node e} \<Longrightarrow>
       (if j \<in> T then view_frame f s else s) - {ce_node e} = dom (rl_by_key r') - {ce_node e}"
  shows "up_to_date r' j"
proof -
  have "view (ch_sent (ce_out e')) - {ce_node e'} = dom (rl_by_key r') - {ce_node e'}" if e': "rl_conns r' j = Some e'" for e'
  proof -
    obtain e where e: "rl_conns r j = Some e" "e' = (if j \<in> T then push f e else e)"
      using e' assms(3) by (auto simp: push_to_Some)
    moreover from e have "accepts (ce_out e)" using assms(2) by (simp add: keeps_up_def)
    moreover from e have "view (ch_sent (ce_out e)) - {ce_node e} = dom (rl_by_key r) - {ce_node e}"
      using assms(1) by (simp add: up_to_date_def)
    ultimately show ?thesis
      using assms(4) [OF e(1), of "view (ch_sent (ce_out e))"] by (cases "j \<in> T") (simp_all add: push_sent)
  qed
  then show ?thesis by (simp add: up_to_date_def)
qed

lemma up_to_date_register:
  assumes ok: "relay_ok r" "admits r node" and u: "up_to_date r j" "keeps_up r j" "set peers = dom (rl_by_key r)" "distinct peers"
  shows "up_to_date (snd (relay_register node peers r)) j"
proof -
  let ?r = "snd (relay_register node peers r)"
  have keys: "\<forall>k \<in> dom (rl_by_key r). wf_key k"
  proof
    fix k assume "k \<in> dom (rl_by_key r)"
    then have "ids_of r k \<noteq> {}" using ok(1) by (auto simp: relay_ok_def dom_def)
    then show "wf_key k" using ok(1) by (auto simp: relay_ok_def ids_of_def admits_def)
  qed
  have dom: "dom (rl_by_key ?r) = insert node (dom (rl_by_key r))" by (simp add: relay_register_def Let_def)
  have node: "wf_key node" using ok(2) by (simp add: admits_def)
  show ?thesis
  proof (cases "j = rl_next_id r")
    case True
    have "length peers \<le> OUTBOUND_CAPACITY" using u(2-4) by (simp add: keeps_up_def flip: distinct_card)
    then have "view (ch_sent (snapshot node peers {} channel_new)) = dom (rl_by_key r) - {node}"
      using snapshot_view [of peers channel_new "{}" node] keys u(3) by (simp add: channel_new_def view_def)
    then show ?thesis by (auto simp: up_to_date_def register_conns True dom)
  next
    case False
    let ?r' = "?r\<lparr>rl_conns := push_to UNIV (present_frame node) (rl_conns r)\<rparr>"
    have "up_to_date ?r' j"
      by (rule up_to_date_push [OF u(1,2), where T = UNIV and f = "present_frame node"]) (use node dom in auto)
    then show ?thesis using False by (simp add: up_to_date_def register_conns)
  qed
qed

lemma up_to_date_deregister:
  assumes ok: "relay_ok r" and u: "up_to_date r j" "keeps_up r j"
  shows "up_to_date (deregister i r) j"
proof (cases "rl_conns r i")
  case None
  with u show ?thesis by (simp add: deregister_def)
next
  case (Some e)
  let ?k = "ce_node e" and ?r = "deregister i r"
  have i: "node_at (rl_conns r) i = Some ?k" by (simp add: node_at_def Some)
  then have b: "rl_by_key r ?k = Some (ids_of r ?k)" and k: "wf_key ?k"
    using ok by (auto simp: relay_ok_def ids_of_def admits_def)
  show ?thesis
  proof (cases "j = i")
    case True
    have "rl_conns ?r i = None"
      by (cases "ids_of r ?k - {i} = {}") (simp_all add: deregister_def Some b Let_def broadcast_def)
    then show ?thesis by (simp add: up_to_date_def True)
  next
    case ne: False
    show ?thesis
    proof (cases "ids_of r ?k - {i} = {}")
      case True
      then have r: "rl_by_key ?r = (rl_by_key r)(?k := None)" "rl_conns ?r = push_to UNIV (gone_frame ?k Disconnected) ((rl_conns r)(i := None))"
        by (simp_all add: deregister_def Some b Let_def broadcast_push_to)
      let ?r' = "?r\<lparr>rl_conns := push_to UNIV (gone_frame ?k Disconnected) (rl_conns r)\<rparr>"
      have "up_to_date ?r' j"
        by (rule up_to_date_push [OF u, where T = UNIV and f = "gone_frame ?k Disconnected"]) (use k r in auto)
      then show ?thesis using ne r by (simp add: up_to_date_def push_to_def)
    next
      case False
      then have "rl_by_key ?r = (rl_by_key r)(?k \<mapsto> ids_of r ?k - {i})" "rl_conns ?r = (rl_conns r)(i := None)"
        by (simp_all add: deregister_def Some b Let_def)
      then show ?thesis using u(1) ne b by (auto simp: up_to_date_def)
    qed
  qed
qed

lemma up_to_date_route:
  assumes ok: "relay_ok r" and u: "up_to_date r j" "keeps_up r j" and k: "wf_key dest"
  shows "up_to_date (route_send_packet i dest packet r) j"
proof (cases "length packet > MAX_PACKET_PAYLOAD_LEN \<or> rl_conns r i = None")
  case True
  with u show ?thesis
    by (cases "length packet > MAX_PACKET_PAYLOAD_LEN") (auto simp: route_send_packet_def up_to_date_def)
next
  case False
  then obtain e where e: "rl_conns r i = Some e" and l: "\<not> length packet > MAX_PACKET_PAYLOAD_LEN" by auto
  let ?r = "route_send_packet i dest packet r"
  have t: "(case rl_by_key r dest of None \<Rightarrow> {} | Some ids \<Rightarrow> ids) = ids_of r dest"
    using ok by (simp add: relay_ok_def)
  have b: "rl_by_key ?r = rl_by_key r" using same_registry_route [of r i dest packet] by (simp add: same_registry_def)
  show ?thesis
  proof (cases "ids_of r dest = {}")
    case True
    then have c: "rl_conns ?r = push_to {i} (gone_frame dest NotHere) (rl_conns r)" and d: "dest \<notin> dom (rl_by_key r)"
      using e l ok by (simp_all add: route_send_packet_def t Let_def relay_ok_def dom_def)
    have "view_frame (gone_frame dest NotHere) s - {x} = dom (rl_by_key r) - {x}" if "s - {x} = dom (rl_by_key r) - {x}" for s x
      unfolding view_gone [OF k] using that d by blast
    then show ?thesis by (intro up_to_date_push [OF u c]) (simp add: b)
  next
    case False
    then have c: "rl_conns ?r = push_to (ids_of r dest) (recv_frame (ce_node e) packet) (rl_conns r)"
      using e l by (simp add: route_send_packet_def t Let_def)
    have v: "view_frame (recv_frame k p) s = s" for k p s by simp
    show ?thesis
    proof (rule up_to_date_push [OF u c])
      fix x s assume "s - {ce_node x} = dom (rl_by_key r) - {ce_node x}"
      then show "(if j \<in> ids_of r dest then view_frame (recv_frame (ce_node e) packet) s else s) - {ce_node x}
          = dom (rl_by_key ?r) - {ce_node x}"
        unfolding v b by simp
    qed
  qed
qed

lemma up_to_date_on_channel:
  assumes "\<And>ch. ch_sent (g ch) = ch_sent ch"
  shows "up_to_date (on_channel i g r) j = up_to_date r j"
  using assms by (cases "rl_conns r j"; cases "j = i") (auto simp: up_to_date_def on_channel_def)

lemma up_to_date_step:
  assumes ok: "relay_ok r" and u: "up_to_date r j" "keeps_up r j" "op_iterates op r"
  shows "up_to_date (relay_step c op r) j"
proof (cases op)
  case (Connect w1 w2 nonce reader peers)
  then show ?thesis
    using u up_to_date_register [OF ok relay_login_admits u(1,2)] by (auto split: option.split)
next
  case (Receive i fr)
  show ?thesis
  proof (cases "f_ty fr = SendPacket")
    case True
    show ?thesis
    proof (cases "send_packet_decode_prefix (f_payload fr)")
      case (Inl x)
      with u True show ?thesis by (simp add: Receive handle_data_frame_def)
    next
      case (Inr b)
      then have "wf_key (spb_dest b)" by (auto simp: send_packet_decode_prefix_def wf_key_def KEY_LEN_def split: if_splits)
      from up_to_date_route [OF ok u(1,2) this] show ?thesis using True Inr by (simp add: Receive handle_data_frame_def)
    qed
  next
    case False
    then have "snd (handle_data_frame i fr r) = r" by (simp add: handle_data_frame_def split: frame_type.split)
    then obtain go where "handle_data_frame i fr r = (go, r)" by (metis prod.collapse)
    then show ?thesis using u up_to_date_deregister [OF ok u(1,2)] by (simp add: Receive)
  qed
next
  case (Hangup i)
  then show ?thesis using up_to_date_deregister [OF ok u(1,2)] by simp
next
  case (Tick i)
  have "up_to_date (send_keepalive i r) j"
    by (rule up_to_date_push [OF u(1,2), where T = "{i}" and f = "frame_new KeepAlive []"]) (auto simp: send_keepalive_def)
  with u Tick show ?thesis by simp
next
  case (WriterTakes i)
  then show ?thesis using u(1) by (simp add: up_to_date_on_channel writer_take_def)
next
  case (WriterFails i)
  then show ?thesis using u(1) by (simp add: up_to_date_on_channel writer_fail_def)
qed

text \<open>Every step of a run, with the relay before it.\<close>

definition steps_satisfy :: "(relay_op \<Rightarrow> relay \<Rightarrow> bool) \<Rightarrow> nacl \<Rightarrow> relay_op list \<Rightarrow> relay \<Rightarrow> bool" where
  "steps_satisfy P c ops r0 \<longleftrightarrow> (\<forall>n < length ops. P (ops ! n) (relay_run c (take n ops) r0))"

lemma steps_satisfy_snoc:
  "steps_satisfy P c (ops @ [op]) r0 \<longleftrightarrow> steps_satisfy P c ops r0 \<and> P op (relay_run c ops r0)"
  by (auto simp: steps_satisfy_def nth_append less_Suc_eq)

lemma run_relay_ok:
  assumes "fresh_relay r0" "length ops + 1 < 2 ^ 64"
  shows "relay_ok (relay_run c ops r0)"
  using run_ok [OF fresh_relay_ok [OF assms(1)], of ops c] assms by (simp add: fresh_relay_def)

lemma run_up_to_date:
  assumes "fresh_relay r0" "length ops + 1 < 2 ^ 64"
    and "steps_satisfy (\<lambda>op r. op_iterates op r \<and> keeps_up r j) c ops r0"
  shows "up_to_date (relay_run c ops r0) j"
  using assms(2,3)
proof (induction ops rule: rev_induct)
  case Nil
  then show ?case using assms(1) by (simp add: up_to_date_def fresh_relay_def)
next
  case (snoc op ops)
  then have "up_to_date (relay_run c ops r0) j" "op_iterates op (relay_run c ops r0)" "keeps_up (relay_run c ops r0) j"
    by (simp_all add: steps_satisfy_snoc)
  moreover have "relay_ok (relay_run c ops r0)" using snoc.prems by (intro run_relay_ok [OF assms(1)]) simp
  ultimately show ?case using up_to_date_step by (simp add: run_append)
qed

text \<open>
  C7. The relay neither forges nor misdelivers. After any interleaving of arrivals, frames, disconnects, keepalives
  and writes, the two halves of the registry agree (the ids under a key are exactly the connections of that key) and
  every registered key passed the admission check; and a packet that was queued for a connection was sent, in some
  earlier step, by a connection logged in under exactly the source key it carries, addressed to the key of the
  connection it was queued for, with at most 64 KiB of payload.
\<close>

theorem relay_routes_faithfully:
  assumes "fresh_relay r0" "length ops + 1 < 2 ^ 64"
  shows "relay_ok (relay_run c ops r0)
     \<and> (\<forall>j k f. carries (relay_run c ops r0) j k f \<and> f_ty f = RecvPacket \<longrightarrow> sent_by c ops r0 k f)"
  using run_relay_ok [OF assms] run_carries [OF assms] by blast

text \<open>
  C26. Presence notices are complete. For a connection whose queue always has room (and as long as no more keys are
  registered than a queue holds), the notices queued for it, read with the decoders of the protocol, add up to exactly
  the other keys that are registered, after every interleaving.
\<close>

theorem presence_view_exact:
  assumes "fresh_relay r0" "length ops + 1 < 2 ^ 64"
    and "steps_satisfy (\<lambda>op r. op_iterates op r \<and> keeps_up r j) c ops r0"
    and "rl_conns (relay_run c ops r0) j = Some e"
  shows "view (ch_sent (ce_out e)) - {ce_node e} = {k. ids_of (relay_run c ops r0) k \<noteq> {}} - {ce_node e}"
proof -
  have "dom (rl_by_key (relay_run c ops r0)) = {k. ids_of (relay_run c ops r0) k \<noteq> {}}"
    using run_relay_ok [OF assms(1,2), of c] by (auto simp: relay_ok_def dom_def)
  then show ?thesis using run_up_to_date [OF assms(1-3)] assms(4) by (simp add: up_to_date_def)
qed

section \<open>A sample run\<close>

definition sample_reader :: "byte \<Rightarrow> read_event list" where
  "sample_reader b = [Data (wire (ClientInfo, sample_info b))]"

lemma sample_login:
  assumes "rl_secret r = sample_secret 1" "rl_public r = NodeKey (replicate 32 1)" "rl_verify r = None"
  obtains rest where "snd (relay_login True True plain_box sample_nonce r (sample_reader b)) = Some (NodeKey (replicate 32 b), rest)"
proof -
  have r: "rl_public r = secret_public plain_box (rl_secret r)" "wf_secret (rl_secret r)" using assms by (simp_all add: sample_public)
  let ?x = "replicate 16 0 @ [1, 0, 0, 0, 0, 2]"
  have x: "make_client_info plain_box sample_nonce (sample_secret b) (rl_public r) client_hello
      = Ok (secret_public plain_box (sample_secret b), sample_nonce, ?x)" by (simp add: sample_hello sample_public)
  have o: "open_client_info plain_box (secret_public plain_box (sample_secret b)) (rl_secret r) sample_nonce ?x = Ok client_hello"
    using hello_made [OF plain_box_opens plain_box_json sample_secret_wf r(2) sample_nonce_length, of b] x r(1) by auto
  have rd: "all_data (sample_reader b)" "content (sample_reader b) = wire (ClientInfo,
      client_info_encode_prefix \<lparr>cib_key = secret_public plain_box (sample_secret b), cib_nonce = sample_nonce\<rparr> @ ?x) @ []"
    by (simp_all add: sample_reader_def sample_info_def sample_public wire_def frame_header_encode_def)
  show thesis
    by (rule relay_login_answers [OF plain_box_opens plain_box_json r(1,2) sample_secret_wf sample_nonce_length sample_nonce_length _ x _ o rd])
      (use assms(3) that in \<open>auto simp: sample_public\<close>)
qed

abbreviation key_of :: "byte \<Rightarrow> node_key" where
  "key_of b \<equiv> NodeKey (replicate 32 b)"

definition two_arrive :: "relay_op list" where
  "two_arrive = [Connect True True sample_nonce (sample_reader 2) [], Connect True True sample_nonce (sample_reader 3) [key_of 2]]"

lemma wf_key_of [simp]: "wf_key (key_of b)"
  by (simp add: wf_key_def KEY_LEN_def)

lemma key_of_inject [simp]: "key_of a = key_of b \<longleftrightarrow> a = b"
  by simp

definition first_in :: relay where
  "first_in = snd (relay_register (key_of 2) [] sample_relay)"

definition both_in :: relay where
  "both_in = snd (relay_register (key_of 3) [key_of 2] first_in)"

lemma first_in_run: "relay_step plain_box (Connect True True sample_nonce (sample_reader 2) []) sample_relay = first_in"
  by (rule sample_login [of sample_relay 2]) (simp_all add: first_in_def)

lemma both_in_run: "relay_run plain_box two_arrive sample_relay = both_in"
proof -
  have "rl_secret first_in = sample_secret 1" "rl_public first_in = key_of 1" "rl_verify first_in = None"
    by (simp_all add: first_in_def relay_register_def Let_def)
  then have "relay_step plain_box (Connect True True sample_nonce (sample_reader 3) [key_of 2]) first_in = both_in"
    by (rule sample_login [of first_in 3]) (simp_all add: both_in_def)
  then show ?thesis using first_in_run by (simp add: two_arrive_def)
qed

lemma sample_fresh: "fresh_relay sample_relay"
  by (simp add: fresh_relay_def sample_relay_def relay_new_def)

lemma first_in_simps:
  "rl_by_key first_in = [key_of 2 \<mapsto> {1}]" "rl_next_id first_in = 2"
  "rl_conns first_in = [1 \<mapsto> \<lparr>ce_node = key_of 2, ce_out = channel_new\<rparr>]"
  by (simp_all add: first_in_def relay_register_def Let_def sample_relay_def relay_new_def broadcast_def)

lemma accepts_new: "accepts channel_new" "accepts (channel_new\<lparr>ch_sent := [f]\<rparr>)"
  by (simp_all add: accepts_def channel_new_def OUTBOUND_CAPACITY_def)

lemma both_in_simps:
  "rl_by_key both_in = [key_of 2 \<mapsto> {1}, key_of 3 \<mapsto> {2}]"
  "rl_conns both_in = [1 \<mapsto> \<lparr>ce_node = key_of 2, ce_out = channel_new\<lparr>ch_sent := [present_frame (key_of 3)]\<rparr>\<rparr>,
     2 \<mapsto> \<lparr>ce_node = key_of 3, ce_out = channel_new\<lparr>ch_sent := [present_frame (key_of 2)]\<rparr>\<rparr>]"
  by (auto simp: both_in_def relay_register_def Let_def first_in_simps broadcast_def push_def try_send_def accepts_new
      fun_eq_iff) (simp_all add: channel_new_def)

definition sample_packet :: relay_op where
  "sample_packet = Receive 1 (frame_new SendPacket (to_bytes (key_of 3) @ [9]))"

lemma sample_packet_arrives:
  "carries (relay_run plain_box (two_arrive @ [sample_packet]) sample_relay) 2 (key_of 3) (recv_frame (key_of 2) [9])"
proof -
  have "relay_step plain_box sample_packet both_in = route_send_packet 1 (key_of 3) [9] both_in"
    by (simp add: sample_packet_def handle_data_frame_def send_packet_decode_prefix_def frame_new_def KEY_LEN_def)
  moreover have "rl_conns (route_send_packet 1 (key_of 3) [9] both_in)
      = push_to {2} (recv_frame (key_of 2) [9]) (rl_conns both_in)"
    by (simp add: route_send_packet_def both_in_simps MAX_PACKET_PAYLOAD_LEN_def Let_def)
  ultimately show ?thesis
    by (simp add: run_append both_in_run carries_def push_to_Some both_in_simps push_sent accepts_new)
qed

theorem relay_routes_faithfully_witness:
  "carries (relay_run plain_box (two_arrive @ [sample_packet]) sample_relay) 2 (key_of 3) (recv_frame (key_of 2) [9])
   \<and> sent_by plain_box (two_arrive @ [sample_packet]) sample_relay (key_of 3) (recv_frame (key_of 2) [9])"
  using sample_packet_arrives relay_routes_faithfully [OF sample_fresh, of "two_arrive @ [sample_packet]" plain_box]
  by (simp add: two_arrive_def)

theorem presence_view_exact_witness:
  "view (ch_sent (channel_new\<lparr>ch_sent := [present_frame (key_of 3)]\<rparr>)) - {key_of 2}
     = {k. ids_of (relay_run plain_box two_arrive sample_relay) k \<noteq> {}} - {key_of 2}"
proof -
  have two: "(\<forall>n < length two_arrive. P n) \<longleftrightarrow> P 0 \<and> P 1" for P by (auto simp: two_arrive_def less_Suc_eq)
  have s: "steps_satisfy (\<lambda>op r. op_iterates op r \<and> keeps_up r 1) plain_box two_arrive sample_relay"
    unfolding steps_satisfy_def two using first_in_run
    by (simp add: two_arrive_def keeps_up_def sample_relay_def relay_new_def
        first_in_simps accepts_new OUTBOUND_CAPACITY_def)
  have l: "length two_arrive + 1 < 2 ^ 64" by (simp add: two_arrive_def)
  have e: "rl_conns (relay_run plain_box two_arrive sample_relay) 1
      = Some \<lparr>ce_node = key_of 2, ce_out = channel_new\<lparr>ch_sent := [present_frame (key_of 3)]\<rparr>\<rparr>"
    by (simp add: both_in_run both_in_simps)
  show ?thesis using presence_view_exact [OF sample_fresh l s e] by (simp only: conn_entry.select_convs)
qed

end
