(* ===== verification/Derp_Websocket.thy ===== *)
theory Derp_Websocket
  imports Derp_Frame Rust_Str
begin

text \<open>
  WebSocket framing of the DERP transport, \<^verbatim>\<open>crabscale-derp/src/websocket.rs\<close>: the codec for both roles, and the
  adapter that presents a WebSocket connection as a byte stream. The codec is driven by \<^verbatim>\<open>tokio_util\<close>'s \<^verbatim>\<open>Framed\<close>; the
  adapter sees it as the sequence of what its polls return.
\<close>

definition MAX_WEBSOCKET_MESSAGE_LEN :: nat where "MAX_WEBSOCKET_MESSAGE_LEN = MAX_FRAME_BODY_LEN"

definition CONTINUATION :: byte where "CONTINUATION = 0x0"
definition TEXT :: byte where "TEXT = 0x1"
definition BINARY :: byte where "BINARY = 0x2"
definition CLOSE :: byte where "CLOSE = 0x8"
definition PING :: byte where "PING = 0x9"
definition PONG :: byte where "PONG = 0xA"

lemmas opcode_defs = CONTINUATION_def TEXT_def BINARY_def CLOSE_def PING_def PONG_def

datatype ws_frame = WsBinary bytes | WsText bytes | WsPing bytes | WsPong bytes | WsClose

datatype ws_role = WsServer | WsClient

datatype ws_error =
    WrongMasking string | UnexpectedContinuation | MessageAlreadyOpen | ControlFrameTooLong | WsOversized | RsvNotZero
  | UnknownOpcode byte

definition show_ws_error :: "ws_error \<Rightarrow> string" where
  "show_ws_error e =
     (case e of
        WrongMasking what \<Rightarrow> what
      | UnexpectedContinuation \<Rightarrow> ''unexpected WebSocket continuation frame''
      | MessageAlreadyOpen \<Rightarrow> ''new data frame while a fragmented message is open''
      | ControlFrameTooLong \<Rightarrow> ''WebSocket control frame exceeds 125 bytes''
      | WsOversized \<Rightarrow> ''WebSocket message exceeds the size limit''
      | RsvNotZero \<Rightarrow> ''WebSocket RSV bits set without a negotiated extension''
      | UnknownOpcode opcode \<Rightarrow> ''unknown WebSocket opcode 0x'' @ num_str 16 (unat opcode))"

record ws_codec =
  wc_role :: ws_role
  wc_open_message :: "bytes option"

definition ws_codec_server :: ws_codec where
  "ws_codec_server = \<lparr>wc_role = WsServer, wc_open_message = None\<rparr>"

definition ws_codec_client :: ws_codec where
  "ws_codec_client = \<lparr>wc_role = WsClient, wc_open_message = None\<rparr>"

section \<open>Decoding\<close>

definition un_be64 :: "byte \<Rightarrow> byte \<Rightarrow> byte \<Rightarrow> byte \<Rightarrow> byte \<Rightarrow> byte \<Rightarrow> byte \<Rightarrow> byte \<Rightarrow> u64" where
  "un_be64 a b c d e f g h = push_bit 32 (ucast (un_be32 a b c d)) OR ucast (un_be32 e f g h)"

definition apply_mask :: "bytes \<Rightarrow> bytes \<Rightarrow> bytes" where
  "apply_mask key payload = map (\<lambda>(i, b). b XOR key ! (i mod 4)) (enumerate 0 payload)"

definition wrong_masking :: "ws_role \<Rightarrow> bool \<Rightarrow> ws_error option" where
  "wrong_masking role masked =
     (case (role, masked) of
        (WsServer, False) \<Rightarrow> Some (WrongMasking ''client WebSocket frame was not masked'')
      | (WsClient, True) \<Rightarrow> Some (WrongMasking ''server WebSocket frame was masked'')
      | _ \<Rightarrow> None)"

text \<open>The length of the payload and of the header before the mask; \<^verbatim>\<open>None\<close> when the length field is not complete.\<close>

definition ws_length :: "bytes \<Rightarrow> (u64 \<times> nat) option" where
  "ws_length src =
     (let payload_len = src ! 1 AND 0x7F in
      if payload_len \<le> 125 then Some (ucast payload_len, 2)
      else if payload_len = 126 then
        if length src < 4 then None else Some (ucast (un_be16 (src ! 2) (src ! 3)), 4)
      else if length src < 10 then None
      else Some (un_be64 (src ! 2) (src ! 3) (src ! 4) (src ! 5) (src ! 6) (src ! 7) (src ! 8) (src ! 9), 10))"

text \<open>What a complete frame means to the codec.\<close>

definition ws_deliver :: "ws_codec \<Rightarrow> bool \<Rightarrow> byte \<Rightarrow> bytes \<Rightarrow> ws_codec \<times> (ws_error, ws_frame option) result" where
  "ws_deliver c fin opcode payload =
     (if opcode = PING then (c, Ok (Some (WsPing payload)))
      else if opcode = PONG then (c, Ok (Some (WsPong payload)))
      else if opcode = CLOSE then (c, Ok (Some WsClose))
      else if opcode = CONTINUATION then
        (case wc_open_message c of
           None \<Rightarrow> (c, Err UnexpectedContinuation)
         | Some open_msg \<Rightarrow>
             if length open_msg + length payload > MAX_WEBSOCKET_MESSAGE_LEN then (c, Err WsOversized)
             else if fin then (c\<lparr>wc_open_message := None\<rparr>, Ok (Some (WsBinary (open_msg @ payload))))
             else (c\<lparr>wc_open_message := Some (open_msg @ payload)\<rparr>, Ok None))
      else if opcode = TEXT then
        if wc_open_message c \<noteq> None then (c, Err MessageAlreadyOpen)
        else if fin then (c, Ok (Some (WsText payload)))
        else (c\<lparr>wc_open_message := Some payload\<rparr>, Ok None)
      else if opcode = BINARY then
        if wc_open_message c \<noteq> None then (c, Err MessageAlreadyOpen)
        else if fin then (c, Ok (Some (WsBinary payload)))
        else (c\<lparr>wc_open_message := Some payload\<rparr>, Ok None)
      else (c, Err (UnknownOpcode opcode)))"

definition ws_decode :: "ws_codec \<Rightarrow> bytes \<Rightarrow> ws_codec \<times> bytes \<times> (ws_error, ws_frame option) result" where
  "ws_decode c src =
     (let first = src ! 0;
          second = src ! 1;
          fin = (first AND 0x80 \<noteq> 0);
          opcode = first AND 0x0F;
          masked = (second AND 0x80 \<noteq> 0) in
      if length src < 2 then (c, src, Ok None)
      else if first AND 0x70 \<noteq> 0 then (c, src, Err RsvNotZero)
      else case wrong_masking (wc_role c) masked of
        Some e \<Rightarrow> (c, src, Err e)
      | None \<Rightarrow>
          (case ws_length src of
             None \<Rightarrow> (c, src, Ok None)
           | Some (len64, header_len) \<Rightarrow>
               if unat len64 > MAX_WEBSOCKET_MESSAGE_LEN then (c, src, Err WsOversized)
               else
                 let len = unat len64;
                     payload_offset = header_len + (if masked then 4 else 0);
                     total = payload_offset + len;
                     is_control = (opcode AND 0x08 \<noteq> 0) in
                 if length src < total then (c, src, Ok None)
                 else if is_control \<and> \<not> fin then (c, src, Err MessageAlreadyOpen)
                 else if is_control \<and> len > 125 then (c, src, Err ControlFrameTooLong)
                 else
                   let raw = take len (drop payload_offset src);
                       payload = (if masked then apply_mask (take 4 (drop header_len src)) raw else raw);
                       (c', res) = ws_deliver c fin opcode payload in
                   (c', drop total src, res)))"

section \<open>Encoding\<close>

fun ws_opcode :: "ws_frame \<Rightarrow> byte" where
  "ws_opcode (WsBinary _) = BINARY"
| "ws_opcode (WsText _) = TEXT"
| "ws_opcode (WsPing _) = PING"
| "ws_opcode (WsPong _) = PONG"
| "ws_opcode WsClose = CLOSE"

fun ws_payload :: "ws_frame \<Rightarrow> bytes" where
  "ws_payload (WsBinary b) = b"
| "ws_payload (WsText t) = t"
| "ws_payload (WsPing p) = p"
| "ws_payload (WsPong p) = p"
| "ws_payload WsClose = []"

definition ws_length_bytes :: "byte \<Rightarrow> nat \<Rightarrow> bytes" where
  "ws_length_bytes mask_bit n =
     (if n \<le> 125 then [mask_bit OR word_of_nat n]
      else if n \<le> 0xFFFF then (mask_bit OR 126) # be16 (word_of_nat n)
      else (mask_bit OR 127) # be64 (word_of_nat n))"

definition ws_encode :: "ws_codec \<Rightarrow> ws_frame \<Rightarrow> bytes \<Rightarrow> (ws_error, bytes) result" where
  "ws_encode c item dst =
     (let opcode = ws_opcode item; payload = ws_payload item in
      if length payload > MAX_WEBSOCKET_MESSAGE_LEN then Err WsOversized
      else case wc_role c of
        WsServer \<Rightarrow> Ok (dst @ [0x80 OR opcode] @ ws_length_bytes 0 (length payload) @ payload)
      | WsClient \<Rightarrow>
          let key = [0, 0, 0, 0] in
          Ok (dst @ [0x80 OR opcode] @ ws_length_bytes 0x80 (length payload) @ key @ apply_mask key payload))"

section \<open>The byte stream\<close>

text \<open>A poll of \<^verbatim>\<open>Framed\<close> as a stream, and of \<^verbatim>\<open>Framed\<close> as a sink (\<^verbatim>\<open>poll_ready\<close> and \<^verbatim>\<open>poll_flush\<close>). What the sink
  accepted is a list of frames.\<close>

datatype next_poll = NextFrame ws_frame | NextFailed | NextEnd | NextPending

datatype sink_poll = SinkReady | SinkFailed | SinkPending

datatype 'a poll_result = PollPending | PollFailed | PollReady 'a

record ws_stream =
  ws_read_buf :: bytes
  ws_pending_pongs :: "bytes list"
  ws_sent :: "ws_frame list"

definition ws_stream_new :: ws_stream where
  "ws_stream_new = \<lparr>ws_read_buf = [], ws_pending_pongs = [], ws_sent = []\<rparr>"

text \<open>\<^verbatim>\<open>poll_read\<close> with room for \<^verbatim>\<open>remaining\<close> bytes; ready with no bytes is the end of the stream to its caller.\<close>

fun ws_poll_read :: "nat \<Rightarrow> ws_stream \<Rightarrow> next_poll list \<Rightarrow> ws_stream \<times> next_poll list \<times> bytes poll_result" where
  "ws_poll_read remaining s polls =
     (if ws_read_buf s \<noteq> [] then
        let n = min (length (ws_read_buf s)) remaining in
        if n = 0 then (s, polls, PollReady [])
        else (s\<lparr>ws_read_buf := drop n (ws_read_buf s)\<rparr>, polls, PollReady (take n (ws_read_buf s)))
      else case polls of
        [] \<Rightarrow> (s, [], PollPending)
      | NextFrame (WsBinary d) # polls \<Rightarrow> ws_poll_read remaining (s\<lparr>ws_read_buf := d\<rparr>) polls
      | NextFrame (WsText d) # polls \<Rightarrow> ws_poll_read remaining (s\<lparr>ws_read_buf := d\<rparr>) polls
      | NextFrame (WsPing p) # polls \<Rightarrow> ws_poll_read remaining (s\<lparr>ws_pending_pongs := ws_pending_pongs s @ [p]\<rparr>) polls
      | NextFrame (WsPong _) # polls \<Rightarrow> ws_poll_read remaining s polls
      | NextFrame WsClose # polls \<Rightarrow> (s, polls, PollReady [])
      | NextFailed # polls \<Rightarrow> (s, polls, PollFailed)
      | NextEnd # polls \<Rightarrow> (s, polls, PollReady [])
      | NextPending # polls \<Rightarrow> (s, polls, PollPending))"

declare ws_poll_read.simps [simp del]

text \<open>Sending one frame: \<^verbatim>\<open>poll_ready\<close>, \<^verbatim>\<open>start_send\<close> (which encodes), \<^verbatim>\<open>poll_flush\<close>.\<close>

definition ws_send :: "ws_codec \<Rightarrow> ws_frame \<Rightarrow> ws_stream \<Rightarrow> sink_poll list \<Rightarrow> ws_stream \<times> sink_poll list \<times> unit poll_result" where
  "ws_send c f s polls =
     (case polls of
        [] \<Rightarrow> (s, [], PollPending)
      | SinkPending # polls \<Rightarrow> (s, polls, PollPending)
      | SinkFailed # polls \<Rightarrow> (s, polls, PollFailed)
      | SinkReady # polls \<Rightarrow>
          (case ws_encode c f [] of
             Inl _ \<Rightarrow> (s, polls, PollFailed)
           | Inr _ \<Rightarrow>
               let s = s\<lparr>ws_sent := ws_sent s @ [f]\<rparr> in
               (case polls of
                  [] \<Rightarrow> (s, [], PollPending)
                | SinkPending # polls \<Rightarrow> (s, polls, PollPending)
                | SinkFailed # polls \<Rightarrow> (s, polls, PollFailed)
                | SinkReady # polls \<Rightarrow> (s, polls, PollReady ()))))"

fun ws_send_pongs ::
  "ws_codec \<Rightarrow> bytes list \<Rightarrow> ws_stream \<Rightarrow> sink_poll list \<Rightarrow> ws_stream \<times> sink_poll list \<times> unit poll_result" where
  "ws_send_pongs c [] s polls = (s, polls, PollReady ())"
| "ws_send_pongs c (p # ps) s polls =
     (case ws_send c (WsPong p) (s\<lparr>ws_pending_pongs := ps\<rparr>) polls of
        (s, polls, PollReady _) \<Rightarrow> ws_send_pongs c ps s polls
      | (s, polls, res) \<Rightarrow> (s, polls, res))"

definition ws_poll_write ::
  "ws_codec \<Rightarrow> bytes \<Rightarrow> ws_stream \<Rightarrow> sink_poll list \<Rightarrow> ws_stream \<times> sink_poll list \<times> nat poll_result" where
  "ws_poll_write c buf s polls =
     (case ws_send_pongs c (ws_pending_pongs s) s polls of
        (s, polls, PollReady _) \<Rightarrow>
          (case ws_send c (WsBinary buf) s polls of
             (s, polls, PollReady _) \<Rightarrow> (s, polls, PollReady (length buf))
           | (s, polls, PollPending) \<Rightarrow> (s, polls, PollPending)
           | (s, polls, PollFailed) \<Rightarrow> (s, polls, PollFailed))
      | (s, polls, PollPending) \<Rightarrow> (s, polls, PollPending)
      | (s, polls, PollFailed) \<Rightarrow> (s, polls, PollFailed))"

section \<open>One frame\<close>

lemma length_apply_mask [simp]: "length (apply_mask key p) = length p"
  by (simp add: apply_mask_def)

lemma apply_mask_apply_mask [simp]: "apply_mask key (apply_mask key p) = p"
  by (rule nth_equalityI) (simp_all add: apply_mask_def nth_enumerate_eq xor.assoc)

lemma un_be64_be64:
  "un_be64 (be64 w ! 0) (be64 w ! 1) (be64 w ! 2) (be64 w ! 3) (be64 w ! 4) (be64 w ! 5) (be64 w ! 6) (be64 w ! 7) = w"
proof -
  have "un_be32 (be64 w ! 0) (be64 w ! 1) (be64 w ! 2) (be64 w ! 3) = ucast (drop_bit 32 w)"
    "un_be32 (be64 w ! 4) (be64 w ! 5) (be64 w ! 6) (be64 w ! 7) = ucast w"
    by (simp_all add: be64_def be32_def nth_append)
  moreover have "push_bit 32 (ucast (ucast (drop_bit 32 w) :: u32)) OR ucast (ucast w :: u32) = w"
    by (rule bit_word_eqI) (auto simp: bit_simps)
  ultimately show ?thesis by (simp only: un_be64_def)
qed

lemma mask_bit:
  fixes w :: byte
  assumes "w \<le> 127"
  shows "(0x80 OR w) AND 0x7F = w" "w AND 0x7F = w" "(0x80 OR w) AND 0x80 \<noteq> 0" "w AND 0x80 = 0"
proof -
  have w: "w < 2 ^ 7" using assms by (simp add: word_le_nat_alt word_less_nat_alt)
  then have t: "take_bit 7 w = w" by (simp add: word_unat_eq_iff unsigned_take_bit_eq take_bit_nat_eq_self word_less_nat_alt)
  have m: "x AND 0x7F = take_bit 7 x" for x :: byte by (simp add: take_bit_eq_mask mask_eq_exp_minus_1)
  show "w AND 0x7F = w" by (simp add: m t)
  show "(0x80 OR w) AND 0x7F = w" by (simp add: m t)
  have e: "(0x80 :: byte) = 2 ^ 7" by simp
  show "w AND 0x80 = 0" unfolding e and_exp_eq_0_iff_not_bit using w by (metis bit_take_bit_iff less_irrefl t)
  show "(0x80 OR w) AND 0x80 \<noteq> 0" unfolding e and_exp_eq_0_iff_not_bit by (simp add: bit_simps)
qed

lemma length_ws_length_bytes:
  "length (ws_length_bytes m n) = (if n \<le> 125 then 1 else if n \<le> 0xFFFF then 3 else 9)"
  by (simp add: ws_length_bytes_def)

lemma ws_length_read:
  assumes "n \<le> MAX_WEBSOCKET_MESSAGE_LEN" "m = 0 \<or> m = 0x80"
  shows "ws_length ([b] @ ws_length_bytes m n @ rest) = Some (word_of_nat n, 1 + length (ws_length_bytes m n))"
    and "(ws_length_bytes m n ! 0) AND 0x80 \<noteq> 0 \<longleftrightarrow> m = 0x80"
proof -
  have n: "n < 2 ^ 64" using assms(1) by (simp add: MAX_WEBSOCKET_MESSAGE_LEN_def MAX_FRAME_BODY_LEN_def)
  have w: "(word_of_nat n :: byte) \<le> 125" "(ucast (word_of_nat n :: byte) :: u64) = word_of_nat n" if "n \<le> 125"
    using that by (simp_all add: word_le_nat_alt unat_of_nat word_unat_eq_iff unsigned_ucast_eq take_bit_nat_eq_self)
  have w16: "(ucast (word_of_nat n :: u16) :: u64) = word_of_nat n" if "n \<le> 0xFFFF"
    using that by (simp add: unat_of_nat word_unat_eq_iff unsigned_ucast_eq take_bit_nat_eq_self)
  have m: "x \<le> 127 \<Longrightarrow> (m OR x) AND 0x7F = x" "x \<le> 127 \<Longrightarrow> (m OR x) AND 0x80 \<noteq> 0 \<longleftrightarrow> m = 0x80" for x :: byte
    using mask_bit [of x] assms(2) by auto
  have le: "(word_of_nat n :: byte) \<le> 127" if "n \<le> 125" using w(1) [OF that] by (rule order.trans) simp
  show "ws_length ([b] @ ws_length_bytes m n @ rest) = Some (word_of_nat n, 1 + length (ws_length_bytes m n))"
  proof (cases "n \<le> 125")
    case True
    then show ?thesis using w m(1) [OF le] by (simp add: ws_length_def ws_length_bytes_def Let_def)
  next
    case big: False
    show ?thesis
    proof (cases "n \<le> 0xFFFF")
      case True
      then show ?thesis using big w16 m(1) [of 126] by (simp add: ws_length_def ws_length_bytes_def Let_def be16_def)
    next
      case False
      have "un_be64 ((be64 w @ rest) ! 0) ((be64 w @ rest) ! 1) ((be64 w @ rest) ! 2) ((be64 w @ rest) ! 3)
         ((be64 w @ rest) ! 4) ((be64 w @ rest) ! 5) ((be64 w @ rest) ! 6) ((be64 w @ rest) ! 7) = w" for w
        using un_be64_be64 [of w] by (simp add: nth_append)
      then show ?thesis using big False m(1) [of 127] by (simp add: ws_length_def ws_length_bytes_def Let_def)
    qed
  qed
  show "(ws_length_bytes m n ! 0) AND 0x80 \<noteq> 0 \<longleftrightarrow> m = 0x80"
    using m(2) [of 126] m(2) [of 127] m(2) [OF le] by (simp add: ws_length_bytes_def)
qed

text \<open>A frame as RFC 6455 lays it out for an endpoint of the given role, with any mask.\<close>

definition ws_raw :: "ws_role \<Rightarrow> bool \<Rightarrow> byte \<Rightarrow> bytes \<Rightarrow> bytes \<Rightarrow> bytes" where
  "ws_raw receiver fin opcode key payload =
     [(if fin then 0x80 else 0) OR opcode]
     @ ws_length_bytes (if receiver = WsServer then 0x80 else 0) (length payload)
     @ (if receiver = WsServer then key @ apply_mask key payload else payload)"

definition known_opcode :: "byte \<Rightarrow> bool" where
  "known_opcode opcode \<longleftrightarrow> opcode \<in> {CONTINUATION, TEXT, BINARY, CLOSE, PING, PONG}"

definition control_opcode :: "byte \<Rightarrow> bool" where
  "control_opcode opcode \<longleftrightarrow> opcode \<in> {CLOSE, PING, PONG}"

lemma ws_decode_raw:
  assumes "known_opcode opcode" "length key = 4" "length payload \<le> MAX_WEBSOCKET_MESSAGE_LEN"
    and "control_opcode opcode \<longrightarrow> fin \<and> length payload \<le> 125"
  shows "ws_decode c (ws_raw (wc_role c) fin opcode key payload @ rest)
     = (let (c', res) = ws_deliver c fin opcode payload in (c', rest, res))"
proof -
  define m where "m = (if wc_role c = WsServer then 0x80 else (0 :: byte))"
  define body where "body = (if wc_role c = WsServer then key @ apply_mask key payload else payload)"
  define first where "first = (if fin then 0x80 else 0) OR opcode"
  define l where "l = ws_length_bytes m (length payload)"
  define h where "h = 1 + length l"
  define src where "src = [first] @ l @ body @ rest"
  have src: "ws_raw (wc_role c) fin opcode key payload @ rest = src"
    by (simp add: ws_raw_def m_def body_def first_def src_def l_def)
  have first: "first AND 0x80 \<noteq> 0 \<longleftrightarrow> fin" "first AND 0x0F = opcode" "first AND 0x70 = 0"
    using assms(1) by (auto simp: first_def known_opcode_def opcode_defs)
  have control: "opcode AND 0x08 \<noteq> 0 \<longleftrightarrow> control_opcode opcode"
    using assms(1) by (auto simp: known_opcode_def control_opcode_def opcode_defs)
  have len: "ws_length src = Some (word_of_nat (length payload), h)"
    unfolding src_def l_def h_def using assms(3) by (intro ws_length_read) (simp_all add: m_def)
  have u: "unat (word_of_nat (length payload) :: u64) = length payload"
    using assms(3) by (simp add: unat_of_nat MAX_WEBSOCKET_MESSAGE_LEN_def MAX_FRAME_BODY_LEN_def)
  have l: "0 < length l" by (simp add: length_ws_length_bytes l_def)
  then have src1: "src ! 0 = first" "src ! 1 = l ! 0" "\<not> length src < 2" by (simp_all add: src_def nth_append)
  then have masked: "src ! 1 AND 0x80 \<noteq> 0 \<longleftrightarrow> wc_role c = WsServer"
    using ws_length_read(2) [of "length payload" m] assms(3) by (simp add: m_def l_def)
  have wrong: "wrong_masking (wc_role c) (wc_role c = WsServer) = None"
    by (cases "wc_role c") (simp_all add: wrong_masking_def)
  have d: "drop (h + k) src = drop k (body @ rest)" "drop h src = body @ rest" for k
    by (simp_all add: src_def h_def flip: drop_drop)
  have n: "length src = h + length body + length rest" by (simp add: src_def h_def)
  have guards: "\<not> (control_opcode opcode \<and> \<not> fin)" "\<not> (control_opcode opcode \<and> 125 < length payload)"
    using assms(4) by auto
  show ?thesis
  proof (cases "wc_role c")
    case WsServer
    then have "body = key @ apply_mask key payload" by (simp add: body_def)
    then show ?thesis
      unfolding src ws_decode_def Let_def
      using WsServer first control len u src1(1,3) masked wrong assms(2,3) guards
      by (auto simp: d n add.assoc split: prod.split)
  next
    case WsClient
    then have "body = payload" by (simp add: body_def)
    then show ?thesis
      unfolding src ws_decode_def Let_def
      using WsClient first control len u src1(1,3) masked wrong assms(2,3) guards
      by (auto simp: d n add.assoc split: prod.split)
  qed
qed

section \<open>Streams of frames\<close>

lemma ws_deliver_open: "wc_role (fst (ws_deliver c fin opcode payload)) = wc_role c"
  by (simp add: ws_deliver_def split: option.split)

lemma ws_decode_consumes: "ws_decode c src = (c', rest, Inr (Some f)) \<Longrightarrow> length rest < length src"
  by (auto simp: ws_decode_def Let_def ws_length_def split: if_splits option.splits prod.splits)

text \<open>\<^verbatim>\<open>Framed\<close> calls the decoder on its buffer until it answers that it needs more bytes, or fails.\<close>

function ws_drain :: "ws_codec \<Rightarrow> bytes \<Rightarrow> ws_codec \<times> bytes \<times> ws_frame list \<times> ws_error option" where
  "ws_drain c src =
     (case ws_decode c src of
        (c', rest, Inl e) \<Rightarrow> (c', rest, [], Some e)
      | (c', rest, Inr None) \<Rightarrow> (c', rest, [], None)
      | (c', rest, Inr (Some f)) \<Rightarrow> (let (c'', rest', fs, e) = ws_drain c' rest in (c'', rest', f # fs, e)))"
  by pat_completeness auto
termination by (relation "measure (length \<circ> snd)") (auto dest: ws_decode_consumes [OF sym])

declare ws_drain.simps [simp del]

definition ws_sendable :: "ws_frame \<Rightarrow> bool" where
  "ws_sendable f \<longleftrightarrow> length (ws_payload f) \<le> (case f of WsBinary _ \<Rightarrow> MAX_WEBSOCKET_MESSAGE_LEN | WsText _ \<Rightarrow> MAX_WEBSOCKET_MESSAGE_LEN
     | _ \<Rightarrow> 125)"

fun other_role :: "ws_role \<Rightarrow> ws_role" where
  "other_role WsServer = WsClient"
| "other_role WsClient = WsServer"

lemma ws_sendable_len: "ws_sendable f \<Longrightarrow> length (ws_payload f) \<le> MAX_WEBSOCKET_MESSAGE_LEN"
  by (cases f) (auto simp: ws_sendable_def MAX_WEBSOCKET_MESSAGE_LEN_def MAX_FRAME_BODY_LEN_def)

lemma ws_encode_raw:
  "length (ws_payload f) \<le> MAX_WEBSOCKET_MESSAGE_LEN \<Longrightarrow>
     ws_encode c f dst = Ok (dst @ ws_raw (other_role (wc_role c)) True (ws_opcode f) [0, 0, 0, 0] (ws_payload f))"
  by (cases "wc_role c") (simp_all add: ws_encode_def ws_raw_def Let_def)

lemma ws_opcode_known [simp]: "known_opcode (ws_opcode f)"
  by (cases f) (simp_all add: known_opcode_def)

lemma ws_opcode_control: "ws_sendable f \<Longrightarrow> control_opcode (ws_opcode f) \<Longrightarrow> length (ws_payload f) \<le> 125"
  by (cases f) (simp_all add: ws_sendable_def control_opcode_def opcode_defs)

lemma ws_deliver_whole: "wc_open_message c = None \<Longrightarrow> ws_deliver c True (ws_opcode f) (ws_payload f) = (c, Ok (Some f))"
  by (cases f) (simp_all add: ws_deliver_def opcode_defs)

fun ws_encode_all :: "ws_codec \<Rightarrow> ws_frame list \<Rightarrow> bytes \<Rightarrow> (ws_error, bytes) result" where
  "ws_encode_all c [] dst = Ok dst"
| "ws_encode_all c (f # fs) dst = bind_res (ws_encode c f dst) (ws_encode_all c fs)"

lemma ws_encode_all_raw:
  "list_all ws_sendable fs \<Longrightarrow> ws_encode_all c fs dst
     = Ok (dst @ concat (map (\<lambda>f. ws_raw (other_role (wc_role c)) True (ws_opcode f) [0, 0, 0, 0] (ws_payload f)) fs))"
  by (induction fs arbitrary: dst) (simp_all add: ws_encode_raw ws_sendable_len)

lemma ws_drain_nothing:
  assumes "length src < 2"
  shows "ws_drain c src = (c, src, [], None)"
proof -
  have "ws_decode c src = (c, src, Ok None)" unfolding ws_decode_def Let_def using assms by (simp only: if_True)
  then show ?thesis by (subst ws_drain.simps) simp
qed

text \<open>Every read appends to the buffer, which is then drained; an error ends the stream.\<close>

fun ws_reads :: "ws_codec \<Rightarrow> bytes \<Rightarrow> bytes list \<Rightarrow> ws_codec \<times> bytes \<times> ws_frame list \<times> ws_error option" where
  "ws_reads c buf [] = (c, buf, [], None)"
| "ws_reads c buf (d # ds) =
     (case ws_drain c (buf @ d) of
        (c', buf', fs, Some e) \<Rightarrow> (c', buf', fs, Some e)
      | (c', buf', fs, None) \<Rightarrow> (let (c'', buf'', fs', e) = ws_reads c' buf' ds in (c'', buf'', fs @ fs', e)))"

lemma ws_reads_append:
  "ws_reads c buf ds = (c1, buf1, fs1, None) \<Longrightarrow>
   ws_reads c buf (ds @ es) = (let (c2, buf2, fs2, e) = ws_reads c1 buf1 es in (c2, buf2, fs1 @ fs2, e))"
proof (induction ds arbitrary: c buf fs1)
  case Nil
  then show ?case by (simp split: prod.split)
next
  case (Cons d ds)
  obtain c' buf' fs eo where w: "ws_drain c (buf @ d) = (c', buf', fs, eo)" by (metis prod_cases4)
  obtain c'' buf'' fs' e where r: "ws_reads c' buf' ds = (c'', buf'', fs', e)" by (metis prod_cases4)
  show ?case using Cons.prems Cons.IH [of c' buf' fs'] by (cases eo) (auto simp: w r split: prod.split)
qed

lemma ws_length_take: "2 \<le> k \<Longrightarrow> ws_length (take k src) = None \<or> ws_length (take k src) = ws_length src"
  by (auto simp: ws_length_def Let_def)

text \<open>A frame that is not complete changes nothing.\<close>

lemma ws_decode_partial:
  assumes "known_opcode opcode" "length key = 4" "length payload \<le> MAX_WEBSOCKET_MESSAGE_LEN"
    and "k < length (ws_raw (wc_role c) fin opcode key payload)"
  shows "ws_decode c (take k (ws_raw (wc_role c) fin opcode key payload)) = (c, take k (ws_raw (wc_role c) fin opcode key payload), Ok None)"
proof (cases "k < 2")
  case True
  then have "length (take k (ws_raw (wc_role c) fin opcode key payload)) < 2" by simp
  then show ?thesis unfolding ws_decode_def Let_def by (simp only: if_True)
next
  case False
  define m where "m = (if wc_role c = WsServer then 0x80 else (0 :: byte))"
  define body where "body = (if wc_role c = WsServer then key @ apply_mask key payload else payload)"
  define first where "first = (if fin then 0x80 else 0) OR opcode"
  define l where "l = ws_length_bytes m (length payload)"
  define h where "h = 1 + length l"
  define src where "src = [first] @ l @ body"
  have src: "ws_raw (wc_role c) fin opcode key payload = src"
    by (simp add: ws_raw_def m_def body_def first_def src_def l_def)
  have k: "2 \<le> k" "k < length src" using False assms(4) by (simp_all add: src)
  have first: "first AND 0x70 = 0" using assms(1) by (auto simp: first_def known_opcode_def opcode_defs)
  have "ws_length src = Some (word_of_nat (length payload), h)"
    using ws_length_read(1) [of "length payload" m first body] assms(3) by (simp add: src_def l_def h_def m_def)
  then have len: "ws_length (take k src) = None \<or> ws_length (take k src) = Some (word_of_nat (length payload), h)"
    using ws_length_take [OF k(1), of src] by simp
  have u: "unat (word_of_nat (length payload) :: u64) = length payload"
    using assms(3) by (simp add: unat_of_nat MAX_WEBSOCKET_MESSAGE_LEN_def MAX_FRAME_BODY_LEN_def)
  have l: "0 < length l" by (simp add: length_ws_length_bytes l_def)
  then have src1: "take k src ! 0 = first" "take k src ! 1 = l ! 0" "\<not> length (take k src) < 2"
    using k by (simp_all add: src_def nth_append)
  then have masked: "take k src ! 1 AND 0x80 \<noteq> 0 \<longleftrightarrow> wc_role c = WsServer"
    using ws_length_read(2) [of "length payload" m] assms(3) by (simp add: m_def l_def)
  have wrong: "wrong_masking (wc_role c) (wc_role c = WsServer) = None"
    by (cases "wc_role c") (simp_all add: wrong_masking_def)
  have "length (take k src) < h + (if wc_role c = WsServer then 4 else 0) + length payload"
    using k(2) assms(2) by (auto simp: src_def h_def body_def)
  then show ?thesis
    unfolding src ws_decode_def Let_def using first len u src1(1,3) masked wrong assms(3) by auto
qed

definition ws_wire :: "ws_role \<Rightarrow> bytes \<times> ws_frame \<Rightarrow> bytes" where
  "ws_wire receiver kf = ws_raw receiver True (ws_opcode (snd kf)) (fst kf) (ws_payload (snd kf))"

definition ws_wire_ok :: "bytes \<times> ws_frame \<Rightarrow> bool" where
  "ws_wire_ok kf \<longleftrightarrow> length (fst kf) = 4 \<and> ws_sendable (snd kf)"

lemma ws_raw_nonempty [simp]: "ws_raw receiver fin opcode key payload \<noteq> []"
  by (simp add: ws_raw_def)

lemma ws_drain_wire:
  assumes "ws_wire_ok kf" "wc_open_message c = None"
  shows "ws_drain c (ws_wire (wc_role c) kf @ rest) = (let (c', rest', fs, e) = ws_drain c rest in (c', rest', snd kf # fs, e))"
proof -
  have "ws_decode c (ws_wire (wc_role c) kf @ rest) = (c, rest, Ok (Some (snd kf)))"
    using assms ws_sendable_len ws_opcode_control unfolding ws_wire_def ws_wire_ok_def
    by (subst ws_decode_raw) (simp_all add: ws_deliver_whole)
  then show ?thesis by (subst ws_drain.simps) simp
qed

lemma ws_drain_partial:
  assumes "ws_wire_ok kf" "k < length (ws_wire (wc_role c) kf)"
  shows "ws_drain c (take k (ws_wire (wc_role c) kf)) = (c, take k (ws_wire (wc_role c) kf), [], None)"
proof -
  have "ws_decode c (take k (ws_wire (wc_role c) kf)) = (c, take k (ws_wire (wc_role c) kf), Ok None)"
    using assms ws_sendable_len unfolding ws_wire_def ws_wire_ok_def by (intro ws_decode_partial) auto
  then show ?thesis by (subst ws_drain.simps) simp
qed

text \<open>Whatever part of a stream of frames has arrived, draining it takes the frames that are complete.\<close>

lemma ws_drain_prefix:
  assumes "list_all ws_wire_ok kfs" "wc_open_message c = None" "x @ y = concat (map (ws_wire (wc_role c)) kfs)"
  shows "\<exists>kfs1 kfs2 x'. kfs = kfs1 @ kfs2 \<and> ws_drain c x = (c, x', map snd kfs1, None)
     \<and> x' @ y = concat (map (ws_wire (wc_role c)) kfs2) \<and> (y = [] \<longrightarrow> kfs2 = [])"
  using assms(1,3)
proof (induction kfs arbitrary: x)
  case Nil
  then show ?case using ws_drain_nothing [of "[]" c] by simp
next
  case (Cons kf kfs)
  let ?w = "ws_wire (wc_role c) kf"
  have eq: "x @ y = ?w @ concat (map (ws_wire (wc_role c)) kfs)" using Cons.prems(2) by simp
  show ?case
  proof (cases "length x < length ?w")
    case True
    then have x: "x = take (length x) ?w" using arg_cong [OF eq, of "take (length x)"] by simp
    have "ws_drain c x = (c, x, [], None)" using ws_drain_partial [of kf "length x" c] Cons.prems(1) True x by simp
    moreover have "y \<noteq> []" using True eq by (metis append_Nil2 length_append not_add_less1)
    ultimately show ?thesis using Cons.prems(2) by (intro exI [of _ "[]"] exI [of _ "kf # kfs"] exI [of _ x]) simp
  next
    case False
    then have w: "x = ?w @ drop (length ?w) x" using eq
      by (metis append_eq_append_conv_if append_take_drop_id not_less)
    then have "drop (length ?w) x @ y = concat (map (ws_wire (wc_role c)) kfs)"
      using eq by (metis append.assoc same_append_eq)
    moreover have "list_all ws_wire_ok kfs" using Cons.prems(1) by simp
    ultimately obtain kfs1 kfs2 x' where "kfs = kfs1 @ kfs2" "ws_drain c (drop (length ?w) x) = (c, x', map snd kfs1, None)"
      "x' @ y = concat (map (ws_wire (wc_role c)) kfs2)" "y = [] \<longrightarrow> kfs2 = []"
      using Cons.IH [of "drop (length ?w) x"] by blast
    then show ?thesis
      using ws_drain_wire [of kf c "drop (length ?w) x"] Cons.prems(1) assms(2) w
      by (intro exI [of _ "kf # kfs1"] exI [of _ kfs2] exI [of _ x']) simp
  qed
qed

lemma ws_reads_wire:
  assumes "list_all ws_wire_ok kfs" "wc_open_message c = None"
    "buf @ concat ds = concat (map (ws_wire (wc_role c)) kfs)" "ds = [] \<longrightarrow> kfs = []"
  shows "ws_reads c buf ds = (c, [], map snd kfs, None)"
  using assms(1,3,4)
proof (induction ds arbitrary: buf kfs)
  case (Cons d ds)
  have "(buf @ d) @ concat ds = concat (map (ws_wire (wc_role c)) kfs)" using Cons.prems(2) by simp
  from ws_drain_prefix [OF Cons.prems(1) assms(2) this]
  obtain kfs1 kfs2 x' where x': "kfs = kfs1 @ kfs2" "ws_drain c (buf @ d) = (c, x', map snd kfs1, None)"
    "x' @ concat ds = concat (map (ws_wire (wc_role c)) kfs2)" "concat ds = [] \<longrightarrow> kfs2 = []" by blast
  have "list_all ws_wire_ok kfs2" "ds = [] \<longrightarrow> kfs2 = []" using Cons.prems(1) x'(1,4) by auto
  then show ?case using Cons.IH [OF _ x'(3)] x'(1,2) by simp
qed simp

lemma concat_raw_nonempty: "ds = [] \<and> concat ds = concat (map (ws_wire receiver) kfs) \<longrightarrow> kfs = []"
  by (cases kfs) (auto simp: ws_wire_def)

section \<open>Fragmented messages\<close>

lemma ws_reads_nothing: "concat ds = [] \<Longrightarrow> ws_reads c [] ds = (c, [], [], None)"
  by (induction ds) (simp_all add: ws_drain_nothing)

text \<open>One frame of any kind, cut into reads.\<close>

lemma ws_reads_raw:
  assumes "known_opcode opcode" "length key = 4" "length payload \<le> MAX_WEBSOCKET_MESSAGE_LEN" "\<not> control_opcode opcode"
    "ws_deliver c fin opcode payload = (c', Inr fo)"
    "buf @ concat ds = ws_raw (wc_role c) fin opcode key payload" "length buf < length (ws_raw (wc_role c) fin opcode key payload)"
  shows "ws_reads c buf ds = (c', [], case fo of None \<Rightarrow> [] | Some f \<Rightarrow> [f], None)"
  using assms(6,7)
proof (induction ds arbitrary: buf)
  case (Cons d ds)
  let ?raw = "ws_raw (wc_role c) fin opcode key payload"
  have pre: "buf @ d = take (length (buf @ d)) ?raw" 
    unfolding Cons.prems(1) [symmetric] by simp
  show ?case
  proof (cases "length (buf @ d) < length ?raw")
    case True
    have "ws_decode c (buf @ d) = (c, buf @ d, Ok None)"
      using ws_decode_partial [OF assms(1-3) True] by (simp only: pre [symmetric])
    then have "ws_drain c (buf @ d) = (c, buf @ d, [], None)" by (subst ws_drain.simps) simp
    moreover have "ws_reads c (buf @ d) ds = (c', [], case fo of None \<Rightarrow> [] | Some f \<Rightarrow> [f], None)"
      using Cons.IH [of "buf @ d"] Cons.prems(1) True by simp
    ultimately show ?thesis by simp
  next
    case False
    have "buf @ d = ?raw" using False pre by (metis not_less take_all)
    moreover have "(buf @ d) @ concat ds = ?raw" using Cons.prems(1) by simp
    ultimately have all: "buf @ d = ?raw" "concat ds = []" by (blast, metis append_self_conv)
    have "ws_decode c (buf @ d) = (c', [], Inr fo)"
      using ws_decode_raw [of opcode key payload fin c "[]"] assms(1-5) all(1) by simp
    then have "ws_drain c (buf @ d) = (c', [], case fo of None \<Rightarrow> [] | Some f \<Rightarrow> [f], None)"
      by (subst ws_drain.simps) (simp add: ws_drain_nothing split: option.split)
    then show ?thesis using ws_reads_nothing [OF all(2), of c'] by simp
  qed
qed simp

fun ws_continuations :: "ws_role \<Rightarrow> (bytes \<times> bytes) list \<Rightarrow> bytes list" where
  "ws_continuations role [] = []"
| "ws_continuations role [(key, p)] = [ws_raw role True CONTINUATION key p]"
| "ws_continuations role ((key, p) # ps) = ws_raw role False CONTINUATION key p # ws_continuations role ps"

lemma ws_continuations_reads:
  assumes "ps \<noteq> []" "wc_open_message c = Some start" "list_all (\<lambda>(key, _). length key = 4) ps"
    "length start + length (concat (map snd ps)) \<le> MAX_WEBSOCKET_MESSAGE_LEN"
    "map concat dss = ws_continuations (wc_role c) ps"
  shows "ws_reads c [] (concat dss) = (c\<lparr>wc_open_message := None\<rparr>, [], [WsBinary (start @ concat (map snd ps))], None)"
  using assms
proof (induction "wc_role c" ps arbitrary: c start dss rule: ws_continuations.induct)
  case (2 key p)
  then obtain ds where "dss = [ds]" "concat ds = ws_raw (wc_role c) True CONTINUATION key p" by auto
  then show ?case
    using 2 ws_reads_raw [of CONTINUATION key p c True "c\<lparr>wc_open_message := None\<rparr>" "Some (WsBinary (start @ p))" "[]" ds]
    by (simp add: known_opcode_def control_opcode_def opcode_defs ws_deliver_def)
next
  case (3 key p q ps)
  let ?c = "c\<lparr>wc_open_message := Some (start @ p)\<rparr>"
  obtain ds dss' where ds: "dss = ds # dss'" "concat ds = ws_raw (wc_role c) False CONTINUATION key p"
    "map concat dss' = ws_continuations (wc_role ?c) (q # ps)" using 3(6) by auto
  have "ws_reads c [] ds = (?c, [], [], None)"
    using 3(3-) ds(2) ws_reads_raw [of CONTINUATION key p c False ?c None "[]" ds]
    by (simp add: known_opcode_def control_opcode_def opcode_defs ws_deliver_def)
  moreover have "ws_reads ?c [] (concat dss')
      = (?c\<lparr>wc_open_message := None\<rparr>, [], [WsBinary ((start @ p) @ concat (map snd (q # ps)))], None)"
    using 3(3-) ds(3) by (intro 3(1)) auto
  ultimately show ?case using ds(1) by (simp add: ws_reads_append)
qed simp

text \<open>
  C27. The WebSocket transport loses and changes nothing. A stream of whole messages and of control frames of at most
  125 bytes, each masked with any key where the receiver expects masks, is decoded to these frames in this order with
  nothing left in the buffer, however it is cut into reads; what an endpoint of the other role encodes is such a stream.
  A binary message that arrives in two or more fragments, each masked with any key, is delivered once, as the
  concatenation of its fragments, provided no read holds bytes of two fragments.
\<close>

theorem ws_stream_roundtrip:
  assumes "wc_role r = other_role (wc_role s)" "wc_open_message r = None"
  shows "(list_all ws_wire_ok kfs \<and> concat ds = concat (map (ws_wire (wc_role r)) kfs) \<longrightarrow>
      ws_reads r [] ds = (r, [], map snd kfs, None))
   \<and> (list_all ws_sendable fs \<longrightarrow>
      (\<exists>bs. ws_encode_all s fs [] = Ok bs \<and> (\<forall>ds. concat ds = bs \<longrightarrow> ws_reads r [] ds = (r, [], fs, None))))
   \<and> (ps \<noteq> [] \<and> list_all (\<lambda>(key, _). length key = 4) ((key, p) # ps)
        \<and> length (p @ concat (map snd ps)) \<le> MAX_WEBSOCKET_MESSAGE_LEN
        \<and> map concat dss = ws_raw (wc_role r) False BINARY key p # ws_continuations (wc_role r) ps \<longrightarrow>
      ws_reads r [] (concat dss) = (r, [], [WsBinary (p @ concat (map snd ps))], None))"
proof (intro conjI impI; (elim conjE)?)
  have wire: "ws_reads r [] ds = (r, [], map snd kfs, None)"
    if "list_all ws_wire_ok kfs" "concat ds = concat (map (ws_wire (wc_role r)) kfs)" for kfs ds
    using ws_reads_wire [OF that(1) assms(2), of "[]" ds] that(2) concat_raw_nonempty [of ds "wc_role r" kfs] by auto
  then show "ws_reads r [] ds = (r, [], map snd kfs, None)"
    if "list_all ws_wire_ok kfs" "concat ds = concat (map (ws_wire (wc_role r)) kfs)" using that .
  assume fs: "list_all ws_sendable fs"
  let ?kfs = "map (Pair [0, 0, 0, 0]) fs"
  have "list_all ws_wire_ok ?kfs" using fs by (simp add: list_all_iff ws_wire_ok_def)
  moreover have "ws_encode_all s fs [] = Ok (concat (map (ws_wire (wc_role r)) ?kfs))"
    using ws_encode_all_raw [OF fs, of s "[]"] assms(1) by (simp add: comp_def ws_wire_def)
  ultimately show "\<exists>bs. ws_encode_all s fs [] = Ok bs \<and> (\<forall>ds. concat ds = bs \<longrightarrow> ws_reads r [] ds = (r, [], fs, None))"
    using wire [of ?kfs] by (simp add: comp_def)
next
  assume ps: "ps \<noteq> []" "list_all (\<lambda>(key, _). length key = 4) ((key, p) # ps)"
    "length (p @ concat (map snd ps)) \<le> MAX_WEBSOCKET_MESSAGE_LEN"
    "map concat dss = ws_raw (wc_role r) False BINARY key p # ws_continuations (wc_role r) ps"
  let ?r = "r\<lparr>wc_open_message := Some p\<rparr>"
  obtain ds dss' where ds: "dss = ds # dss'" "concat ds = ws_raw (wc_role r) False BINARY key p"
    "map concat dss' = ws_continuations (wc_role ?r) ps" using ps(4) by auto
  have "ws_reads r [] ds = (?r, [], [], None)"
    using ps(2,3) assms(2) ds(2) ws_reads_raw [of BINARY key p r False ?r None "[]" ds]
    by (simp add: known_opcode_def control_opcode_def opcode_defs ws_deliver_def)
  moreover have "?r\<lparr>wc_open_message := None\<rparr> = r" using assms(2) by simp
  ultimately show "ws_reads r [] (concat dss) = (r, [], [WsBinary (p @ concat (map snd ps))], None)"
    using ws_continuations_reads [of ps ?r p dss'] ps ds by (simp add: ws_reads_append)
qed

lemma concat_one: "concat [bs] = bs"
  by simp

theorem ws_stream_roundtrip_witness:
  "ws_reads ws_codec_server [] [[0x82, 0x81, 1], [2, 3, 4, 6, 0x89], [0x80, 0, 0, 0, 0]]
     = (ws_codec_server, [], [WsBinary [7], WsPing []], None)
   \<and> (\<exists>bs. ws_encode_all ws_codec_client [WsBinary [7]] [] = Ok bs \<and> ws_reads ws_codec_server [] [bs] = (ws_codec_server, [], [WsBinary [7]], None))
   \<and> ws_reads ws_codec_server [] (concat [[ws_raw WsServer False BINARY [1, 2, 3, 4] [9]], [ws_raw WsServer True CONTINUATION [5, 6, 7, 8] [10]]])
     = (ws_codec_server, [], [WsBinary [9, 10]], None)"
proof -
  let ?kfs = "[([1, 2, 3, 4], WsBinary [7]), ([0, 0, 0, 0], WsPing [])]"
  let ?ds = "[[0x82, 0x81, 1], [2, 3, 4, 6, 0x89], [0x80, 0, 0, 0, 0]]"
  let ?dss = "[[ws_raw WsServer False BINARY [1, 2, 3, 4] [9]], [ws_raw WsServer True CONTINUATION [5, 6, 7, 8] [10]]]"
  have "concat ?ds = concat (map (ws_wire WsServer) ?kfs)"
    by (simp add: ws_wire_def ws_raw_def ws_length_bytes_def opcode_defs apply_mask_def)
  moreover have "list_all ws_wire_ok ?kfs" "list_all ws_sendable [WsBinary [7]]"
    by (simp_all add: ws_wire_ok_def ws_sendable_def MAX_WEBSOCKET_MESSAGE_LEN_def MAX_FRAME_BODY_LEN_def)
  moreover have "map concat ?dss = ws_raw WsServer False BINARY [1, 2, 3, 4] [9] # ws_continuations WsServer [([5, 6, 7, 8], [10])]"
    "Suc (Suc 0) \<le> MAX_WEBSOCKET_MESSAGE_LEN"
    by (simp_all add: MAX_WEBSOCKET_MESSAGE_LEN_def MAX_FRAME_BODY_LEN_def)
  moreover have "wc_role ws_codec_server = WsServer" "wc_role ws_codec_client = WsClient" "wc_open_message ws_codec_server = None"
    by (simp_all add: ws_codec_server_def ws_codec_client_def)
  ultimately show ?thesis
    using ws_stream_roundtrip [of ws_codec_server ws_codec_client ?kfs ?ds "[WsBinary [7]]" "[([5, 6, 7, 8], [10])]" "[1, 2, 3, 4]" "[9]" ?dss]
    by (auto simp del: ws_reads.simps concat.simps ws_encode_all.simps simp: concat_one)
qed

section \<open>Limits of the transport\<close>

text \<open>A fragment that does not end its message makes the decoder ask for more bytes although the rest of the message is
  already buffered: the message waits for whatever the peer sends next.\<close>

lemma buffered_fragments_stall:
  assumes "wc_open_message c = None" "length key = 4" "length p \<le> MAX_WEBSOCKET_MESSAGE_LEN"
  shows "ws_drain c (ws_raw (wc_role c) False BINARY key p @ ws_raw (wc_role c) True CONTINUATION key' p')
     = (c\<lparr>wc_open_message := Some p\<rparr>, ws_raw (wc_role c) True CONTINUATION key' p', [], None)"
proof -
  have "ws_decode c (ws_raw (wc_role c) False BINARY key p @ ws_raw (wc_role c) True CONTINUATION key' p')
      = (c\<lparr>wc_open_message := Some p\<rparr>, ws_raw (wc_role c) True CONTINUATION key' p', Ok None)"
    using assms by (subst ws_decode_raw) (simp_all add: known_opcode_def control_opcode_def opcode_defs ws_deliver_def)
  then show ?thesis by (subst ws_drain.simps) simp
qed

text \<open>A write that is pending in its flush has already handed its message over, so the retry of its caller sends the
  bytes a second time.\<close>

lemma pending_flush_duplicates:
  assumes "length buf \<le> MAX_WEBSOCKET_MESSAGE_LEN"
  obtains s where "ws_poll_write c buf ws_stream_new [SinkReady, SinkPending] = (s, [], PollPending)"
    "ws_poll_write c buf s [SinkReady, SinkReady] = (s\<lparr>ws_sent := [WsBinary buf, WsBinary buf]\<rparr>, [], PollReady (length buf))"
  using assms by (simp add: ws_poll_write_def ws_send_def ws_encode_raw ws_stream_new_def)

section \<open>Reading the byte stream\<close>

text \<open>The bytes of the data messages up to the end of the connection.\<close>

fun ws_data :: "next_poll list \<Rightarrow> bytes" where
  "ws_data (NextFrame (WsBinary d) # ps) = d @ ws_data ps"
| "ws_data (NextFrame (WsText d) # ps) = d @ ws_data ps"
| "ws_data (NextFrame (WsPing _) # ps) = ws_data ps"
| "ws_data (NextFrame (WsPong _) # ps) = ws_data ps"
| "ws_data (NextPending # ps) = ws_data ps"
| "ws_data _ = []"

text \<open>Reads hand out exactly these bytes in order, and an empty read, the sign of end of file, comes only when there are no
  more of them: an empty message, a ping or a pong is not mistaken for the end.\<close>

lemma ws_poll_read_buffered:
  assumes "ws_poll_read remaining s polls = (s', polls', PollReady out)" "0 < remaining" "ws_read_buf s \<noteq> []"
  shows "out \<noteq> [] \<and> ws_read_buf s @ ws_data polls = out @ ws_read_buf s' @ ws_data polls'"
  using assms by (auto simp: ws_poll_read.simps [of remaining s polls] Let_def min_def split: if_splits)

lemma ws_poll_read_exact:
  assumes "ws_poll_read remaining s polls = (s', polls', PollReady out)" "0 < remaining"
  shows "if out = [] then ws_read_buf s = [] \<and> ws_data polls = []
    else ws_read_buf s @ ws_data polls = out @ ws_read_buf s' @ ws_data polls'"
  using assms
proof (induction polls arbitrary: s)
  case Nil
  then show ?case
    using ws_poll_read_buffered [OF Nil] by (cases "ws_read_buf s = []") (auto simp: ws_poll_read.simps [of remaining s "[]"])
next
  case (Cons p ps)
  show ?case
  proof (cases "ws_read_buf s = []")
    case False
    then show ?thesis using ws_poll_read_buffered [OF Cons.prems] by auto
  next
    case True
    note step = ws_poll_read.simps [of remaining s "_ # ps"]
    show ?thesis
    proof (cases p)
      case (NextFrame f)
      then show ?thesis
        using Cons.prems True Cons.IH [of "s\<lparr>ws_read_buf := ws_payload f\<rparr>"] Cons.IH [of s]
          Cons.IH [of "s\<lparr>ws_pending_pongs := ws_pending_pongs s @ [ws_payload f]\<rparr>"]
        by (cases f) (auto simp: step split: if_splits)
    qed (use Cons.prems True in \<open>auto simp: step\<close>)
  qed
qed

end
