(* ===== verification/Derp_Upgrade.thy ===== *)
theory Derp_Upgrade
  imports Rust_Str
begin

text \<open>
  Negotiation of the DERP transport, \<^verbatim>\<open>crabscale-derp/src/upgrade.rs\<close>. The header map and requests are the \<^verbatim>\<open>http\<close>
  crate's: a request is its method and the first value of each header by lower-case name, with its text when it is visible
  ASCII. SHA-1 and base64 are arguments.
\<close>

definition WEBSOCKET_GUID :: string where "WEBSOCKET_GUID = ''258EAFA5-E914-47DA-95CA-C5AB0DC85B11''"

record http_request =
  hr_method :: string
  hr_header :: "string \<Rightarrow> string option option"

record http_response =
  hs_status :: nat
  hs_headers :: "(string \<times> string) list"

datatype transport_kind = Raw | WebSocket

record derp_request =
  dr_kind :: transport_kind
  dr_fast_start :: bool
  dr_ideal_node :: "string option"

record upgraded_request =
  ur_request :: derp_request
  ur_response :: "http_response option"

datatype upgrade_error = MissingUpgrade | MissingWebSocketKey | UnsupportedWebSocketVersion string | InvalidMethod

definition show_upgrade_error :: "upgrade_error \<Rightarrow> string" where
  "show_upgrade_error e =
     (case e of
        MissingUpgrade \<Rightarrow> ''missing DERP Upgrade header''
      | MissingWebSocketKey \<Rightarrow> ''WebSocket upgrade is missing Sec-WebSocket-Key''
      | UnsupportedWebSocketVersion v \<Rightarrow> ''unsupported WebSocket version (expected 13, got '' @ v @ '')''
      | InvalidMethod \<Rightarrow> ''DERP upgrade requires an HTTP GET request'')"

definition header_text :: "http_request \<Rightarrow> string \<Rightarrow> string option" where
  "header_text req name = (case hr_header req name of None \<Rightarrow> None | Some v \<Rightarrow> v)"

definition header_lower :: "http_request \<Rightarrow> string \<Rightarrow> string option" where
  "header_lower req name = map_option to_ascii_lowercase (header_text req name)"

definition header_bool :: "http_request \<Rightarrow> string \<Rightarrow> bool" where
  "header_bool req name \<longleftrightarrow> header_lower req name = Some ''1''"

definition negotiate :: "http_request \<Rightarrow> (upgrade_error, derp_request) result" where
  "negotiate req =
     (let fast_start = header_bool req ''derp-fast-start'';
          ideal_node = header_text req ''ideal-node'' in
      case header_lower req ''upgrade'' of
        None \<Rightarrow> Err MissingUpgrade
      | Some upgrade \<Rightarrow>
          if upgrade = ''derp'' then Ok \<lparr>dr_kind = Raw, dr_fast_start = fast_start, dr_ideal_node = ideal_node\<rparr>
          else if upgrade = ''websocket'' then
            if hr_header req ''sec-websocket-key'' = None then Err MissingWebSocketKey
            else let version = (case header_lower req ''sec-websocket-version'' of None \<Rightarrow> '''' | Some v \<Rightarrow> v) in
              if \<not> list_ex (\<lambda>v. trim v = ''13'') (split_char CHR '','' version)
              then Err (UnsupportedWebSocketVersion version)
              else Ok \<lparr>dr_kind = WebSocket, dr_fast_start = False, dr_ideal_node = ideal_node\<rparr>
          else Err MissingUpgrade)"

definition compute_websocket_accept :: "(bytes \<Rightarrow> bytes) \<Rightarrow> (bytes \<Rightarrow> string) \<Rightarrow> string \<Rightarrow> string" where
  "compute_websocket_accept sha1 b64 key = b64 (sha1 (as_bytes key @ as_bytes WEBSOCKET_GUID))"

definition switching_protocols :: "string \<Rightarrow> string \<Rightarrow> http_response" where
  "switching_protocols upgrade connection =
     \<lparr>hs_status = 101, hs_headers = [(''upgrade'', upgrade), (''connection'', connection)]\<rparr>"

definition build_derp_response ::
  "(bytes \<Rightarrow> bytes) \<Rightarrow> (bytes \<Rightarrow> string) \<Rightarrow> http_request \<Rightarrow> string option \<Rightarrow> (upgrade_error, upgraded_request) result" where
  "build_derp_response sha1 b64 req sec_websocket_key =
     bind_res (negotiate req) (\<lambda>request.
     bind_res
       (case dr_kind request of
          Raw \<Rightarrow>
            if dr_fast_start request then Ok None
            else Ok (Some (switching_protocols ''DERP'' ''Upgrade''))
        | WebSocket \<Rightarrow>
            (case sec_websocket_key of
               None \<Rightarrow> Err MissingWebSocketKey
             | Some key \<Rightarrow>
                 let response = switching_protocols ''websocket'' ''Upgrade'' in
                 Ok (Some (response\<lparr>hs_headers := hs_headers response
                   @ [(''sec-websocket-accept'', compute_websocket_accept sha1 b64 key)]\<rparr>))))
       (\<lambda>response. Ok \<lparr>ur_request = request, ur_response = response\<rparr>))"

definition validate_method :: "http_request \<Rightarrow> (upgrade_error, unit) result" where
  "validate_method req = (if hr_method req \<noteq> ''GET'' then Err InvalidMethod else Ok ())"

section \<open>What is negotiated\<close>

text \<open>The response head is skipped exactly for a raw upgrade that asks for the fast start; a WebSocket upgrade always has
  one, whatever the client asked for.\<close>

lemma build_derp_response_kinds:
  assumes "build_derp_response sha1 b64 req key = Ok u"
  shows "ur_response u = None \<longleftrightarrow> dr_kind (ur_request u) = Raw \<and> dr_fast_start (ur_request u)"
    and "dr_kind (ur_request u) = Raw \<longleftrightarrow> header_lower req ''upgrade'' = Some ''derp''"
    and "dr_kind (ur_request u) = WebSocket \<longrightarrow> key \<noteq> None \<and> \<not> dr_fast_start (ur_request u)"
  using assms
  by (auto simp: build_derp_response_def negotiate_def bind_res_Ok_iff Let_def split: option.splits if_splits)

end
