(* ===== verification/Policy_Model.thy ===== *)
theory Policy_Model
  imports Rust_Net
begin

text \<open>
  The typed policy document of \<^verbatim>\<open>crabscale-policy/src/model.rs\<close>, the node view of the
  compiler (\<^verbatim>\<open>CompileNode\<close> in \<^verbatim>\<open>compile.rs\<close>), JSON values, and the wire types of a packet
  filter from \<^verbatim>\<open>crabscale-proto/src/netmap.rs\<close>. A \<^verbatim>\<open>BTreeMap\<close> is its list of entries in
  key order, read with \<^const>\<open>map_of\<close>; node ids and ports are natural numbers.
\<close>

section \<open>JSON values\<close>

text \<open>
  The values of \<^verbatim>\<open>serde_json\<close>. A number is an integer, or the token of a number with a
  fraction or an exponent.
\<close>

datatype json_number = JInt int | JFloat string

datatype json =
    JNull
  | JBool bool
  | JNumber json_number
  | JString string
  | JArray "json list"
  | JObject "(string \<times> json) list"

section \<open>Policy documents\<close>

record acl =
  acl_action :: string
  acl_src :: "string list"
  acl_dst :: "string list"
  acl_proto :: "string option"

record grant =
  grant_src :: "string list"
  grant_dst :: "string list"
  grant_ip :: "string list"
  grant_app :: "(string \<times> json) list"

record auto_approvers =
  aa_routes :: "(string \<times> string list) list"
  aa_exit_node :: "(string \<times> string list) list"

record ssh_rule =
  sr_action :: string
  sr_src :: "string list"
  sr_dst :: "string list"
  sr_users :: "string list"
  sr_check_period :: "string option"

record node_attr_grant =
  na_target :: "string list"
  na_attr :: "string list"

record policy_test =
  pt_src :: string
  pt_proto :: "string option"
  pt_accept :: "string list"
  pt_deny :: "string list"

record ssh_test =
  st_action :: string
  st_src :: string
  st_dst :: string
  st_users :: "string list"

record policy =
  p_groups :: "(string \<times> string list) list"
  p_hosts :: "(string \<times> string) list"
  p_acls :: "acl list"
  p_grants :: "grant list"
  p_tag_owners :: "(string \<times> string list) list"
  p_auto_approvers :: auto_approvers
  p_ssh :: "ssh_rule list"
  p_node_attrs :: "node_attr_grant list"
  p_tests :: "policy_test list"
  p_ssh_tests :: "ssh_test list"

definition empty_policy :: policy where
  "empty_policy = \<lparr>p_groups = [], p_hosts = [], p_acls = [], p_grants = [], p_tag_owners = [],
     p_auto_approvers = \<lparr>aa_routes = [], aa_exit_node = []\<rparr>, p_ssh = [], p_node_attrs = [],
     p_tests = [], p_ssh_tests = []\<rparr>"

section \<open>Nodes and packet filters\<close>

record compile_node =
  cn_id :: nat
  cn_stable_id :: string
  cn_user_login :: "string option"
  cn_addresses :: "string list"
  cn_tags :: "string list"

definition with_addresses :: "nat \<Rightarrow> string list \<Rightarrow> compile_node" where
  "with_addresses i addrs = \<lparr>cn_id = i, cn_stable_id = [], cn_user_login = None,
     cn_addresses = addrs, cn_tags = []\<rparr>"

record net_port_range =
  pr_first :: nat
  pr_last :: nat

record cap_grant =
  cg_dsts :: "string list"
  cg_cap_map :: "(string \<times> json list) list"

record filter_rule =
  fr_src_ips :: "string list"
  fr_dst_ports :: "net_port_range list"
  fr_src_bits :: "int list option"
  fr_ip_proto :: "int list option"
  fr_cap_grant :: "cap_grant list"

definition filter_rule_default :: filter_rule where
  "filter_rule_default = \<lparr>fr_src_ips = [], fr_dst_ports = [], fr_src_bits = None,
     fr_ip_proto = None, fr_cap_grant = []\<rparr>"

section \<open>Sorting\<close>

text \<open>\<^verbatim>\<open>Vec::sort\<close> followed by \<^verbatim>\<open>Vec::dedup\<close>.\<close>

definition sort_dedup :: "string list \<Rightarrow> string list" where
  "sort_dedup xs = remdups_adj (sort xs)"

lemma set_sort_dedup [simp]: "set (sort_dedup xs) = set xs"
  by (simp add: sort_dedup_def)

lemma sort_dedup_sorted: "sorted (sort_dedup xs)"
  by (simp add: sort_dedup_def)

lemma sort_dedup_distinct: "distinct (sort_dedup xs)"
proof -
  have "sorted ys \<Longrightarrow> distinct (remdups_adj ys)" for ys :: "string list"
    by (induction ys rule: remdups_adj.induct) auto
  then show ?thesis by (simp add: sort_dedup_def)
qed

lemma sort_dedup_Nil [simp]: "sort_dedup xs = [] \<longleftrightarrow> xs = []"
  by (metis set_sort_dedup set_empty)

end
