(* ===== verification/Policy_Tags.thy ===== *)
theory Policy_Tags
  imports Policy_Model
begin

text \<open>
  Tag ownership, \<^verbatim>\<open>crabscale-policy/src/tags.rs\<close>. The group walk
  \<^verbatim>\<open>principal_matches_user\<close> has no visited set and may recurse forever, so it and its
  callers return an option: \<^const>\<open>None\<close> is a call that never returns. The tag walk carries
  its visited set and is total.
\<close>

section \<open>Short-circuiting search with partial predicates\<close>

fun any_opt :: "('a \<Rightarrow> bool option) \<Rightarrow> 'a list \<Rightarrow> bool option" where
  "any_opt f [] = Some False"
| "any_opt f (x # xs) =
     (case f x of None \<Rightarrow> None | Some True \<Rightarrow> Some True | Some False \<Rightarrow> any_opt f xs)"

lemma any_opt_cong [fundef_cong]:
  "xs = ys \<Longrightarrow> (\<And>x. x \<in> set ys \<Longrightarrow> f x = g x) \<Longrightarrow> any_opt f xs = any_opt g ys"
  by (induction ys arbitrary: xs) (auto split: option.splits bool.splits)

lemma any_opt_Cons_bind:
  "any_opt f (x # xs) = Option.bind (f x) (\<lambda>b. if b then Some True else any_opt f xs)"
  by (auto split: option.splits bool.splits)

lemma any_opt_mono [partial_function_mono]:
  assumes "\<And>x. mono_option (\<lambda>f. B x f)"
  shows "mono_option (\<lambda>f. any_opt (\<lambda>x. B x f) xs)"
proof (induction xs)
  case Nil
  show ?case by (simp add: option.const_mono)
next
  case (Cons x xs)
  show ?case
    unfolding any_opt_Cons_bind
    by (intro bind_mono assms Partial_Function.if_mono option.const_mono Cons.IH)
qed

lemma any_opt_total:
  "(\<And>x. x \<in> set xs \<Longrightarrow> f x = Some (g x)) \<Longrightarrow> any_opt f xs = Some (\<exists>x \<in> set xs. g x)"
  by (induction xs) (auto split: bool.splits)

lemma any_opt_returns:
  "(\<And>x. x \<in> set xs \<Longrightarrow> \<exists>b. f x = Some b) \<Longrightarrow> \<exists>b. any_opt f xs = Some b"
proof (induction xs)
  case (Cons x xs)
  then obtain b where "f x = Some b" by auto
  with Cons show ?case by (cases b) auto
qed auto

lemma any_opt_True: "any_opt f xs = Some True \<Longrightarrow> \<exists>x \<in> set xs. f x = Some True"
  by (induction xs) (auto split: option.splits bool.splits)

lemma any_opt_False: "any_opt f xs = Some False \<longleftrightarrow> (\<forall>x \<in> set xs. f x = Some False)"
  by (induction xs) (auto split: option.splits bool.splits)

section \<open>Tag names and group membership\<close>

definition is_valid_tag :: "string \<Rightarrow> bool" where
  "is_valid_tag tag =
     (case strip_prefix tag ''tag:'' of
        None \<Rightarrow> False
      | Some rest \<Rightarrow> rest \<noteq> [] \<and> list_all (\<lambda>c. is_ascii_alphanumeric c \<or> c = CHR ''-'') rest)"

partial_function (option) principal_matches_user ::
  "policy \<Rightarrow> string \<Rightarrow> string \<Rightarrow> bool option" where
  "principal_matches_user policy prin user_login =
     (if prin = user_login then Some True
      else case strip_prefix prin ''group:'' of
        None \<Rightarrow> Some False
      | Some grp \<Rightarrow>
          (case map_of (p_groups policy) grp of
             None \<Rightarrow> Some False
           | Some members \<Rightarrow>
               any_opt (\<lambda>m. if m = prin then Some False
                            else principal_matches_user policy m user_login) members))"

definition user_can_use_tag :: "policy \<Rightarrow> string \<Rightarrow> string \<Rightarrow> bool option" where
  "user_can_use_tag policy tag user_login =
     (if \<not> is_valid_tag tag then Some False
      else case map_of (p_tag_owners policy) tag of
        None \<Rightarrow> Some False
      | Some owners \<Rightarrow> any_opt (\<lambda>owner. principal_matches_user policy owner user_login) owners)"

section \<open>Ownership through tags\<close>

text \<open>
  \<^verbatim>\<open>walk\<close> with its visited set threaded through the loop over the owners. A tag is
  inserted before its owners are visited, so only declared tags not yet visited are entered.
\<close>

function walk :: "policy \<Rightarrow> string \<Rightarrow> string list \<Rightarrow> string set \<Rightarrow> bool \<times> string set"
  and walk_owners :: "policy \<Rightarrow> string list \<Rightarrow> string list \<Rightarrow> string set \<Rightarrow> bool \<times> string set" where
  "walk policy tag owner_tags visited =
     (if tag \<in> visited then (False, visited)
      else case map_of (p_tag_owners policy) tag of
        None \<Rightarrow> (False, insert tag visited)
      | Some owners \<Rightarrow> walk_owners policy owners owner_tags (insert tag visited))"
| "walk_owners policy [] owner_tags visited = (False, visited)"
| "walk_owners policy (owner # owners) owner_tags visited =
     (if owner \<in> set owner_tags then (True, visited)
      else if starts_with owner ''tag:'' then
        (case walk policy owner owner_tags visited of
           (True, visited') \<Rightarrow> (True, visited')
         | (False, visited') \<Rightarrow> walk_owners policy owners owner_tags visited')
      else walk_owners policy owners owner_tags visited)"
  by pat_completeness auto

lemma walk_visited_partial:
  "walk_walk_owners_dom (Inl (policy, tag, owner_tags, visited)) \<Longrightarrow>
     visited \<subseteq> snd (walk policy tag owner_tags visited)"
  "walk_walk_owners_dom (Inr (policy, owners, owner_tags, visited)) \<Longrightarrow>
     visited \<subseteq> snd (walk_owners policy owners owner_tags visited)"
proof (induction rule: walk_walk_owners.pinduct)
  case (1 policy tag owner_tags visited)
  then show ?case by (fastforce simp: walk.psimps split: option.splits)
next
  case (2 policy owner_tags visited)
  then show ?case by (simp add: walk_owners.psimps)
next
  case (3 policy owner owners owner_tags visited)
  obtain b v' where w: "walk policy owner owner_tags visited = (b, v')" by fastforce
  show ?case using 3 w by (cases b) (auto simp: walk_owners.psimps, blast+)
qed

definition unvisited :: "policy \<Rightarrow> string set \<Rightarrow> nat" where
  "unvisited policy visited = card (fst ` set (p_tag_owners policy) - visited)"

lemma unvisited_insert:
  assumes "map_of (p_tag_owners policy) tag = Some owners" "tag \<notin> visited"
  shows "unvisited policy (insert tag visited) < unvisited policy visited"
proof -
  have "tag \<in> fst ` set (p_tag_owners policy)" using assms(1) by (force dest: map_of_SomeD)
  with assms(2) show ?thesis unfolding unvisited_def by (intro psubset_card_mono) auto
qed

lemma unvisited_mono: "v \<subseteq> v' \<Longrightarrow> unvisited policy v' \<le> unvisited policy v"
  unfolding unvisited_def by (intro card_mono) auto

termination walk
proof (relation "measures [case_sum (\<lambda>(p, _, _, v). unvisited p v) (\<lambda>(p, _, _, v). unvisited p v),
    case_sum (\<lambda>_. 0) (\<lambda>(_, os, _, _). Suc (length os))]", goal_cases)
  case (4 policy owner owners owner_tags visited found visited')
  from this(3) have "visited' = snd (walk policy owner owner_tags visited)" by (metis snd_conv)
  with walk_visited_partial(1)[OF 4(5)] have "visited \<subseteq> visited'" by simp
  from unvisited_mono[OF this, of policy] show ?case by auto
qed (auto simp: unvisited_insert)

declare walk.simps [simp del]

definition tag_owned_by_tags :: "policy \<Rightarrow> string \<Rightarrow> string list \<Rightarrow> bool" where
  "tag_owned_by_tags policy tag owner_tags =
     (if tag \<in> set owner_tags then True
      else if \<not> is_valid_tag tag then False
      else fst (walk policy tag owner_tags {}))"

text \<open>The filter over the requested tags stops for good at a tag whose check never returns.\<close>

fun filter_opt :: "('a \<Rightarrow> bool option) \<Rightarrow> 'a list \<Rightarrow> 'a list option" where
  "filter_opt f [] = Some []"
| "filter_opt f (x # xs) =
     (case f x of None \<Rightarrow> None
      | Some b \<Rightarrow> map_option (\<lambda>ys. if b then x # ys else ys) (filter_opt f xs))"

definition unauthorized_tags :: "policy \<Rightarrow> string option \<Rightarrow> string list \<Rightarrow> string list option" where
  "unauthorized_tags policy user_login requested =
     (case user_login of
        None \<Rightarrow> Some requested
      | Some login \<Rightarrow>
          filter_opt (\<lambda>tag. map_option Not (user_can_use_tag policy tag login)) requested)"

section \<open>What group membership means\<close>

inductive designates :: "policy \<Rightarrow> string \<Rightarrow> string \<Rightarrow> bool" for policy user where
  itself: "designates policy user user"
| member: "strip_prefix p ''group:'' = Some g \<Longrightarrow> map_of (p_groups policy) g = Some members \<Longrightarrow>
     m \<in> set members \<Longrightarrow> designates policy user m \<Longrightarrow> designates policy user p"

lemma designates_proper:
  "designates policy user p \<Longrightarrow> p = user \<or>
     (\<exists>g members m. strip_prefix p ''group:'' = Some g \<and> map_of (p_groups policy) g = Some members
        \<and> m \<in> set members \<and> m \<noteq> p \<and> designates policy user m)"
proof (induction rule: designates.induct)
  case (member p g members m)
  then show ?case by (cases "m = p") auto
qed simp

lemma principal_matches_user_sound:
  "principal_matches_user policy p user = Some b \<Longrightarrow> b \<longleftrightarrow> designates policy user p"
proof (induction rule: principal_matches_user.raw_induct[rotated 1, consumes 1])
  case (1 f policy p user b)
  show ?case
  proof (cases "p = user")
    case True
    with 1(2) show ?thesis by (auto intro: designates.itself)
  next
    case False
    show ?thesis
    proof (cases "\<exists>g members. strip_prefix p ''group:'' = Some g \<and> map_of (p_groups policy) g = Some members")
      case True
      then obtain g members where g: "strip_prefix p ''group:'' = Some g" "map_of (p_groups policy) g = Some members"
        by auto
      with 1(2) False have any: "any_opt (\<lambda>m. if m = p then Some False else f policy m user) members = Some b"
        by simp
      show ?thesis
      proof (cases b)
        case True
        with any have "any_opt (\<lambda>m. if m = p then Some False else f policy m user) members = Some True"
          by simp
        from any_opt_True[OF this] obtain m where "m \<in> set members" "f policy m user = Some True"
          by (auto split: if_splits)
        with 1(1) g True show ?thesis by (auto intro: designates.member)
      next
        case b: False
        have "\<not> designates policy user m" if "m \<in> set members" "m \<noteq> p" for m
          using that any b 1(1)[of policy m user False] by (auto simp: any_opt_False)
        with b False g designates_proper[of policy user p] show ?thesis by auto
      qed
    next
      case nog: False
      then have "b = False" using 1(2) False
        by (auto split: option.splits)
      with nog False designates_proper[of policy user p] show ?thesis by blast
    qed
  qed
qed

text \<open>A rank that decreases from every group to the groups among its members.\<close>

definition ranked_groups :: "policy \<Rightarrow> (string \<Rightarrow> nat) \<Rightarrow> bool" where
  "ranked_groups policy rank \<longleftrightarrow>
     (\<forall>g members m h. map_of (p_groups policy) g = Some members \<and> m \<in> set members
        \<and> strip_prefix m ''group:'' = Some h \<and> h \<noteq> g \<longrightarrow> rank h < rank g)"

lemma principal_matches_user_other:
  "strip_prefix p ''group:'' = None \<Longrightarrow> principal_matches_user policy p user = Some (p = user)"
  by (subst principal_matches_user.simps) simp

lemma principal_matches_user_returns:
  assumes "ranked_groups policy rank"
  shows "\<exists>b. principal_matches_user policy p user = Some b"
proof (cases "strip_prefix p ''group:''")
  case None
  then show ?thesis by (simp add: principal_matches_user_other)
next
  case (Some g)
  then show ?thesis
  proof (induction "rank g" arbitrary: g p rule: less_induct)
    case less
    have "\<exists>b. (if m = p then Some False else principal_matches_user policy m user) = Some b"
      if "map_of (p_groups policy) g = Some members" "m \<in> set members" for members m
    proof (cases "strip_prefix m ''group:''")
      case None
      then show ?thesis by (cases "m = p") (auto simp: principal_matches_user_other)
    next
      case (Some h)
      show ?thesis
      proof (cases "m = p")
        case False
        then have "h \<noteq> g" using Some less.prems by (auto simp: strip_prefix_Some)
        with assms that Some have "rank h < rank g" unfolding ranked_groups_def by blast
        from less.hyps[OF this Some] show ?thesis using False by simp
      qed auto
    qed
    then have "\<exists>b. any_opt (\<lambda>m. if m = p then Some False else principal_matches_user policy m user) members = Some b"
      if "map_of (p_groups policy) g = Some members" for members
      using that by (intro any_opt_returns) blast
    then show ?case using less.prems
      by (subst principal_matches_user.simps) (auto split: option.splits)
  qed
qed

text \<open>
  C30. Group membership, when the policy's groups are nested without a cycle: the walk
  returns, and it says yes exactly for the members in the transitive sense.
\<close>

theorem principal_matches_user_correct:
  assumes "ranked_groups policy rank"
  shows "principal_matches_user policy p user = Some (designates policy user p)"
  using principal_matches_user_returns[OF assms, of p user] principal_matches_user_sound[of policy p user]
  by auto

definition nested_groups :: policy where
  "nested_groups = empty_policy\<lparr>p_groups := [(''eng'', [''group:ops'', ''bob@x'']), (''ops'', [''eve@x''])]\<rparr>"

theorem principal_matches_user_correct_witness:
  "principal_matches_user nested_groups ''group:eng'' ''eve@x''
     = Some (designates nested_groups ''eve@x'' ''group:eng'')"
  by (rule principal_matches_user_correct[where rank = "\<lambda>g. if g = ''eng'' then 1 else 0"])
    (auto simp: ranked_groups_def nested_groups_def strip_prefix_def split: if_splits)

text \<open>One step of the walk: from a group to a member other than itself.\<close>

definition group_edge :: "policy \<Rightarrow> (string \<times> string) set" where
  "group_edge policy = {(p, m). \<exists>g members. strip_prefix p ''group:'' = Some g \<and> map_of (p_groups policy) g = Some members
     \<and> m \<in> set members \<and> m \<noteq> p}"

lemma finite_group_edge: "finite (group_edge policy)"
proof -
  have "group_edge policy \<subseteq> (\<lambda>(g, m). (''group:'' @ g, m)) ` (\<Union>(g, members) \<in> set (p_groups policy). {g} \<times> set members)"
    by (force simp: group_edge_def strip_prefix_Some dest: map_of_SomeD)
  then show ?thesis by (rule finite_subset) (auto intro!: finite_imageI)
qed

text \<open>A walk that answers no has walked the whole graph below its group, which is therefore well-founded.\<close>

lemma principal_False_acc:
  "principal_matches_user policy p user = Some b \<Longrightarrow> \<not> b \<Longrightarrow> p \<in> Wellfounded.acc ((group_edge policy)\<inverse>)"
proof (induction rule: principal_matches_user.raw_induct [rotated 1, consumes 1])
  case (1 f policy p user b)
  have "m \<in> Wellfounded.acc ((group_edge policy)\<inverse>)" if m: "(p, m) \<in> group_edge policy" for m
  proof -
    obtain g members where "strip_prefix p ''group:'' = Some g" "map_of (p_groups policy) g = Some members" "m \<in> set members" "m \<noteq> p"
      using m by (auto simp: group_edge_def)
    with 1(2,3) have "f policy m user = Some False" by (auto simp: any_opt_False split: if_splits)
    with 1(1) [of policy m user False] show ?thesis by simp
  qed
  then show ?case by (auto intro: accI)
qed

lemma acc_no_cycle:
  assumes "p \<in> Wellfounded.acc (R\<inverse>)" "(p, q) \<in> R\<^sup>*"
  shows "(q, q) \<notin> R\<^sup>+"
proof -
  have "q \<in> Wellfounded.acc (R\<inverse>)"
    using assms(2,1) by (induction rule: converse_rtrancl_induct) (auto dest: acc_downward)
  then show ?thesis
  proof (induction rule: acc.induct)
    case (accI x)
    show ?case
    proof
      assume "(x, x) \<in> R\<^sup>+"
      then obtain y where "(x, y) \<in> R" "(y, x) \<in> R\<^sup>*" by (meson tranclD)
      moreover from this have "(y, y) \<in> R\<^sup>+" by (meson rtrancl_into_trancl1)
      ultimately show False using accI by blast
    qed
  qed
qed

lemma no_cycle_returns:
  assumes "\<forall>q. (p, q) \<in> (group_edge policy)\<^sup>* \<longrightarrow> (q, q) \<notin> (group_edge policy)\<^sup>+"
  shows "\<exists>b. principal_matches_user policy p user = Some b"
proof -
  let ?E = "group_edge policy" and ?S = "{q. (p, q) \<in> (group_edge policy)\<^sup>*}"
  have "acyclic (?E \<inter> ?S \<times> ?S)"
  proof (rule acyclicI, intro allI notI)
    fix q assume c: "(q, q) \<in> (?E \<inter> ?S \<times> ?S)\<^sup>+"
    then have "q \<in> ?S" by (meson IntE SigmaD1 tranclD)
    moreover have "(q, q) \<in> ?E\<^sup>+" using c by (rule trancl_mono) simp
    ultimately show False using assms by blast
  qed
  then have "wf ((?E \<inter> ?S \<times> ?S)\<inverse>)" using finite_group_edge by (intro finite_acyclic_wf_converse) auto
  then have "q \<in> ?S \<Longrightarrow> \<exists>b. principal_matches_user policy q user = Some b" for q
  proof (induction q rule: wf_induct_rule)
    case (less q)
    have ret: "\<exists>b. principal_matches_user policy m user = Some b" if "(q, m) \<in> ?E" for m
      using less that by (auto intro: rtrancl_into_rtrancl)
    have "\<exists>b. any_opt (\<lambda>m. if m = q then Some False else principal_matches_user policy m user) members = Some b"
      if "strip_prefix q ''group:'' = Some g" "map_of (p_groups policy) g = Some members" for g members
      using ret that by (intro any_opt_returns) (auto simp: group_edge_def)
    then show ?case by (subst principal_matches_user.simps) (auto split: option.splits)
  qed
  then show ?thesis by simp
qed

text \<open>
  C31. When the group walk fails to return: for a user that the principal does not designate, the check never
  returns exactly when the groups below the principal form a cycle of two or more groups. Only a direct
  self-reference is cut off and there is no visited set. (A member found before the cycle is entered still ends the walk.)
\<close>

theorem group_cycles_diverge:
  assumes "\<not> designates policy user p"
  shows "principal_matches_user policy p user = None \<longleftrightarrow>
    (\<exists>q. (p, q) \<in> (group_edge policy)\<^sup>* \<and> (q, q) \<in> (group_edge policy)\<^sup>+)"
proof
  assume "principal_matches_user policy p user = None"
  then show "\<exists>q. (p, q) \<in> (group_edge policy)\<^sup>* \<and> (q, q) \<in> (group_edge policy)\<^sup>+"
    using no_cycle_returns [of p policy user] by auto
next
  assume "\<exists>q. (p, q) \<in> (group_edge policy)\<^sup>* \<and> (q, q) \<in> (group_edge policy)\<^sup>+"
  then obtain q where q: "(p, q) \<in> (group_edge policy)\<^sup>*" "(q, q) \<in> (group_edge policy)\<^sup>+" by blast
  have "p \<notin> Wellfounded.acc ((group_edge policy)\<inverse>)" using acc_no_cycle [OF _ q(1)] q(2) by metis
  then have "principal_matches_user policy p user \<noteq> Some b" for b
    using principal_False_acc [of policy p user b] principal_matches_user_sound [of policy p user b] assms by blast
  then show "principal_matches_user policy p user = None" by (cases "principal_matches_user policy p user") auto
qed

definition cyclic_groups :: policy where
  "cyclic_groups = empty_policy\<lparr>p_groups := [(''a'', [''ann@x'', ''group:b'']), (''b'', [''group:a''])]\<rparr>"

theorem group_cycles_diverge_witness:
  "principal_matches_user cyclic_groups ''group:a'' ''eve@x'' = None"
proof -
  have "designates cyclic_groups ''eve@x'' p \<Longrightarrow> p \<notin> {''group:a'', ''group:b'', ''ann@x''}" for p
    by (induction rule: designates.induct)
      (auto simp: cyclic_groups_def strip_prefix_Some split: if_splits)
  then have "\<not> designates cyclic_groups ''eve@x'' ''group:a''" by blast
  moreover have "(''group:a'', ''group:b'') \<in> group_edge cyclic_groups" "(''group:b'', ''group:a'') \<in> group_edge cyclic_groups"
    by (simp_all add: group_edge_def cyclic_groups_def strip_prefix_def)
  then have "(''group:a'', ''group:a'') \<in> (group_edge cyclic_groups)\<^sup>+" by (meson r_into_trancl trancl_trans)
  ultimately show ?thesis using group_cycles_diverge by blast
qed

section \<open>What ownership through tags means\<close>

inductive tag_reaches :: "policy \<Rightarrow> string \<Rightarrow> string \<Rightarrow> bool" for policy where
  here: "tag_reaches policy t t"
| there: "map_of (p_tag_owners policy) t = Some owners \<Longrightarrow> u \<in> set owners \<Longrightarrow>
     starts_with u ''tag:'' \<Longrightarrow> tag_reaches policy u v \<Longrightarrow> tag_reaches policy t v"

definition owned_in :: "policy \<Rightarrow> string list \<Rightarrow> string \<Rightarrow> bool" where
  "owned_in policy owner_tags t \<longleftrightarrow>
     (\<exists>owners. map_of (p_tag_owners policy) t = Some owners \<and> set owners \<inter> set owner_tags \<noteq> {})"

lemma walk_True:
  "walk policy tag owner_tags visited = (True, visited') \<Longrightarrow>
     \<exists>t. tag_reaches policy tag t \<and> owned_in policy owner_tags t"
  "walk_owners policy owners owner_tags visited = (True, visited') \<Longrightarrow>
     (\<exists>owner \<in> set owners. owner \<in> set owner_tags \<or>
        (starts_with owner ''tag:'' \<and> (\<exists>t. tag_reaches policy owner t \<and> owned_in policy owner_tags t)))"
proof (induction policy tag owner_tags visited and policy owners owner_tags visited
    arbitrary: visited' and visited' rule: walk_walk_owners.induct)
  case (1 policy tag owner_tags visited)
  then obtain owners where o: "tag \<notin> visited" "map_of (p_tag_owners policy) tag = Some owners"
    by (auto simp: walk.simps[of policy tag] split: if_splits option.splits)
  with "1.prems" have "walk_owners policy owners owner_tags (insert tag visited) = (True, visited')"
    by (simp add: walk.simps[of policy tag])
  from "1.IH"[OF o this] obtain owner where w: "owner \<in> set owners"
      "owner \<in> set owner_tags \<or> (starts_with owner ''tag:''
         \<and> (\<exists>t. tag_reaches policy owner t \<and> owned_in policy owner_tags t))"
    by blast
  show ?case
  proof (cases "owner \<in> set owner_tags")
    case True
    with w(1) o(2) have "owned_in policy owner_tags tag" by (auto simp: owned_in_def)
    then show ?thesis using tag_reaches.here by blast
  next
    case False
    with w o(2) show ?thesis using tag_reaches.there by blast
  qed
next
  case (3 policy owner owners owner_tags visited)
  obtain b v where w: "walk policy owner owner_tags visited = (b, v)" by fastforce
  show ?case
  proof (cases "owner \<in> set owner_tags")
    case False
    with 3 w show ?thesis by (cases "starts_with owner ''tag:''"; cases b) auto
  qed simp
qed simp

text \<open>A failed walk leaves a set closed under ownership in which nothing is owned.\<close>

definition settled :: "policy \<Rightarrow> string list \<Rightarrow> string set \<Rightarrow> string list \<Rightarrow> bool" where
  "settled policy owner_tags visited owners \<longleftrightarrow>
     (\<forall>u \<in> set owners. u \<notin> set owner_tags \<and> (starts_with u ''tag:'' \<longrightarrow> u \<in> visited))"

lemma settled_mono: "settled policy ots v owners \<Longrightarrow> v \<subseteq> v' \<Longrightarrow> settled policy ots v' owners"
  by (auto simp: settled_def)

lemma walk_False:
  "walk policy tag owner_tags visited = (False, visited') \<Longrightarrow>
     visited \<subseteq> visited' \<and> tag \<in> visited' \<and>
     (\<forall>t owners. t \<in> visited' - visited \<longrightarrow> map_of (p_tag_owners policy) t = Some owners \<longrightarrow>
        settled policy owner_tags visited' owners)"
  "walk_owners policy owners owner_tags visited = (False, visited') \<Longrightarrow>
     visited \<subseteq> visited' \<and> settled policy owner_tags visited' owners \<and>
     (\<forall>t owners. t \<in> visited' - visited \<longrightarrow> map_of (p_tag_owners policy) t = Some owners \<longrightarrow>
        settled policy owner_tags visited' owners)"
proof (induction policy tag owner_tags visited and policy owners owner_tags visited
    arbitrary: visited' and visited' rule: walk_walk_owners.induct)
  case (1 policy tag owner_tags visited)
  show ?case
  proof (cases "tag \<in> visited \<or> map_of (p_tag_owners policy) tag = None")
    case True
    with "1.prems" show ?thesis by (auto simp: walk.simps[of policy tag] split: if_splits)
  next
    case False
    then obtain owners where o: "tag \<notin> visited" "map_of (p_tag_owners policy) tag = Some owners"
      by auto
    with "1.prems" have "walk_owners policy owners owner_tags (insert tag visited) = (False, visited')"
      by (simp add: walk.simps[of policy tag])
    from "1.IH"[OF o this] o show ?thesis by auto
  qed
next
  case (2 policy owner_tags visited)
  then show ?case by (auto simp: settled_def)
next
  case (3 policy owner owners owner_tags visited)
  obtain b v where w: "walk policy owner owner_tags visited = (b, v)" by fastforce
  from 3(4) have no: "owner \<notin> set owner_tags" by auto
  show ?case
  proof (cases "starts_with owner ''tag:''")
    case True
    with no 3(4) w have b: "\<not> b" "walk_owners policy owners owner_tags v = (False, visited')"
      by (cases b; simp)+
    with 3(1)[OF no True, of v] w have IH1: "visited \<subseteq> v" "owner \<in> v"
      "\<And>t os. t \<in> v - visited \<Longrightarrow> map_of (p_tag_owners policy) t = Some os \<Longrightarrow> settled policy owner_tags v os"
      by auto
    have IH2: "v \<subseteq> visited'" "settled policy owner_tags visited' owners"
      "\<And>t os. t \<in> visited' - v \<Longrightarrow> map_of (p_tag_owners policy) t = Some os \<Longrightarrow>
        settled policy owner_tags visited' os"
      using 3(2)[OF no True w[symmetric] _ b(2)] b(1) by auto
    have "settled policy owner_tags visited' os"
      if "t \<in> visited' - visited" "map_of (p_tag_owners policy) t = Some os" for t os
      using IH1(3)[OF _ that(2)] IH2(3)[OF _ that(2)] IH2(1) settled_mono that(1) by (cases "t \<in> v") blast+
    moreover have "settled policy owner_tags visited' (owner # owners)"
      using IH1(2) IH2(1,2) no by (auto simp: settled_def)
    moreover have "visited \<subseteq> visited'" using IH1(1) IH2(1) by blast
    ultimately show ?thesis by blast
  next
    case False
    with no 3(4) have "walk_owners policy owners owner_tags visited = (False, visited')" by simp
    from 3(3)[OF no False this] no False show ?thesis by (simp add: settled_def)
  qed
qed

lemma walk_correct:
  "fst (walk policy tag owner_tags {}) \<longleftrightarrow>
     (\<exists>t. tag_reaches policy tag t \<and> owned_in policy owner_tags t)"
proof -
  obtain b v where w: "walk policy tag owner_tags {} = (b, v)" by fastforce
  show ?thesis
  proof (cases b)
    case True
    with w walk_True(1) show ?thesis by auto
  next
    case False
    with w have closed: "tag \<in> v"
      "\<And>t owners. t \<in> v \<Longrightarrow> map_of (p_tag_owners policy) t = Some owners \<Longrightarrow> settled policy owner_tags v owners"
      using walk_False(1)[of policy tag owner_tags "{}" v] by auto
    have "t \<in> v" if "tag_reaches policy s t" "s \<in> v" for s t
      using that closed(2) by (induction rule: tag_reaches.induct) (auto simp: settled_def)
    then have "t \<in> v" if "tag_reaches policy tag t" for t
      using that closed(1) by blast
    moreover have "\<not> owned_in policy owner_tags t" if "t \<in> v" for t
      using closed(2)[OF that] by (auto simp: owned_in_def settled_def)
    ultimately show ?thesis using False w by auto
  qed
qed

text \<open>
  C29. Ownership through tags: the walk with its visited set always returns and agrees with
  reachability in the \<^verbatim>\<open>tagOwners\<close> graph, cyclic or not: a credential may mint a tag when it
  holds the tag, or holds a tag listed as owner of some tag reachable from it.
\<close>

theorem tag_owned_by_tags_correct:
  "tag_owned_by_tags policy tag owner_tags \<longleftrightarrow>
     tag \<in> set owner_tags \<or>
     (is_valid_tag tag \<and> (\<exists>t. tag_reaches policy tag t \<and> owned_in policy owner_tags t))"
  by (simp add: tag_owned_by_tags_def walk_correct)

text \<open>
  \<^verbatim>\<open>unauthorized_tags\<close> reports exactly the requested tags the user may not use: on a
  policy without group cycles, a tag is left out of the report only when it is a valid,
  declared tag one of whose owners designates the user; with no user everything is rejected.
\<close>

theorem unauthorized_tags_exact:
  assumes "ranked_groups policy rank"
  shows "unauthorized_tags policy (Some login) requested =
      Some (filter (\<lambda>tag. \<not> (is_valid_tag tag \<and>
          (\<exists>owners owner. map_of (p_tag_owners policy) tag = Some owners \<and> owner \<in> set owners
             \<and> designates policy login owner))) requested)"
    (is "_ = Some (filter (\<lambda>tag. \<not> ?ok tag) requested)")
proof -
  have "user_can_use_tag policy tag login = Some (?ok tag)" for tag
  proof (cases "map_of (p_tag_owners policy) tag")
    case (Some owners)
    have "principal_matches_user policy owner login = Some (designates policy login owner)" for owner
      using principal_matches_user_returns[OF assms, of owner login]
        principal_matches_user_sound[of policy owner login] by auto
    then have "any_opt (\<lambda>owner. principal_matches_user policy owner login) owners
        = Some (\<exists>owner \<in> set owners. designates policy login owner)"
      by (rule any_opt_total)
    with Some show ?thesis by (auto simp: user_can_use_tag_def)
  qed (auto simp: user_can_use_tag_def)
  then show ?thesis by (induction requested) (auto simp: unauthorized_tags_def)
qed

end
