(* ===== verification/Policy_Routes.thy ===== *)
theory Policy_Routes
  imports Policy_Tags
begin

text \<open>
  Route canonicalisation and auto-approval, \<^verbatim>\<open>crabscale-policy/src/routes.rs\<close>. Prefix
  lengths (\<^verbatim>\<open>u8\<close>) are natural numbers; masks are machine words.
\<close>

section \<open>CIDR arithmetic\<close>

definition parse_cidr :: "string \<Rightarrow> (ip_addr \<times> nat) option" where
  "parse_cidr s =
     (case parse_ip s of
        Some ip \<Rightarrow> Some (ip, if is_ipv4 ip then 32 else 128)
      | None \<Rightarrow>
          Option.bind (split_once (CHR ''/'') s) (\<lambda>(addr, bits).
          Option.bind (parse_ip addr) (\<lambda>ip.
          Option.bind (parse_u8 bits) (\<lambda>bits.
            if bits > (if is_ipv4 ip then 32 else 128) then None else Some (ip, bits)))))"

definition mask_u32 :: "nat \<Rightarrow> u32" where
  "mask_u32 bits = (if bits = 0 then 0 else push_bit (32 - bits) (- 1))"

definition mask_u128 :: "nat \<Rightarrow> u128" where
  "mask_u128 bits = (if bits = 0 then 0 else push_bit (128 - bits) (- 1))"

fun mask_addr :: "ip_addr \<Rightarrow> nat \<Rightarrow> ip_addr" where
  "mask_addr (V4 a) bits = V4 (a AND mask_u32 bits)"
| "mask_addr (V6 a) bits = V6 (a AND mask_u128 bits)"

definition canonical_route :: "string \<Rightarrow> string option" where
  "canonical_route s =
     (case parse_cidr s of
        None \<Rightarrow> None
      | Some (ip, bits) \<Rightarrow> Some (show_ip (mask_addr ip bits) @ ''/'' @ dec_str bits))"

definition addr_in_cidr :: "string \<Rightarrow> string \<Rightarrow> bool" where
  "addr_in_cidr addr net =
     (case parse_cidr addr of
        None \<Rightarrow> False
      | Some (addr_ip, _) \<Rightarrow>
          (case parse_cidr net of
             None \<Rightarrow> False
           | Some (net_ip, bits) \<Rightarrow>
               (case (addr_ip, net_ip) of
                  (V4 a, V4 n) \<Rightarrow> a AND mask_u32 (min bits 32) = n AND mask_u32 (min bits 32)
                | (V6 a, V6 n) \<Rightarrow> a AND mask_u128 (min bits 128) = n AND mask_u128 (min bits 128)
                | _ \<Rightarrow> False)))"

section \<open>Auto-approval\<close>

definition approver_matches_node :: "policy \<Rightarrow> string \<Rightarrow> compile_node \<Rightarrow> bool option" where
  "approver_matches_node policy prin node =
     (if prin = ''*'' then Some True
      else case strip_prefix prin ''autogroup:'' of
        Some rest \<Rightarrow>
          Some (if rest = ''self'' then True
                else if rest = ''member'' then cn_tags node = []
                else if rest = ''tagged'' then cn_tags node \<noteq> []
                else False)
      | None \<Rightarrow>
          if starts_with prin ''group:'' then
            (case cn_user_login node of
               None \<Rightarrow> Some False
             | Some login \<Rightarrow> principal_matches_user policy prin login)
          else if starts_with prin ''tag:'' then Some (prin \<in> set (cn_tags node))
          else if cn_user_login node = Some prin then Some True
          else Some (case canonical_route prin of
              None \<Rightarrow> False
            | Some net \<Rightarrow> list_ex (\<lambda>addr. addr_in_cidr addr net) (cn_addresses node)))"

text \<open>The body of the closure \<^verbatim>\<open>consider\<close>, for one entry of a map and one route.\<close>

definition consider_route ::
  "policy \<Rightarrow> compile_node \<Rightarrow> string \<Rightarrow> string list \<Rightarrow> string \<Rightarrow> string option option" where
  "consider_route policy node canon_prefix approvers route =
     (case canonical_route route of
        None \<Rightarrow> Some None
      | Some canon_route \<Rightarrow>
          if addr_in_cidr canon_route canon_prefix then
            map_option (\<lambda>b. if b then Some canon_route else None)
              (any_opt (\<lambda>approver. approver_matches_node policy approver node) approvers)
          else Some None)"

fun collect_opt :: "('a \<Rightarrow> 'b option option) \<Rightarrow> 'a list \<Rightarrow> 'b list option" where
  "collect_opt f [] = Some []"
| "collect_opt f (x # xs) =
     (case f x of
        None \<Rightarrow> None
      | Some r \<Rightarrow> map_option (\<lambda>ys. (case r of None \<Rightarrow> ys | Some y \<Rightarrow> y # ys)) (collect_opt f xs))"

definition consider_prefix ::
  "policy \<Rightarrow> compile_node \<Rightarrow> string list \<Rightarrow> string \<times> string list \<Rightarrow> string list option" where
  "consider_prefix policy node advertised entry =
     (case entry of (pre, approvers) \<Rightarrow>
        (case canonical_route pre of
           None \<Rightarrow> Some []
         | Some canon_prefix \<Rightarrow>
             collect_opt (consider_route policy node canon_prefix approvers) advertised))"

fun concat_opt :: "('a \<Rightarrow> 'b list option) \<Rightarrow> 'a list \<Rightarrow> 'b list option" where
  "concat_opt f [] = Some []"
| "concat_opt f (x # xs) =
     Option.bind (f x) (\<lambda>ys. map_option (\<lambda>zs. ys @ zs) (concat_opt f xs))"

definition auto_approved_routes :: "policy \<Rightarrow> compile_node \<Rightarrow> string list \<Rightarrow> string list option" where
  "auto_approved_routes policy node advertised =
     map_option sort_dedup
       (concat_opt (consider_prefix policy node advertised)
         (aa_routes (p_auto_approvers policy) @ aa_exit_node (p_auto_approvers policy)))"

section \<open>Canonical routes\<close>

text \<open>The characters an address is made of; a slash is not one of them.\<close>

lemma slash_not_in_num: "CHR ''/'' \<notin> set (num_str radix n)" if "2 \<le> radix" "radix \<le> 16"
  using num_str_digits[OF that, of n] by (auto simp: list_all_iff)

lemma set_join: "set (join sep xs) \<subseteq> set sep \<union> \<Union> (set ` set xs)"
  by (induction sep xs rule: join.induct) auto

lemma slash_not_in_ip: "CHR ''/'' \<notin> set (show_ip ip)"
proof -
  have v4: "CHR ''/'' \<notin> set (show_ipv4 a)" for a
    using set_join[of "''.''" "map dec_str (octets a)"] slash_not_in_num
    by (auto simp: show_ipv4_def)
  have "CHR ''/'' \<notin> set (fmt_subslice gs)" for gs
    using set_join[of "'':''" "map hex_str gs"] slash_not_in_num by (auto simp: fmt_subslice_def)
  with v4 show ?thesis by (cases ip) (auto simp: show_ipv6_def Let_def split: prod.splits)
qed

definition ip_char :: "char \<Rightarrow> bool" where
  "ip_char c \<longleftrightarrow> is_digit 16 c \<or> c = CHR ''.'' \<or> c = CHR '':''"

text \<open>What a parser has consumed is made of address characters only.\<close>

definition eats :: "string \<Rightarrow> string \<Rightarrow> bool" where
  "eats s r \<longleftrightarrow> (\<exists>pre. s = pre @ r \<and> list_all ip_char pre)"

lemma eats_refl [simp]: "eats s s"
  by (simp add: eats_def)

lemma eats_trans: "eats a b \<Longrightarrow> eats b c \<Longrightarrow> eats a c"
  by (auto simp: eats_def)

lemma eats_Cons: "ip_char c \<Longrightarrow> eats s r \<Longrightarrow> eats (c # s) r"
  unfolding eats_def by (metis append_Cons list.pred_inject(2))

lemma eats_number:
  assumes "read_number radix m z s = Some (n, r)" "radix = 10 \<or> radix = 16"
  shows "eats s r"
proof -
  have "s = takeWhile (is_digit radix) s @ r"
    using assms(1) by (auto simp: read_number_def Let_def dropWhile_eq_drop[symmetric] split: if_splits)
  moreover have "list_all ip_char (takeWhile (is_digit radix) s)"
    using assms(2) is_digit_mono by (auto simp: list_all_iff ip_char_def dest!: set_takeWhileD)
  ultimately show ?thesis unfolding eats_def by blast
qed

lemma eats_octet: "read_octet s = Some (n, r) \<Longrightarrow> eats s r"
  by (auto simp: read_octet_def split: option.splits if_splits dest: eats_number)

lemma eats_separator:
  assumes "read_separator c first inner s = Some (x, r)" "ip_char c"
    and "\<And>s. inner s = Some (x, r) \<Longrightarrow> eats s r"
  shows "eats s r"
  using assms by (auto simp: read_separator_def Option.bind_eq_Some_conv intro: eats_Cons split: if_splits)

lemma ip_char_punct [simp]: "ip_char (CHR ''.'')" "ip_char (CHR '':'')"
  by (simp_all add: ip_char_def)

lemma eats_sep_octet: "read_separator (CHR ''.'') False read_octet s = Some (x, r) \<Longrightarrow> eats s r"
  by (erule eats_separator) (auto dest: eats_octet)

lemma eats_ipv4: "read_ipv4_octets s = Some (os, r) \<Longrightarrow> eats s r"
  unfolding read_ipv4_octets_def
  by (auto simp: Option.bind_eq_Some_conv dest!: eats_octet eats_sep_octet)
    (meson eats_trans)

lemma eats_groups: "read_groups k first s = (gs, v4, r) \<Longrightarrow> eats s r"
proof (induction k arbitrary: first s gs v4 r)
  case (Suc k)
  show ?case
  proof (cases "if 0 < k then read_separator (CHR '':'') first read_ipv4_octets s else None")
    case (Some a)
    with Suc.prems obtain os where "read_separator (CHR '':'') first read_ipv4_octets s = Some (os, r)"
      by (cases a) (auto split: if_splits)
    then show ?thesis by (rule eats_separator) (auto dest: eats_ipv4)
  next
    case None
    show ?thesis
    proof (cases "read_separator (CHR '':'') first (read_number 16 4 True) s")
      case n: None
      with None Suc.prems show ?thesis by simp
    next
      case (Some a)
      then obtain g r1 where a: "read_separator (CHR '':'') first (read_number 16 4 True) s = Some (g, r1)"
        by (cases a) auto
      with None Suc.prems obtain gs' where "read_groups k False r1 = (gs', v4, r)"
        by (auto split: prod.splits)
      moreover have "eats s r1" using a by (rule eats_separator) (auto dest: eats_number)
      ultimately show ?thesis using Suc.IH eats_trans by blast
    qed
  qed
qed simp

lemma eats_ipv6:
  assumes "read_ipv6 s = Some (gs, r)"
  shows "eats s r"
proof -
  obtain hs v4 r0 where h: "read_groups 8 True s = (hs, v4, r0)" using prod_cases3 by blast
  note e = eats_groups[OF h]
  show ?thesis
  proof (cases "length hs = 8")
    case True
    with assms h e show ?thesis by (simp add: read_ipv6_def)
  next
    case False
    with assms h obtain r2 where r2: "r0 = CHR '':'' # CHR '':'' # r2"
      "(case read_groups (8 - (length hs + 1)) True r2 of (tail, _, r') \<Rightarrow>
          Some (hs @ replicate (8 - length hs - length tail) 0 @ tail, r')) = Some (gs, r)"
      by (auto simp: read_ipv6_def Option.bind_eq_Some_conv split: if_splits)
    obtain ts v r3 where t: "read_groups (8 - (length hs + 1)) True r2 = (ts, v, r3)"
      using prod_cases3 by blast
    with r2 have "eats r2 r" using eats_groups[OF t] by simp
    then have "eats r0 r" by (simp add: r2(1) eats_Cons)
    with e show ?thesis by (rule eats_trans)
  qed
qed

lemma parse_ip_chars: "parse_ip s = Some ip \<Longrightarrow> list_all ip_char s"
  by (auto simp: parse_ip_def parse_ipv6_def split: option.splits if_splits list.splits
      dest!: eats_ipv4 eats_ipv6) (auto simp: eats_def)

lemma ip_char_slash [simp]: "\<not> ip_char (CHR ''/'')"
  by (simp add: ip_char_def)

lemma parse_ip_slash [simp]: "parse_ip (a @ CHR ''/'' # b) = None"
  using parse_ip_chars[of "a @ CHR ''/'' # b"] by (cases "parse_ip (a @ CHR ''/'' # b)") auto

abbreviation max_bits :: "ip_addr \<Rightarrow> nat" where
  "max_bits ip \<equiv> if is_ipv4 ip then 32 else 128"

lemma parse_cidr_show [simp]:
  "bits \<le> max_bits ip \<Longrightarrow> parse_cidr (show_ip ip @ CHR ''/'' # dec_str bits) = Some (ip, bits)"
  using slash_not_in_ip[of ip] by (auto simp: parse_cidr_def split: if_splits)

lemma parse_cidr_bits: "parse_cidr s = Some (ip, bits) \<Longrightarrow> bits \<le> max_bits ip"
  by (auto simp: parse_cidr_def Option.bind_eq_Some_conv split: option.splits if_splits)

lemma is_ipv4_mask [simp]: "is_ipv4 (mask_addr ip bits) = is_ipv4 ip"
  by (cases ip) simp_all

lemma mask_addr_idem [simp]: "mask_addr (mask_addr ip bits) bits = mask_addr ip bits"
  by (cases ip) (simp_all add: and.assoc)

lemma canonical_route_parse:
  "parse_cidr s = Some (ip, bits) \<Longrightarrow>
     canonical_route s = Some (show_ip (mask_addr ip bits) @ CHR ''/'' # dec_str bits)"
  by (simp add: canonical_route_def)

lemma parse_canonical:
  assumes "canonical_route s = Some c"
  shows "\<exists>ip bits. parse_cidr s = Some (ip, bits) \<and> parse_cidr c = Some (mask_addr ip bits, bits)"
proof -
  obtain ip bits where p: "parse_cidr s = Some (ip, bits)" "c = show_ip (mask_addr ip bits) @ CHR ''/'' # dec_str bits"
    using assms by (auto simp: canonical_route_def split: option.splits)
  with parse_cidr_bits[OF p(1)] show ?thesis by auto
qed

text \<open>
  The canonical form of a route is a fixed point of canonicalisation, and two routes
  have the same canonical form exactly when they have the same prefix length and the same
  network address, whatever host bits and whatever spelling they were written with.
\<close>

theorem canonical_route_normal_form:
  assumes "parse_cidr s = Some (ip, bits)" "parse_cidr t = Some (ip', bits')"
  shows "(\<exists>c. canonical_route s = Some c \<and> canonical_route c = Some c)
    \<and> (canonical_route s = canonical_route t \<longleftrightarrow>
         bits = bits' \<and> mask_addr ip bits = mask_addr ip' bits')"
proof -
  have bits: "bits \<le> max_bits (mask_addr ip bits)" "bits' \<le> max_bits (mask_addr ip' bits')"
    using parse_cidr_bits assms by simp_all
  note p = parse_cidr_show[OF bits(1)] parse_cidr_show[OF bits(2)]
  from p(1) have "canonical_route (show_ip (mask_addr ip bits) @ CHR ''/'' # dec_str bits)
      = Some (show_ip (mask_addr ip bits) @ CHR ''/'' # dec_str bits)"
    by (simp add: canonical_route_parse)
  moreover have "canonical_route s = canonical_route t \<longleftrightarrow>
      bits = bits' \<and> mask_addr ip bits = mask_addr ip' bits'"
    using p by (auto simp: canonical_route_parse[OF assms(1)] canonical_route_parse[OF assms(2)])
  ultimately show ?thesis by (simp add: canonical_route_parse[OF assms(1)])
qed

section \<open>Auto-approval\<close>

lemma collect_opt_set:
  "collect_opt f xs = Some ys \<Longrightarrow> set ys = {y. \<exists>x \<in> set xs. f x = Some (Some y)}"
  by (induction xs arbitrary: ys) (fastforce split: option.splits)+

lemma concat_opt_set:
  "concat_opt f xs = Some ys \<Longrightarrow>
     (\<forall>x \<in> set xs. \<exists>zs. f x = Some zs) \<and> set ys = {y. \<exists>x \<in> set xs. \<exists>zs. f x = Some zs \<and> y \<in> set zs}"
proof (induction xs arbitrary: ys)
  case (Cons x xs)
  then obtain zs ws where "f x = Some zs" "concat_opt f xs = Some ws" "ys = zs @ ws"
    by (auto simp: Option.bind_eq_Some_conv)
  with Cons.IH[of ws] show ?case by auto
qed simp

text \<open>The addresses of a network: those of its family that agree with it in the leading bits.\<close>

fun net_addrs :: "ip_addr \<Rightarrow> nat \<Rightarrow> ip_addr set" where
  "net_addrs (V4 n) bits = {V4 a | a. \<forall>i < 32. 32 - bits \<le> i \<longrightarrow> bit a i = bit n i}"
| "net_addrs (V6 n) bits = {V6 a | a. \<forall>i < 128. 128 - bits \<le> i \<longrightarrow> bit a i = bit n i}"

lemma bit_mask_words:
  "bits \<le> 32 \<Longrightarrow> i < 32 \<Longrightarrow> bit (mask_u32 bits) i \<longleftrightarrow> 32 - bits \<le> i"
  "bits \<le> 128 \<Longrightarrow> i < 128 \<Longrightarrow> bit (mask_u128 bits) i \<longleftrightarrow> 128 - bits \<le> i"
  by (auto simp: mask_u32_def mask_u128_def bit_simps)

lemma masked_eq_iff:
  "bits \<le> 32 \<Longrightarrow> a AND mask_u32 bits = n AND mask_u32 bits \<longleftrightarrow> (\<forall>i < 32. 32 - bits \<le> i \<longrightarrow> bit a i = bit n i)"
  "bits \<le> 128 \<Longrightarrow> b AND mask_u128 bits = m AND mask_u128 bits \<longleftrightarrow> (\<forall>i < 128. 128 - bits \<le> i \<longrightarrow> bit b i = bit m i)"
  by (auto simp: bit_eq_iff bit_and_iff bit_mask_words)

lemma addr_in_cidr_iff:
  assumes "parse_cidr r = Some (a, m)" "parse_cidr net = Some (n, bits)"
  shows "addr_in_cidr r net \<longleftrightarrow> a \<in> net_addrs n bits"
  using parse_cidr_bits [OF assms(2)] assms
  by (cases a; cases n) (simp_all add: addr_in_cidr_def masked_eq_iff min_absorb1)

lemma net_addrs_masked: "bits \<le> max_bits n \<Longrightarrow> net_addrs (mask_addr n bits) bits = net_addrs n bits"
  by (cases n) (auto simp: bit_and_iff bit_mask_words)

text \<open>An entry approves a route when the first address of the route is one of the addresses of the entry, and an approver of the
  entry matches the node.\<close>

definition covers_first :: "string \<Rightarrow> string \<Rightarrow> bool" where
  "covers_first pre route \<longleftrightarrow> (\<exists>n bits a m. parse_cidr pre = Some (n, bits) \<and> parse_cidr route = Some (a, m)
     \<and> mask_addr a m \<in> net_addrs n bits)"

definition entry_approves :: "policy \<Rightarrow> compile_node \<Rightarrow> string \<Rightarrow> string \<times> string list \<Rightarrow> bool" where
  "entry_approves policy node route entry \<longleftrightarrow> covers_first (fst entry) route
     \<and> (\<exists>approver \<in> set (snd entry). approver_matches_node policy approver node = Some True)"

lemma covers_first_iff:
  assumes "canonical_route pre = Some net" "canonical_route s = Some r"
  shows "addr_in_cidr r net \<longleftrightarrow> covers_first pre r"
proof -
  obtain n bits where n: "parse_cidr pre = Some (n, bits)" "parse_cidr net = Some (mask_addr n bits, bits)"
    using parse_canonical [OF assms(1)] by blast
  obtain a m where a: "parse_cidr r = Some (mask_addr a m, m)" using parse_canonical [OF assms(2)] by blast
  show ?thesis
    using addr_in_cidr_iff [OF a n(2)] net_addrs_masked [OF parse_cidr_bits [OF n(1)]] n(1) a by (simp add: covers_first_def)
qed

lemma covers_first_canonical: "covers_first pre r \<Longrightarrow> \<exists>net. canonical_route pre = Some net"
  by (auto simp: covers_first_def canonical_route_def)

lemma consider_route_Some:
  "consider_route policy node net approvers route = Some (Some r) \<longleftrightarrow>
     canonical_route route = Some r \<and> addr_in_cidr r net
     \<and> any_opt (\<lambda>a. approver_matches_node policy a node) approvers = Some True"
  by (auto simp: consider_route_def split: option.splits if_splits)

lemma collect_opt_returns: "collect_opt f xs = Some ys \<Longrightarrow> x \<in> set xs \<Longrightarrow> \<exists>y. f x = Some y"
  by (induction xs arbitrary: ys) (auto split: option.splits)

lemma any_opt_Some_True:
  "any_opt f xs = Some b \<Longrightarrow> any_opt f xs = Some True \<longleftrightarrow> (\<exists>x \<in> set xs. f x = Some True)"
  using any_opt_True [of f xs] any_opt_False [of f xs] by (cases b) auto

lemma consider_prefix_set:
  assumes "consider_prefix policy node advertised entry = Some zs"
  shows "set zs = {r. \<exists>route \<in> set advertised. canonical_route route = Some r \<and> entry_approves policy node r entry}"
proof (cases "canonical_route (fst entry)")
  case None
  then show ?thesis using assms covers_first_canonical
    by (fastforce simp: consider_prefix_def entry_approves_def split: prod.splits)
next
  case (Some net)
  let ?any = "any_opt (\<lambda>a. approver_matches_node policy a node) (snd entry)"
  have c: "collect_opt (consider_route policy node net (snd entry)) advertised = Some zs"
    using assms Some by (simp add: consider_prefix_def split_beta)
  have "?any = Some True \<longleftrightarrow> (\<exists>a \<in> set (snd entry). approver_matches_node policy a node = Some True)"
    if "route \<in> set advertised" "canonical_route route = Some r" "addr_in_cidr r net" for route r
    using collect_opt_returns [OF c that(1)] that(2,3) any_opt_Some_True by (fastforce simp: consider_route_def)
  then show ?thesis
    unfolding collect_opt_set [OF c] consider_route_Some entry_approves_def
    using covers_first_iff [OF Some] by blast
qed

text \<open>
  C32. The approved routes, whenever the computation returns, are in canonical form, sorted and free of duplicates, and a
  route is approved exactly when it was advertised and some \<^verbatim>\<open>autoApprovers\<close> entry contains its first address and names an
  approver matching the node. The entry need not contain the rest of the route, since the prefix length of the route is not
  compared.
\<close>

theorem auto_approved_routes_exact:
  assumes "auto_approved_routes policy node advertised = Some rs"
  shows "sorted rs \<and> distinct rs \<and>
    set rs = {r. (\<exists>route \<in> set advertised. canonical_route route = Some r) \<and>
        (\<exists>entry \<in> set (aa_routes (p_auto_approvers policy) @ aa_exit_node (p_auto_approvers policy)).
           entry_approves policy node r entry)}"
proof -
  obtain ys where ys: "rs = sort_dedup ys"
    "concat_opt (consider_prefix policy node advertised)
       (aa_routes (p_auto_approvers policy) @ aa_exit_node (p_auto_approvers policy)) = Some ys"
    using assms by (auto simp: auto_approved_routes_def)
  from concat_opt_set[OF ys(2)] consider_prefix_set[of policy node advertised]
  have "set ys = {r. (\<exists>route \<in> set advertised. canonical_route route = Some r) \<and>
        (\<exists>entry \<in> set (aa_routes (p_auto_approvers policy) @ aa_exit_node (p_auto_approvers policy)).
           entry_approves policy node r entry)}"
    by fast
  then show ?thesis by (simp only: ys(1) set_sort_dedup sort_dedup_sorted sort_dedup_distinct simp_thms)
qed

definition approve_lab :: policy where
  "approve_lab = empty_policy\<lparr>p_auto_approvers :=
     \<lparr>aa_routes = [(''10.0.0.0/24'', [''tag:router''])], aa_exit_node = []\<rparr>\<rparr>"

definition lab_router :: compile_node where
  "lab_router = (with_addresses 7 [''100.64.0.7/32''])\<lparr>cn_tags := [''tag:router'']\<rparr>"

lemma lab_approval: "auto_approved_routes approve_lab lab_router [''10.0.0.9'', ''10.1.0.0/16'']
    = Some [''10.0.0.9/32'']"
  by code_simp

theorem auto_approved_routes_exact_witness:
  "\<exists>entry \<in> set (aa_routes (p_auto_approvers approve_lab) @ aa_exit_node (p_auto_approvers approve_lab)).
     entry_approves approve_lab lab_router ''10.0.0.9/32'' entry"
proof -
  have "''10.0.0.9/32'' \<in> set [''10.0.0.9/32'']" by simp
  with auto_approved_routes_exact[OF lab_approval] show ?thesis by blast
qed

text \<open>
  C33. The containment test used for auto-approval ignores the prefix length of the route:
  routes with the same address are inside a network together or not at all. A node allowed
  to advertise \<^verbatim>\<open>10.0.0.0/24\<close> is therefore auto-approved for \<^verbatim>\<open>10.0.0.0/8\<close> as well, a route
  65536 times as large that does not fall inside the approved prefix.
\<close>

theorem containment_ignores_prefix_length:
  assumes "bits \<le> max_bits ip" "bits' \<le> max_bits ip"
  shows "addr_in_cidr (show_ip ip @ ''/'' @ dec_str bits) net
           = addr_in_cidr (show_ip ip @ ''/'' @ dec_str bits') net
    \<and> auto_approved_routes approve_lab lab_router [''10.0.0.0/8''] = Some [''10.0.0.0/8'']"
proof -
  have "auto_approved_routes approve_lab lab_router [''10.0.0.0/8''] = Some [''10.0.0.0/8'']"
    by code_simp
  moreover have "addr_in_cidr (show_ip ip @ ''/'' @ dec_str bits) net
      = addr_in_cidr (show_ip ip @ ''/'' @ dec_str bits') net"
    using assms by (simp add: addr_in_cidr_def)
  ultimately show ?thesis by blast
qed

theorem containment_ignores_prefix_length_witness:
  "addr_in_cidr (show_ip (V4 0) @ ''/'' @ dec_str 0) ''0.0.0.0/8''
     = addr_in_cidr (show_ip (V4 0) @ ''/'' @ dec_str 32) ''0.0.0.0/8''"
  using containment_ignores_prefix_length[of 0 "V4 0" 32 "''0.0.0.0/8''"] by simp

end
