(* ===== verification/Rust_Map.thy ===== *)
theory Rust_Map
  imports Crab_Prelude
begin

text \<open>
  \<^verbatim>\<open>BTreeMap\<close> as a list of entries in strictly increasing key order: the operations the
  sources use, the ordered-map interface they satisfy, and its consequences.
\<close>

type_synonym ('k, 'v) btree = "('k \<times> 'v) list"

definition bt_inv :: "('k::linorder, 'v) btree \<Rightarrow> bool" where
  "bt_inv m \<longleftrightarrow> sorted_wrt (<) (map fst m)"

definition bt_get :: "('k, 'v) btree \<Rightarrow> 'k \<Rightarrow> 'v option" where
  "bt_get m k = map_of m k"

text \<open>\<^verbatim>\<open>*m.entry(k).or_insert(d)\<close> updated with a function.\<close>

fun bt_entry :: "'k::linorder \<Rightarrow> 'v \<Rightarrow> ('v \<Rightarrow> 'v) \<Rightarrow> ('k, 'v) btree \<Rightarrow> ('k, 'v) btree" where
  "bt_entry k d f [] = [(k, f d)]"
| "bt_entry k d f ((k', v) # m) =
     (if k = k' then (k, f v) # m
      else if k < k' then (k, f d) # (k', v) # m
      else (k', v) # bt_entry k d f m)"

definition bt_insert :: "'k::linorder \<Rightarrow> 'v \<Rightarrow> ('k, 'v) btree \<Rightarrow> ('k, 'v) btree" where
  "bt_insert k v m = bt_entry k v (\<lambda>_. v) m"

definition bt_remove :: "'k \<Rightarrow> ('k, 'v) btree \<Rightarrow> ('k, 'v) btree" where
  "bt_remove k m = filter (\<lambda>e. fst e \<noteq> k) m"

text \<open>The contract of the map: lookups after updates, and the order invariant.\<close>

locale ordered_map =
  fixes empty :: 'm
    and get :: "'m \<Rightarrow> 'k \<Rightarrow> 'v option"
    and insert :: "'k \<Rightarrow> 'v \<Rightarrow> 'm \<Rightarrow> 'm"
    and remove :: "'k \<Rightarrow> 'm \<Rightarrow> 'm"
    and inv :: "'m \<Rightarrow> bool"
  assumes inv_empty: "inv empty"
    and get_empty: "get empty k = None"
    and inv_insert: "inv m \<Longrightarrow> inv (insert k v m)"
    and get_insert: "inv m \<Longrightarrow> get (insert k v m) k' = (if k' = k then Some v else get m k')"
    and inv_remove: "inv m \<Longrightarrow> inv (remove k m)"
    and get_remove: "inv m \<Longrightarrow> get (remove k m) k' = (if k' = k then None else get m k')"
begin

lemma inv_fold: "inv m \<Longrightarrow> inv (fold (\<lambda>(k, v). insert k v) kvs m)"
  by (induction kvs arbitrary: m) (auto simp: inv_insert)

lemma get_fold:
  "inv m \<Longrightarrow> get (fold (\<lambda>(k, v). insert k v) kvs m) k = (case map_of (rev kvs) k of Some v \<Rightarrow> Some v | None \<Rightarrow> get m k)"
  by (induction kvs arbitrary: m)
    (auto simp: inv_insert get_insert map_add_def split: option.splits)

text \<open>Inserting entries one after the other keeps the last value of every key.\<close>

lemma get_built: "get (fold (\<lambda>(k, v). insert k v) kvs empty) k = map_of (rev kvs) k"
  by (simp add: get_fold inv_empty get_empty split: option.split)

lemma remove_insert: "inv m \<Longrightarrow> get (remove k (insert k v m)) k' = get (remove k m) k'"
  by (simp add: get_remove get_insert inv_insert)

end

lemma bt_entry_keys: "fst ` set (bt_entry k d f m) = insert k (fst ` set m)"
  by (induction k d f m rule: bt_entry.induct) auto

lemma bt_inv_Cons [simp]: "bt_inv ((k, v) # m) \<longleftrightarrow> (\<forall>k' \<in> fst ` set m. k < k') \<and> bt_inv m"
  by (auto simp: bt_inv_def)

lemma bt_inv_Nil [simp]: "bt_inv []"
  by (simp add: bt_inv_def)

lemma bt_inv_entry [inv_intros]: "bt_inv m \<Longrightarrow> bt_inv (bt_entry k d f m)"
proof (induction k d f m rule: bt_entry.induct)
  case (2 k d f k' v m)
  then show ?case
    by (cases k k' rule: linorder_cases) (auto simp: bt_entry_keys intro: less_trans)
qed simp

lemma bt_get_entry:
  "bt_inv m \<Longrightarrow> bt_get (bt_entry k d f m) k' =
     (if k' = k then Some (f (case bt_get m k of None \<Rightarrow> d | Some v \<Rightarrow> v)) else bt_get m k')"
proof (induction k d f m rule: bt_entry.induct)
  case (2 k d f k1 v m)
  show ?case
  proof (cases "k < k1")
    case True
    with 2 have "k \<notin> fst ` set m" "k \<noteq> k1" by auto
    then have "map_of m k = None" by (simp add: map_of_eq_None_iff)
    with True \<open>k \<noteq> k1\<close> show ?thesis by (auto simp: bt_get_def)
  next
    case False
    with 2 show ?thesis by (auto simp: bt_get_def split: option.splits)
  qed
qed (simp add: bt_get_def)

lemma bt_inv_remove [inv_intros]: "bt_inv m \<Longrightarrow> bt_inv (bt_remove k m)"
  by (induction m) (auto simp: bt_remove_def)

lemma bt_get_remove: "bt_get (bt_remove k m) k' = (if k' = k then None else bt_get m k')"
  by (induction m) (auto simp: bt_remove_def bt_get_def)

lemma bt_get_Some_iff: "bt_inv m \<Longrightarrow> bt_get m k = Some v \<longleftrightarrow> (k, v) \<in> set m"
proof -
  assume "bt_inv m"
  then have "distinct (map fst m)"
    unfolding bt_inv_def by (metis strict_sorted_iff)
  then show ?thesis by (simp add: bt_get_def)
qed

interpretation bt: ordered_map "[]" bt_get bt_insert bt_remove bt_inv
  by unfold_locales
    (simp_all add: bt_insert_def bt_inv_entry bt_get_entry bt_inv_remove bt_get_remove
      bt_get_def[of "[]"])

end
