(* ===== verification/Policy_Compile.thy ===== *)
theory Policy_Compile
  imports Policy_Routes Rust_Map "HOL-Library.Code_Target_Nat"
begin

text \<open>
  The ACL and grants compiler, \<^verbatim>\<open>crabscale-policy/src/compile.rs\<close>: resolution of
  principals into targets, destinations with ports, \<^verbatim>\<open>compile_policy\<close> with its global filter,
  per-node filters, capability grants and peer visibility, and \<^verbatim>\<open>node_attributes\<close>. The
  source carries its own copies of the CIDR helpers of \<^verbatim>\<open>routes.rs\<close>, line for line the
  same; the definitions of \<^verbatim>\<open>Policy_Routes\<close> stand for both.
\<close>

section \<open>Address helpers\<close>

definition is_bare_ipv6 :: "string \<Rightarrow> bool" where
  "is_bare_ipv6 s \<longleftrightarrow> CHR '':'' \<in> set s \<and> \<not> starts_with s ''['' \<and> parse_ipv6 s \<noteq> None"

definition is_host_ident :: "string \<Rightarrow> bool" where
  "is_host_ident s \<longleftrightarrow>
     s \<noteq> [] \<and> list_all (\<lambda>c. is_ascii_alphanumeric c \<or> c = CHR ''-'' \<or> c = CHR ''.'' \<or> c = CHR ''_'') s"

definition is_user_ident :: "string \<Rightarrow> bool" where
  "is_user_ident s =
     (case split_once (CHR ''@'') s of
        None \<Rightarrow> False
      | Some (user, host) \<Rightarrow> user \<noteq> [] \<and> host \<noteq> [] \<and> \<not> has_whitespace user)"

definition is_ip_or_cidr_str :: "string \<Rightarrow> bool" where
  "is_ip_or_cidr_str s =
     (if parse_ip s \<noteq> None then True
      else case split_once (CHR ''/'') s of
        None \<Rightarrow> False
      | Some (addr, bits) \<Rightarrow>
          (case parse_ip addr of
             None \<Rightarrow> False
           | Some ip \<Rightarrow>
               (case parse_u8 bits of
                  None \<Rightarrow> False
                | Some bits \<Rightarrow> bits \<le> (case ip of V4 _ \<Rightarrow> 32 | V6 _ \<Rightarrow> 128))))"

definition normalize_cidr :: "string \<Rightarrow> string" where
  "normalize_cidr s =
     (case parse_ip s of
        Some ip \<Rightarrow> show_ip ip @ ''/'' @ dec_str (if is_ipv4 ip then 32 else 128)
      | None \<Rightarrow> s)"

definition parse_ip_proto :: "string option \<Rightarrow> int list option" where
  "parse_ip_proto proto =
     (case proto of
        None \<Rightarrow> None
      | Some p \<Rightarrow>
          if p = [] then None
          else let name = hd (split_char (CHR '':'') p) in
            (case parse_signed (2 ^ 31 - 1) name of
               Some num \<Rightarrow> Some [num]
             | None \<Rightarrow>
                 let lower = to_ascii_lowercase name in
                 if lower = ''icmp'' \<or> lower = ''icmpv4'' then Some [1]
                 else if lower = ''tcp'' then Some [6]
                 else if lower = ''udp'' then Some [17]
                 else if lower = ''gre'' then Some [47]
                 else if lower = ''icmpv6'' \<or> lower = ''icmp6'' then Some [58]
                 else None))"

definition push_dedup :: "filter_rule list \<Rightarrow> filter_rule \<Rightarrow> filter_rule list" where
  "push_dedup rules rule = (if rule \<in> set rules then rules else rules @ [rule])"

fun values_of :: "json \<Rightarrow> json list" where
  "values_of (JArray items) = items"
| "values_of v = [v]"

section \<open>Ports\<close>

definition all_ports :: "net_port_range list" where
  "all_ports = [\<lparr>pr_first = 0, pr_last = 65535\<rparr>]"

definition parse_port_item :: "string \<Rightarrow> net_port_range list" where
  "parse_port_item raw =
     (let item = trim raw in
      if item = [] then []
      else case split_once (CHR ''-'') item of
        Some (lo, hi) \<Rightarrow>
          (case (parse_u16 lo, parse_u16 hi) of
             (Some lo, Some hi) \<Rightarrow> if lo \<le> hi then [\<lparr>pr_first = lo, pr_last = hi\<rparr>] else []
           | _ \<Rightarrow> [])
      | None \<Rightarrow>
          (case parse_u16 item of Some port \<Rightarrow> [\<lparr>pr_first = port, pr_last = port\<rparr>] | None \<Rightarrow> []))"

definition parse_ports :: "string \<Rightarrow> net_port_range list" where
  "parse_ports ports =
     (if ports = ''*'' then all_ports
      else concat (map parse_port_item (split_char (CHR '','') ports)))"

definition split_bracketed_ports :: "string \<Rightarrow> (string \<times> string) option" where
  "split_bracketed_ports target =
     Option.bind (split_once_str '']:'' target) (\<lambda>(rest, ports).
     Option.bind (strip_prefix rest ''['') (\<lambda>host.
       if host = [] \<or> ports = [] then None else Some (host, ports)))"

definition split_ports_literal :: "string \<Rightarrow> (string \<times> string) option" where
  "split_ports_literal target =
     Option.bind (rsplit_once (CHR '':'') target) (\<lambda>(host, ports).
       if host = [] \<or> ports = [] then None
       else if is_bare_ipv6 host then None
       else if host = ''*'' \<or> is_ip_or_cidr_str host \<or> is_host_ident host
         \<or> starts_with host ''tag:'' \<or> starts_with host ''group:''
         \<or> starts_with host ''autogroup:'' \<or> is_user_ident host
       then Some (host, ports)
       else None)"

section \<open>Targets\<close>

record resolved_target =
  rt_wildcard :: bool
  rt_self_match :: bool
  rt_member_match :: bool
  rt_tagged_match :: bool
  rt_nets :: "string list"
  rt_identities :: "string set"

definition rt_default :: resolved_target where
  "rt_default = \<lparr>rt_wildcard = False, rt_self_match = False, rt_member_match = False,
     rt_tagged_match = False, rt_nets = [], rt_identities = {}\<rparr>"

definition matches_node :: "resolved_target \<Rightarrow> compile_node \<Rightarrow> bool" where
  "matches_node t node =
     (if rt_wildcard t \<or> rt_self_match t then True
      else if (case cn_user_login node of None \<Rightarrow> False | Some login \<Rightarrow> login \<in> rt_identities t) then True
      else if list_ex (\<lambda>tag. tag \<in> rt_identities t) (cn_tags node) then True
      else if rt_member_match t \<and> cn_tags node = [] then True
      else if rt_tagged_match t \<and> cn_tags node \<noteq> [] then True
      else list_ex (\<lambda>net. list_ex (\<lambda>addr. addr_in_cidr addr net) (cn_addresses node)) (rt_nets t))"

definition autogroup_ips :: "resolved_target \<Rightarrow> compile_node list \<Rightarrow> string list" where
  "autogroup_ips t nodes =
     concat (map (\<lambda>node.
       if rt_self_match t \<or> (rt_member_match t \<and> cn_tags node = []) \<or> (rt_tagged_match t \<and> cn_tags node \<noteq> [])
       then cn_addresses node else []) nodes)"

definition to_src_ips :: "resolved_target \<Rightarrow> compile_node list \<Rightarrow> string list" where
  "to_src_ips t nodes =
     (if rt_wildcard t then [''*'']
      else sort_dedup (rt_nets t @ autogroup_ips t nodes @
        concat (map (\<lambda>node.
          if (case cn_user_login node of None \<Rightarrow> False | Some l \<Rightarrow> l \<in> rt_identities t)
             \<or> list_ex (\<lambda>tag. tag \<in> rt_identities t) (cn_tags node)
          then cn_addresses node else []) nodes)))"

text \<open>
  Inside a group only the wildcard, the networks and the identities of a member are kept;
  between the targets of a rule everything is kept.
\<close>

definition merge_member :: "resolved_target \<Rightarrow> resolved_target \<Rightarrow> resolved_target" where
  "merge_member r m = r\<lparr>rt_wildcard := rt_wildcard r \<or> rt_wildcard m,
     rt_nets := rt_nets r @ rt_nets m, rt_identities := rt_identities r \<union> rt_identities m\<rparr>"

definition merge_target :: "resolved_target \<Rightarrow> resolved_target \<Rightarrow> resolved_target" where
  "merge_target r s = \<lparr>rt_wildcard = rt_wildcard r \<or> rt_wildcard s,
     rt_self_match = rt_self_match r \<or> rt_self_match s,
     rt_member_match = rt_member_match r \<or> rt_member_match s,
     rt_tagged_match = rt_tagged_match r \<or> rt_tagged_match s,
     rt_nets = rt_nets r @ rt_nets s, rt_identities = rt_identities r \<union> rt_identities s\<rparr>"

definition autogroup_target :: "string \<Rightarrow> resolved_target" where
  "autogroup_target rest =
     (if rest = ''self'' then rt_default\<lparr>rt_self_match := True\<rparr>
      else if rest = ''member'' then rt_default\<lparr>rt_member_match := True\<rparr>
      else if rest = ''tagged'' then rt_default\<lparr>rt_tagged_match := True\<rparr>
      else rt_default)"

definition host_target :: "policy \<Rightarrow> string \<Rightarrow> resolved_target" where
  "host_target policy target =
     (if is_ip_or_cidr_str target then rt_default\<lparr>rt_nets := [normalize_cidr target]\<rparr>
      else case map_of (p_hosts policy) target of
        None \<Rightarrow> rt_default
      | Some v \<Rightarrow> if is_ip_or_cidr_str v then rt_default\<lparr>rt_nets := [normalize_cidr v]\<rparr> else rt_default)"

text \<open>
  \<^verbatim>\<open>resolving_groups\<close> holds the groups entered on the way down; a group is taken out when
  its members are done, so on return the set is what it was and is passed as an argument.
\<close>

function resolve_single :: "policy \<Rightarrow> string set \<Rightarrow> string \<Rightarrow> resolved_target" where
  "resolve_single policy resolving target =
     (if target = ''*'' then rt_default\<lparr>rt_wildcard := True\<rparr>
      else case strip_prefix target ''autogroup:'' of
        Some rest \<Rightarrow> autogroup_target rest
      | None \<Rightarrow>
          (case strip_prefix target ''group:'' of
             Some g \<Rightarrow>
               if g \<in> resolving then rt_default
               else (case map_of (p_groups policy) g of
                   None \<Rightarrow> rt_default
                 | Some members \<Rightarrow>
                     fold (\<lambda>m r. merge_member r m)
                       (map (resolve_single policy (insert g resolving)) members) rt_default)
           | None \<Rightarrow>
               if starts_with target ''tag:'' then rt_default\<lparr>rt_identities := {target}\<rparr>
               else if is_user_ident target then rt_default\<lparr>rt_identities := {target}\<rparr>
               else host_target policy target))"
  by pat_completeness auto
termination
proof (relation "measure (\<lambda>(p, resolving, _). card (fst ` set (p_groups p) - resolving))", goal_cases)
  case (2 policy resolving target g members m)
  then have "g \<in> fst ` set (p_groups policy) - resolving" by (force dest: map_of_SomeD)
  then have "fst ` set (p_groups policy) - insert g resolving \<subset> fst ` set (p_groups policy) - resolving"
    by auto
  from psubset_card_mono[OF _ this] show ?case by (simp only: in_measure split_conv) simp
qed simp

declare resolve_single.simps [simp del]

definition resolve :: "policy \<Rightarrow> string list \<Rightarrow> resolved_target" where
  "resolve policy targets =
     (let r = fold (\<lambda>t r. merge_target r (resolve_single policy {} t)) targets rt_default in
      r\<lparr>rt_nets := sort_dedup (rt_nets r)\<rparr>)"

definition resolve_bare :: "policy \<Rightarrow> string \<Rightarrow> resolved_target" where
  "resolve_bare policy host =
     (if host = ''*'' then rt_default\<lparr>rt_wildcard := True\<rparr>
      else case strip_prefix host ''autogroup:'' of
        Some rest \<Rightarrow> autogroup_target rest
      | None \<Rightarrow>
          if starts_with host ''tag:'' then rt_default\<lparr>rt_identities := {host}\<rparr>
          else if starts_with host ''group:'' then
            (case map_of (p_groups policy) (trim_start_matches host ''group:'') of
               None \<Rightarrow> rt_default
             | Some members \<Rightarrow>
                 fold (\<lambda>m r. merge_member r m) (map (resolve_single policy {}) members) rt_default)
          else if is_user_ident host then rt_default\<lparr>rt_identities := {host}\<rparr>
          else host_target policy host)"

record dst_target =
  dt_target :: resolved_target
  dt_ports :: "net_port_range list"
  dt_wildcard :: bool

definition dst_matches :: "dst_target \<Rightarrow> compile_node \<Rightarrow> bool" where
  "dst_matches d node \<longleftrightarrow> dt_wildcard d \<or> matches_node (dt_target d) node"

definition parse_dst :: "policy \<Rightarrow> string \<Rightarrow> dst_target option" where
  "parse_dst policy target =
     (if target = ''*'' then Some \<lparr>dt_target = rt_default, dt_ports = all_ports, dt_wildcard = True\<rparr>
      else case split_bracketed_ports target of
        Some (host, ports) \<Rightarrow>
          Some \<lparr>dt_target = resolve_bare policy host, dt_ports = parse_ports ports, dt_wildcard = False\<rparr>
      | None \<Rightarrow>
          (case split_ports_literal target of
             Some (host, ports) \<Rightarrow>
               Some \<lparr>dt_target = resolve_bare policy host, dt_ports = parse_ports ports, dt_wildcard = False\<rparr>
           | None \<Rightarrow>
               Some \<lparr>dt_target = resolve_bare policy target, dt_ports = all_ports, dt_wildcard = False\<rparr>))"

section \<open>The compiler\<close>

record compiled_policy =
  cp_global_filter :: "filter_rule list"
  cp_node_filters :: "(nat, filter_rule list) btree"
  cp_grants :: "(nat, filter_rule list) btree"
  cp_peer_visibility :: "(nat, nat set) btree"

definition compiled_default :: compiled_policy where
  "compiled_default = \<lparr>cp_global_filter = [], cp_node_filters = [], cp_grants = [],
     cp_peer_visibility = []\<rparr>"

type_synonym compile_state = "compiled_policy \<times> (nat, nat set) btree"

definition push_filter :: "filter_rule \<Rightarrow> compile_node \<Rightarrow> (nat, filter_rule list) btree \<Rightarrow> (nat, filter_rule list) btree" where
  "push_filter f node m = bt_entry (cn_id node) [] (\<lambda>fs. fs @ [f]) m"

definition net_filter :: "string list \<Rightarrow> int list option \<Rightarrow> dst_target \<Rightarrow> filter_rule" where
  "net_filter src_ips ip_proto d = filter_rule_default\<lparr>fr_src_ips := src_ips,
     fr_dst_ports := dt_ports d, fr_ip_proto := ip_proto\<rparr>"

text \<open>One destination of an ACL rule.\<close>

definition compile_dst ::
  "policy \<Rightarrow> compile_node list \<Rightarrow> string list \<Rightarrow> compile_node list \<Rightarrow> int list option \<Rightarrow> string
    \<Rightarrow> compile_state \<Rightarrow> compile_state" where
  "compile_dst policy nodes src_ips src_nodes ip_proto dst st =
     (case st of (c, reach) \<Rightarrow>
        (case parse_dst policy dst of
           None \<Rightarrow> (c, reach)
         | Some d \<Rightarrow>
             let f = net_filter src_ips ip_proto d;
                 dst_nodes = filter (dst_matches d) nodes in
             (c\<lparr>cp_global_filter := push_dedup (cp_global_filter c) f,
                cp_node_filters := fold (push_filter f) dst_nodes (cp_node_filters c)\<rparr>,
              fold (\<lambda>s r. bt_entry (cn_id s) {} (\<lambda>x. x \<union> cn_id ` set dst_nodes) r) src_nodes reach)))"

definition compile_acl ::
  "policy \<Rightarrow> compile_node list \<Rightarrow> acl \<Rightarrow> compile_state \<Rightarrow> compile_state" where
  "compile_acl policy nodes rule st =
     (let resolved_src = resolve policy (acl_src rule);
          src_ips = to_src_ips resolved_src nodes in
      if src_ips = [] then st
      else fold (compile_dst policy nodes src_ips (filter (matches_node resolved_src) nodes)
          (parse_ip_proto (acl_proto rule))) (acl_dst rule) st)"

definition grant_filter :: "grant \<Rightarrow> string list \<Rightarrow> compile_node \<Rightarrow> filter_rule" where
  "grant_filter grant src_ips node = filter_rule_default\<lparr>fr_src_ips := src_ips,
     fr_cap_grant := [\<lparr>cg_dsts = cn_addresses node,
       cg_cap_map = map (\<lambda>(name, v). (name, values_of v)) (grant_app grant)\<rparr>]\<rparr>"

definition grant_node ::
  "grant \<Rightarrow> string list \<Rightarrow> dst_target list \<Rightarrow> compile_node \<Rightarrow> compiled_policy \<Rightarrow> compiled_policy" where
  "grant_node grant src_ips targets node c =
     (if list_ex (\<lambda>t. dst_matches t node) targets then
        let f = grant_filter grant src_ips node in
        c\<lparr>cp_node_filters := push_filter f node (cp_node_filters c),
          cp_grants := push_filter f node (cp_grants c)\<rparr>
      else c)"

definition compile_grant ::
  "policy \<Rightarrow> compile_node list \<Rightarrow> grant \<Rightarrow> compiled_policy \<Rightarrow> compiled_policy" where
  "compile_grant policy nodes grant c =
     (let src_ips = to_src_ips (resolve policy (grant_src grant)) nodes in
      if src_ips = [] then c
      else fold (grant_node grant src_ips (List.map_filter (parse_dst policy) (grant_dst grant))) nodes c)"

text \<open>The closing pass over the visibility map.\<close>

definition visible_from :: "(nat, nat set) btree \<Rightarrow> nat \<Rightarrow> nat set" where
  "visible_from reach node =
     ((case bt_get reach node of None \<Rightarrow> {} | Some out \<Rightarrow> out)
      \<union> set (map fst (filter (\<lambda>(from, tos). node \<in> tos \<and> from \<noteq> node) reach)))"

definition compile_policy :: "policy \<Rightarrow> compile_node list \<Rightarrow> compiled_policy" where
  "compile_policy policy nodes =
     (case fold (compile_acl policy nodes) (p_acls policy) (compiled_default, []) of
        (c, reach) \<Rightarrow>
          let c = fold (compile_grant policy nodes) (p_grants policy) c;
              c = c\<lparr>cp_node_filters := fold (\<lambda>n m. bt_entry (cn_id n) [] (\<lambda>fs. fs) m) nodes (cp_node_filters c),
                    cp_peer_visibility := fold (\<lambda>n m. bt_insert (cn_id n) {} m) nodes (cp_peer_visibility c)\<rparr>
          in c\<lparr>cp_peer_visibility :=
                 map (\<lambda>(node, visible). (node, (visible \<union> visible_from reach node) - {node}))
                   (cp_peer_visibility c)\<rparr>)"

section \<open>Node attributes\<close>

definition node_attr_target_matches :: "policy \<Rightarrow> string \<Rightarrow> compile_node \<Rightarrow> bool option" where
  "node_attr_target_matches policy target node =
     (if target = ''*'' then Some True
      else case strip_prefix target ''autogroup:'' of
        Some rest \<Rightarrow>
          Some (if rest = ''self'' then True
                else if rest = ''member'' then cn_tags node = []
                else if rest = ''tagged'' then cn_tags node \<noteq> []
                else False)
      | None \<Rightarrow>
          (case strip_prefix target ''tag:'' of
             Some tag \<Rightarrow> Some (if tag = [] then False else target \<in> set (cn_tags node))
           | None \<Rightarrow>
               if starts_with target ''group:'' then
                 (case cn_user_login node of
                    None \<Rightarrow> Some False
                  | Some login \<Rightarrow> principal_matches_user policy target login)
               else Some (cn_user_login node = Some target)))"

fun node_attr_names :: "policy \<Rightarrow> compile_node \<Rightarrow> node_attr_grant list \<Rightarrow> string list option" where
  "node_attr_names policy node [] = Some []"
| "node_attr_names policy node (g # gs) =
     Option.bind (any_opt (\<lambda>t. node_attr_target_matches policy t node) (na_target g)) (\<lambda>b.
       map_option (\<lambda>names. (if b then na_attr g else []) @ names) (node_attr_names policy node gs))"

definition node_attributes :: "policy \<Rightarrow> compile_node \<Rightarrow> (string \<times> json list) list option" where
  "node_attributes policy node =
     map_option (\<lambda>names. map (\<lambda>a. (a, [])) (sort_dedup names)) (node_attr_names policy node (p_node_attrs policy))"

section \<open>What the compiler computes\<close>

text \<open>
  The specification, per node and without state: the rules of an ACL that concern a node,
  the capability rules of a grant that concern it, and who may open connections to whom.
\<close>

definition acl_src_ips :: "policy \<Rightarrow> compile_node list \<Rightarrow> acl \<Rightarrow> string list" where
  "acl_src_ips policy nodes rule = to_src_ips (resolve policy (acl_src rule)) nodes"

definition acl_rules :: "policy \<Rightarrow> compile_node list \<Rightarrow> compile_node \<Rightarrow> acl \<Rightarrow> filter_rule list" where
  "acl_rules policy nodes node rule =
     (if acl_src_ips policy nodes rule = [] then []
      else map (net_filter (acl_src_ips policy nodes rule) (parse_ip_proto (acl_proto rule)))
        (filter (\<lambda>d. dst_matches d node) (List.map_filter (parse_dst policy) (acl_dst rule))))"

definition grant_rules :: "policy \<Rightarrow> compile_node list \<Rightarrow> compile_node \<Rightarrow> grant \<Rightarrow> filter_rule list" where
  "grant_rules policy nodes node grant =
     (let src_ips = to_src_ips (resolve policy (grant_src grant)) nodes in
      if src_ips \<noteq> [] \<and> list_ex (\<lambda>t. dst_matches t node) (List.map_filter (parse_dst policy) (grant_dst grant))
      then [grant_filter grant src_ips node] else [])"

definition may_reach :: "policy \<Rightarrow> compile_node list \<Rightarrow> compile_node \<Rightarrow> compile_node \<Rightarrow> bool" where
  "may_reach policy nodes a b \<longleftrightarrow>
     (\<exists>rule \<in> set (p_acls policy). acl_src_ips policy nodes rule \<noteq> []
        \<and> matches_node (resolve policy (acl_src rule)) a \<and> acl_rules policy nodes b rule \<noteq> [])"

definition filters_of :: "(nat, filter_rule list) btree \<Rightarrow> nat \<Rightarrow> filter_rule list" where
  "filters_of m i = (case bt_get m i of None \<Rightarrow> [] | Some fs \<Rightarrow> fs)"

definition reach_of :: "(nat, nat set) btree \<Rightarrow> nat \<Rightarrow> nat set" where
  "reach_of m i = (case bt_get m i of None \<Rightarrow> {} | Some x \<Rightarrow> x)"

lemma push_filter_inv [inv_intros]: "bt_inv m \<Longrightarrow> bt_inv (push_filter f n m)"
  by (simp add: push_filter_def bt_inv_entry)

lemma filters_of_push:
  "bt_inv m \<Longrightarrow> filters_of (push_filter f n m) i = filters_of m i @ (if i = cn_id n then [f] else [])"
  by (simp add: filters_of_def push_filter_def bt_get_entry)

lemma fold_push_filter:
  "bt_inv m \<Longrightarrow> distinct (map cn_id xs) \<Longrightarrow>
     bt_inv (fold (push_filter f) xs m) \<and>
     filters_of (fold (push_filter f) xs m) i = filters_of m i @ (if i \<in> cn_id ` set xs then [f] else [])"
  by (induction xs arbitrary: m) (auto simp: filters_of_push push_filter_inv)

lemma fold_reach:
  "bt_inv r \<Longrightarrow>
     bt_inv (fold (\<lambda>s r. bt_entry (cn_id s) {} (\<lambda>x. x \<union> D) r) xs r) \<and>
     reach_of (fold (\<lambda>s r. bt_entry (cn_id s) {} (\<lambda>x. x \<union> D) r) xs r) i
       = reach_of r i \<union> (if i \<in> cn_id ` set xs then D else {})"
proof (induction xs arbitrary: r)
  case (Cons x xs)
  then show ?case
    by (auto simp: bt_inv_entry reach_of_def bt_get_entry split: option.splits)
qed simp

lemma parse_dst_Some: "\<exists>d. parse_dst policy dst = Some d"
  by (simp add: parse_dst_def split: option.split)

text \<open>The ids of the nodes that match one of the destinations.\<close>

definition dst_ids :: "policy \<Rightarrow> compile_node list \<Rightarrow> string list \<Rightarrow> nat set" where
  "dst_ids policy nodes dsts =
     {cn_id k |k. k \<in> set nodes \<and> (\<exists>dst \<in> set dsts. \<exists>d. parse_dst policy dst = Some d \<and> dst_matches d k)}"

lemma dst_ids_Cons: "dst_ids policy nodes (dst # dsts) = dst_ids policy nodes [dst] \<union> dst_ids policy nodes dsts"
  by (auto simp: dst_ids_def)

text \<open>The state invariant of the ACL pass.\<close>

definition state_ok :: "compile_state \<Rightarrow> bool" where
  "state_ok st \<longleftrightarrow> bt_inv (cp_node_filters (fst st)) \<and> bt_inv (snd st)"

lemma in_filter_ids:
  "distinct (map cn_id nodes) \<Longrightarrow> n \<in> set nodes \<Longrightarrow>
     cn_id n \<in> cn_id ` set (filter P nodes) \<longleftrightarrow> P n"
  by (auto simp: distinct_map inj_on_def)

lemma compile_dst_step:
  assumes "state_ok st" "distinct (map cn_id nodes)" "n \<in> set nodes"
  shows "state_ok (compile_dst policy nodes src_ips src_nodes proto dst st)"
    and "filters_of (cp_node_filters (fst (compile_dst policy nodes src_ips src_nodes proto dst st))) (cn_id n)
      = filters_of (cp_node_filters (fst st)) (cn_id n)
        @ map (net_filter src_ips proto) (filter (\<lambda>d. dst_matches d n) (List.map_filter (parse_dst policy) [dst]))"
    and "reach_of (snd (compile_dst policy nodes src_ips src_nodes proto dst st)) i
      = reach_of (snd st) i \<union>
        (if i \<in> cn_id ` set src_nodes
         then dst_ids policy nodes [dst] else {})"
proof -
  obtain c reach where st: "st = (c, reach)" by fastforce
  have inv: "bt_inv (cp_node_filters c)" "bt_inv reach" using assms(1) st by (auto simp: state_ok_def)
  have d: "distinct (map cn_id (filter P nodes))" for P
    using assms(2) by (simp add: distinct_map_filter)
  note push = fold_push_filter[OF inv(1) d, THEN conjunct1] fold_push_filter[OF inv(1) d, THEN conjunct2]
  note reach = fold_reach[OF inv(2), THEN conjunct1] fold_reach[OF inv(2), THEN conjunct2]
  show "state_ok (compile_dst policy nodes src_ips src_nodes proto dst st)"
    using inv by (simp add: st compile_dst_def state_ok_def Let_def push reach split: option.split)
  show "filters_of (cp_node_filters (fst (compile_dst policy nodes src_ips src_nodes proto dst st))) (cn_id n)
      = filters_of (cp_node_filters (fst st)) (cn_id n)
        @ map (net_filter src_ips proto) (filter (\<lambda>d. dst_matches d n) (List.map_filter (parse_dst policy) [dst]))"
    using in_filter_ids[OF assms(2,3)]
    by (simp add: st compile_dst_def Let_def List.map_filter_def push split: option.split)
  show "reach_of (snd (compile_dst policy nodes src_ips src_nodes proto dst st)) i
      = reach_of (snd st) i \<union>
        (if i \<in> cn_id ` set src_nodes
         then dst_ids policy nodes [dst] else {})"
    by (auto simp: st compile_dst_def Let_def reach dst_ids_def split: option.split)
qed

lemma fold_compile_dst:
  assumes "state_ok st" "distinct (map cn_id nodes)" "n \<in> set nodes"
  shows "state_ok (fold (compile_dst policy nodes src_ips src_nodes proto) dsts st)
    \<and> filters_of (cp_node_filters (fst (fold (compile_dst policy nodes src_ips src_nodes proto) dsts st))) (cn_id n)
      = filters_of (cp_node_filters (fst st)) (cn_id n)
        @ map (net_filter src_ips proto) (filter (\<lambda>d. dst_matches d n) (List.map_filter (parse_dst policy) dsts))
    \<and> reach_of (snd (fold (compile_dst policy nodes src_ips src_nodes proto) dsts st)) i
      = reach_of (snd st) i \<union>
        (if i \<in> cn_id ` set src_nodes
         then dst_ids policy nodes dsts
         else {})"
  using assms(1)
proof (induction dsts arbitrary: st)
  case Nil
  then show ?case by (simp add: List.map_filter_def dst_ids_def)
next
  case (Cons dst dsts)
  obtain d where d: "parse_dst policy dst = Some d" using parse_dst_Some by blast
  note step = compile_dst_step[OF Cons.prems assms(2,3), where policy = policy and src_ips = src_ips
      and src_nodes = src_nodes and proto = proto and dst = dst]
  show ?case
    using Cons.IH[OF step(1)] by (simp add: step d dst_ids_Cons[of policy nodes dst dsts] Un_assoc)
qed

text \<open>The nodes a rule lets its sources reach.\<close>

definition acl_dst_ids :: "policy \<Rightarrow> compile_node list \<Rightarrow> acl \<Rightarrow> nat set" where
  "acl_dst_ids policy nodes rule = {cn_id k |k. k \<in> set nodes \<and> acl_rules policy nodes k rule \<noteq> []}"

lemma acl_rules_neq_Nil:
  "acl_rules policy nodes k rule \<noteq> [] \<longleftrightarrow> acl_src_ips policy nodes rule \<noteq> [] \<and>
     (\<exists>dst \<in> set (acl_dst rule). \<exists>d. parse_dst policy dst = Some d \<and> dst_matches d k)"
  by (auto simp: acl_rules_def List.map_filter_def filter_empty_conv) blast

definition acl_from :: "policy \<Rightarrow> compile_node list \<Rightarrow> nat \<Rightarrow> acl \<Rightarrow> bool" where
  "acl_from policy nodes i rule \<longleftrightarrow>
     (\<exists>s \<in> set nodes. cn_id s = i \<and> matches_node (resolve policy (acl_src rule)) s)"

lemma compile_acl_step:
  assumes "state_ok st" "distinct (map cn_id nodes)" "n \<in> set nodes"
  shows "state_ok (compile_acl policy nodes rule st)
    \<and> filters_of (cp_node_filters (fst (compile_acl policy nodes rule st))) (cn_id n)
      = filters_of (cp_node_filters (fst st)) (cn_id n) @ acl_rules policy nodes n rule
    \<and> reach_of (snd (compile_acl policy nodes rule st)) i
      = reach_of (snd st) i \<union> (if acl_from policy nodes i rule then acl_dst_ids policy nodes rule else {})"
proof (cases "acl_src_ips policy nodes rule = []")
  case True
  then show ?thesis using assms(1)
    by (auto simp: compile_acl_def Let_def acl_src_ips_def acl_dst_ids_def acl_rules_def)
next
  case False
  have "dst_ids policy nodes (acl_dst rule)
      = acl_dst_ids policy nodes rule"
    using False unfolding acl_dst_ids_def acl_rules_neq_Nil dst_ids_def by blast
  with False fold_compile_dst[OF assms, where policy = policy and src_ips = "acl_src_ips policy nodes rule"
      and src_nodes = "filter (matches_node (resolve policy (acl_src rule))) nodes"
      and proto = "parse_ip_proto (acl_proto rule)" and dsts = "acl_dst rule" and i = i]
  show ?thesis
    by (simp add: compile_acl_def Let_def acl_src_ips_def[symmetric] acl_rules_def acl_from_def image_iff)
      (auto)
qed

lemma fold_compile_acl:
  assumes "state_ok st" "distinct (map cn_id nodes)" "n \<in> set nodes"
  shows "state_ok (fold (compile_acl policy nodes) rules st)
    \<and> filters_of (cp_node_filters (fst (fold (compile_acl policy nodes) rules st))) (cn_id n)
      = filters_of (cp_node_filters (fst st)) (cn_id n) @ concat (map (acl_rules policy nodes n) rules)
    \<and> reach_of (snd (fold (compile_acl policy nodes) rules st)) i
      = reach_of (snd st) i \<union>
        (\<Union> rule \<in> {r \<in> set rules. acl_from policy nodes i r}. acl_dst_ids policy nodes rule)"
  using assms(1)
proof (induction rules arbitrary: st)
  case (Cons rule rules)
  note step = compile_acl_step[OF Cons.prems assms(2,3), of policy rule]
  show ?case using step Cons.IH[of "compile_acl policy nodes rule st"] by auto
qed simp

text \<open>The passes leave the visibility map alone until the end.\<close>

lemma compile_dst_visibility:
  "cp_peer_visibility (fst (compile_dst policy nodes ips srcs proto dst st)) = cp_peer_visibility (fst st)"
  by (simp add: compile_dst_def Let_def split: prod.splits option.splits)

lemma compile_acl_visibility:
  "cp_peer_visibility (fst (compile_acl policy nodes rule st)) = cp_peer_visibility (fst st)"
proof -
  have "cp_peer_visibility (fst (fold (compile_dst policy nodes ips srcs proto) dsts st))
      = cp_peer_visibility (fst st)" for ips srcs proto dsts
    by (induction dsts arbitrary: st) (simp_all add: compile_dst_visibility)
  then show ?thesis by (simp add: compile_acl_def Let_def)
qed

lemma fold_acl_visibility:
  "cp_peer_visibility (fst (fold (compile_acl policy nodes) rules st)) = cp_peer_visibility (fst st)"
  by (induction rules arbitrary: st) (simp_all add: compile_acl_visibility)

lemma fold_grant_node:
  assumes "bt_inv (cp_node_filters c)" "distinct (map cn_id xs)"
    and "\<forall>x \<in> set xs. cn_id x = cn_id n \<longrightarrow> x = n"
  shows "bt_inv (cp_node_filters (fold (grant_node grant src_ips targets) xs c))
    \<and> filters_of (cp_node_filters (fold (grant_node grant src_ips targets) xs c)) (cn_id n)
      = filters_of (cp_node_filters c) (cn_id n)
        @ (if n \<in> set xs \<and> list_ex (\<lambda>t. dst_matches t n) targets then [grant_filter grant src_ips n] else [])
    \<and> cp_peer_visibility (fold (grant_node grant src_ips targets) xs c) = cp_peer_visibility c"
  using assms
proof (induction xs arbitrary: c)
  case (Cons x xs)
  let ?c = "grant_node grant src_ips targets x c"
  have "bt_inv (cp_node_filters ?c)" "cp_peer_visibility ?c = cp_peer_visibility c"
    using Cons.prems by (simp_all add: grant_node_def Let_def push_filter_inv)
  moreover have "filters_of (cp_node_filters ?c) (cn_id n) = filters_of (cp_node_filters c) (cn_id n)
      @ (if n = x \<and> list_ex (\<lambda>t. dst_matches t n) targets then [grant_filter grant src_ips n] else [])"
    using Cons.prems by (auto simp: grant_node_def Let_def filters_of_push)
  moreover have "n \<notin> set xs" if "n = x" using Cons.prems that by auto
  ultimately show ?case using Cons.IH[of ?c] Cons.prems by auto
qed simp

lemma fold_compile_grant:
  assumes "bt_inv (cp_node_filters c)" "distinct (map cn_id nodes)" "n \<in> set nodes"
  shows "bt_inv (cp_node_filters (fold (compile_grant policy nodes) grants c))
    \<and> filters_of (cp_node_filters (fold (compile_grant policy nodes) grants c)) (cn_id n)
      = filters_of (cp_node_filters c) (cn_id n) @ concat (map (grant_rules policy nodes n) grants)
    \<and> cp_peer_visibility (fold (compile_grant policy nodes) grants c) = cp_peer_visibility c"
  using assms(1)
proof (induction grants arbitrary: c)
  case (Cons g grants)
  have "\<forall>x \<in> set nodes. cn_id x = cn_id n \<longrightarrow> x = n"
    using assms(2,3) by (auto simp: distinct_map inj_on_def)
  from fold_grant_node[OF Cons.prems assms(2) this]
  have "bt_inv (cp_node_filters (compile_grant policy nodes g c))
    \<and> filters_of (cp_node_filters (compile_grant policy nodes g c)) (cn_id n)
      = filters_of (cp_node_filters c) (cn_id n) @ grant_rules policy nodes n g
    \<and> cp_peer_visibility (compile_grant policy nodes g c) = cp_peer_visibility c"
    using Cons.prems assms(3) by (simp add: compile_grant_def grant_rules_def Let_def)
  with Cons.IH[of "compile_grant policy nodes g c"] show ?case by simp
qed simp

lemma fold_bt_keep:
  "bt_inv m \<Longrightarrow> bt_inv (fold (\<lambda>n m. bt_entry (cn_id n) [] (\<lambda>fs. fs) m) xs m)
     \<and> bt_get (fold (\<lambda>n m. bt_entry (cn_id n) [] (\<lambda>fs. fs) m) xs m) i
       = (if i \<in> cn_id ` set xs then Some (case bt_get m i of None \<Rightarrow> [] | Some fs \<Rightarrow> fs) else bt_get m i)"
  by (induction xs arbitrary: m) (auto simp: bt_inv_entry bt_get_entry split: option.splits)

lemma fold_bt_insert_empty:
  "bt_inv m \<Longrightarrow> bt_inv (fold (\<lambda>n m. bt_insert (cn_id n) v m) xs m)
     \<and> bt_get (fold (\<lambda>n m. bt_insert (cn_id n) v m) xs m) i
       = (if i \<in> cn_id ` set xs then Some v else bt_get m i)"
  by (induction xs arbitrary: m) (auto simp: bt.inv_insert bt.get_insert)

lemma bt_get_map: "bt_get (map (\<lambda>(k, v). (k, g k v)) m) i = map_option (g i) (bt_get m i)"
  by (induction m) (auto simp: bt_get_def)

lemma visible_from_reach:
  assumes "bt_inv reach"
  shows "visible_from reach i = reach_of reach i \<union> {j. i \<in> reach_of reach j \<and> j \<noteq> i}"
proof -
  have "set (map fst (filter (\<lambda>(from, tos). i \<in> tos \<and> from \<noteq> i) reach))
      = {j. \<exists>tos. (j, tos) \<in> set reach \<and> i \<in> tos \<and> j \<noteq> i}"
    by force
  also have "\<dots> = {j. i \<in> reach_of reach j \<and> j \<noteq> i}"
    by (auto simp: reach_of_def bt_get_Some_iff[OF assms, symmetric] split: option.splits)
  finally show ?thesis by (simp add: visible_from_def reach_of_def)
qed

text \<open>The result of compilation in terms of its passes.\<close>

lemma compile_policy_result:
  assumes "distinct (map cn_id nodes)" "n \<in> set nodes"
  shows "bt_get (cp_node_filters (compile_policy policy nodes)) (cn_id n)
      = Some (concat (map (acl_rules policy nodes n) (p_acls policy))
              @ concat (map (grant_rules policy nodes n) (p_grants policy)))"
    and "bt_get (cp_peer_visibility (compile_policy policy nodes)) (cn_id n)
      = Some ({j. \<exists>r \<in> set (p_acls policy). acl_from policy nodes (cn_id n) r \<and> j \<in> acl_dst_ids policy nodes r}
          \<union> {j. \<exists>r \<in> set (p_acls policy). acl_from policy nodes j r \<and> cn_id n \<in> acl_dst_ids policy nodes r}
          - {cn_id n})"
proof -
  obtain c reach where f: "fold (compile_acl policy nodes) (p_acls policy) (compiled_default, []) = (c, reach)"
    by fastforce
  have init: "state_ok (compiled_default, [])" by (simp add: state_ok_def compiled_default_def)
  have acl: "state_ok (c, reach)"
      "filters_of (cp_node_filters c) (cn_id n) = concat (map (acl_rules policy nodes n) (p_acls policy))"
      "\<And>i. reach_of reach i = (\<Union> r \<in> {r \<in> set (p_acls policy). acl_from policy nodes i r}. acl_dst_ids policy nodes r)"
    using fold_compile_acl[OF init assms, of policy "p_acls policy"] f
    by (auto simp: compiled_default_def filters_of_def reach_of_def bt_get_def)
  have vis: "cp_peer_visibility c = []"
    using fold_acl_visibility[of policy nodes "p_acls policy" "(compiled_default, [])"] f
    by (simp add: compiled_default_def)
  let ?c = "fold (compile_grant policy nodes) (p_grants policy) c"
  have inv: "bt_inv (cp_node_filters c)" "bt_inv reach" using acl(1) by (auto simp: state_ok_def)
  note gr = fold_compile_grant[OF inv(1) assms, of policy "p_grants policy"]
  have id: "cn_id n \<in> cn_id ` set nodes" using assms(2) by simp
  show "bt_get (cp_node_filters (compile_policy policy nodes)) (cn_id n)
      = Some (concat (map (acl_rules policy nodes n) (p_acls policy))
              @ concat (map (grant_rules policy nodes n) (p_grants policy)))"
    using gr acl(2) id fold_bt_keep[of "cp_node_filters ?c" nodes "cn_id n"]
    by (simp add: compile_policy_def f Let_def filters_of_def)
  show "bt_get (cp_peer_visibility (compile_policy policy nodes)) (cn_id n)
      = Some ({j. \<exists>r \<in> set (p_acls policy). acl_from policy nodes (cn_id n) r \<and> j \<in> acl_dst_ids policy nodes r}
          \<union> {j. \<exists>r \<in> set (p_acls policy). acl_from policy nodes j r \<and> cn_id n \<in> acl_dst_ids policy nodes r}
          - {cn_id n})"
    using gr vis id fold_bt_insert_empty[of "[]" "{}" nodes "cn_id n"]
    by (simp add: compile_policy_def f Let_def bt_get_map visible_from_reach[OF inv(2)] acl(3)) blast
qed

lemma acl_from_node:
  "distinct (map cn_id nodes) \<Longrightarrow> a \<in> set nodes \<Longrightarrow>
     acl_from policy nodes (cn_id a) r \<longleftrightarrow> matches_node (resolve policy (acl_src r)) a"
  by (auto simp: acl_from_def distinct_map inj_on_def)

lemma acl_dst_ids_node:
  "distinct (map cn_id nodes) \<Longrightarrow> b \<in> set nodes \<Longrightarrow>
     cn_id b \<in> acl_dst_ids policy nodes r \<longleftrightarrow> acl_rules policy nodes b r \<noteq> []"
  by (auto simp: acl_dst_ids_def distinct_map inj_on_def)

lemma may_reach_alt:
  assumes "distinct (map cn_id nodes)" "a \<in> set nodes" "b \<in> set nodes"
  shows "may_reach policy nodes a b \<longleftrightarrow>
     (\<exists>r \<in> set (p_acls policy). acl_from policy nodes (cn_id a) r \<and> cn_id b \<in> acl_dst_ids policy nodes r)"
  using acl_from_node[OF assms(1,2)] acl_dst_ids_node[OF assms(1,3)] acl_rules_neq_Nil
  unfolding may_reach_def by blast

text \<open>Whether the sources of a rule cover a node: by wildcard, by address, or by network.\<close>

definition src_admits :: "string list \<Rightarrow> compile_node \<Rightarrow> bool" where
  "src_admits src_ips node \<longleftrightarrow> ''*'' \<in> set src_ips \<or>
     (\<exists>addr \<in> set (cn_addresses node). addr \<in> set src_ips \<or> (\<exists>net \<in> set src_ips. addr_in_cidr addr net))"

lemma matches_node_admits:
  assumes "matches_node t node" "node \<in> set nodes" "cn_addresses node \<noteq> []"
  shows "src_admits (to_src_ips t nodes) node"
proof (cases "rt_wildcard t")
  case True
  then show ?thesis by (simp add: src_admits_def to_src_ips_def)
next
  case False
  then have ips: "set (to_src_ips t nodes) = set (rt_nets t) \<union> set (autogroup_ips t nodes) \<union>
      (\<Union>node \<in> {n \<in> set nodes. (case cn_user_login n of None \<Rightarrow> False | Some l \<Rightarrow> l \<in> rt_identities t)
         \<or> list_ex (\<lambda>tag. tag \<in> rt_identities t) (cn_tags n)}. set (cn_addresses node))"
    by (auto simp: to_src_ips_def)
  obtain addr where addr: "addr \<in> set (cn_addresses node)" using assms(3) by (cases "cn_addresses node") auto
  show ?thesis
  proof (cases "list_ex (\<lambda>net. list_ex (\<lambda>addr. addr_in_cidr addr net) (cn_addresses node)) (rt_nets t)")
    case True
    then show ?thesis unfolding src_admits_def ips by (auto simp: list_ex_iff)
  next
    case notnet: False
    have "addr \<in> set (to_src_ips t nodes)"
      using assms(1,2) False notnet addr
      unfolding ips matches_node_def autogroup_ips_def by (auto split: if_splits)
    with addr show ?thesis unfolding src_admits_def by blast
  qed
qed

section \<open>Correctness of compilation\<close>

text \<open>
  C3. The reduced filter of every node is what the per-node specification says: the rules
  of the ACLs, in policy order, with a destination that matches the node, followed by
  the capability rules of the grants that match it. Every node has an entry, so a node
  no rule applies to gets the empty filter, which denies everything.
\<close>

theorem compile_policy_node_filters:
  assumes "distinct (map cn_id nodes)" "n \<in> set nodes"
  shows "bt_get (cp_node_filters (compile_policy policy nodes)) (cn_id n)
      = Some (concat (map (acl_rules policy nodes n) (p_acls policy))
              @ concat (map (grant_rules policy nodes n) (p_grants policy)))"
  using compile_policy_result(1)[OF assms] .

theorem compile_policy_node_filters_witness:
  "bt_get (cp_node_filters (compile_policy empty_policy [with_addresses 4 [''100.64.0.4/32'']])) 4 = Some []"
  using compile_policy_node_filters[of "[with_addresses 4 [''100.64.0.4/32'']]"
      "with_addresses 4 [''100.64.0.4/32'']" empty_policy]
  by (simp add: with_addresses_def empty_policy_def)

text \<open>
  C4. Peer visibility is exactly reachability in at least one direction: a node sees
  another one if and only if some ACL lets one of the two open connections to the other. It is
  therefore symmetric, and a node never sees itself.
\<close>

theorem compile_policy_peer_visibility:
  assumes "distinct (map cn_id nodes)" "a \<in> set nodes" "b \<in> set nodes"
  shows "\<exists>va vb. bt_get (cp_peer_visibility (compile_policy policy nodes)) (cn_id a) = Some va
    \<and> bt_get (cp_peer_visibility (compile_policy policy nodes)) (cn_id b) = Some vb
    \<and> (cn_id b \<in> va \<longleftrightarrow> a \<noteq> b \<and> (may_reach policy nodes a b \<or> may_reach policy nodes b a))
    \<and> (cn_id b \<in> va \<longleftrightarrow> cn_id a \<in> vb)"
proof -
  have "cn_id a = cn_id b \<longleftrightarrow> a = b" using assms by (auto simp: distinct_map inj_on_def)
  then show ?thesis
    using compile_policy_result(2)[OF assms(1,2), of policy] compile_policy_result(2)[OF assms(1,3), of policy]
      may_reach_alt[OF assms(1,2,3), of policy] may_reach_alt[OF assms(1,3,2), of policy]
    by auto
qed

text \<open>
  C16. Visibility and filtering agree: when an ACL lets node a reach node b, and a has an
  address, then b's own filter contains a network rule whose sources cover a, by wildcard,
  by one of its addresses or by a network containing one.
\<close>

theorem reachable_implies_admitted:
  assumes "distinct (map cn_id nodes)" "a \<in> set nodes" "b \<in> set nodes"
    and "may_reach policy nodes a b" "cn_addresses a \<noteq> []"
  shows "\<exists>fs. bt_get (cp_node_filters (compile_policy policy nodes)) (cn_id b) = Some fs
    \<and> (\<exists>f \<in> set fs. fr_cap_grant f = [] \<and> src_admits (fr_src_ips f) a)"
proof -
  obtain r where r: "r \<in> set (p_acls policy)" "matches_node (resolve policy (acl_src r)) a"
    "acl_rules policy nodes b r \<noteq> []"
    using assms(4) by (auto simp: may_reach_def)
  then obtain f where f: "f \<in> set (acl_rules policy nodes b r)"
    by (cases "acl_rules policy nodes b r") auto
  then have "fr_src_ips f = acl_src_ips policy nodes r" "fr_cap_grant f = []"
    by (auto simp: acl_rules_def net_filter_def filter_rule_default_def split: if_splits)
  with matches_node_admits[OF r(2) assms(2,5)]
  have "fr_cap_grant f = [] \<and> src_admits (fr_src_ips f) a" by (simp add: acl_src_ips_def)
  with f r(1) compile_policy_result(1)[OF assms(1,3), of policy] show ?thesis by auto
qed

definition web_lab :: policy where
  "web_lab = empty_policy\<lparr>p_acls := [\<lparr>acl_action = ''accept'', acl_src = [''eve@x''],
     acl_dst = [''tag:web:443''], acl_proto = None\<rparr>]\<rparr>"

definition eve_node :: compile_node where
  "eve_node = (with_addresses 1 [''100.64.0.1/32''])\<lparr>cn_user_login := Some ''eve@x''\<rparr>"

definition web_node :: compile_node where
  "web_node = (with_addresses 2 [''100.64.0.2/32''])\<lparr>cn_tags := [''tag:web'']\<rparr>"

lemma web_lab_reach: "may_reach web_lab [eve_node, web_node] eve_node web_node"
  by code_simp

lemma web_lab_ids: "distinct (map cn_id [eve_node, web_node])" "eve_node \<noteq> web_node"
  "cn_addresses eve_node \<noteq> []" "cn_id eve_node = 1" "cn_id web_node = 2"
  by (simp_all add: eve_node_def web_node_def with_addresses_def)

theorem compile_policy_peer_visibility_witness:
  "\<exists>va vb. bt_get (cp_peer_visibility (compile_policy web_lab [eve_node, web_node])) 1 = Some va
    \<and> bt_get (cp_peer_visibility (compile_policy web_lab [eve_node, web_node])) 2 = Some vb
    \<and> 2 \<in> va \<and> 1 \<in> vb"
  using compile_policy_peer_visibility[OF web_lab_ids(1), of eve_node web_node web_lab]
    web_lab_reach web_lab_ids by auto

theorem reachable_implies_admitted_witness:
  "\<exists>fs. bt_get (cp_node_filters (compile_policy web_lab [eve_node, web_node])) 2 = Some fs
    \<and> (\<exists>f \<in> set fs. fr_cap_grant f = [] \<and> src_admits (fr_src_ips f) eve_node)"
  using reachable_implies_admitted[OF web_lab_ids(1) _ _ web_lab_reach web_lab_ids(3)] web_lab_ids(5)
  by simp

section \<open>Destinations without ports\<close>

lemma split_once_str_SomeD: "split_once_str p s = Some (a, b) \<Longrightarrow> s = a @ p @ b"
proof (induction s arbitrary: a)
  case Nil
  then show ?case by (auto simp: split_once_str.simps[of p "[]"] split: if_splits)
next
  case (Cons x s)
  show ?case
  proof (cases "prefix p (x # s)")
    case True
    with Cons.prems show ?thesis by (auto simp: split_once_str.simps[of p "x # s"] prefix_def)
  next
    case False
    with Cons.prems obtain a' where "split_once_str p s = Some (a', b)" "a = x # a'"
      by (auto simp: split_once_str.simps[of p "x # s"] split: option.splits)
    with Cons.IH show ?thesis by simp
  qed
qed

lemma one_colon:
  assumes "kind @ CHR '':'' # name = a @ '']:'' @ b" "CHR '':'' \<notin> set kind" "CHR '']'' \<notin> set kind"
    "CHR '':'' \<notin> set name"
  shows False
proof -
  have "split_once (CHR '':'') (kind @ CHR '':'' # name) = Some (kind, name)"
    using assms(2) by simp
  then have sp: "split_once (CHR '':'') ((a @ '']'') @ CHR '':'' # b) = Some (kind, name)"
    using assms(1) by simp
  show False
  proof (cases "CHR '':'' \<in> set a")
    case False
    with sp have "a @ '']'' = kind" by (subst (asm) split_once_append) auto
    with assms(3) show False by auto
  next
    case True
    then obtain a1 a2 where "a = a1 @ CHR '':'' # a2" "CHR '':'' \<notin> set a1"
      by (meson split_list_first)
    with sp have "name = a2 @ '']:'' @ b" by (simp add: split_once_Some)
    with assms(4) show False by simp
  qed
qed

lemma matches_default [simp]: "\<not> matches_node rt_default node"
  by (simp add: matches_node_def rt_default_def list_ex_iff split: option.splits)

lemma kind_names:
  "is_host_ident ''tag''" "is_host_ident ''group''" "is_host_ident ''autogroup''"
  "\<not> is_ip_or_cidr_str ''tag''" "\<not> is_ip_or_cidr_str ''group''" "\<not> is_ip_or_cidr_str ''autogroup''"
  "\<not> is_user_ident ''tag''" "\<not> is_user_ident ''group''" "\<not> is_user_ident ''autogroup''"
  "strip_prefix ''tag'' ''autogroup:'' = None" "strip_prefix ''group'' ''autogroup:'' = None"
  "strip_prefix ''autogroup'' ''autogroup:'' = None"
  "\<not> starts_with ''tag'' ''tag:''" "\<not> starts_with ''group'' ''tag:''" "\<not> starts_with ''autogroup'' ''tag:''"
  "\<not> starts_with ''tag'' ''group:''" "\<not> starts_with ''group'' ''group:''" "\<not> starts_with ''autogroup'' ''group:''"
  by code_simp+

text \<open>
  A destination written without a port suffix loses its kind: the text before the
  last colon is taken as the host, so \<^verbatim>\<open>tag:web\<close>, \<^verbatim>\<open>group:eng\<close> or \<^verbatim>\<open>autogroup:self\<close> is read as
  the host \<^verbatim>\<open>tag\<close>, \<^verbatim>\<open>group\<close> or \<^verbatim>\<open>autogroup\<close> with a port list, and matches no node at all
  (unless a host alias has that very name). Such destinations pass validation, and grants,
  which take no ports, are normally written this way.
\<close>

theorem portless_destination_matches_nothing:
  assumes "kind \<in> {''tag'', ''group'', ''autogroup''}"
    and "name \<noteq> []" "CHR '':'' \<notin> set name" "map_of (p_hosts policy) kind = None"
  shows "\<exists>d. parse_dst policy (kind @ '':'' @ name) = Some d \<and> \<not> dst_matches d node"
proof -
  have k: "CHR '':'' \<notin> set kind" "CHR '']'' \<notin> set kind" "kind \<noteq> []" "is_host_ident kind"
    "resolve_bare policy kind = rt_default"
    using assms(1) kind_names assms(4) by (auto simp: resolve_bare_def host_target_def)
  have "rsplit_once (CHR '':'') (kind @ CHR '':'' # name) = Some (kind, name)"
    using assms(3) by (simp add: rsplit_once_Some)
  moreover have "\<not> is_bare_ipv6 kind" using k(1) by (simp add: is_bare_ipv6_def)
  ultimately have lit: "split_ports_literal (kind @ CHR '':'' # name) = Some (kind, name)"
    using k assms(2) by (simp add: split_ports_literal_def)
  have "split_once_str '']:'' (kind @ CHR '':'' # name) = None"
  proof (rule ccontr)
    assume "split_once_str '']:'' (kind @ CHR '':'' # name) \<noteq> None"
    then obtain a b where "split_once_str '']:'' (kind @ CHR '':'' # name) = Some (a, b)" by auto
    from one_colon[OF split_once_str_SomeD[OF this] k(1,2) assms(3)] show False .
  qed
  then have "split_bracketed_ports (kind @ CHR '':'' # name) = None"
    by (simp add: split_bracketed_ports_def)
  moreover have "kind @ CHR '':'' # name \<noteq> ''*''" using k(3) by (cases kind) auto
  ultimately show ?thesis using lit k(5) by (auto simp: parse_dst_def dst_matches_def)
qed

end
