(* ===== verification/Policy_Ssh.thy ===== *)
theory Policy_Ssh
  imports Policy_Compile
begin

text \<open>
  The SSH rule compiler, \<^verbatim>\<open>crabscale-policy/src/ssh.rs\<close>, with the wire types of
  \<^verbatim>\<open>crabscale-proto/src/ssh.rs\<close>. A \<^verbatim>\<open>Duration\<close> is its whole number of seconds; the
  checked \<^verbatim>\<open>u64\<close> arithmetic of the parser is written out.
\<close>

section \<open>Durations\<close>

definition DEFAULT_SSH_CHECK_PERIOD :: nat where
  "DEFAULT_SSH_CHECK_PERIOD = 12 * 60 * 60"

definition checked_u64 :: "nat \<Rightarrow> nat option" where
  "checked_u64 n = (if n < 2 ^ 64 then Some n else None)"

fun ssh_duration_loop :: "nat \<Rightarrow> string \<Rightarrow> string \<Rightarrow> nat option" where
  "ssh_duration_loop tot number [] = (if number = [] then Some tot else None)"
| "ssh_duration_loop tot number (c # cs) =
     (if is_ascii_digit c then ssh_duration_loop tot (number @ [c]) cs
      else Option.bind (parse_u64 number) (\<lambda>amount.
        Option.bind
          (if to_lower c = CHR ''s'' then Some amount
           else if to_lower c = CHR ''m'' then checked_u64 (amount * 60)
           else if to_lower c = CHR ''h'' then checked_u64 (amount * 3600)
           else if to_lower c = CHR ''d'' then checked_u64 (amount * 86400)
           else None) (\<lambda>seconds.
        Option.bind (checked_u64 (tot + seconds)) (\<lambda>tot.
          ssh_duration_loop tot [] cs))))"

definition parse_ssh_duration :: "string \<Rightarrow> nat option" where
  "parse_ssh_duration input = (if input = [] then None else ssh_duration_loop 0 [] input)"

section \<open>Compilation\<close>

datatype ssh_rule_action = SshAccept | SshCheck nat

record compiled_ssh_rule =
  csr_src :: "string list"
  csr_src_nodes :: "nat set"
  csr_src_all :: bool
  csr_users :: "string list"
  csr_action :: ssh_rule_action

type_synonym compiled_ssh_policy = "(nat, compiled_ssh_rule list) btree"

definition ssh_rule_action_of :: "ssh_rule \<Rightarrow> ssh_rule_action" where
  "ssh_rule_action_of rule =
     (if sr_action rule = ''accept'' then SshAccept
      else SshCheck (case Option.bind (sr_check_period rule) parse_ssh_duration of
          Some d \<Rightarrow> d | None \<Rightarrow> DEFAULT_SSH_CHECK_PERIOD))"

definition compile_ssh_rule :: "policy \<Rightarrow> compile_node list \<Rightarrow> ssh_rule \<Rightarrow> compiled_ssh_rule" where
  "compile_ssh_rule policy nodes rule =
     (let src = resolve policy (sr_src rule) in
      \<lparr>csr_src = sr_src rule, csr_src_nodes = cn_id ` set (filter (matches_node src) nodes),
       csr_src_all = (rt_wildcard src \<or> rt_self_match src), csr_users = sr_users rule,
       csr_action = ssh_rule_action_of rule\<rparr>)"

definition push_ssh_rule ::
  "policy \<Rightarrow> compile_node list \<Rightarrow> ssh_rule \<Rightarrow> compiled_ssh_policy \<Rightarrow> compiled_ssh_policy" where
  "push_ssh_rule policy nodes rule m =
     (let dst = resolve policy (sr_dst rule); r = compile_ssh_rule policy nodes rule in
      fold (\<lambda>node m. bt_entry (cn_id node) [] (\<lambda>rs. rs @ [r]) m) (filter (matches_node dst) nodes) m)"

definition compile_ssh_policy :: "policy \<Rightarrow> compile_node list \<Rightarrow> compiled_ssh_policy" where
  "compile_ssh_policy policy nodes =
     fold (push_ssh_rule policy nodes) (p_ssh policy)
       (fold (\<lambda>node m. bt_entry (cn_id node) [] (\<lambda>rs. rs) m) nodes [])"

definition ssh_rule_applies :: "compiled_ssh_rule \<Rightarrow> nat \<Rightarrow> string \<Rightarrow> bool" where
  "ssh_rule_applies rule src_id ssh_user \<longleftrightarrow>
     (csr_src_all rule \<or> src_id \<in> csr_src_nodes rule)
     \<and> (csr_users rule = [] \<or> list_ex (\<lambda>u. u = ssh_user \<or> u = ''*'') (csr_users rule))"

definition first_matching_ssh_rule ::
  "compiled_ssh_policy \<Rightarrow> nat \<Rightarrow> nat \<Rightarrow> string \<Rightarrow> compiled_ssh_rule option" where
  "first_matching_ssh_rule policy src_id dst_id ssh_user =
     Option.bind (bt_get policy dst_id) (\<lambda>rules. find (\<lambda>r. ssh_rule_applies r src_id ssh_user) rules)"

section \<open>The wire policy\<close>

record ssh_principal =
  sp_node :: string
  sp_user_login :: string
  sp_any :: bool

record ssh_action =
  sa_message :: string
  sa_reject :: bool
  sa_accept :: bool
  sa_hold_and_delegate :: string
  sa_allow_agent_forwarding :: bool
  sa_allow_local_port_forwarding :: bool
  sa_allow_remote_port_forwarding :: bool

record wire_ssh_rule =
  wr_principals :: "ssh_principal list"
  wr_ssh_users :: "(string, string) btree"
  wr_action :: "ssh_action option"

record wire_ssh_policy =
  wp_rules :: "wire_ssh_rule list"

definition principal_default :: ssh_principal where
  "principal_default = \<lparr>sp_node = [], sp_user_login = [], sp_any = False\<rparr>"

definition add_login_principal :: "string \<Rightarrow> ssh_principal list \<Rightarrow> ssh_principal list" where
  "add_login_principal selector ps =
     (if CHR ''@'' \<in> set selector \<and> \<not> list_ex (\<lambda>p. sp_user_login p = selector) ps
      then ps @ [principal_default\<lparr>sp_user_login := selector\<rparr>] else ps)"

text \<open>One principal per source node, in id order, skipping repeated or empty stable ids.\<close>

fun node_principals :: "compile_node list \<Rightarrow> string set \<Rightarrow> nat list \<Rightarrow> ssh_principal list" where
  "node_principals nodes seen [] = []"
| "node_principals nodes seen (i # is) =
     (case find (\<lambda>n. cn_id n = i) nodes of
        None \<Rightarrow> node_principals nodes seen is
      | Some node \<Rightarrow>
          if cn_stable_id node \<noteq> [] \<and> cn_stable_id node \<notin> seen
          then principal_default\<lparr>sp_node := cn_stable_id node\<rparr>
            # node_principals nodes (insert (cn_stable_id node) seen) is
          else node_principals nodes seen is)"

definition role_principals :: "compiled_ssh_rule \<Rightarrow> compile_node list \<Rightarrow> ssh_principal list" where
  "role_principals rule nodes =
     (if csr_src_all rule
      then fold add_login_principal (csr_src rule) [principal_default\<lparr>sp_any := True\<rparr>]
      else fold add_login_principal (csr_src rule)
        (node_principals nodes {} (sorted_list_of_set (csr_src_nodes rule))))"

definition wire_action :: "string \<Rightarrow> ssh_rule_action \<Rightarrow> ssh_action" where
  "wire_action server_url act =
     (case act of
        SshAccept \<Rightarrow>
          \<lparr>sa_message = ''SSH connection accepted'', sa_reject = False, sa_accept = True,
           sa_hold_and_delegate = [], sa_allow_agent_forwarding = True,
           sa_allow_local_port_forwarding = True, sa_allow_remote_port_forwarding = True\<rparr>
      | SshCheck _ \<Rightarrow>
          \<lparr>sa_message = ''approval required'', sa_reject = False, sa_accept = False,
           sa_hold_and_delegate = server_url @
             ''/machine/ssh/action/$SRC_NODE_ID/to/$DST_NODE_ID?ssh_user=$SSH_USER&local_user=$LOCAL_USER'',
           sa_allow_agent_forwarding = True,
           sa_allow_local_port_forwarding = True, sa_allow_remote_port_forwarding = True\<rparr>)"

definition wire_rule :: "string \<Rightarrow> compile_node list \<Rightarrow> compiled_ssh_rule \<Rightarrow> wire_ssh_rule" where
  "wire_rule server_url nodes rule =
     \<lparr>wr_principals = role_principals rule nodes,
      wr_ssh_users = fold (\<lambda>u m. bt_insert u ''='' m) (csr_users rule) [],
      wr_action = Some (wire_action server_url (csr_action rule))\<rparr>"

definition build_wire_ssh_policy ::
  "compiled_ssh_policy \<Rightarrow> nat \<Rightarrow> string \<Rightarrow> compile_node list \<Rightarrow> wire_ssh_policy option" where
  "build_wire_ssh_policy compiled dst_id server_url nodes =
     Option.bind (bt_get compiled dst_id) (\<lambda>rules.
       if rules = [] then None else Some \<lparr>wp_rules = map (wire_rule server_url nodes) rules\<rparr>)"

section \<open>Durations do not overflow\<close>

lemma checked_u64_Some: "checked_u64 n = Some k \<longleftrightarrow> k = n \<and> n < 2 ^ 64"
  by (auto simp: checked_u64_def)

lemma ssh_duration_loop_bound:
  "ssh_duration_loop tot number cs = Some t \<Longrightarrow> tot < 2 ^ 64 \<Longrightarrow> tot \<le> t \<and> t < 2 ^ 64"
proof (induction cs arbitrary: tot number)
  case Nil
  then show ?case by (simp split: if_splits)
next
  case (Cons c cs)
  show ?case
  proof (cases "is_ascii_digit c")
    case True
    with Cons show ?thesis by simp
  next
    case False
    with Cons.prems obtain s where "tot + s < 2 ^ 64" "ssh_duration_loop (tot + s) [] cs = Some t"
      by (auto simp: Option.bind_eq_Some_conv checked_u64_Some simp del: power_numeral split: if_splits)
    with Cons.IH[of "tot + s" "[]"] show ?thesis by simp
  qed
qed

section \<open>Correctness\<close>

lemma ssh_duration_digits:
  "list_all (is_digit 10) ds \<Longrightarrow> ssh_duration_loop tot number (ds @ cs) = ssh_duration_loop tot (number @ ds) cs"
  by (induction ds arbitrary: number) (auto simp: is_ascii_digit_iff)

lemma to_lower_units:
  "to_lower c = CHR ''s'' \<longleftrightarrow> c = CHR ''s'' \<or> c = CHR ''S''"
  "to_lower c = CHR ''m'' \<longleftrightarrow> c = CHR ''m'' \<or> c = CHR ''M''"
  "to_lower c = CHR ''h'' \<longleftrightarrow> c = CHR ''h'' \<or> c = CHR ''H''"
  "to_lower c = CHR ''d'' \<longleftrightarrow> c = CHR ''d'' \<or> c = CHR ''D''"
  by (simp_all add: to_lower_eq is_ascii_lowercase_def less_eq_char_def)

text \<open>
  SSH check periods are computed without wrap-around: whatever string is parsed, the
  result is the exact sum of its parts and fits in 64 bits, since every multiplication and
  addition is checked; in particular one amount with a unit gives amount times unit when
  that fits and nothing otherwise.
\<close>

theorem parse_ssh_duration_checked:
  "(parse_ssh_duration s = Some t \<longrightarrow> t < 2 ^ 64)
   \<and> parse_ssh_duration (dec_str n @ [c]) =
       (if n < 2 ^ 64 then
          (if c \<in> {CHR ''s'', CHR ''S''} then Some n
           else if c \<in> {CHR ''m'', CHR ''M''} \<and> n * 60 < 2 ^ 64 then Some (n * 60)
           else if c \<in> {CHR ''h'', CHR ''H''} \<and> n * 3600 < 2 ^ 64 then Some (n * 3600)
           else if c \<in> {CHR ''d'', CHR ''D''} \<and> n * 86400 < 2 ^ 64 then Some (n * 86400)
           else None)
        else None)"
proof (rule conjI)
  show "parse_ssh_duration s = Some t \<longrightarrow> t < 2 ^ 64"
    using ssh_duration_loop_bound[of 0 "[]" s t] by (simp add: parse_ssh_duration_def)
  show "parse_ssh_duration (dec_str n @ [c]) =
       (if n < 2 ^ 64 then
          (if c \<in> {CHR ''s'', CHR ''S''} then Some n
           else if c \<in> {CHR ''m'', CHR ''M''} \<and> n * 60 < 2 ^ 64 then Some (n * 60)
           else if c \<in> {CHR ''h'', CHR ''H''} \<and> n * 3600 < 2 ^ 64 then Some (n * 3600)
           else if c \<in> {CHR ''d'', CHR ''D''} \<and> n * 86400 < 2 ^ 64 then Some (n * 86400)
           else None)
        else None)"
  proof -
    have lhs: "parse_ssh_duration (dec_str n @ [c]) = ssh_duration_loop 0 (dec_str n) [c]"
      by (simp add: parse_ssh_duration_def ssh_duration_digits)
    show ?thesis
    proof (cases "is_ascii_digit c")
      case True
      then have "c \<notin> {CHR ''s'', CHR ''S'', CHR ''m'', CHR ''M'', CHR ''h'', CHR ''H'', CHR ''d'', CHR ''D''}"
        by (auto simp: is_ascii_digit_def less_eq_char_def)
      with True lhs show ?thesis by simp
    next
      case False
      have "n \<le> 2 ^ 64 - 1 \<longleftrightarrow> n < 2 ^ 64" by auto
      with False lhs show ?thesis by (simp add: to_lower_units checked_u64_def)
    qed
  qed
qed

definition ssh_rule_concerns :: "policy \<Rightarrow> ssh_rule \<Rightarrow> compile_node \<Rightarrow> compile_node \<Rightarrow> string \<Rightarrow> bool" where
  "ssh_rule_concerns policy rule a b user \<longleftrightarrow>
     matches_node (resolve policy (sr_dst rule)) b \<and> matches_node (resolve policy (sr_src rule)) a
     \<and> (sr_users rule = [] \<or> user \<in> set (sr_users rule) \<or> ''*'' \<in> set (sr_users rule))"

definition rules_of :: "compiled_ssh_policy \<Rightarrow> nat \<Rightarrow> compiled_ssh_rule list" where
  "rules_of m i = (case bt_get m i of None \<Rightarrow> [] | Some rs \<Rightarrow> rs)"

lemma fold_push_rule:
  "bt_inv m \<Longrightarrow> distinct (map cn_id xs) \<Longrightarrow>
     bt_inv (fold (\<lambda>node m. bt_entry (cn_id node) [] (\<lambda>rs. rs @ [r]) m) xs m) \<and>
     bt_get (fold (\<lambda>node m. bt_entry (cn_id node) [] (\<lambda>rs. rs @ [r]) m) xs m) i =
       (if i \<in> cn_id ` set xs then Some (rules_of m i @ [r]) else bt_get m i)"
  by (induction xs arbitrary: m) (auto simp: bt_inv_entry bt_get_entry rules_of_def)

lemma push_ssh_rule_step:
  assumes "bt_inv m" "distinct (map cn_id nodes)" "n \<in> set nodes" "bt_get m (cn_id n) = Some rs"
  shows "bt_inv (push_ssh_rule policy nodes rule m)"
    and "bt_get (push_ssh_rule policy nodes rule m) (cn_id n)
      = Some (rs @ (if matches_node (resolve policy (sr_dst rule)) n
                    then [compile_ssh_rule policy nodes rule] else []))"
proof -
  have d: "distinct (map cn_id (filter (matches_node (resolve policy (sr_dst rule))) nodes))"
    using assms(2) by (simp add: distinct_map_filter)
  note f = fold_push_rule[OF assms(1) d, of "compile_ssh_rule policy nodes rule"]
  show "bt_inv (push_ssh_rule policy nodes rule m)" using f by (simp add: push_ssh_rule_def Let_def)
  show "bt_get (push_ssh_rule policy nodes rule m) (cn_id n)
      = Some (rs @ (if matches_node (resolve policy (sr_dst rule)) n
                    then [compile_ssh_rule policy nodes rule] else []))"
    using f assms(4) in_filter_ids[OF assms(2,3), of "matches_node (resolve policy (sr_dst rule))"]
    by (simp add: push_ssh_rule_def Let_def rules_of_def)
qed

lemma fold_push_ssh_rule:
  assumes "distinct (map cn_id nodes)" "n \<in> set nodes"
  shows "bt_inv m \<Longrightarrow> bt_get m (cn_id n) = Some rs \<Longrightarrow>
    bt_get (fold (push_ssh_rule policy nodes) rules m) (cn_id n)
      = Some (rs @ map (compile_ssh_rule policy nodes)
          (filter (\<lambda>r. matches_node (resolve policy (sr_dst r)) n) rules))"
proof (induction rules arbitrary: m rs)
  case (Cons rule rules)
  from push_ssh_rule_step[OF Cons.prems(1) assms Cons.prems(2), of policy rule] Cons.IH show ?case
    by simp
qed simp

lemma compile_ssh_policy_get:
  assumes "distinct (map cn_id nodes)" "n \<in> set nodes"
  shows "bt_get (compile_ssh_policy policy nodes) (cn_id n)
      = Some (map (compile_ssh_rule policy nodes)
          (filter (\<lambda>r. matches_node (resolve policy (sr_dst r)) n) (p_ssh policy)))"
proof -
  have "bt_inv (fold (\<lambda>n m. bt_entry (cn_id n) [] (\<lambda>rs. rs) m) xs m)
     \<and> bt_get (fold (\<lambda>n m. bt_entry (cn_id n) [] (\<lambda>rs. rs) m) xs m) i
       = (if i \<in> cn_id ` set xs then Some (rules_of m i) else bt_get m i)"
    if "bt_inv m" for xs :: "compile_node list" and m :: compiled_ssh_policy and i
    using that by (induction xs arbitrary: m)
      (auto simp: bt_inv_entry bt_get_entry rules_of_def split: option.splits)
  from this[of "[]" nodes "cn_id n"] assms(2) fold_push_ssh_rule[OF assms, of _ "[]"] show ?thesis
    by (simp add: compile_ssh_policy_def rules_of_def bt_get_def[of "[]"])
qed

lemma compile_ssh_rule_applies:
  assumes "distinct (map cn_id nodes)" "a \<in> set nodes"
  shows "ssh_rule_applies (compile_ssh_rule policy nodes r) (cn_id a) user \<longleftrightarrow>
     matches_node (resolve policy (sr_src r)) a
     \<and> (sr_users r = [] \<or> user \<in> set (sr_users r) \<or> ''*'' \<in> set (sr_users r))"
  using in_filter_ids[OF assms, of "matches_node (resolve policy (sr_src r))"]
  by (auto simp: ssh_rule_applies_def compile_ssh_rule_def Let_def list_ex_iff matches_node_def)

text \<open>
  C19. The answer to an SSH connection is decided by the first rule of the policy, in the
  order it was written, whose source matches the connecting node, whose destination matches the
  target node and which lists the user (or any user); when there is none the connection is
  denied.
\<close>

theorem ssh_first_match_wins:
  assumes "distinct (map cn_id nodes)" "a \<in> set nodes" "b \<in> set nodes"
  shows "first_matching_ssh_rule (compile_ssh_policy policy nodes) (cn_id a) (cn_id b) user
    = map_option (compile_ssh_rule policy nodes)
        (find (\<lambda>r. ssh_rule_concerns policy r a b user) (p_ssh policy))"
proof -
  have "find (\<lambda>r. ssh_rule_applies r (cn_id a) user)
        (map (compile_ssh_rule policy nodes) (filter (\<lambda>r. matches_node (resolve policy (sr_dst r)) b) rules))
      = map_option (compile_ssh_rule policy nodes) (find (\<lambda>r. ssh_rule_concerns policy r a b user) rules)" for rules
    using compile_ssh_rule_applies[OF assms(1,2)]
    by (induction rules) (auto simp: ssh_rule_concerns_def)
  with compile_ssh_policy_get[OF assms(1,3), of policy] show ?thesis
    by (simp add: first_matching_ssh_rule_def)
qed

definition ssh_lab :: policy where
  "ssh_lab = empty_policy\<lparr>p_ssh := [
     \<lparr>sr_action = ''check'', sr_src = [''tag:ci''], sr_dst = [''tag:web''], sr_users = [], sr_check_period = Some ''30m''\<rparr>,
     \<lparr>sr_action = ''accept'', sr_src = [''eve@x''], sr_dst = [''tag:web''], sr_users = [''root''], sr_check_period = None\<rparr>]\<rparr>"

lemma ssh_lab_find:
  "find (\<lambda>r. ssh_rule_concerns ssh_lab r eve_node web_node ''root'') (p_ssh ssh_lab) = Some (p_ssh ssh_lab ! 1)"
  by code_simp

theorem ssh_first_match_wins_witness:
  "map_option csr_action (first_matching_ssh_rule (compile_ssh_policy ssh_lab [eve_node, web_node]) 1 2 ''root'')
     = Some SshAccept"
  using ssh_first_match_wins[OF web_lab_ids(1), of eve_node web_node ssh_lab "''root''"] ssh_lab_find web_lab_ids
  by (simp add: ssh_lab_def compile_ssh_rule_def ssh_rule_action_of_def Let_def)

end
