(* ===== verification/Policy_Validate.thy ===== *)
theory Policy_Validate
  imports Policy_Ssh
begin

text \<open>
  Semantic validation, \<^verbatim>\<open>crabscale-policy/src/validate.rs\<close>, with the error type of
  \<^verbatim>\<open>crabscale-policy/src/error.rs\<close>. Every check is in the order of the source, so the first
  problem found is the one reported, with the line located by the substring heuristic.
\<close>

record hujson_error =
  he_line :: nat
  he_column :: nat
  he_message :: string

definition error_at :: "nat \<Rightarrow> nat \<Rightarrow> string \<Rightarrow> hujson_error" where
  "error_at line column message = \<lparr>he_line = line, he_column = column, he_message = message\<rparr>"

definition error_at_line :: "nat \<Rightarrow> string \<Rightarrow> hujson_error" where
  "error_at_line line message = error_at line 1 message"

type_synonym check = "(hujson_error, unit) result"

section \<open>Locating lines\<close>

text \<open>\<^verbatim>\<open>str::lines\<close>: cut after each newline, without a final empty line, dropping a trailing
  carriage return.\<close>

definition strip_cr :: "string \<Rightarrow> string" where
  "strip_cr s = (if s \<noteq> [] \<and> last s = CHR 0x0D then butlast s else s)"

definition str_lines :: "string \<Rightarrow> string list" where
  "str_lines s =
     (let parts = split_char (CHR 0x0A) s in
      map strip_cr (butlast parts) @ (if last parts = [] then [] else [last parts]))"

fun locate_from :: "nat \<Rightarrow> string \<Rightarrow> string list \<Rightarrow> nat" where
  "locate_from i needle [] = 1"
| "locate_from i needle (l # ls) = (if str_contains l needle then i + 1 else locate_from (i + 1) needle ls)"

definition locate_line :: "string \<Rightarrow> string \<Rightarrow> nat" where
  "locate_line source needle = locate_from 0 needle (str_lines source)"

definition error_here :: "string \<Rightarrow> string \<Rightarrow> string \<Rightarrow> hujson_error" where
  "error_here source needle message = error_at_line (locate_line source needle) message"

section \<open>Loops that stop at the first error\<close>

fun check_all :: "('a \<Rightarrow> check) \<Rightarrow> 'a list \<Rightarrow> check" where
  "check_all f [] = Ok ()"
| "check_all f (x # xs) = bind_res (f x) (\<lambda>_. check_all f xs)"

fun check_enum :: "(nat \<Rightarrow> 'a \<Rightarrow> check) \<Rightarrow> nat \<Rightarrow> 'a list \<Rightarrow> check" where
  "check_enum f i [] = Ok ()"
| "check_enum f i (x # xs) = bind_res (f i x) (\<lambda>_. check_enum f (Suc i) xs)"

definition ensure :: "bool \<Rightarrow> hujson_error \<Rightarrow> check" where
  "ensure b e = (if b then Ok () else Err e)"

abbreviation and_then :: "check \<Rightarrow> check \<Rightarrow> check" where
  "and_then a b \<equiv> bind_res a (\<lambda>_. b)"

lemma ensure_Ok [simp]: "ensure b e = Inr () \<longleftrightarrow> b"
  by (simp add: ensure_def)

lemma check_all_Ok [simp]: "check_all f xs = Inr () \<longleftrightarrow> (\<forall>x \<in> set xs. f x = Inr ())"
  by (induction xs) (auto simp: bind_res_Ok_iff)

lemma check_enum_Ok:
  "(\<And>i x. f i x = Inr () \<longleftrightarrow> P x) \<Longrightarrow> check_enum f i xs = Inr () \<longleftrightarrow> (\<forall>x \<in> set xs. P x)"
  by (induction xs arbitrary: i) (auto simp: bind_res_Ok_iff)

section \<open>Targets\<close>

definition is_ip_or_cidr :: "string \<Rightarrow> bool" where
  "is_ip_or_cidr s =
     (if parse_ip s \<noteq> None then True
      else case split_once (CHR ''/'') s of
        None \<Rightarrow> False
      | Some (addr, pre) \<Rightarrow>
          (case parse_ip addr of
             None \<Rightarrow> False
           | Some ip \<Rightarrow>
               (case parse_u8 pre of
                  None \<Rightarrow> False
                | Some bits \<Rightarrow> bits \<le> (case ip of V4 _ \<Rightarrow> 32 | V6 _ \<Rightarrow> 128) \<and> pre \<noteq> [])))"

definition valid_host_ident :: "string \<Rightarrow> bool" where
  "valid_host_ident s \<longleftrightarrow>
     s \<noteq> [] \<and> list_all (\<lambda>c. is_ascii_alphanumeric c \<or> c = CHR ''-'' \<or> c = CHR ''.'' \<or> c = CHR ''_'') s"

definition valid_port_item :: "string \<Rightarrow> bool" where
  "valid_port_item raw =
     (let item = trim raw in
      if item = [] then False
      else case split_once (CHR ''-'') item of
        Some (lo, hi) \<Rightarrow>
          (case (parse_u16 lo, parse_u16 hi) of
             (Some a, Some b) \<Rightarrow> a > 0 \<and> b > 0 \<and> a \<le> b
           | _ \<Rightarrow> False)
      | None \<Rightarrow> (case parse_u16 item of Some port \<Rightarrow> port > 0 | None \<Rightarrow> False))"

definition valid_portlist :: "string \<Rightarrow> bool" where
  "valid_portlist ports =
     (if ports = ''*'' then True
      else if ports = [] then False
      else list_all valid_port_item (split_char (CHR '','') ports))"

definition is_plain_ipv4_or_cidr :: "string \<Rightarrow> bool" where
  "is_plain_ipv4_or_cidr s \<longleftrightarrow> CHR '':'' \<notin> set s \<and> CHR ''.'' \<in> set s \<and> is_ip_or_cidr s"

definition strip_brackets :: "string \<Rightarrow> string" where
  "strip_brackets host =
     (if starts_with host ''['' \<and> ends_with host '']'' \<and> length host \<ge> 2
      then take (length host - 2) (drop 1 host) else host)"

definition split_ports :: "string \<Rightarrow> (string \<times> string) option" where
  "split_ports target =
     Option.bind (rsplit_once (CHR '':'') target) (\<lambda>(host, ports).
       if host = [] \<or> ports = [] then None
       else if starts_with host ''['' \<or> is_plain_ipv4_or_cidr host \<or> host = ''*'' \<or> valid_host_ident host
       then Some (host, ports)
       else None)"

definition is_principal :: "string \<Rightarrow> bool" where
  "is_principal target =
     (if target = ''*'' then True
      else case strip_prefix target ''autogroup:'' of
        Some rest \<Rightarrow> rest \<noteq> []
      | None \<Rightarrow> (case strip_prefix target ''group:'' of
        Some rest \<Rightarrow> rest \<noteq> []
      | None \<Rightarrow> (case strip_prefix target ''tag:'' of
        Some rest \<Rightarrow> rest \<noteq> []
      | None \<Rightarrow> (case split_once (CHR ''@'') target of
        Some (user, host) \<Rightarrow> user \<noteq> [] \<and> host \<noteq> [] \<and> \<not> has_whitespace user
      | None \<Rightarrow> is_ip_or_cidr target))))"

definition is_dst :: "string \<Rightarrow> bool" where
  "is_dst target =
     (if target = ''*'' then True
      else case strip_prefix target ''autogroup:'' of
        Some rest \<Rightarrow> rest \<noteq> []
      | None \<Rightarrow> (case strip_prefix target ''group:'' of
        Some rest \<Rightarrow> rest \<noteq> []
      | None \<Rightarrow> (case strip_prefix target ''tag:'' of
        Some rest \<Rightarrow> rest \<noteq> []
      | None \<Rightarrow> (case split_once (CHR ''@'') target of
        Some (user, host) \<Rightarrow> user \<noteq> [] \<and> host \<noteq> []
      | None \<Rightarrow> (case split_ports target of
        Some (host, ports) \<Rightarrow>
          let host = strip_brackets host in
          (host = ''*'' \<or> is_ip_or_cidr host \<or> valid_host_ident host) \<and> valid_portlist ports
      | None \<Rightarrow>
          if starts_with target ''['' \<and> ends_with target '']''
          then is_ip_or_cidr (take (length target - 2) (drop 1 target))
          else is_ip_or_cidr target \<or> valid_host_ident target)))))"

section \<open>Unknown keys\<close>

definition POLICY_KEYS :: "string list" where
  "POLICY_KEYS = [''groups'', ''hosts'', ''acls'', ''grants'', ''tagOwners'', ''autoApprovers'', ''ssh'',
     ''nodeAttrs'', ''tests'', ''sshTests'']"
definition ACL_KEYS :: "string list" where "ACL_KEYS = [''action'', ''src'', ''dst'', ''proto'']"
definition GRANT_KEYS :: "string list" where "GRANT_KEYS = [''src'', ''dst'', ''ip'', ''app'']"
definition AUTO_APPROVERS_KEYS :: "string list" where "AUTO_APPROVERS_KEYS = [''routes'', ''exitNode'']"
definition SSH_KEYS :: "string list" where
  "SSH_KEYS = [''action'', ''src'', ''dst'', ''users'', ''checkPeriod'']"
definition NODE_ATTR_KEYS :: "string list" where "NODE_ATTR_KEYS = [''target'', ''attr'']"
definition TEST_KEYS :: "string list" where
  "TEST_KEYS = [''src'', ''user'', ''proto'', ''accept'', ''deny'', ''allow'']"
definition SSH_TEST_KEYS :: "string list" where "SSH_TEST_KEYS = [''action'', ''src'', ''dst'', ''users'']"

fun json_as_object :: "json \<Rightarrow> (string \<times> json) list option" where
  "json_as_object (JObject kvs) = Some kvs"
| "json_as_object _ = None"

fun json_as_array :: "json \<Rightarrow> json list option" where
  "json_as_array (JArray items) = Some items"
| "json_as_array _ = None"

definition check_keys :: "string \<Rightarrow> string list \<Rightarrow> (string \<times> json) list \<Rightarrow> string \<Rightarrow> check" where
  "check_keys source allowed obj what =
     check_all (\<lambda>key. ensure (key \<in> set allowed)
       (error_here source key (''unknown key `'' @ key @ ''` in '' @ what))) (map fst obj)"

definition as_object :: "string \<Rightarrow> json \<Rightarrow> string \<Rightarrow> (hujson_error, (string \<times> json) list) result" where
  "as_object source v what =
     (case json_as_object v of
        Some obj \<Rightarrow> Ok obj
      | None \<Rightarrow> Err (error_here source [] (what @ '' must be a JSON object'')))"

definition walk_array :: "string \<Rightarrow> json \<Rightarrow> string \<Rightarrow> (string \<Rightarrow> json \<Rightarrow> check) \<Rightarrow> check" where
  "walk_array source v what item =
     (case json_as_array v of
        None \<Rightarrow> Err (error_here source [] (what @ '' must be a JSON array''))
      | Some items \<Rightarrow> check_all (item source) items)"

definition walk_object :: "string list \<Rightarrow> string \<Rightarrow> string \<Rightarrow> json \<Rightarrow> check" where
  "walk_object keys what source v =
     bind_res (as_object source v what) (\<lambda>obj. check_keys source keys obj what)"

definition walk_acl :: "string \<Rightarrow> json \<Rightarrow> check" where
  "walk_acl = walk_object ACL_KEYS ''ACL rule''"
definition walk_grant :: "string \<Rightarrow> json \<Rightarrow> check" where
  "walk_grant = walk_object GRANT_KEYS ''grant''"
definition walk_auto_approvers :: "string \<Rightarrow> json \<Rightarrow> check" where
  "walk_auto_approvers = walk_object AUTO_APPROVERS_KEYS ''autoApprovers''"
definition walk_ssh :: "string \<Rightarrow> json \<Rightarrow> check" where
  "walk_ssh = walk_object SSH_KEYS ''SSH rule''"
definition walk_node_attr :: "string \<Rightarrow> json \<Rightarrow> check" where
  "walk_node_attr = walk_object NODE_ATTR_KEYS ''nodeAttrs grant''"
definition walk_test :: "string \<Rightarrow> json \<Rightarrow> check" where
  "walk_test = walk_object TEST_KEYS ''test''"
definition walk_ssh_test :: "string \<Rightarrow> json \<Rightarrow> check" where
  "walk_ssh_test = walk_object SSH_TEST_KEYS ''sshTest''"

definition walk_field :: "(string \<times> json) list \<Rightarrow> string \<Rightarrow> (json \<Rightarrow> check) \<Rightarrow> check" where
  "walk_field root key f = (case map_of root key of None \<Rightarrow> Ok () | Some v \<Rightarrow> f v)"

definition validate_unknown_keys :: "string \<Rightarrow> json \<Rightarrow> check" where
  "validate_unknown_keys source v =
     bind_res (case json_as_object v of
         Some root \<Rightarrow> Ok root
       | None \<Rightarrow> Err (error_at_line (locate_line source ''{'') ''policy must be a top-level JSON object''))
       (\<lambda>root.
         and_then (check_keys source POLICY_KEYS root ''policy'')
        (and_then (walk_field root ''acls'' (\<lambda>v. walk_array source v ''acls'' walk_acl))
        (and_then (walk_field root ''grants'' (\<lambda>v. walk_array source v ''grants'' walk_grant))
        (and_then (walk_field root ''autoApprovers'' (walk_auto_approvers source))
        (and_then (walk_field root ''ssh'' (\<lambda>v. walk_array source v ''ssh'' walk_ssh))
        (and_then (walk_field root ''nodeAttrs'' (\<lambda>v. walk_array source v ''nodeAttrs'' walk_node_attr))
        (and_then (walk_field root ''tests'' (\<lambda>v. walk_array source v ''tests'' walk_test))
                  (walk_field root ''sshTests'' (\<lambda>v. walk_array source v ''sshTests'' walk_ssh_test)))))))))"

section \<open>The policy\<close>

definition quoted :: "string \<Rightarrow> string" where
  "quoted s = ''`'' @ s @ ''`''"

definition check_targets :: "string \<Rightarrow> (string \<Rightarrow> bool) \<Rightarrow> string \<Rightarrow> string \<Rightarrow> string list \<Rightarrow> check" where
  "check_targets source ok before after targets =
     check_all (\<lambda>target. ensure (ok target)
       (error_here source target (before @ quoted target @ after))) targets"

definition validate_group :: "string \<Rightarrow> string \<times> string list \<Rightarrow> check" where
  "validate_group source = (\<lambda>(name, members).
     and_then (ensure (trim name \<noteq> []) (error_here source name ''group name must not be empty''))
       (check_targets source is_principal ''invalid member '' ('' in group '' @ quoted name) members))"

definition validate_host :: "string \<Rightarrow> string \<times> string \<Rightarrow> check" where
  "validate_host source = (\<lambda>(alias, val).
     and_then (ensure (trim alias \<noteq> []) (error_here source alias ''host alias must not be empty''))
       (ensure (is_ip_or_cidr val)
         (error_here source val
           (''host '' @ quoted alias @ '' maps to invalid target '' @ quoted val))))"

definition validate_acl :: "string \<Rightarrow> nat \<Rightarrow> acl \<Rightarrow> check" where
  "validate_acl source i rule =
     and_then (ensure (acl_action rule = ''accept'')
       (error_here source (acl_action rule)
         (''unsupported ACL action '' @ quoted (acl_action rule) @ '' (rule '' @ dec_str i @ '')'')))
    (and_then (ensure (acl_src rule \<noteq> [] \<and> acl_dst rule \<noteq> [])
       (error_here source [] (''ACL rule '' @ dec_str i @ '' must have at least one src and one dst'')))
    (and_then (check_targets source is_principal ''invalid ACL source target ''
       ('' (rule '' @ dec_str i @ '')'') (acl_src rule))
       (check_targets source is_dst ''invalid ACL destination target ''
       ('' (rule '' @ dec_str i @ '')'') (acl_dst rule))))"

definition validate_grant :: "string \<Rightarrow> nat \<Rightarrow> grant \<Rightarrow> check" where
  "validate_grant source i g =
     and_then (ensure (grant_src g \<noteq> [] \<and> grant_dst g \<noteq> [])
       (error_here source [] (''grant '' @ dec_str i @ '' must have at least one src and one dst'')))
    (and_then (check_targets source is_principal ''invalid grant source target ''
       ('' (grant '' @ dec_str i @ '')'') (grant_src g))
       (check_targets source is_dst ''invalid grant destination target ''
       ('' (grant '' @ dec_str i @ '')'') (grant_dst g)))"

definition validate_tag_owner :: "string \<Rightarrow> string \<times> string list \<Rightarrow> check" where
  "validate_tag_owner source = (\<lambda>(tag, owners).
     and_then (ensure (starts_with tag ''tag:'' \<and> length tag \<noteq> length ''tag:'')
       (error_here source tag
         (''tagOwner key '' @ quoted tag @ '' must start with `tag:` and be non-empty'')))
       (check_targets source is_principal ''invalid tag owner '' ('' for '' @ quoted tag) owners))"

definition validate_approvers :: "string \<Rightarrow> string \<Rightarrow> string \<times> string list \<Rightarrow> check" where
  "validate_approvers field source = (\<lambda>(route, approvers).
     and_then (ensure (is_ip_or_cidr route)
       (error_here source route
         (''autoApprovers '' @ field @ '' '' @ quoted route @ '' must be an IP or CIDR'')))
       (check_targets source is_principal (''invalid autoApprovers '' @ field @ '' approver '') [] approvers))"

definition validate_ssh_rule :: "string \<Rightarrow> nat \<Rightarrow> ssh_rule \<Rightarrow> check" where
  "validate_ssh_rule source i rule =
     and_then (ensure (sr_action rule = ''accept'' \<or> sr_action rule = ''check'')
       (error_here source (sr_action rule)
         (''unsupported SSH action '' @ quoted (sr_action rule) @ '' (rule '' @ dec_str i @ '')'')))
    (and_then (ensure (sr_src rule \<noteq> [] \<and> sr_dst rule \<noteq> [])
       (error_here source [] (''SSH rule '' @ dec_str i @ '' must have at least one src and one dst'')))
    (and_then (check_targets source is_principal ''invalid SSH source target ''
       ('' (rule '' @ dec_str i @ '')'') (sr_src rule))
    (and_then (check_targets source is_dst ''invalid SSH destination target ''
       ('' (rule '' @ dec_str i @ '')'') (sr_dst rule))
       (check_all (\<lambda>user. ensure (trim user \<noteq> [])
         (error_here source user (''SSH rule '' @ dec_str i @ '' has an empty user''))) (sr_users rule)))))"

definition validate_node_attr :: "string \<Rightarrow> nat \<Rightarrow> node_attr_grant \<Rightarrow> check" where
  "validate_node_attr source i g =
     and_then (ensure (na_target g \<noteq> [] \<and> na_attr g \<noteq> [])
       (error_here source []
         (''nodeAttrs grant '' @ dec_str i @ '' must have at least one target and one attr'')))
       (check_targets source is_principal ''invalid nodeAttrs target ''
         ('' (grant '' @ dec_str i @ '')'') (na_target g))"

definition validate_test :: "string \<Rightarrow> nat \<Rightarrow> policy_test \<Rightarrow> check" where
  "validate_test source i test =
     ensure (is_principal (pt_src test))
       (error_here source (pt_src test)
         (''invalid test source '' @ quoted (pt_src test) @ '' (test '' @ dec_str i @ '')''))"

definition validate_ssh_test :: "string \<Rightarrow> nat \<Rightarrow> ssh_test \<Rightarrow> check" where
  "validate_ssh_test source i test =
     and_then (ensure (st_action test = ''accept'' \<or> st_action test = ''check'')
       (error_here source (st_action test)
         (''unsupported SSH test action '' @ quoted (st_action test) @ '' (test '' @ dec_str i @ '')'')))
       (ensure (is_principal (st_src test) \<and> is_dst (st_dst test))
         (error_here source (st_src test)
           (''invalid SSH test target '' @ quoted (st_src test @ '' -> '' @ st_dst test)
              @ '' (test '' @ dec_str i @ '')'')))"

definition validate_policy :: "string \<Rightarrow> policy \<Rightarrow> check" where
  "validate_policy source p =
     and_then (check_all (validate_group source) (p_groups p))
    (and_then (check_all (validate_host source) (p_hosts p))
    (and_then (check_enum (validate_acl source) 0 (p_acls p))
    (and_then (check_enum (validate_grant source) 0 (p_grants p))
    (and_then (check_all (validate_tag_owner source) (p_tag_owners p))
    (and_then (check_all (validate_approvers ''route'' source) (aa_routes (p_auto_approvers p)))
    (and_then (check_all (validate_approvers ''exitNode'' source) (aa_exit_node (p_auto_approvers p)))
    (and_then (check_enum (validate_ssh_rule source) 0 (p_ssh p))
    (and_then (check_enum (validate_node_attr source) 0 (p_node_attrs p))
    (and_then (check_enum (validate_test source) 0 (p_tests p))
              (check_enum (validate_ssh_test source) 0 (p_ssh_tests p)))))))))))"

section \<open>What validation accepts\<close>

text \<open>The declarative reading of the module comment: it does not mention the policy text.\<close>

definition rule_targets_ok :: "string list \<Rightarrow> string list \<Rightarrow> bool" where
  "rule_targets_ok src dst \<longleftrightarrow>
     src \<noteq> [] \<and> dst \<noteq> [] \<and> (\<forall>t \<in> set src. is_principal t) \<and> (\<forall>t \<in> set dst. is_dst t)"

definition owned_by_principals :: "(string \<Rightarrow> bool) \<Rightarrow> (string \<times> string list) list \<Rightarrow> bool" where
  "owned_by_principals key_ok kvs \<longleftrightarrow>
     (\<forall>(k, ps) \<in> set kvs. key_ok k \<and> (\<forall>q \<in> set ps. is_principal q))"

definition well_formed_policy :: "policy \<Rightarrow> bool" where
  "well_formed_policy p \<longleftrightarrow>
     owned_by_principals (\<lambda>n. trim n \<noteq> []) (p_groups p) \<and>
     (\<forall>(a, v) \<in> set (p_hosts p). trim a \<noteq> [] \<and> is_ip_or_cidr v) \<and>
     (\<forall>r \<in> set (p_acls p). acl_action r = ''accept'' \<and> rule_targets_ok (acl_src r) (acl_dst r)) \<and>
     (\<forall>g \<in> set (p_grants p). rule_targets_ok (grant_src g) (grant_dst g)) \<and>
     owned_by_principals (\<lambda>t. \<exists>r. r \<noteq> [] \<and> t = ''tag:'' @ r) (p_tag_owners p) \<and>
     owned_by_principals is_ip_or_cidr (aa_routes (p_auto_approvers p)) \<and>
     owned_by_principals is_ip_or_cidr (aa_exit_node (p_auto_approvers p)) \<and>
     (\<forall>r \<in> set (p_ssh p). sr_action r \<in> {''accept'', ''check''} \<and> rule_targets_ok (sr_src r) (sr_dst r)
        \<and> (\<forall>u \<in> set (sr_users r). trim u \<noteq> [])) \<and>
     (\<forall>g \<in> set (p_node_attrs p). na_target g \<noteq> [] \<and> na_attr g \<noteq> [] \<and> (\<forall>t \<in> set (na_target g). is_principal t)) \<and>
     (\<forall>t \<in> set (p_tests p). is_principal (pt_src t)) \<and>
     (\<forall>t \<in> set (p_ssh_tests p). st_action t \<in> {''accept'', ''check''} \<and> is_principal (st_src t) \<and> is_dst (st_dst t))"

lemma and_then_Ok [simp]: "bind_res a (\<lambda>_. b) = Inr () \<longleftrightarrow> a = Inr () \<and> b = Inr ()"
  by (cases a) auto

lemma check_targets_Ok [simp]: "check_targets s ok b a ts = Inr () \<longleftrightarrow> (\<forall>t \<in> set ts. ok t)"
  by (simp add: check_targets_def)

lemma tag_key_iff:
  "starts_with t ''tag:'' \<and> length t \<noteq> length ''tag:'' \<longleftrightarrow> (\<exists>r. r \<noteq> [] \<and> t = ''tag:'' @ r)"
  by (auto simp: starts_with_def prefix_def)

lemma validate_group_Ok:
  "validate_group s (n, ms) = Inr () \<longleftrightarrow> trim n \<noteq> [] \<and> (\<forall>m \<in> set ms. is_principal m)"
  by (simp add: validate_group_def)

lemma validate_host_Ok:
  "validate_host s (a, v) = Inr () \<longleftrightarrow> trim a \<noteq> [] \<and> is_ip_or_cidr v"
  by (simp add: validate_host_def)

lemma validate_tag_owner_Ok:
  "validate_tag_owner s (t, os) = Inr () \<longleftrightarrow>
     (\<exists>r. r \<noteq> [] \<and> t = ''tag:'' @ r) \<and> (\<forall>m \<in> set os. is_principal m)"
  unfolding validate_tag_owner_def using tag_key_iff [of t] by (simp del: append_Cons append_Nil)

lemma validate_approvers_Ok:
  "validate_approvers f s (r, as) = Inr () \<longleftrightarrow> is_ip_or_cidr r \<and> (\<forall>m \<in> set as. is_principal m)"
  by (simp add: validate_approvers_def)

lemma validate_acl_Ok:
  "validate_acl s i r = Inr () \<longleftrightarrow> acl_action r = ''accept'' \<and> rule_targets_ok (acl_src r) (acl_dst r)"
  by (auto simp: validate_acl_def rule_targets_ok_def)

lemma validate_grant_Ok:
  "validate_grant s i g = Inr () \<longleftrightarrow> rule_targets_ok (grant_src g) (grant_dst g)"
  by (auto simp: validate_grant_def rule_targets_ok_def)

lemma validate_ssh_rule_Ok:
  "validate_ssh_rule s i r = Inr () \<longleftrightarrow>
     sr_action r \<in> {''accept'', ''check''} \<and> rule_targets_ok (sr_src r) (sr_dst r)
       \<and> (\<forall>u \<in> set (sr_users r). trim u \<noteq> [])"
  by (auto simp: validate_ssh_rule_def rule_targets_ok_def)

lemma validate_node_attr_Ok:
  "validate_node_attr s i g = Inr () \<longleftrightarrow>
     na_target g \<noteq> [] \<and> na_attr g \<noteq> [] \<and> (\<forall>t \<in> set (na_target g). is_principal t)"
  by (auto simp: validate_node_attr_def)

lemma validate_test_Ok: "validate_test s i t = Inr () \<longleftrightarrow> is_principal (pt_src t)"
  by (simp add: validate_test_def)

lemma validate_ssh_test_Ok:
  "validate_ssh_test s i t = Inr () \<longleftrightarrow>
     st_action t \<in> {''accept'', ''check''} \<and> is_principal (st_src t) \<and> is_dst (st_dst t)"
  by (auto simp: validate_ssh_test_def)

lemmas check_enum_Oks =
  check_enum_Ok [OF validate_acl_Ok] check_enum_Ok [OF validate_grant_Ok]
  check_enum_Ok [OF validate_ssh_rule_Ok] check_enum_Ok [OF validate_node_attr_Ok]
  check_enum_Ok [OF validate_test_Ok] check_enum_Ok [OF validate_ssh_test_Ok]

lemma check_all_pairs:
  assumes "\<And>k v. f (k, v) = Inr () \<longleftrightarrow> P k v"
  shows "check_all f kvs = Inr () \<longleftrightarrow> (\<forall>(k, v) \<in> set kvs. P k v)"
  using assms by auto

lemmas check_all_Oks =
  check_all_pairs [where f = "validate_group s" for s, OF validate_group_Ok]
  check_all_pairs [where f = "validate_host s" for s, OF validate_host_Ok]
  check_all_pairs [where f = "validate_tag_owner s" for s, OF validate_tag_owner_Ok]
  check_all_pairs [where f = "validate_approvers f s" for f s, OF validate_approvers_Ok]

lemma validate_policy_Ok_iff: "validate_policy source p = Inr () \<longleftrightarrow> well_formed_policy p"
  unfolding validate_policy_def well_formed_policy_def owned_by_principals_def
  by (simp only: and_then_Ok check_all_Oks check_enum_Oks)

section \<open>Every error is on a line of the file\<close>

definition on_a_line :: "string \<Rightarrow> hujson_error \<Rightarrow> bool" where
  "on_a_line source e \<longleftrightarrow> he_column e = 1 \<and> 1 \<le> he_line e \<and> he_line e \<le> max 1 (length (str_lines source))"

lemma locate_from_bounds:
  "1 \<le> locate_from i needle ls \<and> locate_from i needle ls \<le> max 1 (i + length ls)"
  by (induction i needle ls rule: locate_from.induct) auto

lemma error_here_on_a_line [simp]: "on_a_line source (error_here source needle message)"
  using locate_from_bounds [of 0 needle "str_lines source"]
  by (simp add: on_a_line_def error_here_def error_at_line_def error_at_def locate_line_def)

definition errs_on_lines :: "string \<Rightarrow> check \<Rightarrow> bool" where
  "errs_on_lines source r \<longleftrightarrow> (case r of Inl e \<Rightarrow> on_a_line source e | Inr _ \<Rightarrow> True)"

lemma errs_Ok [simp]: "errs_on_lines s (Inr u)"
  by (simp add: errs_on_lines_def)

lemma errs_ensure [simp, intro]: "errs_on_lines s (ensure b (error_here s n m))"
  by (simp add: errs_on_lines_def ensure_def)

lemma errs_and_then [simp, intro]:
  "errs_on_lines s a \<Longrightarrow> errs_on_lines s b \<Longrightarrow> errs_on_lines s (bind_res a (\<lambda>_. b))"
  by (cases a) (auto simp: errs_on_lines_def)

lemma errs_check_all [simp, intro]: "(\<And>x. errs_on_lines s (f x)) \<Longrightarrow> errs_on_lines s (check_all f xs)"
  by (induction xs) simp_all

lemma errs_check_enum [simp, intro]:
  "(\<And>i x. errs_on_lines s (f i x)) \<Longrightarrow> errs_on_lines s (check_enum f i xs)"
  by (induction xs arbitrary: i) simp_all

lemma errs_check_targets [simp, intro]: "errs_on_lines s (check_targets s ok b a ts)"
  by (simp add: check_targets_def)

lemma validators_on_lines:
  "errs_on_lines s (validate_group s g)" "errs_on_lines s (validate_host s h)"
  "errs_on_lines s (validate_acl s i a)" "errs_on_lines s (validate_grant s i gr)"
  "errs_on_lines s (validate_tag_owner s t)" "errs_on_lines s (validate_approvers f s ap)"
  "errs_on_lines s (validate_ssh_rule s i r)" "errs_on_lines s (validate_node_attr s i na)"
  "errs_on_lines s (validate_test s i pt)" "errs_on_lines s (validate_ssh_test s i st)"
  by (simp_all add: validate_group_def validate_host_def validate_acl_def validate_grant_def
      validate_tag_owner_def validate_approvers_def validate_ssh_rule_def validate_node_attr_def
      validate_test_def validate_ssh_test_def split: prod.split)

lemma validate_policy_on_lines: "errs_on_lines s (validate_policy s p)"
  unfolding validate_policy_def by (intro errs_and_then errs_check_all errs_check_enum validators_on_lines)

text \<open>
  C18. Semantic validation decides the declarative well-formedness of a policy: it succeeds on exactly
  the well-formed policies, whatever the text they came from, and every error it returns is located on
  a line of that text (or on line 1 of an empty one).
\<close>

theorem validate_policy_decides:
  "(validate_policy source p = Ok () \<longleftrightarrow> well_formed_policy p) \<and>
   (case validate_policy source p of Inl e \<Rightarrow> on_a_line source e | Inr _ \<Rightarrow> well_formed_policy p)"
proof -
  have "case validate_policy source p of Inl e \<Rightarrow> on_a_line source e | Inr _ \<Rightarrow> True"
    using validate_policy_on_lines [of source p] by (simp add: errs_on_lines_def)
  with validate_policy_Ok_iff [of source p] show ?thesis by (auto split: sum.splits)
qed

section \<open>Validated text is text the compiler reads\<close>

lemma parse_unsigned_Nil [simp]: "parse_unsigned m [] = None"
  by (simp add: parse_unsigned_def parse_digits_def)

lemma is_ip_or_cidr_iff_parse: "is_ip_or_cidr s \<longleftrightarrow> parse_cidr s \<noteq> None"
proof (cases "parse_ip s")
  case None
  then show ?thesis
    by (auto simp: is_ip_or_cidr_def parse_cidr_def split: option.split prod.split ip_addr.split)
qed (simp add: is_ip_or_cidr_def parse_cidr_def)

lemma is_ip_or_cidr_compile: "is_ip_or_cidr s = is_ip_or_cidr_str s"
  by (auto simp: is_ip_or_cidr_def is_ip_or_cidr_str_def split: option.splits prod.splits)

lemma parse_unsigned_le: "parse_unsigned m s = Some n \<Longrightarrow> n \<le> m"
  by (auto simp: parse_unsigned_def Let_def split: option.splits if_splits list.splits)

definition range_ok :: "net_port_range \<Rightarrow> bool" where
  "range_ok r \<longleftrightarrow> 1 \<le> pr_first r \<and> pr_first r \<le> pr_last r \<and> pr_last r \<le> 65535"

lemma valid_port_item_parses:
  assumes "valid_port_item raw"
  shows "\<exists>r. parse_port_item raw = [r] \<and> range_ok r"
  using assms
  by (auto simp: valid_port_item_def parse_port_item_def Let_def range_ok_def
      split: if_splits option.splits prod.splits dest: parse_unsigned_le)

lemma valid_items_parse:
  "list_all valid_port_item items \<Longrightarrow>
     length (concat (map parse_port_item items)) = length items \<and>
     list_all range_ok (concat (map parse_port_item items))"
  by (induction items) (auto dest!: valid_port_item_parses)

lemma valid_portlist_parses:
  assumes "valid_portlist ports" "ports \<noteq> ''*''"
  shows "length (parse_ports ports) = length (split_char (CHR '','') ports) \<and>
         list_all range_ok (parse_ports ports)"
  using assms valid_items_parse [of "split_char (CHR '','') ports"]
  by (auto simp: valid_portlist_def parse_ports_def split: if_splits)

text \<open>
  C34. What validation lets through, the compiler reads: in a validated policy every key of
  \<^verbatim>\<open>autoApprovers\<close> has a canonical route and every host alias maps to an address or network, and a
  port list that validation accepts compiles to one non-empty range within 1..65535 per item, none
  dropped (\<^verbatim>\<open>*\<close> compiles to all ports).
\<close>

theorem validated_policy_is_read:
  assumes "validate_policy source p = Ok ()"
  shows "(\<forall>entry \<in> set (aa_routes (p_auto_approvers p) @ aa_exit_node (p_auto_approvers p)).
            canonical_route (fst entry) \<noteq> None)
    \<and> (\<forall>host_alias val. map_of (p_hosts p) host_alias = Some val \<longrightarrow> is_ip_or_cidr_str val)
    \<and> (\<forall>ports. valid_portlist ports \<longrightarrow>
         (if ports = ''*'' then parse_ports ports = all_ports
          else length (parse_ports ports) = length (split_char (CHR '','') ports)
             \<and> list_all range_ok (parse_ports ports)))"
proof -
  have wf: "well_formed_policy p" using assms by (simp add: validate_policy_Ok_iff)
  have "canonical_route (fst entry) \<noteq> None"
    if "entry \<in> set (aa_routes (p_auto_approvers p) @ aa_exit_node (p_auto_approvers p))" for entry
    using wf that
    by (cases entry) (auto simp: well_formed_policy_def owned_by_principals_def
        is_ip_or_cidr_iff_parse canonical_route_def)
  moreover have "is_ip_or_cidr_str val" if "map_of (p_hosts p) host_alias = Some val" for host_alias val
    using wf map_of_SomeD [OF that] by (auto simp: well_formed_policy_def is_ip_or_cidr_compile)
  moreover have "if ports = ''*'' then parse_ports ports = all_ports
     else length (parse_ports ports) = length (split_char (CHR '','') ports)
        \<and> list_all range_ok (parse_ports ports)" if "valid_portlist ports" for ports
    using valid_portlist_parses [OF that] by (simp add: parse_ports_def)
  ultimately show ?thesis by blast
qed

definition office_policy :: policy where
  "office_policy = empty_policy
     \<lparr>p_groups := [(''ops'', [''ann@corp''])],
      p_hosts := [(''db'', ''10.0.0.5'')],
      p_acls := [\<lparr>acl_action = ''accept'', acl_src = [''group:ops''], acl_dst = [''db:22,80-90''], acl_proto = None\<rparr>],
      p_auto_approvers := \<lparr>aa_routes = [(''10.1.2.3/16'', [''tag:router''])], aa_exit_node = []\<rparr>\<rparr>"

theorem validated_policy_is_read_witness:
  "canonical_route ''10.1.2.3/16'' \<noteq> None \<and> is_ip_or_cidr_str ''10.0.0.5''
   \<and> length (parse_ports ''22,80-90'') = 2"
proof -
  have ok: "validate_policy [] office_policy = Ok ()" by code_simp
  have "valid_portlist ''22,80-90''" "''22,80-90'' \<noteq> ''*''"
    "length (split_char (CHR '','') ''22,80-90'') = 2" by code_simp+
  with validated_policy_is_read [OF ok] have "length (parse_ports ''22,80-90'') = 2" by metis
  with validated_policy_is_read [OF ok] show ?thesis by (auto simp: office_policy_def empty_policy_def)
qed


end
