(* ===== verification/Policy_Hujson.thy ===== *)
theory Policy_Hujson
  imports Policy_Validate
begin

text \<open>
  The HUJSON parser, \<^verbatim>\<open>crabscale-policy/src/hujson.rs\<close>, and \<^verbatim>\<open>parse_policy\<close> of
  \<^verbatim>\<open>crabscale-policy/src/lib.rs\<close>. A \<^verbatim>\<open>char\<close> is its Unicode scalar value, a natural number; the
  parser state keeps the characters still to be read instead of the whole vector and an index.
  The mutually recursive part takes fuel, \<^const>\<open>None\<close> meaning that it ran out; that the fuel given by
  \<^verbatim>\<open>parse\<close> is always enough is proved below. A float keeps its token; whether the token fits a finite
  \<^verbatim>\<open>f64\<close> is computed exactly.
\<close>

section \<open>Characters\<close>

definition utf8_encode :: "nat \<Rightarrow> string" where
  "utf8_encode c =
     map char_of (if c < 0x80 then [c]
       else if c < 0x800 then [0xC0 + c div 64, 0x80 + c mod 64]
       else if c < 0x10000 then [0xE0 + c div 4096, 0x80 + c div 64 mod 64, 0x80 + c mod 64]
       else [0xF0 + c div 262144, 0x80 + c div 4096 mod 64, 0x80 + c div 64 mod 64, 0x80 + c mod 64])"

fun str_chars :: "string \<Rightarrow> nat list" where
  "str_chars [] = []"
| "str_chars (b # bs) =
     (let n = of_char b :: nat; cont = (\<lambda>i. of_char (bs ! i) mod 64 :: nat) in
      if n < 0x80 then n # str_chars bs
      else if n < 0xE0 then (n mod 32 * 64 + cont 0) # str_chars (drop 1 bs)
      else if n < 0xF0 then (n mod 16 * 4096 + cont 0 * 64 + cont 1) # str_chars (drop 2 bs)
      else (n mod 8 * 262144 + cont 0 * 4096 + cont 1 * 64 + cont 2) # str_chars (drop 3 bs))"

definition of_chars :: "nat list \<Rightarrow> string" where
  "of_chars cs = concat (map utf8_encode cs)"

abbreviation cp :: "char \<Rightarrow> nat" where "cp c \<equiv> of_char c"

definition digit_cp :: "nat \<Rightarrow> bool" where "digit_cp c \<longleftrightarrow> 48 \<le> c \<and> c \<le> 57"

definition alnum_cp :: "nat \<Rightarrow> bool" where
  "alnum_cp c \<longleftrightarrow> digit_cp c \<or> 65 \<le> c \<and> c \<le> 90 \<or> 97 \<le> c \<and> c \<le> 122"

definition is_control :: "nat \<Rightarrow> bool" where
  "is_control c \<longleftrightarrow> c < 32 \<or> 127 \<le> c \<and> c < 160"

definition hex_digit :: "nat \<Rightarrow> nat option" where
  "hex_digit c = (if digit_cp c then Some (c - 48)
     else if 97 \<le> c \<and> c \<le> 102 then Some (c - 87)
     else if 65 \<le> c \<and> c \<le> 70 then Some (c - 55) else None)"

section \<open>The parser\<close>

definition MAX_DEPTH :: nat where "MAX_DEPTH = 128"

datatype parser = Parser (chars: "nat list") (line: nat) (col: nat) (depth: nat)

type_synonym 'a parsed = "(hujson_error, 'a \<times> parser) result"

definition parser_new :: "string \<Rightarrow> parser" where
  "parser_new txt = Parser (str_chars txt) 1 1 0"

definition peek :: "parser \<Rightarrow> nat option" where
  "peek s = (case chars s of [] \<Rightarrow> None | c # _ \<Rightarrow> Some c)"

definition peek_next :: "parser \<Rightarrow> nat option" where
  "peek_next s = (case chars s of _ # c # _ \<Rightarrow> Some c | _ \<Rightarrow> None)"

fun bump :: "parser \<Rightarrow> nat option \<times> parser" where
  "bump (Parser [] l k d) = (None, Parser [] l k d)"
| "bump (Parser (c # cs) l k d) =
     (Some c, if c = cp CHR 0x0A then Parser cs (l + 1) 1 d else Parser cs l (k + 1) d)"

abbreviation skip :: "parser \<Rightarrow> parser" where "skip s \<equiv> snd (bump s)"

definition err_here :: "parser \<Rightarrow> string \<Rightarrow> hujson_error" where
  "err_here s message = error_at (line s) (col s) message"

definition enter_nested :: "parser \<Rightarrow> (hujson_error, parser) result" where
  "enter_nested s =
     (let s = Parser (chars s) (line s) (col s) (depth s + 1) in
      if depth s > MAX_DEPTH
      then Err (err_here s (''maximum nesting depth of '' @ dec_str MAX_DEPTH @ '' exceeded''))
      else Ok s)"

definition leave_nested :: "parser \<Rightarrow> parser" where
  "leave_nested s = Parser (chars s) (line s) (col s) (depth s - 1)"

definition tick :: "nat \<Rightarrow> string" where
  "tick c = quoted (utf8_encode c)"

definition expect :: "nat \<Rightarrow> string \<Rightarrow> parser \<Rightarrow> (hujson_error, parser) result" where
  "expect expected context s =
     (case bump s of
        (None, s) \<Rightarrow> Err (err_here s (''unexpected end of input '' @ context))
      | (Some c, s) \<Rightarrow>
          if c \<noteq> expected
          then Err (err_here s (''expected '' @ tick expected @ '' '' @ context @ '', found '' @ tick c))
          else Ok s)"

lemma length_bump: "peek s = Some c \<Longrightarrow> length (chars (skip s)) < length (chars s)"
  by (cases s rule: bump.cases) (auto simp: peek_def)

lemma length_bump_le: "length (chars (skip s)) \<le> length (chars s)"
  by (cases s rule: bump.cases) auto

function skip_line :: "parser \<Rightarrow> parser" where
  "skip_line s =
     (case peek s of
        None \<Rightarrow> s
      | Some c \<Rightarrow> if c = cp CHR 0x0A then s else skip_line (skip s))"
  by pat_completeness auto
termination
  by (relation "measure (length \<circ> chars)") (auto intro: length_bump)

function skip_block :: "nat \<Rightarrow> nat \<Rightarrow> parser \<Rightarrow> (hujson_error, parser) result" where
  "skip_block start_line start_col s =
     (case peek s of
        None \<Rightarrow> Err (error_at start_line start_col ''unterminated block comment'')
      | Some c \<Rightarrow>
          if c = cp CHR ''*'' \<and> peek_next s = Some (cp CHR ''/'') then Ok (skip (skip s))
          else skip_block start_line start_col (skip s))"
  by pat_completeness auto
termination
  by (relation "measure (\<lambda>(_, _, s). length (chars s))")
    (auto intro: length_bump)

declare skip_line.simps [simp del] skip_block.simps [simp del]

lemma skip_line_le: "length (chars (skip_line s)) \<le> length (chars s)"
proof (induction s rule: skip_line.induct)
  case (1 s)
  then show ?case
    by (subst skip_line.simps) (auto split: option.split intro: order_trans [OF _ length_bump_le])
qed

lemma skip_block_le: "skip_block l k s = Inr t \<Longrightarrow> length (chars t) \<le> length (chars s)"
proof (induction l k s rule: skip_block.induct)
  case (1 l k s)
  show ?case
  proof (cases "peek s = Some (cp CHR ''*'') \<and> peek_next s = Some (cp CHR ''/'')")
    case True
    with "1.prems" show ?thesis
      by (subst (asm) skip_block.simps) (auto intro: order_trans [OF length_bump_le length_bump_le])
  next
    case False
    with "1.prems" obtain c where "peek s = Some c" "skip_block l k (skip s) = Inr t"
      by (subst (asm) skip_block.simps) (auto split: option.splits if_splits)
    with False "1.IH" [of c] show ?thesis by (auto intro: order_trans [OF _ length_bump_le])
  qed
qed

definition blank :: "nat \<Rightarrow> bool" where
  "blank c \<longleftrightarrow> c = cp CHR '' '' \<or> c = cp CHR 0x09 \<or> c = cp CHR 0x0A \<or> c = cp CHR 0x0D"

function skip_ws :: "parser \<Rightarrow> (hujson_error, parser) result" where
  "skip_ws s =
     (case peek s of
        None \<Rightarrow> Ok s
      | Some c \<Rightarrow>
          if blank c then skip_ws (skip s)
          else if c = cp CHR ''/'' \<and> peek_next s = Some (cp CHR ''/'') then
            skip_ws (skip_line (skip (skip s)))
          else if c = cp CHR ''/'' \<and> peek_next s = Some (cp CHR ''*'') then
            bind_res (skip_block (line s) (col s) (skip (skip s))) skip_ws
          else Ok s)"
  by pat_completeness auto
termination
proof (relation "measure (length \<circ> chars)", goal_cases)
  case (2 s c)
  then show ?case by (auto intro: length_bump)
next
  case (3 s c)
  then have "length (chars (skip_line (skip (skip s)))) < length (chars s)"
    using skip_line_le [of "skip (skip s)"] length_bump_le [of "skip s"] length_bump [of s c]
    by simp
  then show ?case by simp
next
  case (4 s c x)
  then have "length (chars x) < length (chars s)"
    using skip_block_le [of "line s" "col s" "skip (skip s)" x] length_bump_le [of "skip s"] length_bump [of s c]
    by simp
  then show ?case by simp
qed simp

declare skip_ws.simps [simp del]

section \<open>Strings\<close>

definition from_u32 :: "nat \<Rightarrow> nat option" where
  "from_u32 n = (if n < 0x110000 \<and> \<not> (0xD800 \<le> n \<and> n \<le> 0xDFFF) then Some n else None)"

definition ok_or :: "'a option \<Rightarrow> 'e \<Rightarrow> ('e, 'a) result" where
  "ok_or v e = (case v of None \<Rightarrow> Err e | Some x \<Rightarrow> Ok x)"

fun hex_digits :: "nat \<Rightarrow> nat \<Rightarrow> parser \<Rightarrow> nat parsed" where
  "hex_digits 0 val s = Ok (val mod 0x10000, s)"
| "hex_digits (Suc n) val s =
     (case bump s of
        (None, s) \<Rightarrow> Err (err_here s (''truncated `'' @ [CHR 0x5C] @ ''uXXXX` escape''))
      | (Some c, s) \<Rightarrow>
          (case hex_digit c of
             None \<Rightarrow> Err (err_here s (''invalid hex digit '' @ tick c @ '' in `'' @ [CHR 0x5C] @ ''uXXXX`''))
           | Some digit \<Rightarrow> hex_digits n (val * 16 + digit) s))"

definition parse_hex_quad :: "parser \<Rightarrow> nat parsed" where
  "parse_hex_quad s = hex_digits 4 0 s"

definition parse_unicode_escape :: "string \<Rightarrow> parser \<Rightarrow> string parsed" where
  "parse_unicode_escape out s =
     bind_res (parse_hex_quad s) (\<lambda>(first, s).
       if 0xD800 \<le> first \<and> first \<le> 0xDBFF then
         (if peek s = Some (cp CHR 0x5C) \<and> peek_next s = Some (cp CHR ''u'') then
            bind_res (parse_hex_quad (skip (skip s))) (\<lambda>(second, s).
              if 0xDC00 \<le> second \<and> second \<le> 0xDFFF then
                bind_res (ok_or (from_u32 (0x10000 + (first - 0xD800) * 1024 + (second - 0xDC00)))
                    (err_here s ''invalid unicode surrogate pair''))
                  (\<lambda>ch. Ok (out @ utf8_encode ch, s))
              else Ok (out @ utf8_encode 0xFFFD
                     @ (case from_u32 second of Some ch \<Rightarrow> utf8_encode ch | None \<Rightarrow> []), s))
          else Ok (out @ utf8_encode 0xFFFD, s))
       else if 0xDC00 \<le> first \<and> first \<le> 0xDFFF then Ok (out @ utf8_encode 0xFFFD, s)
       else bind_res (ok_or (from_u32 first) (err_here s ''invalid unicode escape''))
              (\<lambda>ch. Ok (out @ utf8_encode ch, s)))"

definition simple_escape :: "nat \<Rightarrow> nat option" where
  "simple_escape c = map_of
     [(cp CHR 0x22, cp CHR 0x22), (cp CHR 0x5C, cp CHR 0x5C), (cp CHR ''/'', cp CHR ''/''),
      (cp CHR ''b'', 0x08), (cp CHR ''f'', 0x0C), (cp CHR ''n'', 0x0A), (cp CHR ''r'', 0x0D), (cp CHR ''t'', 0x09)] c"

definition parse_escape :: "string \<Rightarrow> parser \<Rightarrow> string parsed" where
  "parse_escape out s =
     (case bump s of
        (None, s) \<Rightarrow> Err (err_here s ''unterminated string after escape'')
      | (Some c, s) \<Rightarrow>
          (case simple_escape c of
             Some r \<Rightarrow> Ok (out @ utf8_encode r, s)
           | None \<Rightarrow>
               if c = cp CHR ''u'' then parse_unicode_escape out s
               else Err (err_here s (''invalid escape sequence `'' @ [CHR 0x5C] @ utf8_encode c @ ''`''))))"

lemma hex_digits_le: "hex_digits n v s = Inr (w, t) \<Longrightarrow> length (chars t) \<le> length (chars s)"
proof (induction n v s rule: hex_digits.induct)
  case (2 n v s)
  obtain c s' where b: "bump s = (Some c, s')" and "\<exists>g. hex_digit c = Some g"
    using "2.prems" by (auto split: prod.splits option.splits)
  with "2.prems" "2.IH" [OF b [symmetric]] have "length (chars t) \<le> length (chars s')" by auto
  then show ?case using length_bump_le [of s] b by simp
qed simp

lemma parse_hex_quad_le: "parse_hex_quad s = Inr (w, t) \<Longrightarrow> length (chars t) \<le> length (chars s)"
  by (simp add: parse_hex_quad_def hex_digits_le)

lemma parse_unicode_escape_le:
  assumes "parse_unicode_escape out s = Inr (w, t)"
  shows "length (chars t) \<le> length (chars s)"
proof -
  obtain x u where x: "parse_hex_quad s = Inr (x, u)"
    using assms by (auto simp: parse_unicode_escape_def bind_res_Ok_iff)
  note l = parse_hex_quad_le [OF x] length_bump_le [of u] length_bump_le [of "skip u"]
  from assms x have "u = t \<or> (\<exists>y. parse_hex_quad (skip (skip u)) = Inr (y, t))"
    by (auto simp: parse_unicode_escape_def bind_res_Ok_iff split: if_splits)
  then show ?thesis using l by (auto dest!: parse_hex_quad_le)
qed

lemma parse_escape_le:
  assumes "parse_escape out s = Inr (w, t)"
  shows "length (chars t) \<le> length (chars s)"
  using assms length_bump_le [of s]
  by (auto simp: parse_escape_def split: prod.splits option.splits if_splits dest: parse_unicode_escape_le)

function string_loop :: "string \<Rightarrow> parser \<Rightarrow> string parsed" where
  "string_loop out s =
     (case peek s of
        None \<Rightarrow> Err (err_here s ''unterminated string'')
      | Some c \<Rightarrow>
          if c = cp CHR 0x22 then Ok (out, skip s)
          else if c = cp CHR 0x5C then bind_res (parse_escape out (skip s)) (\<lambda>(out, s). string_loop out s)
          else if is_control c then Err (err_here s ''unescaped control character in string'')
          else string_loop (out @ utf8_encode c) (skip s))"
  by pat_completeness auto
termination
proof (relation "measure (length \<circ> chars \<circ> snd)", goal_cases)
  case (2 out s c x xa y)
  then show ?case using parse_escape_le [of out "skip s" xa y] length_bump [of s c] by auto
next
  case (3 out s c)
  then show ?case by (simp add: length_bump)
qed simp

declare string_loop.simps [simp del]

definition parse_string :: "parser \<Rightarrow> string parsed" where
  "parse_string s = bind_res (expect (cp CHR 0x22) ''when starting a string'' s) (string_loop [])"

section \<open>Literals and numbers\<close>

fun match_chars :: "nat list \<Rightarrow> parser \<Rightarrow> parser option" where
  "match_chars [] s = Some s"
| "match_chars (e # es) s =
     (case bump s of (c, s) \<Rightarrow> if c = Some e then match_chars es s else None)"

definition parse_literal :: "string \<Rightarrow> json \<Rightarrow> parser \<Rightarrow> json parsed" where
  "parse_literal lit val s =
     (let e = error_at (line s) (col s) (''invalid literal '' @ quoted lit) in
      case match_chars (str_chars lit) s of
        None \<Rightarrow> Err e
      | Some s \<Rightarrow>
          (case peek s of
             Some c \<Rightarrow> if alnum_cp c \<or> c = cp CHR ''_'' then Err e else Ok (val, s)
           | None \<Rightarrow> Ok (val, s)))"

function skip_digits :: "parser \<Rightarrow> parser" where
  "skip_digits s =
     (case peek s of
        Some c \<Rightarrow> if digit_cp c then skip_digits (skip s) else s
      | None \<Rightarrow> s)"
  by pat_completeness auto
termination
  by (relation "measure (length \<circ> chars)") (auto intro: length_bump)

declare skip_digits.simps [simp del]

definition peek_digit :: "parser \<Rightarrow> bool" where
  "peek_digit s = (case peek s of Some c \<Rightarrow> digit_cp c | None \<Rightarrow> False)"

definition skip_minus :: "parser \<Rightarrow> parser" where
  "skip_minus s = (if peek s = Some (cp CHR ''-'') then skip s else s)"

definition integer_part :: "parser \<Rightarrow> (hujson_error, parser) result" where
  "integer_part s =
     (if peek s = Some (cp CHR ''0'') then Ok (skip s)
      else if peek_digit s then Ok (skip_digits (skip s))
      else Err (err_here s ''invalid number: expected a digit''))"

definition fraction_part :: "parser \<Rightarrow> (hujson_error, parser) result" where
  "fraction_part s =
     (if peek s = Some (cp CHR ''.'') then
        (if peek_digit (skip s) then Ok (skip_digits (skip s))
         else Err (err_here (skip s) ''invalid number: expected a digit after `.`''))
      else Ok s)"

definition exponent_part :: "parser \<Rightarrow> (hujson_error, parser) result" where
  "exponent_part s =
     (if peek s = Some (cp CHR ''e'') \<or> peek s = Some (cp CHR ''E'') then
        (let s = skip s;
             s = (if peek s = Some (cp CHR ''+'') \<or> peek s = Some (cp CHR ''-'') then skip s else s) in
         if peek_digit s then Ok (skip_digits s)
         else Err (err_here s ''invalid number: expected a digit in exponent''))
      else Ok s)"

text \<open>
  \<^verbatim>\<open>f64::from_str\<close> rounds to nearest: a decimal becomes infinite exactly from the midpoint between the
  largest finite value and \<^term>\<open>2 ^ 1024 :: nat\<close> on. The token has been scanned, so its parts are digits.
\<close>

definition f64_overflow :: nat where "f64_overflow = 2 ^ 1024 - 2 ^ 970"

definition is_exp_char :: "char \<Rightarrow> bool" where
  "is_exp_char c \<longleftrightarrow> c = CHR ''e'' \<or> c = CHR ''E''"

definition f64_finite :: "string \<Rightarrow> bool" where
  "f64_finite token =
     (let body = (case strip_prefix token ''-'' of Some r \<Rightarrow> r | None \<Rightarrow> token);
          mant = takeWhile (\<lambda>c. \<not> is_exp_char c) body;
          expo = (case drop 1 (dropWhile (\<lambda>c. \<not> is_exp_char c) body) of
                    [] \<Rightarrow> 0
                  | c # r \<Rightarrow> if c = CHR ''-'' then - int (digits_value 10 r)
                             else if c = CHR ''+'' then int (digits_value 10 r)
                             else int (digits_value 10 (c # r)));
          frac = drop 1 (dropWhile (\<lambda>c. c \<noteq> CHR ''.'') mant);
          n = digits_value 10 (filter (\<lambda>c. c \<noteq> CHR ''.'') mant);
          scale = expo - int (length frac) in
      if scale \<ge> 0 then n * 10 ^ nat scale < f64_overflow
      else n < f64_overflow * 10 ^ nat (- scale))"

abbreviation parse_i64 :: "string \<Rightarrow> int option" where "parse_i64 \<equiv> parse_signed (2 ^ 63 - 1)"

text \<open>The other error of the float branch, a token \<^verbatim>\<open>f64\<close> cannot parse, does not arise for scanned tokens.\<close>

definition parse_json_number :: "string \<Rightarrow> (string, json_number) result" where
  "parse_json_number token =
     (if CHR ''.'' \<in> set token \<or> list_ex is_exp_char token then
        (if f64_finite token then Ok (JFloat token)
         else Err (quoted token @ '' is not a valid number''))
      else case parse_i64 token of
        Some v \<Rightarrow> Ok (JInt v)
      | None \<Rightarrow>
          (case parse_u64 token of
             Some v \<Rightarrow> Ok (JInt (int v))
           | None \<Rightarrow> Err (quoted token @ '' is not a valid integer'')))"

definition token_between :: "parser \<Rightarrow> parser \<Rightarrow> string" where
  "token_between s t = of_chars (take (length (chars s) - length (chars t)) (chars s))"

definition scan_number :: "parser \<Rightarrow> (hujson_error, parser) result" where
  "scan_number s =
     bind_res (integer_part (skip_minus s)) (\<lambda>s. bind_res (fraction_part s) exponent_part)"

definition finish_number :: "parser \<Rightarrow> parser \<Rightarrow> json parsed" where
  "finish_number start s =
     bind_res (map_err (\<lambda>msg. error_at (line start) (col start) (''invalid number: '' @ msg))
         (parse_json_number (token_between start s)))
       (\<lambda>n. Ok (JNumber n, s))"

definition parse_number :: "parser \<Rightarrow> json parsed" where
  "parse_number start =
     bind_res (scan_number start) (\<lambda>s.
       case peek s of
         Some c \<Rightarrow>
           if alnum_cp c \<or> c = cp CHR ''.''
           then Err (error_at (line start) (col start)
                  (''invalid number '' @ quoted (token_between start (skip s))))
           else finish_number start s
       | None \<Rightarrow> finish_number start s)"

section \<open>Values\<close>

text \<open>
  What follows a member of a container: the loop ends at the closing character, which a trailing comma
  may precede, or goes on after a comma.
\<close>

definition after_member :: "nat \<Rightarrow> string \<Rightarrow> parser \<Rightarrow> bool parsed" where
  "after_member close kind s =
     bind_res (skip_ws s) (\<lambda>s.
       case peek s of
         None \<Rightarrow> Err (err_here s (''unexpected end of input in '' @ kind))
       | Some c \<Rightarrow>
           if c = cp CHR '','' then
             bind_res (skip_ws (skip s)) (\<lambda>s.
               if peek s = Some close then Ok (True, skip s) else Ok (False, s))
           else if c = close then Ok (True, skip s)
           else Err (err_here s (''expected `,` or '' @ tick close @ '' in '' @ kind @ '', found '' @ tick c)))"

definition object_key :: "(string, json) btree \<Rightarrow> parser \<Rightarrow> string parsed" where
  "object_key m s =
     (let key_line = line s; key_col = col s in
      bind_res (skip_ws s) (\<lambda>s.
      bind_res (case peek s of
          None \<Rightarrow> Err (err_here s ''unexpected end of input in object'')
        | Some c \<Rightarrow>
            if c = cp CHR 0x22 then parse_string s
            else Err (err_here s (''expected a quoted object key, found '' @ tick c))) (\<lambda>(key, s).
      if bt_get m key \<noteq> None
      then Err (error_at key_line key_col (''duplicate object key '' @ quoted key))
      else
        bind_res (skip_ws s) (\<lambda>s.
        bind_res (expect (cp CHR '':'') ''after an object key'' s) (\<lambda>s.
        bind_res (skip_ws s) (\<lambda>s. Ok (key, s)))))))"

abbreviation bind_fuel ::
  "('e, 'a) result option \<Rightarrow> ('a \<Rightarrow> ('e, 'b) result option) \<Rightarrow> ('e, 'b) result option" where
  "bind_fuel r f \<equiv> (case r of None \<Rightarrow> None | Some (Inl e) \<Rightarrow> Some (Inl e) | Some (Inr x) \<Rightarrow> f x)"

fun parse_value :: "nat \<Rightarrow> parser \<Rightarrow> json parsed option"
  and object_loop :: "nat \<Rightarrow> (string, json) btree \<Rightarrow> parser \<Rightarrow> json parsed option"
  and array_loop :: "nat \<Rightarrow> json list \<Rightarrow> parser \<Rightarrow> json parsed option" where
  "parse_value 0 s = None"
| "parse_value (Suc n) s0 =
     bind_fuel (Some (skip_ws s0)) (\<lambda>s.
     case peek s of
       None \<Rightarrow> Some (Err (err_here s ''unexpected end of input''))
     | Some c \<Rightarrow>
         if c = cp CHR ''{'' then
           bind_fuel (Some (enter_nested s)) (\<lambda>s.
           bind_fuel
             (bind_fuel (Some (bind_res (expect (cp CHR ''{'') ''when starting an object'' s) skip_ws)) (\<lambda>s.
                if peek s = Some (cp CHR ''}'') then Some (Ok (JObject [], skip s)) else object_loop n [] s))
             (\<lambda>(v, s). Some (Ok (v, leave_nested s))))
         else if c = cp CHR ''['' then
           bind_fuel (Some (enter_nested s)) (\<lambda>s.
           bind_fuel
             (bind_fuel (Some (bind_res (expect (cp CHR ''['') ''when starting an array'' s) skip_ws)) (\<lambda>s.
                if peek s = Some (cp CHR '']'') then Some (Ok (JArray [], skip s)) else array_loop n [] s))
             (\<lambda>(v, s). Some (Ok (v, leave_nested s))))
         else if c = cp CHR 0x22 then
           bind_fuel (Some (parse_string s)) (\<lambda>(str, s). Some (Ok (JString str, s)))
         else if c = cp CHR ''t'' then Some (parse_literal ''true'' (JBool True) s)
         else if c = cp CHR ''f'' then Some (parse_literal ''false'' (JBool False) s)
         else if c = cp CHR ''n'' then Some (parse_literal ''null'' JNull s)
         else if c = cp CHR ''-'' \<or> digit_cp c then Some (parse_number s)
         else Some (Err (err_here s (''unexpected character '' @ tick c))))"
| "object_loop 0 m s = None"
| "object_loop (Suc n) m s =
     bind_fuel (Some (object_key m s)) (\<lambda>(key, s).
     bind_fuel (parse_value n s) (\<lambda>(v, s).
     let m = bt_insert key v m in
     bind_fuel (Some (after_member (cp CHR ''}'') ''object'' s)) (\<lambda>(stop, s).
       if stop then Some (Ok (JObject m, s)) else object_loop n m s)))"
| "array_loop 0 vs s = None"
| "array_loop (Suc n) vs s =
     bind_fuel (parse_value n s) (\<lambda>(v, s).
     let vs = vs @ [v] in
     bind_fuel (Some (after_member (cp CHR '']'') ''array'' s)) (\<lambda>(stop, s).
       if stop then Some (Ok (JArray vs, s)) else array_loop n vs s))"

text \<open>Two calls per character, and the outermost one, are enough.\<close>

definition parse_fuel :: "string \<Rightarrow> nat" where
  "parse_fuel txt = 2 * length (str_chars txt) + 1"

definition parse_hujson :: "string \<Rightarrow> (hujson_error, json) result option" where
  "parse_hujson txt =
     bind_fuel (parse_value (parse_fuel txt) (parser_new txt)) (\<lambda>(v, s).
     bind_fuel (Some (skip_ws s)) (\<lambda>s.
       case peek s of
         Some c \<Rightarrow> Some (Err (err_here s (''unexpected trailing content '' @ tick c @ '' after the document'')))
       | None \<Rightarrow> Some (Ok v)))"

definition parse_policy ::
  "(json \<Rightarrow> (string, policy) result) \<Rightarrow> string \<Rightarrow> (hujson_error, policy) result option" where
  "parse_policy from_value source =
     bind_fuel (parse_hujson source) (\<lambda>v.
     bind_fuel (Some (validate_unknown_keys source v)) (\<lambda>_.
     bind_fuel (Some (map_err (\<lambda>err. error_at_line 1 (''invalid policy value: '' @ err)) (from_value v))) (\<lambda>p.
     bind_fuel (Some (validate_policy source p)) (\<lambda>_. Some (Ok p)))))"

section \<open>What a parser step does to the position\<close>

text \<open>
  A step keeps the depth, consumes at least a given number of characters and counts the newlines among
  them; an error lies between the line of the step and the last line of the text that was left.
\<close>

definition moved :: "nat \<Rightarrow> parser \<Rightarrow> parser \<Rightarrow> bool" where
  "moved k s t \<longleftrightarrow> depth t = depth s \<and>
     (\<exists>u. k \<le> length u \<and> chars s = u @ chars t \<and> line t = line s + count_list u 10)"

definition in_text :: "parser \<Rightarrow> hujson_error \<Rightarrow> bool" where
  "in_text s e \<longleftrightarrow> line s \<le> he_line e \<and> he_line e \<le> line s + count_list (chars s) 10"

definition good :: "('a \<Rightarrow> parser) \<Rightarrow> nat \<Rightarrow> parser \<Rightarrow> (hujson_error, 'a) result \<Rightarrow> bool" where
  "good st k s r \<longleftrightarrow> (case r of Inl e \<Rightarrow> in_text s e | Inr x \<Rightarrow> moved k s (st x))"

lemma moved_refl [simp]: "moved 0 s s"
  by (simp add: moved_def)

lemma moved_trans: "moved j s t \<Longrightarrow> moved k t u \<Longrightarrow> moved (j + k) s u"
  unfolding moved_def
  by (metis (no_types, lifting) add.assoc add_mono append.assoc count_list_append length_append)

lemma moved_weaken: "moved j s t \<Longrightarrow> k \<le> j \<Longrightarrow> moved k s t"
  unfolding moved_def by (meson le_trans)

lemma moved_length: "moved k s t \<Longrightarrow> length (chars t) + k \<le> length (chars s)"
  by (auto simp: moved_def)

lemma moved_skip: "peek s = Some c \<Longrightarrow> moved (Suc 0) s (skip s)"
  by (cases s rule: bump.cases) (auto simp: moved_def peek_def)

lemma moved_skip0 [simp]: "moved 0 s (skip s)"
  by (cases s rule: bump.cases) (auto simp: moved_def)

lemma in_text_moved: "moved k s t \<Longrightarrow> in_text t e \<Longrightarrow> in_text s e"
  by (auto simp: moved_def in_text_def)

lemma in_text_here [simp]: "in_text s (err_here s m)" "in_text s (error_at (line s) c m)"
  by (simp_all add: in_text_def err_here_def error_at_def)

lemma good_Err [simp]: "good st k s (Inl e) \<longleftrightarrow> in_text s e"
  by (simp add: good_def)

lemma good_Ok [simp]: "good st k s (Inr x) \<longleftrightarrow> moved k s (st x)"
  by (simp add: good_def)

lemma good_weaken: "good st j s r \<Longrightarrow> k \<le> j \<Longrightarrow> good st k s r"
  by (auto simp: good_def split: sum.splits intro: moved_weaken)

lemma good_from: "moved j s t \<Longrightarrow> good st k t r \<Longrightarrow> good st (j + k) s r"
  by (auto simp: good_def split: sum.splits intro: moved_trans in_text_moved)

lemma good_bind:
  assumes "good st j s r" "\<And>x. r = Inr x \<Longrightarrow> good st' k (st x) (f x)"
  shows "good st' (j + k) s (bind_res r f)"
proof (cases r)
  case (Inr x)
  with assms show ?thesis by (auto intro: good_from)
qed (use assms in simp)

lemma good_bind0:
  "good st 0 s r \<Longrightarrow> (\<And>x. r = Inr x \<Longrightarrow> good st' k (st x) (f x)) \<Longrightarrow> good st' k s (bind_res r f)"
  using good_bind [of st 0 s r st' k f] by simp

lemma good_skip_line: "moved 0 s (skip_line s)"
proof (induction s rule: skip_line.induct)
  case (1 s)
  then show ?case
    using moved_trans [OF moved_skip0 [of s], of 0 "skip_line (skip s)"]
    by (subst skip_line.simps) (auto split: option.split)
qed

lemma good_skip_block:
  assumes "l = line s0" "moved 0 s0 s"
  shows "good (\<lambda>t. t) 0 s0 (skip_block l k s)"
  using assms
proof (induction l k s rule: skip_block.induct)
  case (1 l k s)
  have m: "moved 0 s0 (skip s)" "moved 0 s0 (skip (skip s))"
    using moved_trans [OF "1.prems"(2) moved_skip0] moved_trans [OF moved_trans [OF "1.prems"(2) moved_skip0] moved_skip0]
    by simp_all
  show ?case
    using 1 m by (subst skip_block.simps) (auto split: option.split)
qed

lemma good_skip_ws: "good (\<lambda>t. t) 0 s (skip_ws s)"
proof (induction s rule: skip_ws.induct)
  case (1 s)
  have m: "moved 0 s (skip s)" "moved 0 s (skip (skip s))"
    using moved_trans [OF moved_skip0 moved_skip0, of s] by simp_all
  have l: "moved 0 s (skip_line (skip (skip s)))"
    using moved_trans [OF m(2) good_skip_line] by simp
  have b: "good (\<lambda>t. t) 0 s (skip_block (line s) (col s) (skip (skip s)))"
    by (rule good_skip_block [OF refl m(2)])
  show ?case
  proof (cases "peek s")
    case (Some c)
    show ?thesis
    proof (cases "blank c")
      case True
      then show ?thesis using Some 1(1) [OF Some True] good_from [OF m(1), of "\<lambda>t. t" 0] by (subst skip_ws.simps) simp
    next
      case False
      show ?thesis using Some False 1(2,3) [OF Some False] good_from [OF l, of "\<lambda>t. t" 0]
        good_bind0 [OF b, of "\<lambda>t. t" 0 skip_ws]
        by (subst skip_ws.simps) auto
    qed
  qed (subst skip_ws.simps, simp)
qed

lemma good_expect: "good (\<lambda>t. t) (Suc 0) s (expect e c s)"
proof (cases s rule: bump.cases)
  case (2 x cs l k d)
  then have "moved (Suc 0) s (skip s)" by (intro moved_skip) (simp add: peek_def)
  with 2 show ?thesis using in_text_moved [of "Suc 0" s "skip s"] by (auto simp: expect_def)
qed (simp add: expect_def)

lemma good_hex_digits: "good snd 0 s (hex_digits n v s)"
proof (induction n v s rule: hex_digits.induct)
  case (2 n v s)
  show ?case
  proof (cases "bump s")
    case (Pair c s')
    have m: "moved 0 s s'" using moved_skip0 [of s] Pair by simp
    show ?thesis
    proof (cases c)
      case (Some x)
      show ?thesis
      proof (cases "hex_digit x")
        case None
        then show ?thesis using Pair Some m in_text_moved [OF m] by simp
      next
        case g: (Some g)
        then show ?thesis using Pair Some "2.IH" [OF Pair [symmetric] Some g] good_from [OF m, of snd 0] by simp
      qed
    qed (use Pair m in_text_moved [OF m] in simp)
  qed
qed simp

lemma good_parse_hex_quad: "good snd 0 s (parse_hex_quad s)"
  by (simp add: parse_hex_quad_def good_hex_digits)

lemma good_ok_or: "in_text s e \<Longrightarrow> (\<And>x. good st k s (f x)) \<Longrightarrow> good st k s (bind_res (ok_or v e) f)"
  by (cases v) (simp_all add: ok_or_def)

lemma good_unicode: "good snd 0 s (parse_unicode_escape out s)"
  unfolding parse_unicode_escape_def
proof (rule good_bind0 [OF good_parse_hex_quad], clarsimp, intro conjI impI, goal_cases)
  case (1 a b)
  have m: "moved 0 b (skip (skip b))"
    using moved_trans [OF moved_skip0 moved_skip0, of b] by simp
  have "good snd 0 (skip (skip b)) (bind_res (parse_hex_quad (skip (skip b))) g)"
    if "\<And>x t. good snd 0 t (g (x, t))" for g :: "nat \<times> parser \<Rightarrow> string parsed"
    by (rule good_bind0 [OF good_parse_hex_quad]) (use that in auto)
  note h = good_from [OF m this, simplified]
  show ?case by (rule h) (auto intro!: good_ok_or)
qed (auto intro!: good_ok_or)

lemma good_parse_escape: "good snd 0 s (parse_escape out s)"
proof (cases "bump s")
  case (Pair c s')
  have m: "moved 0 s s'" using moved_skip0 [of s] Pair by simp
  show ?thesis
    using Pair m in_text_moved [OF m] good_from [OF m good_unicode]
    by (auto simp: parse_escape_def split: option.split)
qed

lemma good_string_loop: "good snd 0 s (string_loop out s)"
proof (induction out s rule: string_loop.induct)
  case (1 out s)
  show ?case
  proof (cases "peek s")
    case (Some c)
    have e: "good snd 0 s (parse_escape out (skip s))"
      using good_from [OF moved_skip0 good_parse_escape] by fastforce
    have "good snd 0 s (bind_res (parse_escape out (skip s)) (\<lambda>(out, s). string_loop out s))"
      if "c = cp CHR 0x22 \<Longrightarrow> False" "c = cp CHR 0x5C"
      by (rule good_bind0 [OF e]) (use 1(1) [OF Some] that in auto)
    moreover have "good snd 0 s (string_loop (out @ utf8_encode c) (skip s))"
      if "c \<noteq> cp CHR 0x22" "c \<noteq> cp CHR 0x5C" "\<not> is_control c"
      using 1(2) [OF Some] that good_from [OF moved_skip0, of snd 0] by simp
    ultimately show ?thesis using Some by (subst string_loop.simps) auto
  qed (subst string_loop.simps, simp)
qed

lemma good_parse_string: "good snd (Suc 0) s (parse_string s)"
  unfolding parse_string_def
  using good_bind [OF good_expect good_string_loop] by fastforce

lemma moved_match_chars: "match_chars es s = Some t \<Longrightarrow> moved (length es) s t"
proof (induction es arbitrary: s)
  case (Cons e es)
  obtain s' where s': "bump s = (Some e, s')" "match_chars es s' = Some t"
    using Cons.prems by (auto split: prod.splits if_splits)
  then have "moved (Suc 0) s s'" using moved_skip [of s e] by (cases s rule: bump.cases) (auto simp: peek_def)
  with Cons.IH [OF s'(2)] show ?case using moved_trans [of "Suc 0" s s' "length es" t] by simp
qed simp

lemma good_parse_literal:
  assumes "str_chars lit \<noteq> []"
  shows "good snd (Suc 0) s (parse_literal lit v s)"
proof (cases "match_chars (str_chars lit) s")
  case (Some t)
  have "moved (Suc 0) s t"
    using moved_weaken [OF moved_match_chars [OF Some], of "Suc 0"] assms by (cases "str_chars lit") auto
  with Some show ?thesis by (auto simp: parse_literal_def Let_def split: option.split)
qed (simp add: parse_literal_def Let_def)

lemma moved_skip_digits: "moved 0 s (skip_digits s)"
proof (induction s rule: skip_digits.induct)
  case (1 s)
  then show ?case using moved_trans [OF moved_skip0 [of s], of 0 "skip_digits (skip s)"]
    by (subst skip_digits.simps) (auto split: option.split)
qed

lemma peek_digit_skip: "peek_digit s \<Longrightarrow> moved (Suc 0) s (skip s)"
  by (auto simp: peek_digit_def split: option.splits intro: moved_skip)

lemma good_integer_part: "good (\<lambda>t. t) (Suc 0) s (integer_part s)"
  using moved_trans [OF peek_digit_skip moved_skip_digits, of s]
  by (auto simp: integer_part_def intro: moved_skip)

lemma good_fraction_part: "good (\<lambda>t. t) 0 s (fraction_part s)"
  using moved_trans [OF moved_skip0 moved_skip_digits, of s] in_text_moved [OF moved_skip0]
  by (auto simp: fraction_part_def)

lemma good_exponent_part: "good (\<lambda>t. t) 0 s (exponent_part s)"
proof -
  have m: "moved 0 s (skip (skip s))" using moved_trans [OF moved_skip0 moved_skip0, of s] by simp
  show ?thesis
    using moved_trans [OF moved_skip0 moved_skip_digits, of s] moved_trans [OF m moved_skip_digits]
      in_text_moved [OF moved_skip0, of s] in_text_moved [OF m]
    by (auto simp: exponent_part_def Let_def)
qed

lemma good_scan_number: "good (\<lambda>t. t) (Suc 0) s (scan_number s)"
proof -
  have "good (\<lambda>t. t) (Suc 0) (skip_minus s)
     (bind_res (integer_part (skip_minus s)) (\<lambda>s. bind_res (fraction_part s) exponent_part))"
    using good_bind [OF good_integer_part good_bind0 [OF good_fraction_part good_exponent_part]]
    by fastforce
  moreover have "moved 0 s (skip_minus s)" by (simp add: skip_minus_def)
  ultimately show ?thesis using good_from [of 0 s "skip_minus s" "\<lambda>t. t" "Suc 0"] by (simp add: scan_number_def)
qed

lemma good_finish_number: "moved (Suc 0) s t \<Longrightarrow> good snd (Suc 0) s (finish_number s t)"
  by (cases "parse_json_number (token_between s t)") (simp_all add: finish_number_def)

lemma good_parse_number: "good snd (Suc 0) s (parse_number s)"
  using good_scan_number [of s] good_finish_number [of s]
  by (cases "scan_number s") (auto simp: parse_number_def split: option.split)

lemma good_object_key: "good snd (Suc 0) s (object_key m s)"
proof -
  have tail: "good snd 0 s (bind_res (skip_ws s) (\<lambda>s. bind_res (expect (cp CHR '':'') cx s)
      (\<lambda>s. bind_res (skip_ws s) (\<lambda>s. Ok (key, s)))))" for cx key s
    by (rule good_bind0 [OF good_skip_ws], rule good_bind0 [OF good_weaken [OF good_expect]],
        simp, rule good_bind0 [OF good_skip_ws], simp)
  have w: "good snd (Suc 0) t (case peek t of None \<Rightarrow> Err (err_here t a) | Some c \<Rightarrow>
      if c = cp CHR 0x22 then parse_string t else Err (err_here t (b c)))" for t a b
    using good_parse_string [of t] by (auto split: option.split)
  show ?thesis
  proof (cases "skip_ws s")
    case (Inr t)
    let ?key = "case peek t of None \<Rightarrow> Err (err_here t ''unexpected end of input in object'') | Some c \<Rightarrow>
      if c = cp CHR 0x22 then parse_string t
      else Err (err_here t (''expected a quoted object key, found '' @ tick c))"
    have m: "moved 0 s t" using good_skip_ws [of s] Inr by simp
    have g: "good snd (Suc 0) s ?key" using good_from [OF m w] by simp
    show ?thesis
    proof (cases ?key)
      case k: (Inr x)
      obtain key u where x: "x = (key, u)" by (cases x)
      have "moved (Suc 0) s u" using g k x by simp
      from good_from [OF this tail] show ?thesis
        using Inr k x by (auto simp: object_key_def Let_def)
    qed (use g Inr in \<open>simp add: object_key_def Let_def\<close>)
  qed (use good_skip_ws [of s] in \<open>simp add: object_key_def Let_def\<close>)
qed

lemma good_after_member: "good snd 0 s (after_member close kind s)"
proof -
  have "good snd 0 t (bind_res (skip_ws (skip t)) (\<lambda>s. if peek s = Some close then Ok (True, skip s) else Ok (False, s)))" for t
    by (rule good_from [of 0 t "skip t" snd 0, simplified], rule good_bind0 [OF good_skip_ws]) auto
  then show ?thesis
    unfolding after_member_def by (intro good_bind0 [OF good_skip_ws]) (auto split: option.split)
qed

lemma after_member_more: "after_member close kind s = Inr (False, t) \<Longrightarrow> moved (Suc 0) s t"
proof -
  assume a: "after_member close kind s = Inr (False, t)"
  obtain u c where u: "skip_ws s = Inr u" "peek u = Some c"
    using a by (auto simp: after_member_def bind_res_Ok_iff split: option.splits)
  with a have "skip_ws (skip u) = Inr t"
    by (auto simp: after_member_def bind_res_Ok_iff split: if_splits)
  then have "moved 0 (skip u) t" "moved 0 s u" using good_skip_ws [of "skip u"] good_skip_ws [of s] u by simp_all
  then show ?thesis using moved_trans [OF moved_trans [OF _ moved_skip [OF u(2)]]] by fastforce
qed

section \<open>The parser returns, and what it returns is bounded\<close>

text \<open>Containers nested at most so deep, with object keys strictly increasing (so none occurs twice).\<close>

fun within :: "nat \<Rightarrow> json \<Rightarrow> bool" where
  "within 0 (JArray vs) \<longleftrightarrow> False"
| "within 0 (JObject kvs) \<longleftrightarrow> False"
| "within (Suc k) (JArray vs) \<longleftrightarrow> (\<forall>v \<in> set vs. within k v)"
| "within (Suc k) (JObject kvs) \<longleftrightarrow> bt_inv kvs \<and> (\<forall>v \<in> snd ` set kvs. within k v)"
| "within k _ \<longleftrightarrow> True"

definition fine :: "nat \<Rightarrow> parser \<Rightarrow> json parsed option \<Rightarrow> bool" where
  "fine k s r \<longleftrightarrow>
     (\<exists>p. r = Some p \<and> good snd (Suc 0) s p \<and> (\<forall>v t. p = Inr (v, t) \<longrightarrow> within k v))"

lemma fine_Err [simp]: "fine k s (Some (Inl e)) \<longleftrightarrow> in_text s e"
  by (simp add: fine_def)

lemma fine_Ok [simp]: "fine k s (Some (Inr (v, t))) \<longleftrightarrow> moved (Suc 0) s t \<and> within k v"
  by (simp add: fine_def)

lemma fine_good: "good snd (Suc 0) s p \<Longrightarrow> (\<And>v t. p = Inr (v, t) \<Longrightarrow> within k v) \<Longrightarrow> fine k s (Some p)"
  by (auto simp: fine_def)

lemma fine_bind:
  assumes "good st j s r" "\<And>x. r = Inr x \<Longrightarrow> moved j s (st x) \<Longrightarrow> fine k s (f x)"
  shows "fine k s (bind_fuel (Some r) f)"
  using assms by (cases r) auto

lemma fine_from: "moved j s t \<Longrightarrow> fine k t r \<Longrightarrow> fine k s r"
  unfolding fine_def by (metis good_from good_weaken le_add2)

lemma fine_cases:
  assumes "fine k s r"
  obtains e where "r = Some (Inl e)" "in_text s e" | v t where "r = Some (Inr (v, t))" "moved (Suc 0) s t" "within k v"
proof -
  obtain p where p: "r = Some p" "good snd (Suc 0) s p" "\<And>v t. p = Inr (v, t) \<Longrightarrow> within k v"
    using assms by (auto simp: fine_def)
  show thesis
  proof (cases p)
    case (Inr x)
    then obtain v t where "p = Inr (v, t)" by (cases x) auto
    with p that(2) [of v t] show thesis by simp
  qed (use p that(1) in simp)
qed

lemma bt_insert_values: "snd ` set (bt_insert k v m) \<subseteq> insert v (snd ` set m)"
proof -
  have "e \<in> set (bt_entry k v (\<lambda>_. v) m) \<Longrightarrow> snd e = v \<or> e \<in> set m" for e
    by (induction m) (auto split: if_splits)
  then show ?thesis by (force simp: bt_insert_def)
qed

lemma bt_insert_all: "\<forall>x \<in> snd ` set m. P x \<Longrightarrow> P v \<Longrightarrow> \<forall>x \<in> snd ` set (bt_insert k v m). P x"
  using bt_insert_values [of k v m] by blast

lemma finish_number_scalar: "finish_number s t = Inr (v, u) \<Longrightarrow> within k v"
  by (cases "parse_json_number (token_between s t)") (auto simp: finish_number_def)

lemma parse_number_scalar: "parse_number s = Inr (v, t) \<Longrightarrow> within k v"
  by (cases "scan_number s") (auto simp: parse_number_def intro: finish_number_scalar split: option.splits if_splits)

lemma parse_literal_value: "parse_literal lit w s = Inr (v, t) \<Longrightarrow> v = w"
  by (auto simp: parse_literal_def Let_def split: option.splits if_splits)

text \<open>Entering and leaving a container around an inner step is a step.\<close>

definition deeper :: "parser \<Rightarrow> parser" where
  "deeper s = Parser (chars s) (line s) (col s) (depth s + 1)"

lemma chars_deeper [simp]: "chars (deeper s) = chars s" "depth (deeper s) = Suc (depth s)"
  "in_text (deeper s) e \<longleftrightarrow> in_text s e"
  by (simp_all add: deeper_def in_text_def)

lemma moved_leave: "moved k (deeper s) t \<Longrightarrow> moved k s (leave_nested t)"
  by (simp add: moved_def leave_nested_def deeper_def)

lemma enter_nested_cases:
  obtains "depth s < MAX_DEPTH" "enter_nested s = Inr (deeper s)"
  | msg where "enter_nested s = Inl (err_here (deeper s) msg)"
  unfolding enter_nested_def deeper_def Let_def by (metis Suc_eq_plus1 not_less_eq parser.sel(4))

lemma in_text_deeper: "in_text s (err_here (deeper s) m)"
  by (simp add: in_text_def err_here_def error_at_def deeper_def)

lemma fine_nested:
  assumes "depth s < MAX_DEPTH \<Longrightarrow> fine (MAX_DEPTH - depth s) (deeper s) (g (deeper s))"
  shows "fine (MAX_DEPTH - depth s) s
    (bind_fuel (Some (enter_nested s)) (\<lambda>s. bind_fuel (g s) (\<lambda>(v, s). Some (Ok (v, leave_nested s)))))"
proof (cases rule: enter_nested_cases [of s])
  case 1
  from assms [OF 1(1)] show ?thesis
  proof (cases rule: fine_cases)
    case (2 v t)
    then show ?thesis using 1(2) moved_leave [OF 2(2)] by simp
  qed (use 1(2) in simp)
qed (simp add: in_text_deeper)

lemma within_empty: "depth s < k \<Longrightarrow> within (k - depth s) (JObject [])" "depth s < k \<Longrightarrow> within (k - depth s) (JArray [])"
  by (auto dest!: less_imp_Suc_add)

lemma open_container:
  assumes "\<And>t. moved (Suc 0) s t \<Longrightarrow> fine k t (f t)" "within k v"
  shows "fine k s (bind_fuel (Some (bind_res (expect c cx s) skip_ws))
           (\<lambda>t. if peek t = Some d then Some (Ok (v, skip t)) else f t))"
proof (rule fine_bind)
  show "good (\<lambda>t. t) (Suc 0) s (bind_res (expect c cx s) skip_ws)"
    using good_bind [OF good_expect good_skip_ws] by fastforce
  fix t assume t: "moved (Suc 0) s t"
  show "fine k s (if peek t = Some d then Some (Ok (v, skip t)) else f t)"
    using assms(2) fine_from [OF t assms(1) [OF t]] moved_trans [OF t moved_skip0] by simp
qed

definition value_fine :: "nat \<Rightarrow> parser \<Rightarrow> bool" where
  "value_fine n s \<longleftrightarrow> (2 * length (chars s) + 1 \<le> n \<longrightarrow> depth s \<le> MAX_DEPTH \<longrightarrow>
     fine (MAX_DEPTH - depth s) s (parse_value n s))"

definition object_fine :: "nat \<Rightarrow> (string, json) btree \<Rightarrow> parser \<Rightarrow> bool" where
  "object_fine n m s \<longleftrightarrow> (2 * length (chars s) + 2 \<le> n \<longrightarrow> depth s \<le> MAX_DEPTH \<longrightarrow> bt_inv m \<longrightarrow>
     (\<forall>v \<in> snd ` set m. within (MAX_DEPTH - depth s) v) \<longrightarrow>
     fine (Suc (MAX_DEPTH - depth s)) s (object_loop n m s))"

definition array_fine :: "nat \<Rightarrow> json list \<Rightarrow> parser \<Rightarrow> bool" where
  "array_fine n vs s \<longleftrightarrow> (2 * length (chars s) + 2 \<le> n \<longrightarrow> depth s \<le> MAX_DEPTH \<longrightarrow>
     (\<forall>v \<in> set vs. within (MAX_DEPTH - depth s) v) \<longrightarrow>
     fine (Suc (MAX_DEPTH - depth s)) s (array_loop n vs s))"

lemma container_fine:
  assumes "\<And>t. 2 * length (chars t) + 2 \<le> n \<Longrightarrow> depth t \<le> MAX_DEPTH \<Longrightarrow>
      fine (Suc (MAX_DEPTH - depth t)) t (f t)"
    and "2 * length (chars s) \<le> n" "\<And>k. within (Suc k) v"
  shows "fine (MAX_DEPTH - depth s) s (bind_fuel (Some (enter_nested s)) (\<lambda>s. bind_fuel
     (bind_fuel (Some (bind_res (expect c cx s) skip_ws)) (\<lambda>t. if peek t = Some d then Some (Ok (v, skip t)) else f t))
     (\<lambda>(v, s). Some (Ok (v, leave_nested s)))))"
proof (rule fine_nested, rule open_container)
  assume d: "depth s < MAX_DEPTH"
  then obtain k where k: "MAX_DEPTH - depth s = Suc k" by (metis Suc_diff_Suc)
  then show "within (MAX_DEPTH - depth s) v" by (simp add: assms(3))
  fix t assume t: "moved (Suc 0) (deeper s) t"
  have "2 * length (chars t) + 2 \<le> n" "depth t = Suc (depth s)"
    using moved_length [OF t] t assms(2) by (auto simp: moved_def)
  then show "fine (MAX_DEPTH - depth s) t (f t)" using assms(1) [of t] d k by (simp add: Suc_diff_Suc)
qed

lemma value_step:
  assumes "\<And>m s. object_fine n m s" "\<And>vs s. array_fine n vs s"
  shows "value_fine (Suc n) s0"
  unfolding value_fine_def parse_value.simps
proof (intro impI, rule fine_bind [OF good_skip_ws], goal_cases)
  case (1 s)
  note s = \<open>moved 0 s0 s\<close>
  have len: "2 * length (chars s) \<le> n" and d: "depth s0 = depth s"
    using moved_length [OF s] 1(1) s by (auto simp: moved_def)
  have obj: "fine (MAX_DEPTH - depth s) s (bind_fuel (Some (enter_nested s)) (\<lambda>s. bind_fuel
     (bind_fuel (Some (bind_res (expect (cp CHR ''{'') ''when starting an object'' s) skip_ws))
       (\<lambda>t. if peek t = Some (cp CHR ''}'') then Some (Ok (JObject [], skip t)) else object_loop n [] t))
     (\<lambda>(v, s). Some (Ok (v, leave_nested s)))))"
    by (rule container_fine [OF _ len]) (use assms(1) in \<open>simp_all add: object_fine_def\<close>)
  have arr: "fine (MAX_DEPTH - depth s) s (bind_fuel (Some (enter_nested s)) (\<lambda>s. bind_fuel
     (bind_fuel (Some (bind_res (expect (cp CHR ''['') ''when starting an array'' s) skip_ws))
       (\<lambda>t. if peek t = Some (cp CHR '']'') then Some (Ok (JArray [], skip t)) else array_loop n [] t))
     (\<lambda>(v, s). Some (Ok (v, leave_nested s)))))"
    by (rule container_fine [OF _ len]) (use assms(2) in \<open>simp_all add: array_fine_def\<close>)
  have str: "fine k s (bind_fuel (Some (parse_string s)) (\<lambda>(str, s). Some (Ok (JString str, s))))" for k
    by (rule fine_bind [OF good_parse_string]) (auto split: prod.split)
  have lit: "fine k s (Some (parse_literal lit w s))" if "str_chars lit \<noteq> []" "within k w" for k lit w
    by (rule fine_good [OF good_parse_literal]) (use that in \<open>auto dest: parse_literal_value\<close>)
  have num: "fine k s (Some (parse_number s))" for k
    by (rule fine_good [OF good_parse_number]) (rule parse_number_scalar)
  have lits: "str_chars ''true'' \<noteq> []" "str_chars ''false'' \<noteq> []" "str_chars ''null'' \<noteq> []"
    by simp_all
  show ?case
    unfolding d
    by (rule fine_from [OF s], cases "peek s")
      (simp_all only: option.case if_split fine_Err in_text_here
        obj [unfolded option.case] arr [unfolded option.case] str [unfolded option.case] lit num lits within.simps simp_thms)
qed

lemma after_member_step:
  assumes "fine k s1 (parse_value n s1)" "moved j s s1"
    and "\<And>v t. moved (Suc 0) s t \<Longrightarrow> within k v \<Longrightarrow> fine (Suc k) s (Some (Ok (fin v, t)))"
    and "\<And>v t. moved (Suc (j + 1)) s t \<Longrightarrow> within k v \<Longrightarrow> fine (Suc k) t (cont v t)"
  shows "fine (Suc k) s (bind_fuel (parse_value n s1) (\<lambda>(v, s).
     bind_fuel (Some (after_member close kind s)) (\<lambda>(stop, s). if stop then Some (Ok (fin v, s)) else cont v s)))"
  using assms(1)
proof (cases rule: fine_cases)
  case (1 e)
  then show ?thesis using in_text_moved [OF assms(2)] by simp
next
  case (2 v s2)
  have m: "moved (Suc j) s s2" using moved_trans [OF assms(2) 2(2)] by simp
  have am: "good snd 0 s2 (after_member close kind s2)" by (rule good_after_member)
  show ?thesis
  proof (cases "after_member close kind s2")
    case (Inl e)
    then show ?thesis using 2 am in_text_moved [OF m] by simp
  next
    case (Inr x)
    obtain stop s3 where x: "x = (stop, s3)" by (cases x)
    show ?thesis
    proof (cases stop)
      case True
      have "moved (Suc j) s s3" using moved_trans [OF m, of 0 s3] am Inr x by simp
      then have "moved (Suc 0) s s3" by (rule moved_weaken) simp
      then show ?thesis using 2 Inr x True assms(3) by simp
    next
      case False
      have m3: "moved (Suc (j + 1)) s s3"
        using moved_trans [OF m after_member_more] Inr x False by fastforce
      then show ?thesis using 2 Inr x False fine_from [OF m3 assms(4) [OF m3]] by simp
    qed
  qed
qed

lemma object_step:
  assumes "\<And>s. value_fine n s" "\<And>m s. object_fine n m s"
  shows "object_fine (Suc n) m s"
  unfolding object_fine_def object_loop.simps Let_def
proof (intro impI, rule fine_bind [OF good_object_key], goal_cases)
  case (1 x)
  obtain key s1 where x: "x = (key, s1)" by (cases x)
  have m: "moved (Suc 0) s s1" using 1 x by simp
  have d: "depth s1 = depth s" using m by (simp add: moved_def)
  have v: "fine (MAX_DEPTH - depth s) s1 (parse_value n s1)"
    using assms(1) [of s1] moved_length [OF m] 1 d by (simp add: value_fine_def)
  have "fine (Suc (MAX_DEPTH - depth s)) s (bind_fuel (parse_value n s1) (\<lambda>(v, s).
     bind_fuel (Some (after_member (cp CHR ''}'') ''object'' s)) (\<lambda>(stop, s).
       if stop then Some (Ok (JObject (bt_insert key v m), s)) else object_loop n (bt_insert key v m) s)))"
  proof (rule after_member_step [OF v m])
    fix w t assume w: "within (MAX_DEPTH - depth s) w"
    have vals: "\<forall>x \<in> snd ` set (bt_insert key w m). within (MAX_DEPTH - depth s) x"
      by (rule bt_insert_all) (use 1 w in auto)
    have inv: "bt_inv (bt_insert key w m)" using 1 by (auto intro: bt.inv_insert)
    show "fine (Suc (MAX_DEPTH - depth s)) s (Some (Ok (JObject (bt_insert key w m), t)))"
      if "moved (Suc 0) s t" using that vals inv by simp
    show "fine (Suc (MAX_DEPTH - depth s)) t (object_loop n (bt_insert key w m) t)"
      if t: "moved (Suc (Suc 0 + 1)) s t"
    proof -
      have "2 * length (chars t) + 2 \<le> n" "depth t = depth s"
        using moved_length [OF t] t 1(1) by (auto simp: moved_def)
      with assms(2) [of "bt_insert key w m" t] vals inv 1(2) show ?thesis by (simp add: object_fine_def)
    qed
  qed
  then show ?case unfolding x prod.case .
qed

lemma array_step:
  assumes "\<And>s. value_fine n s" "\<And>vs s. array_fine n vs s"
  shows "array_fine (Suc n) vs s"
  unfolding array_fine_def array_loop.simps Let_def
proof (intro impI, goal_cases)
  case 1
  have v: "fine (MAX_DEPTH - depth s) s (parse_value n s)" using assms(1) [of s] 1 by (simp add: value_fine_def)
  show ?case
  proof (rule after_member_step [OF v, of 0], goal_cases)
    case (3 v t)
    then show ?case
      using assms(2) [of "vs @ [v]" t] moved_length [OF 3(1)] 1 by (auto simp: array_fine_def moved_def)
  qed (use 1 in auto)
qed

lemma all_fine: "value_fine n s \<and> object_fine n m s \<and> array_fine n vs s"
proof (induction n arbitrary: s m vs)
  case (Suc n)
  then show ?case using value_step object_step array_step by blast
qed (simp add: value_fine_def object_fine_def array_fine_def)

lemma parse_hujson_bounded:
  "\<exists>r. parse_hujson txt = Some r \<and>
     (case r of Inl e \<Rightarrow> 1 \<le> he_line e \<and> he_line e \<le> 1 + count_list (str_chars txt) 10
              | Inr v \<Rightarrow> within MAX_DEPTH v)"
proof -
  define s0 where "s0 = parser_new txt"
  have s0: "chars s0 = str_chars txt" "line s0 = 1" "depth s0 = 0" by (simp_all add: s0_def parser_new_def)
  have err: "in_text s0 e \<Longrightarrow> 1 \<le> he_line e \<and> he_line e \<le> 1 + count_list (str_chars txt) 10" for e
    by (simp add: in_text_def s0)
  have "fine MAX_DEPTH s0 (parse_value (parse_fuel txt) s0)"
    using all_fine [of "parse_fuel txt" s0] by (simp add: value_fine_def s0 parse_fuel_def)
  then show ?thesis
  proof (cases rule: fine_cases)
    case (1 e)
    then show ?thesis using err by (simp add: parse_hujson_def s0_def)
  next
    case (2 v t)
    note m = \<open>moved (Suc 0) s0 t\<close>
    show ?thesis
    proof (cases "skip_ws t")
      case (Inl e)
      then have "in_text s0 e" using good_skip_ws [of t] in_text_moved [OF m] by simp
      with Inl 2 err show ?thesis by (simp add: parse_hujson_def s0_def)
    next
      case (Inr u)
      then have "moved (Suc 0) s0 u" using good_skip_ws [of t] moved_trans [OF m, of 0 u] by simp
      then have "in_text s0 (err_here u msg)" for msg using in_text_moved in_text_here(1) by blast
      with Inr 2 err show ?thesis
        by (cases "peek u") (simp_all add: parse_hujson_def s0_def)
    qed
  qed
qed

text \<open>
  C20. The HUJSON parser always returns, whatever the text: with the fuel it is given it never runs
  out. An error it reports lies on a line of the text, and a value it returns nests at most
  \<^const>\<open>MAX_DEPTH\<close> containers and has no duplicate object key, its keys being strictly increasing.
\<close>

theorem parse_hujson_total:
  "\<exists>r. parse_hujson txt = Some r \<and>
     (case r of Inl e \<Rightarrow> 1 \<le> he_line e \<and> he_line e \<le> 1 + count_list (str_chars txt) 10
              | Inr v \<Rightarrow> within MAX_DEPTH v)"
  by (rule parse_hujson_bounded)

section \<open>Policies\<close>

definition list_of_objects :: "string list \<Rightarrow> json \<Rightarrow> bool" where
  "list_of_objects keys v \<longleftrightarrow>
     (\<exists>items. v = JArray items \<and> (\<forall>i \<in> set items. \<exists>kvs. i = JObject kvs \<and> fst ` set kvs \<subseteq> set keys))"

definition known_keys :: "json \<Rightarrow> bool" where
  "known_keys v \<longleftrightarrow> (\<exists>root. v = JObject root \<and> fst ` set root \<subseteq> set POLICY_KEYS \<and>
     (\<forall>(field, keys) \<in> set [(''acls'', ACL_KEYS), (''grants'', GRANT_KEYS), (''ssh'', SSH_KEYS),
          (''nodeAttrs'', NODE_ATTR_KEYS), (''tests'', TEST_KEYS), (''sshTests'', SSH_TEST_KEYS)].
        \<forall>x. map_of root field = Some x \<longrightarrow> list_of_objects keys x) \<and>
     (\<forall>x. map_of root ''autoApprovers'' = Some x \<longrightarrow>
        (\<exists>kvs. x = JObject kvs \<and> fst ` set kvs \<subseteq> set AUTO_APPROVERS_KEYS)))"

lemma check_keys_Ok [simp]: "check_keys s allowed obj what = Inr () \<longleftrightarrow> fst ` set obj \<subseteq> set allowed"
  by (auto simp: check_keys_def)

lemma json_as_object_Some: "json_as_object v = Some kvs \<longleftrightarrow> v = JObject kvs"
  by (cases v) auto

lemma walk_object_Ok [simp]:
  "walk_object keys what s v = Inr () \<longleftrightarrow> (\<exists>kvs. v = JObject kvs \<and> fst ` set kvs \<subseteq> set keys)"
  by (cases v) (simp_all add: walk_object_def as_object_def)

lemma walk_array_Ok [simp]:
  "walk_array s v what (walk_object keys what') = Inr () \<longleftrightarrow> list_of_objects keys v"
  by (cases v) (auto simp: walk_array_def list_of_objects_def)

lemma walk_field_Ok [simp]:
  "walk_field root key f = Inr () \<longleftrightarrow> (\<forall>x. map_of root key = Some x \<longrightarrow> f x = Inr ())"
  by (simp add: walk_field_def split: option.split)

lemma validate_unknown_keys_Ok: "validate_unknown_keys s v = Inr () \<longleftrightarrow> known_keys v"
proof (cases v)
  case (JObject root)
  show ?thesis
    unfolding validate_unknown_keys_def JObject json_as_object.simps option.case bind_res.simps and_then_Ok
      walk_acl_def walk_grant_def walk_auto_approvers_def walk_ssh_def walk_node_attr_def walk_test_def
      walk_ssh_test_def walk_field_Ok walk_array_Ok walk_object_Ok check_keys_Ok known_keys_def
    by (simp only: list.set ball_simps prod.case json.inject simp_thms ex_simps) blast
qed (simp_all add: validate_unknown_keys_def known_keys_def)

text \<open>
  C17. Parsing a policy is exact: for any conversion \<^verbatim>\<open>from_value\<close> of JSON into the typed model, it
  returns for every text, and it returns a policy exactly when the text is a HUJSON document with known
  keys only, the conversion yields that policy, and the policy is well formed.
\<close>

theorem parse_policy_exact:
  "(\<exists>r. parse_policy from_value source = Some r) \<and>
   (parse_policy from_value source = Some (Ok p) \<longleftrightarrow>
      (\<exists>v. parse_hujson source = Some (Ok v) \<and> known_keys v \<and> from_value v = Ok p \<and> well_formed_policy p))"
proof -
  obtain r where r: "parse_hujson source = Some r" using parse_hujson_bounded by blast
  show ?thesis
  proof (cases r)
    case (Inr v)
    have k: "validate_unknown_keys source v = Inr u \<longleftrightarrow> known_keys v" for u
      using validate_unknown_keys_Ok by simp
    have w: "validate_policy source q = Inr u \<longleftrightarrow> well_formed_policy q" for u q
      using validate_policy_Ok_iff by simp
    show ?thesis
    proof (cases "validate_unknown_keys source v")
      case (Inl e)
      then show ?thesis using r Inr k by (simp add: parse_policy_def)
    next
      case kk: (Inr u)
      show ?thesis
      proof (cases "from_value v")
        case (Inl e)
        then show ?thesis using r Inr kk by (simp add: parse_policy_def)
      next
        case q: (Inr q)
        then show ?thesis
          using r Inr kk k w [of q] by (cases "validate_policy source q") (auto simp: parse_policy_def)
      qed
    qed
  qed (use r in \<open>simp add: parse_policy_def\<close>)
qed

end
