(* ===== verification/Proto_Key.thy ===== *)
theory Proto_Key
  imports Rust_Str
begin

text \<open>
  The typed keys of the control wire, \<^verbatim>\<open>crabscale-proto/src/key.rs\<close>: a prefix, a colon and 64
  hexadecimal digits. The four types made by the macro \<^verbatim>\<open>key_type\<close> differ in the prefix only; a key is
  its 32 bytes.
\<close>

type_synonym raw_key = bytes

datatype key_parse_error = InvalidFormat | InvalidLength | InvalidPrefix | InvalidHex

definition KEY_BYTES :: nat where "KEY_BYTES = 32"
definition KEY_HEX_CHARS :: nat where "KEY_HEX_CHARS = KEY_BYTES * 2"

definition HEX :: string where "HEX = ''0123456789abcdef''"

definition encode_hex :: "bytes \<Rightarrow> string" where
  "encode_hex bs =
     concat (map (\<lambda>b. [HEX ! unat (drop_bit 4 b), HEX ! unat (b AND 0x0F)]) bs)"

definition hex_nibble :: "byte \<Rightarrow> byte option" where
  "hex_nibble b =
     (if 0x30 \<le> b \<and> b \<le> 0x39 then Some (b - 0x30)
      else if 0x61 \<le> b \<and> b \<le> 0x66 then Some (b - 0x61 + 10)
      else if 0x41 \<le> b \<and> b \<le> 0x46 then Some (b - 0x41 + 10)
      else None)"

fun hex_pairs :: "bytes \<Rightarrow> bytes option" where
  "hex_pairs (h # l # bs) =
     Option.bind (hex_nibble h) (\<lambda>hi.
     Option.bind (hex_nibble l) (\<lambda>lo.
     map_option (\<lambda>out. (push_bit 4 hi OR lo) # out) (hex_pairs bs)))"
| "hex_pairs _ = Some []"

definition decode_hex :: "string \<Rightarrow> raw_key option" where
  "decode_hex hex = (if length hex \<noteq> KEY_HEX_CHARS then None else hex_pairs (as_bytes hex))"

definition parse_key :: "string \<Rightarrow> string \<Rightarrow> (key_parse_error, raw_key) result" where
  "parse_key key_prefix s =
     (case strip_prefix s key_prefix of
        None \<Rightarrow> Err InvalidPrefix
      | Some hex \<Rightarrow>
          (case strip_prefix hex '':'' of
             None \<Rightarrow> Err InvalidFormat
           | Some hex \<Rightarrow>
               if CHR '':'' \<in> set hex then Err InvalidFormat
               else if length hex \<noteq> KEY_HEX_CHARS then Err InvalidLength
               else (case decode_hex hex of None \<Rightarrow> Err InvalidHex | Some k \<Rightarrow> Ok k)))"

definition to_key_string :: "string \<Rightarrow> raw_key \<Rightarrow> string" where
  "to_key_string key_prefix k = key_prefix @ '':'' @ encode_hex k"

definition MKEY :: string where "MKEY = ''mkey''"
definition NODEKEY :: string where "NODEKEY = ''nodekey''"
definition DISCOKEY :: string where "DISCOKEY = ''discokey''"
definition CHALPUB :: string where "CHALPUB = ''chalpub''"

section \<open>Hexadecimal digits\<close>

lemma nibble_range: "unat (drop_bit 4 (b :: byte)) < 16" "unat (b AND 0x0F :: byte) < 16"
proof -
  show "unat (drop_bit 4 b) < 16"
    using unsigned_less [of b, where ?'a = nat] by (simp add: drop_bit_eq_div unat_div)
  have "b AND 0x0F = take_bit 4 b" by (simp add: take_bit_eq_mask mask_eq_exp_minus_1 and.commute)
  then show "unat (b AND 0x0F) < 16" by (simp add: take_bit_eq_mod unat_mod)
qed

lemma HEX_digits: "map from_digit [0..<16] = HEX"
  by (simp add: HEX_def from_digit_def upt_rec char_of_eq_iff)

lemma HEX_nth [simp]: "n < 16 \<Longrightarrow> HEX ! n = from_digit n"
  by (simp flip: HEX_digits)

lemma unat_byte_of_char [simp]: "unat (byte_of_char c) = of_char c"
  using nat_of_char_less_256 [of c] by (simp add: byte_of_char_def unat_of_nat take_bit_nat_eq_self)

lemma hex_nibble_to_digit: "hex_nibble (byte_of_char c) = map_option of_nat (to_digit 16 c)"
proof -
  have "of_nat (of_char c - k) = byte_of_char c - of_nat k" if "k \<le> of_char c" for k
    using that by (simp add: byte_of_char_def)
  then show ?thesis
    by (auto simp: hex_nibble_def to_digit_def Let_def word_le_nat_alt)
qed

lemma hex_nibble_HEX: "n < 16 \<Longrightarrow> hex_nibble (byte_of_char (HEX ! n)) = Some (of_nat n)"
  by (simp add: hex_nibble_to_digit)

lemma from_digit_no_colon: "n < 16 \<Longrightarrow> CHR '':'' \<noteq> from_digit n"
proof
  assume n: "n < 16" "CHR '':'' = from_digit n"
  have "is_digit 16 (from_digit n)" using n(1) by simp
  then have "is_digit 16 (CHR '':'')" using n(2) by simp
  then show False by (simp add: is_digit_def to_digit_def)
qed

lemma to_digit_lower: "to_digit 16 c = Some d \<Longrightarrow> d < 16 \<and> from_digit d = to_lower c"
  by (auto simp: to_digit_def from_digit_def to_lower_def is_ascii_uppercase_def less_eq_char_def Let_def
      split: if_splits)

lemma hex_nibble_lower:
  assumes "hex_nibble (byte_of_char c) = Some n"
  shows "unat n < 16 \<and> HEX ! unat n = to_lower c"
proof -
  obtain d where d: "to_digit 16 c = Some d" "n = of_nat d"
    using assms by (auto simp: hex_nibble_to_digit)
  with to_digit_lower [OF d(1)] show ?thesis by (simp add: unat_of_nat take_bit_nat_eq_self)
qed

lemma nibbles_join: "push_bit 4 (drop_bit 4 b) OR (b AND 0x0F) = (b :: byte)"
proof -
  have "b AND 0x0F = take_bit 4 b" by (simp add: take_bit_eq_mask mask_eq_exp_minus_1 and.commute)
  then show ?thesis by (auto intro!: bit_word_eqI simp: bit_simps)
qed

lemma hex_pairs_encode [simp]: "hex_pairs (as_bytes (encode_hex bs)) = Some bs"
proof (induction bs)
  case (Cons b bs)
  have "hex_nibble (byte_of_char (HEX ! unat (drop_bit 4 b))) = Some (drop_bit 4 b)"
    "hex_nibble (byte_of_char (HEX ! unat (b AND 0x0F))) = Some (b AND 0x0F)"
    using hex_nibble_HEX nibble_range by simp_all
  with Cons show ?case by (simp add: encode_hex_def as_bytes_def nibbles_join)
qed (simp add: encode_hex_def as_bytes_def)

lemma length_encode_hex [simp]: "length (encode_hex bs) = 2 * length bs"
  by (induction bs) (simp_all add: encode_hex_def)

lemma encode_hex_no_colon: "CHR '':'' \<notin> set (encode_hex bs)"
  by (induction bs) (auto simp: encode_hex_def nibble_range from_digit_no_colon)

lemma parse_key_string:
  "length k = KEY_BYTES \<Longrightarrow> parse_key p (to_key_string p k) = Ok k"
  using encode_hex_no_colon [of k]
  by (simp add: parse_key_def to_key_string_def decode_hex_def KEY_HEX_CHARS_def del: append_Cons append_Nil)

text \<open>Two digits join to a byte whose canonical digits are their lower-case forms.\<close>

lemma nibble_bit:
  assumes "unat (w :: byte) < 16" "4 \<le> n"
  shows "\<not> bit w n"
proof -
  have "take_bit 4 (unat w) = unat w" using assms(1) by (simp add: take_bit_nat_eq_self)
  then have "bit (unat w) n \<longleftrightarrow> n < 4 \<and> bit (unat w) n" by (metis bit_take_bit_iff)
  then show ?thesis using assms(2) by (simp add: bit_unsigned_iff)
qed

lemma encode_join:
  assumes "hex_nibble (byte_of_char h) = Some hi" "hex_nibble (byte_of_char l) = Some lo"
  shows "[HEX ! unat (drop_bit 4 (push_bit 4 hi OR lo)), HEX ! unat ((push_bit 4 hi OR lo) AND 0x0F)]
           = [to_lower h, to_lower l]"
proof -
  have b: "bit hi n \<Longrightarrow> n < 4" "bit lo n \<Longrightarrow> n < 4" for n
    using hex_nibble_lower [OF assms(1)] hex_nibble_lower [OF assms(2)] nibble_bit not_le_imp_less
    by blast+
  have m: "(0x0F :: byte) = mask 4" by (simp add: mask_eq_exp_minus_1)
  have "drop_bit 4 (push_bit 4 hi OR lo) = hi" "(push_bit 4 hi OR lo) AND 0x0F = lo"
    unfolding m by (auto intro!: bit_word_eqI simp: bit_simps dest: b)
  then show ?thesis using hex_nibble_lower [OF assms(1)] hex_nibble_lower [OF assms(2)] by simp
qed

lemma hex_pairs_canonical:
  "even (length s) \<Longrightarrow> hex_pairs (as_bytes s) = Some bs \<Longrightarrow> encode_hex bs = to_ascii_lowercase s"
proof (induction s arbitrary: bs rule: induct_list012)
  case (3 h l s)
  then obtain hi lo out where "hex_nibble (byte_of_char h) = Some hi" "hex_nibble (byte_of_char l) = Some lo"
    "hex_pairs (as_bytes s) = Some out" "bs = (push_bit 4 hi OR lo) # out"
    by (auto simp: as_bytes_def Option.bind_eq_Some_conv)
  with 3 encode_join show ?case by (simp add: encode_hex_def to_ascii_lowercase_def)
qed (auto simp: as_bytes_def encode_hex_def to_ascii_lowercase_def)


lemma to_digit_to_lower: "to_digit 16 (to_lower c) = to_digit 16 c"
  by (auto simp: to_digit_def to_lower_def is_ascii_uppercase_def less_eq_char_def Let_def of_char_of)

lemma hex_pairs_lower: "hex_pairs (as_bytes s) = hex_pairs (as_bytes (to_ascii_lowercase s))"
  by (induction s rule: induct_list012)
    (simp_all add: as_bytes_def to_ascii_lowercase_def hex_nibble_to_digit to_digit_to_lower)

lemma to_lower_colon: "to_lower (CHR '':'') = CHR '':''"
  by (simp add: to_lower_def is_ascii_uppercase_def)

lemma hex_pairs_length: "hex_pairs bs = Some out \<Longrightarrow> length out = length bs div 2"
  by (induction bs arbitrary: out rule: hex_pairs.induct) (auto simp: Option.bind_eq_Some_conv)

lemma parse_key_Ok:
  assumes "parse_key p s = Ok k"
  obtains hex where "s = p @ '':'' @ hex" "length hex = KEY_HEX_CHARS" "hex_pairs (as_bytes hex) = Some k"
proof -
  obtain r where r: "strip_prefix s p = Some r" using assms by (auto simp: parse_key_def split: option.splits)
  with assms obtain hex where h: "strip_prefix r '':'' = Some hex"
    by (auto simp: parse_key_def split: option.splits)
  with r assms have "length hex = KEY_HEX_CHARS" "hex_pairs (as_bytes hex) = Some k"
    by (auto simp: parse_key_def decode_hex_def split: if_splits option.splits)
  with r h that show thesis by (auto simp: strip_prefix_Some)
qed

text \<open>The 64 digits of a key, two lower-case hexadecimal digits for each byte.\<close>

definition key_digits :: "raw_key \<Rightarrow> string" where
  "key_digits k = concat (map (\<lambda>b. [from_digit (unat b div 16), from_digit (unat b mod 16)]) k)"

lemma encode_hex_digits: "encode_hex k = key_digits k"
proof -
  have "unat (drop_bit 4 b) = unat b div 16" for b :: byte by (simp add: drop_bit_eq_div unat_div)
  moreover have "unat (b AND 0x0F) = unat b mod 16" for b :: byte
  proof -
    have "b AND 0x0F = take_bit 4 b" by (simp add: take_bit_eq_mask mask_eq_exp_minus_1)
    then show ?thesis by (simp add: take_bit_eq_mod unat_mod)
  qed
  moreover have "HEX ! unat (drop_bit 4 b) = from_digit (unat (drop_bit 4 b))" "HEX ! unat (b AND 0x0F) = from_digit (unat (b AND 0x0F))"
    for b :: byte using nibble_range [of b] by simp_all
  ultimately show ?thesis by (simp add: encode_hex_def key_digits_def)
qed

lemma parse_key_iff:
  "parse_key p s = Ok k \<longleftrightarrow>
     length k = KEY_BYTES \<and> (\<exists>hex. s = p @ '':'' @ hex \<and> to_ascii_lowercase hex = encode_hex k)"
  (is "?l \<longleftrightarrow> ?r")
proof
  assume ?l
  then obtain hex where h: "s = p @ '':'' @ hex" "length hex = KEY_HEX_CHARS" "hex_pairs (as_bytes hex) = Some k"
    by (rule parse_key_Ok)
  have "length k = KEY_BYTES" using hex_pairs_length [OF h(3)] h(2) by (simp add: KEY_HEX_CHARS_def)
  moreover have "encode_hex k = to_ascii_lowercase hex"
    by (rule hex_pairs_canonical [OF _ h(3)]) (simp add: h(2) KEY_HEX_CHARS_def)
  ultimately show ?r using h(1) by auto
next
  assume ?r
  then obtain hex where k: "length k = KEY_BYTES" and s: "s = p @ '':'' @ hex"
    and l: "to_ascii_lowercase hex = encode_hex k" by blast
  have len: "length hex = KEY_HEX_CHARS"
    using arg_cong [OF l, of length] k by (simp add: to_ascii_lowercase_def KEY_HEX_CHARS_def)
  have "hex_pairs (as_bytes hex) = hex_pairs (as_bytes (to_ascii_lowercase hex))"
    by (rule hex_pairs_lower)
  then have "hex_pairs (as_bytes hex) = Some k" by (simp add: l)
  moreover have "CHR '':'' \<notin> set hex"
    using encode_hex_no_colon [of k] by (auto simp: l [symmetric] to_ascii_lowercase_def to_lower_colon image_iff)
  ultimately show ?l using len by (simp add: parse_key_def s decode_hex_def del: append_Cons append_Nil)
qed

text \<open>
  C40. A key string parses to a key exactly when it is the type prefix, a colon and 64 characters that are, up to
  letter case, the hexadecimal digits of the 32 bytes of the key. A key is printed as its prefix, a colon and these
  digits in lower case, and the printed string parses back to the key.
\<close>

theorem parse_key_exact:
  "(parse_key p s = Ok k \<longleftrightarrow>
      length k = 32 \<and> (\<exists>hex. s = p @ '':'' @ hex \<and> to_ascii_lowercase hex = key_digits k))
   \<and> to_key_string p k = p @ '':'' @ key_digits k
   \<and> (length k = 32 \<longrightarrow> parse_key p (to_key_string p k) = Ok k)"
  using parse_key_iff [of p s k] parse_key_string [of k p]
  by (simp add: encode_hex_digits to_key_string_def KEY_BYTES_def)

theorem parse_key_exact_witness:
  "parse_key MKEY (to_key_string MKEY (replicate 32 0xAB)) = Ok (replicate 32 0xAB)"
proof -
  have "length (replicate 32 (0xAB :: byte)) = 32" by simp
  with parse_key_exact [of MKEY "[]" "replicate 32 0xAB"] show ?thesis by blast
qed

end
