(* ===== verification/Proto_Types.thy ===== *)
theory Proto_Types
  imports Proto_Key Policy_Ssh
begin

text \<open>
  The message types of the control protocol in \<^verbatim>\<open>crabscale-proto/src\<close>, field by field, with the value
  of their derived \<^verbatim>\<open>Default\<close>, and the capability-version gates of \<^verbatim>\<open>capver.rs\<close>. Unsigned integers are
  natural numbers; the serde attributes are the serde crate and are not modelled.
\<close>

section \<open>Host information\<close>

record net_info =
  ni_mapping_varies_by_dest_ip :: "bool option"
  ni_working_ipv6 :: "bool option"
  ni_os_has_ipv6 :: "bool option"
  ni_working_udp :: "bool option"
  ni_working_icmpv4 :: "bool option"
  ni_have_port_map :: "bool"
  ni_upnp :: "bool option"
  ni_pmp :: "bool option"
  ni_pcp :: "bool option"
  ni_preferred_derp :: "nat"
  ni_link_type :: "string"

record hostinfo =
  hi_ipn_version :: "string"
  hi_frontend_log_id :: "string"
  hi_backend_log_id :: "string"
  hi_os :: "string"
  hi_os_version :: "string"
  hi_container :: "bool option"
  hi_env :: "string"
  hi_distro :: "string"
  hi_distro_version :: "string"
  hi_distro_code_name :: "string"
  hi_app :: "string"
  hi_desktop :: "bool option"
  hi_package :: "string"
  hi_device_model :: "string"
  hi_push_device_token :: "string"
  hi_hostname :: "string"
  hi_shields_up :: "bool"
  hi_sharee_node :: "bool"
  hi_no_logs_no_support :: "bool"
  hi_wire_ingress :: "bool"
  hi_ingress_enabled :: "bool"
  hi_allows_update :: "bool"
  hi_machine :: "string"
  hi_go_arch :: "string"
  hi_go_arch_var :: "string"
  hi_go_version :: "string"
  hi_routable_ips :: "string list option"
  hi_request_tags :: "string list option"
  hi_wol_macs :: "string list option"
  hi_net_info :: "net_info option"
  hi_ssh_host_keys :: "string list option"
  hi_cloud :: "string"
  hi_userspace :: "bool option"
  hi_userspace_router :: "bool option"
  hi_app_connector :: "bool option"
  hi_services_hash :: "string"
  hi_exit_node_id :: "string"
  hi_state_encrypted :: "bool option"

definition hostinfo_default :: hostinfo where
  "hostinfo_default =
    \<lparr>hi_ipn_version = [],
     hi_frontend_log_id = [],
     hi_backend_log_id = [],
     hi_os = [],
     hi_os_version = [],
     hi_container = None,
     hi_env = [],
     hi_distro = [],
     hi_distro_version = [],
     hi_distro_code_name = [],
     hi_app = [],
     hi_desktop = None,
     hi_package = [],
     hi_device_model = [],
     hi_push_device_token = [],
     hi_hostname = [],
     hi_shields_up = False,
     hi_sharee_node = False,
     hi_no_logs_no_support = False,
     hi_wire_ingress = False,
     hi_ingress_enabled = False,
     hi_allows_update = False,
     hi_machine = [],
     hi_go_arch = [],
     hi_go_arch_var = [],
     hi_go_version = [],
     hi_routable_ips = None,
     hi_request_tags = None,
     hi_wol_macs = None,
     hi_net_info = None,
     hi_ssh_host_keys = None,
     hi_cloud = [],
     hi_userspace = None,
     hi_userspace_router = None,
     hi_app_connector = None,
     hi_services_hash = [],
     hi_exit_node_id = [],
     hi_state_encrypted = None\<rparr>"

section \<open>Registration\<close>

record register_auth =
  ra_auth_key :: "string"

record register_request =
  rq_version :: "nat"
  rq_node_key :: "raw_key"
  rq_old_node_key :: "string"
  rq_nl_key :: "string"
  rq_auth :: "register_auth option"
  rq_expiry :: "string"
  rq_followup :: "string"
  rq_hostinfo :: "hostinfo option"
  rq_ephemeral :: "bool"

definition register_request_default :: register_request where
  "register_request_default =
    \<lparr>rq_version = 0,
     rq_node_key = replicate KEY_BYTES 0,
     rq_old_node_key = [],
     rq_nl_key = [],
     rq_auth = None,
     rq_expiry = [],
     rq_followup = [],
     rq_hostinfo = None,
     rq_ephemeral = False\<rparr>"

record register_response =
  rr_user :: "nat"
  rr_login :: "nat"
  rr_node_key_expired :: "bool"
  rr_machine_authorized :: "bool"
  rr_auth_url :: "string"
  rr_error :: "string"

definition register_response_default :: register_response where
  "register_response_default =
    \<lparr>rr_user = 0,
     rr_login = 0,
     rr_node_key_expired = False,
     rr_machine_authorized = False,
     rr_auth_url = [],
     rr_error = []\<rparr>"

section \<open>Relay map, DNS and pings\<close>

record derp_node =
  dn_name :: "string"
  dn_region_id :: "nat"
  dn_host_name :: "string"
  dn_cert_name :: "string"
  dn_ipv4 :: "string"
  dn_ipv6 :: "string"
  dn_stun_port :: "int"
  dn_stun_only :: "bool"
  dn_derp_port :: "int"
  dn_insecure_for_tests :: "bool"
  dn_stun_test_ip :: "string"
  dn_can_port_80 :: "bool"

definition derp_node_default :: derp_node where
  "derp_node_default =
    \<lparr>dn_name = [],
     dn_region_id = 0,
     dn_host_name = [],
     dn_cert_name = [],
     dn_ipv4 = [],
     dn_ipv6 = [],
     dn_stun_port = 0,
     dn_stun_only = False,
     dn_derp_port = 0,
     dn_insecure_for_tests = False,
     dn_stun_test_ip = [],
     dn_can_port_80 = False\<rparr>"

record derp_region =
  dr_region_id :: "nat"
  dr_region_code :: "string"
  dr_region_name :: "string"
  dr_avoid :: "bool"
  dr_nodes :: "derp_node list"

definition derp_region_default :: derp_region where
  "derp_region_default =
    \<lparr>dr_region_id = 0,
     dr_region_code = [],
     dr_region_name = [],
     dr_avoid = False,
     dr_nodes = []\<rparr>"

record derp_map =
  dm_regions :: "(string, derp_region) btree"
  dm_omit_default_regions :: "bool"

definition derp_map_default :: derp_map where
  "derp_map_default =
    \<lparr>dm_regions = [],
     dm_omit_default_regions = False\<rparr>"

record dns_resolver =
  res_addr :: "string"
  res_bootstrap_resolution :: "string list"

definition dns_resolver_default :: dns_resolver where
  "dns_resolver_default =
    \<lparr>res_addr = [],
     res_bootstrap_resolution = []\<rparr>"

record dns_record =
  rec_name :: "string"
  rec_rec_type :: "string"
  rec_class :: "nat"
  rec_ttl :: "nat"
  rec_value :: "string"

definition dns_record_default :: dns_record where
  "dns_record_default =
    \<lparr>rec_name = [],
     rec_rec_type = [],
     rec_class = 0,
     rec_ttl = 0,
     rec_value = []\<rparr>"

record dns_config =
  dc_resolvers :: "dns_resolver list"
  dc_routes :: "(string, dns_resolver list) btree"
  dc_search_domains :: "string list"
  dc_domains :: "string list"
  dc_proxied :: "bool"
  dc_magic_dns_suffix :: "string"
  dc_extra_records :: "dns_record list"

definition dns_config_default :: dns_config where
  "dns_config_default =
    \<lparr>dc_resolvers = [],
     dc_routes = [],
     dc_search_domains = [],
     dc_domains = [],
     dc_proxied = False,
     dc_magic_dns_suffix = [],
     dc_extra_records = []\<rparr>"

record ping_request =
  pg_url :: "string"
  pg_url_is_noise :: "bool"
  pg_log :: "bool"
  pg_types :: "string"
  pg_ip :: "string"
  pg_payload :: "string option"

section \<open>Network maps\<close>

record proto_node =
  pn_id :: "nat"
  pn_stable_id :: "string"
  pn_name :: "string"
  pn_user :: "nat"
  pn_key :: "raw_key"
  pn_machine :: "raw_key"
  pn_disco_key :: "raw_key"
  pn_addresses :: "string list"
  pn_allowed_ips :: "string list option"
  pn_endpoints :: "string list"
  pn_home_derp :: "nat"
  pn_hostinfo :: "hostinfo option"
  pn_created :: "string"
  pn_cap :: "nat"
  pn_tags :: "string list option"
  pn_cap_map :: "(string, json list) btree"
  pn_primary_routes :: "string list"
  pn_last_seen :: "string option"
  pn_online :: "bool option"
  pn_machine_authorized :: "bool"
  pn_capabilities :: "string list"

definition proto_node_default :: proto_node where
  "proto_node_default =
    \<lparr>pn_id = 0,
     pn_stable_id = [],
     pn_name = [],
     pn_user = 0,
     pn_key = replicate KEY_BYTES 0,
     pn_machine = replicate KEY_BYTES 0,
     pn_disco_key = replicate KEY_BYTES 0,
     pn_addresses = [],
     pn_allowed_ips = None,
     pn_endpoints = [],
     pn_home_derp = 0,
     pn_hostinfo = None,
     pn_created = [],
     pn_cap = 0,
     pn_tags = None,
     pn_cap_map = [],
     pn_primary_routes = [],
     pn_last_seen = None,
     pn_online = None,
     pn_machine_authorized = False,
     pn_capabilities = []\<rparr>"

record user_profile =
  up_id :: "nat"
  up_login_name :: "string"
  up_display_name :: "string"
  up_profile_pic_url :: "string"
  up_groups :: "string list"

definition user_profile_default :: user_profile where
  "user_profile_default =
    \<lparr>up_id = 0,
     up_login_name = [],
     up_display_name = [],
     up_profile_pic_url = [],
     up_groups = []\<rparr>"

record peer_change =
  pc_node_id :: "nat"
  pc_derp_region :: "nat option"
  pc_endpoints :: "string list option"
  pc_key :: "raw_key option"
  pc_disco_key :: "raw_key option"
  pc_online :: "bool option"
  pc_last_seen :: "string option"
  pc_key_expiry :: "string option"
  pc_cap :: "nat option"

definition peer_change_default :: peer_change where
  "peer_change_default =
    \<lparr>pc_node_id = 0,
     pc_derp_region = None,
     pc_endpoints = None,
     pc_key = None,
     pc_disco_key = None,
     pc_online = None,
     pc_last_seen = None,
     pc_key_expiry = None,
     pc_cap = None\<rparr>"

record map_request =
  mq_version :: "nat"
  mq_compress :: "string"
  mq_keep_alive :: "bool"
  mq_node_key :: "raw_key"
  mq_disco_key :: "raw_key"
  mq_stream :: "bool"
  mq_hostinfo :: "hostinfo option"
  mq_endpoints :: "string list"
  mq_endpoint_types :: "nat list"
  mq_omit_peers :: "bool"
  mq_read_only :: "bool"
  mq_tka_head :: "string"
  mq_map_session_handle :: "string"
  mq_map_session_seq :: "int"

definition map_request_default :: map_request where
  "map_request_default =
    \<lparr>mq_version = 0,
     mq_compress = [],
     mq_keep_alive = False,
     mq_node_key = replicate KEY_BYTES 0,
     mq_disco_key = replicate KEY_BYTES 0,
     mq_stream = False,
     mq_hostinfo = None,
     mq_endpoints = [],
     mq_endpoint_types = [],
     mq_omit_peers = False,
     mq_read_only = False,
     mq_tka_head = [],
     mq_map_session_handle = [],
     mq_map_session_seq = 0\<rparr>"

record map_response =
  mr_map_session_handle :: "string"
  mr_seq :: "int"
  mr_keep_alive :: "bool"
  mr_ping_request :: "ping_request option"
  mr_pop_browser_url :: "string"
  mr_node :: "proto_node option"
  mr_derp_map :: "derp_map option"
  mr_domain :: "string"
  mr_dns :: "dns_config option"
  mr_peers :: "proto_node list option"
  mr_peers_changed :: "proto_node list option"
  mr_peers_removed :: "nat list option"
  mr_peers_changed_patch :: "peer_change list option"
  mr_peer_seen_change :: "(nat, bool) btree option"
  mr_online_change :: "(nat, bool) btree option"
  mr_collect_services :: "bool option"
  mr_packet_filter :: "filter_rule list option"
  mr_packet_filters :: "(string, filter_rule list) btree option"
  mr_user_profiles :: "user_profile list"
  mr_ssh_policy :: "wire_ssh_policy option"
  mr_control_time :: "string"

definition map_response_default :: map_response where
  "map_response_default =
    \<lparr>mr_map_session_handle = [],
     mr_seq = 0,
     mr_keep_alive = False,
     mr_ping_request = None,
     mr_pop_browser_url = [],
     mr_node = None,
     mr_derp_map = None,
     mr_domain = [],
     mr_dns = None,
     mr_peers = None,
     mr_peers_changed = None,
     mr_peers_removed = None,
     mr_peers_changed_patch = None,
     mr_peer_seen_change = None,
     mr_online_change = None,
     mr_collect_services = None,
     mr_packet_filter = None,
     mr_packet_filters = None,
     mr_user_profiles = [],
     mr_ssh_policy = None,
     mr_control_time = []\<rparr>"

section \<open>Capability versions\<close>

definition MIN_SUPPORTED_CAPVER :: nat where "MIN_SUPPORTED_CAPVER = 113"
definition STREAMING_READ_ONLY_CAPVER :: nat where "STREAMING_READ_ONLY_CAPVER = 68"
definition PACKET_FILTERS_CAPVER :: nat where "PACKET_FILTERS_CAPVER = 81"
definition HOME_DERP_INTEGER_CAPVER :: nat where "HOME_DERP_INTEGER_CAPVER = 111"
definition ALLOWED_IPS_NULL_CAPVER :: nat where "ALLOWED_IPS_NULL_CAPVER = 112"
definition DISPLAY_MESSAGES_CAPVER :: nat where "DISPLAY_MESSAGES_CAPVER = 117"
definition HARDWARE_ATTESTATION_CAPVER :: nat where "HARDWARE_ATTESTATION_CAPVER = 130"

definition streaming_read_only :: "nat \<Rightarrow> bool" where
  "streaming_read_only version \<longleftrightarrow> version \<ge> STREAMING_READ_ONLY_CAPVER"
definition prefers_incremental_packet_filters :: "nat \<Rightarrow> bool" where
  "prefers_incremental_packet_filters version \<longleftrightarrow> version \<ge> PACKET_FILTERS_CAPVER"
definition uses_integer_home_derp :: "nat \<Rightarrow> bool" where
  "uses_integer_home_derp version \<longleftrightarrow> version \<ge> HOME_DERP_INTEGER_CAPVER"
definition allowed_ips_null_means_addresses :: "nat \<Rightarrow> bool" where
  "allowed_ips_null_means_addresses version \<longleftrightarrow> version \<ge> ALLOWED_IPS_NULL_CAPVER"
definition may_emit_structured_display_messages :: "nat \<Rightarrow> bool" where
  "may_emit_structured_display_messages version \<longleftrightarrow> version \<ge> DISPLAY_MESSAGES_CAPVER"
definition may_read_hardware_attestation :: "nat \<Rightarrow> bool" where
  "may_read_hardware_attestation version \<longleftrightarrow> version \<ge> HARDWARE_ATTESTATION_CAPVER"

end
