(* ===== verification/Control_Model.thy ===== *)
theory Control_Model
  imports Proto_Types
begin

text \<open>
  The durable entities of the control plane, \<^verbatim>\<open>crabscale-control/src/model.rs\<close>, the time helpers of
  \<^verbatim>\<open>time.rs\<close> and the pre-auth key format of \<^verbatim>\<open>preauth.rs\<close>. What these take from other crates and from the
  host (chrono's RFC 3339 reader, the hex and Blake2b functions, the clock, the random bytes, serde, zstd and
  the file system) is the record \<^verbatim>\<open>world\<close>; it has one reading of the clock and of each random draw per operation.
  Identifiers of type \<^verbatim>\<open>i64\<close> are integers, and \<^verbatim>\<open>as u64\<close> is reduction modulo two to the 64.
\<close>

section \<open>The environment\<close>

text \<open>The constraint violations of SQLite that the schema can raise; the text of the message is SQLite's.\<close>

datatype sqlite_failure = UniqueFailed string | ForeignKeyFailed

record world =
  w_rfc3339 :: "string \<Rightarrow> int option"
  w_now :: string
  w_now_unix :: int
  w_now_plus :: "int \<Rightarrow> string"
  w_blake2b :: "bytes \<Rightarrow> bytes"
  w_hex_encode :: "bytes \<Rightarrow> string"
  w_hex_decode :: "string \<Rightarrow> bytes option"
  w_secret_bytes :: bytes
  w_salt :: bytes
  w_gen4 :: "u32 \<Rightarrow> nat \<Rightarrow> u32"
  w_gen6 :: "u128 \<Rightarrow> nat \<Rightarrow> u128"
  w_to_json :: "map_response \<Rightarrow> bytes option"
  w_zstd :: "bytes \<Rightarrow> bytes option"
  w_read_file :: "string \<Rightarrow> (string, bytes) result"
  w_sqlite_message :: "sqlite_failure \<Rightarrow> string"

definition as_u64 :: "int \<Rightarrow> nat" where
  "as_u64 i = nat (i mod 2 ^ 64)"

definition as_i64 :: "nat \<Rightarrow> int" where
  "as_i64 n = (let r = int n mod 2 ^ 64 in if r < 2 ^ 63 then r else r - 2 ^ 64)"

section \<open>Time\<close>

definition now_rfc3339 :: "world \<Rightarrow> string" where "now_rfc3339 w = w_now w"
definition now_unix :: "world \<Rightarrow> int" where "now_unix w = w_now_unix w"
definition now_plus_seconds :: "world \<Rightarrow> int \<Rightarrow> string" where "now_plus_seconds w secs = w_now_plus w secs"

definition parse_rfc3339 :: "world \<Rightarrow> string \<Rightarrow> int option" where
  "parse_rfc3339 w s = w_rfc3339 w (trim s)"

definition is_past :: "world \<Rightarrow> string \<Rightarrow> string \<Rightarrow> bool" where
  "is_past w ts now =
     (case (parse_rfc3339 w ts, parse_rfc3339 w now) of (Some a, Some b) \<Rightarrow> a < b | _ \<Rightarrow> False)"

definition is_future :: "world \<Rightarrow> string \<Rightarrow> string \<Rightarrow> bool" where
  "is_future w ts now =
     (case (parse_rfc3339 w ts, parse_rfc3339 w now) of (Some a, Some b) \<Rightarrow> a > b | _ \<Rightarrow> False)"

section \<open>Pre-auth keys\<close>

definition AUTH_KEY_PREFIX :: string where "AUTH_KEY_PREFIX = ''hskey-auth-''"
definition SECRET_BYTES :: nat where "SECRET_BYTES = 32"

definition generate_secret :: "world \<Rightarrow> string" where
  "generate_secret w = w_hex_encode w (w_secret_bytes w)"

definition format_auth_key :: "string \<Rightarrow> string \<Rightarrow> string" where
  "format_auth_key pre secret = AUTH_KEY_PREFIX @ pre @ ''-'' @ secret"

definition parse_auth_key :: "string \<Rightarrow> (string \<times> string) option" where
  "parse_auth_key key =
     Option.bind (strip_prefix key AUTH_KEY_PREFIX) (\<lambda>rest.
     Option.bind (split_once CHR ''-'' rest) (\<lambda>(pre, secret).
       if pre = [] \<or> secret = [] then None else Some (pre, secret)))"

definition hash_secret :: "world \<Rightarrow> string \<Rightarrow> string" where
  "hash_secret w secret =
     (let salt = w_salt w; digest = w_blake2b w (salt @ as_bytes secret) in
      w_hex_encode w salt @ ''$'' @ w_hex_encode w digest)"

definition verify_secret :: "world \<Rightarrow> string \<Rightarrow> string \<Rightarrow> bool" where
  "verify_secret w secret stored =
     (case split_once CHR ''$'' stored of
        None \<Rightarrow> False
      | Some (salt_hex, hash_hex) \<Rightarrow>
          (case w_hex_decode w salt_hex of
             None \<Rightarrow> False
           | Some salt \<Rightarrow> w_hex_encode w (w_blake2b w (salt @ as_bytes secret)) = hash_hex))"

section \<open>Entities\<close>

record user =
  u_id :: int
  u_login_name :: string
  u_display_name :: string
  u_created_at :: string

record login =
  l_id :: int
  l_user_id :: int
  l_provider :: string
  l_login_name :: string
  l_created_at :: string

record node =
  n_id :: int
  n_stable_id :: string
  n_name :: string
  n_user_id :: "int option"
  n_node_key :: raw_key
  n_machine_key :: raw_key
  n_disco_key :: raw_key
  n_addresses :: "string list"
  n_allowed_ips :: "string list option"
  n_endpoints :: "string list"
  n_endpoint_types :: "nat list"
  n_home_derp :: nat
  n_hostinfo :: "hostinfo option"
  n_created :: string
  n_cap :: nat
  n_tags :: "string list option"
  n_advertised_routes :: "string list"
  n_approved_routes :: "string list"
  n_machine_authorized :: bool
  n_ephemeral :: bool
  n_last_seen :: "string option"
  n_key_expiry :: "string option"

definition to_proto :: "node \<Rightarrow> proto_node" where
  "to_proto n = proto_node_default
     \<lparr>pn_id := as_u64 (n_id n),
      pn_stable_id := n_stable_id n,
      pn_name := n_name n,
      pn_user := as_u64 (case n_user_id n of Some i \<Rightarrow> i | None \<Rightarrow> 0),
      pn_key := n_node_key n,
      pn_machine := n_machine_key n,
      pn_disco_key := n_disco_key n,
      pn_addresses := n_addresses n,
      pn_allowed_ips := n_allowed_ips n,
      pn_endpoints := n_endpoints n,
      pn_home_derp := n_home_derp n,
      pn_hostinfo := n_hostinfo n,
      pn_created := n_created n,
      pn_cap := n_cap n,
      pn_tags := n_tags n,
      pn_last_seen := n_last_seen n,
      pn_machine_authorized := n_machine_authorized n\<rparr>"

record pre_auth_key =
  k_id :: int
  k_prefix :: string
  k_secret_hash :: string
  k_reusable :: bool
  k_ephemeral :: bool
  k_expiration :: "string option"
  k_revoked :: bool
  k_used :: bool
  k_tags :: "string list option"
  k_user_id :: int
  k_created_at :: string

record policy_doc =
  pd_id :: int
  pd_name :: string
  pd_body :: string
  pd_created_at :: string

record session_row =
  sr_id :: int
  sr_node_id :: int
  sr_machine_key :: raw_key
  sr_created_at :: string
  sr_last_seen :: string
  sr_closed_at :: "string option"

section \<open>Keys and secrets read back\<close>

text \<open>What \<^verbatim>\<open>hex\<close> documents: decoding inverts encoding, and encoded text is lowercase hexadecimal.\<close>

definition hex_law :: "world \<Rightarrow> bool" where
  "hex_law w \<longleftrightarrow> (\<forall>b. w_hex_decode w (w_hex_encode w b) = Some b \<and> set (w_hex_encode w b) \<subseteq> set ''0123456789abcdef'')"

lemma parse_auth_key_iff:
  "parse_auth_key key = Some (pre, secret) \<longleftrightarrow>
     key = format_auth_key pre secret \<and> pre \<noteq> [] \<and> CHR ''-'' \<notin> set pre \<and> secret \<noteq> []"
proof
  assume "parse_auth_key key = Some (pre, secret)"
  then obtain rest where r: "strip_prefix key AUTH_KEY_PREFIX = Some rest" "split_once CHR ''-'' rest = Some (pre, secret)"
      "pre \<noteq> []" "secret \<noteq> []"
    by (auto simp: parse_auth_key_def Option.bind_eq_Some_conv split: if_splits)
  then show "key = format_auth_key pre secret \<and> pre \<noteq> [] \<and> CHR ''-'' \<notin> set pre \<and> secret \<noteq> []"
    using r by (simp add: strip_prefix_Some split_once_Some format_auth_key_def)
next
  assume "key = format_auth_key pre secret \<and> pre \<noteq> [] \<and> CHR ''-'' \<notin> set pre \<and> secret \<noteq> []"
  then show "parse_auth_key key = Some (pre, secret)"
    by (simp add: parse_auth_key_def format_auth_key_def Option.bind_eq_Some_conv strip_prefix_Some)
qed

lemma hash_secret_split:
  assumes "hex_law w"
  shows "split_once CHR ''$'' (hash_secret w s) = Some (w_hex_encode w (w_salt w), w_hex_encode w (w_blake2b w (w_salt w @ as_bytes s)))"
proof -
  have "set (w_hex_encode w (w_salt w)) \<subseteq> set ''0123456789abcdef''" using assms by (simp add: hex_law_def)
  moreover have "CHR ''$'' \<notin> set ''0123456789abcdef''" by simp
  ultimately have "CHR ''$'' \<notin> set (w_hex_encode w (w_salt w))" by blast
  then show ?thesis by (simp add: hash_secret_def Let_def)
qed

text \<open>A stored hash is verified exactly by the secrets that collide with the hashed one under its salt.\<close>

lemma hex_encode_inj: "hex_law w \<Longrightarrow> w_hex_encode w a = w_hex_encode w b \<longleftrightarrow> a = b"
  by (metis hex_law_def option.inject)

lemma verify_hash_secret:
  assumes "hex_law w" "hex_law w'" "w_hex_encode w' = w_hex_encode w" "w_hex_decode w' = w_hex_decode w" "w_blake2b w' = w_blake2b w"
  shows "verify_secret w' s (hash_secret w t) \<longleftrightarrow>
     w_blake2b w (w_salt w @ as_bytes s) = w_blake2b w (w_salt w @ as_bytes t)"
  using assms hash_secret_split [OF assms(1), of t]
  by (simp add: verify_secret_def hex_encode_inj) (simp add: hex_law_def hex_encode_inj)

end
