(* ===== verification/Control_Pending.thy ===== *)
theory Control_Pending
  imports Control_Model
begin

text \<open>
  The cache of pending interactive registrations, \<^verbatim>\<open>crabscale-control/src/pending.rs\<close>: a map with a queue of its
  keys, least recently used first. The refinement to a plain recency list, and the bound, are proved here.
\<close>

definition DEFAULT_PENDING_TTL_SECONDS :: int where "DEFAULT_PENDING_TTL_SECONDS = 15 * 60"
definition DEFAULT_PENDING_CACHE_LIMIT :: nat where "DEFAULT_PENDING_CACHE_LIMIT = 1024"

datatype pending_verdict = VPending | VApproved int "string list option" | VRejected

record pending_registration =
  pr_auth_id :: string
  pr_machine_key :: raw_key
  pr_node_key :: raw_key
  pr_hostinfo :: "hostinfo option"
  pr_expiry :: string
  pr_version :: nat
  pr_ephemeral :: bool
  pr_created_at :: string
  pr_expires_at :: string
  pr_verdict :: pending_verdict

record pending_cache =
  pca_entries :: "(string \<times> pending_registration) list"
  pca_order :: "string list"
  pca_limit :: nat

definition pending_cache_new :: "nat \<Rightarrow> pending_cache" where
  "pending_cache_new limit = \<lparr>pca_entries = [], pca_order = [], pca_limit = limit\<rparr>"

text \<open>The hash map is an association list without repeated keys.\<close>

definition hm_insert :: "'k \<Rightarrow> 'v \<Rightarrow> ('k \<times> 'v) list \<Rightarrow> ('k \<times> 'v) list" where
  "hm_insert k v m = (k, v) # filter (\<lambda>e. fst e \<noteq> k) m"

definition hm_remove :: "'k \<Rightarrow> ('k \<times> 'v) list \<Rightarrow> ('k \<times> 'v) list" where
  "hm_remove k m = filter (\<lambda>e. fst e \<noteq> k) m"

text \<open>\<^verbatim>\<open>remove(pos)\<close> of the first occurrence, pushed to the back.\<close>

definition cache_touch :: "string \<Rightarrow> pending_cache \<Rightarrow> pending_cache" where
  "cache_touch auth_id c =
     (if auth_id \<in> set (pca_order c)
      then c\<lparr>pca_order := remove1 auth_id (pca_order c) @ [auth_id]\<rparr> else c)"

definition cache_insert :: "pending_registration \<Rightarrow> pending_cache \<Rightarrow> pending_cache" where
  "cache_insert entry c =
     (let auth_id = pr_auth_id entry in
      if map_of (pca_entries c) auth_id \<noteq> None
      then cache_touch auth_id (c\<lparr>pca_entries := hm_insert auth_id entry (pca_entries c)\<rparr>)
      else
        let c = (if length (pca_entries c) \<ge> pca_limit c
                 then (case pca_order c of
                         [] \<Rightarrow> c
                       | oldest # order \<Rightarrow>
                           c\<lparr>pca_order := order, pca_entries := hm_remove oldest (pca_entries c)\<rparr>)
                 else c) in
        c\<lparr>pca_order := pca_order c @ [auth_id], pca_entries := hm_insert auth_id entry (pca_entries c)\<rparr>)"

definition cache_get :: "string \<Rightarrow> pending_cache \<Rightarrow> pending_registration option \<times> pending_cache" where
  "cache_get auth_id c =
     (let c = (if map_of (pca_entries c) auth_id \<noteq> None then cache_touch auth_id c else c) in
      (map_of (pca_entries c) auth_id, c))"

text \<open>\<^verbatim>\<open>get_mut\<close>: the caller's change of the borrowed entry is the function.\<close>

definition cache_get_mut ::
  "string \<Rightarrow> (pending_registration \<Rightarrow> pending_registration) \<Rightarrow> pending_cache \<Rightarrow> bool \<times> pending_cache" where
  "cache_get_mut auth_id f c =
     (let c = (if map_of (pca_entries c) auth_id \<noteq> None then cache_touch auth_id c else c) in
      case map_of (pca_entries c) auth_id of
        None \<Rightarrow> (False, c)
      | Some e \<Rightarrow> (True, c\<lparr>pca_entries := hm_insert auth_id (f e) (pca_entries c)\<rparr>))"

definition cache_remove :: "string \<Rightarrow> pending_cache \<Rightarrow> pending_registration option \<times> pending_cache" where
  "cache_remove auth_id c =
     (case map_of (pca_entries c) auth_id of
        None \<Rightarrow> (None, c)
      | Some e \<Rightarrow> (Some e, c\<lparr>pca_entries := hm_remove auth_id (pca_entries c),
                           pca_order := filter (\<lambda>i. i \<noteq> auth_id) (pca_order c)\<rparr>))"

definition cache_len :: "pending_cache \<Rightarrow> nat" where "cache_len c = length (pca_entries c)"
definition cache_is_empty :: "pending_cache \<Rightarrow> bool" where "cache_is_empty c \<longleftrightarrow> pca_entries c = []"

section \<open>The invariant\<close>

definition cache_inv :: "pending_cache \<Rightarrow> bool" where
  "cache_inv c \<longleftrightarrow> distinct (map fst (pca_entries c)) \<and> distinct (pca_order c) \<and>
     set (pca_order c) = fst ` set (pca_entries c)"

lemma cache_inv_len: "cache_inv c \<Longrightarrow> length (pca_order c) = length (pca_entries c)"
  unfolding cache_inv_def by (metis distinct_card length_map set_map)

lemma hm_insert_keys [simp]: "fst ` set (hm_insert k v m) = insert k (fst ` set m)"
  by (auto simp: hm_insert_def)

lemma hm_remove_keys [simp]: "fst ` set (hm_remove k m) = fst ` set m - {k}"
  by (auto simp: hm_remove_def)

lemma distinct_map_filter_fst: "distinct (map fst m) \<Longrightarrow> distinct (map fst (filter P m))"
  by (induction m) auto

lemma hm_insert_distinct [simp]: "distinct (map fst m) \<Longrightarrow> distinct (map fst (hm_insert k v m))"
  by (auto simp: hm_insert_def distinct_map_filter_fst)

lemma hm_remove_distinct [simp]: "distinct (map fst m) \<Longrightarrow> distinct (map fst (hm_remove k m))"
  by (auto simp: hm_remove_def distinct_map_filter_fst)

lemma map_of_hm_remove [simp]: "map_of (hm_remove k m) = (map_of m)(k := None)"
  by (induction m) (auto simp: hm_remove_def fun_eq_iff)

lemma map_of_hm_insert [simp]: "map_of (hm_insert k v m) = (map_of m)(k \<mapsto> v)"
  using map_of_hm_remove [of k m] by (simp add: hm_insert_def hm_remove_def)

lemma map_of_in_keys: "map_of m k \<noteq> None \<longleftrightarrow> k \<in> fst ` set m"
  by (simp add: map_of_eq_None_iff)

lemma cache_inv_touch: "cache_inv c \<Longrightarrow> cache_inv (cache_touch a c)"
  by (auto simp: cache_inv_def cache_touch_def)

lemma cache_inv_entries:
  "cache_inv c \<Longrightarrow> k \<in> fst ` set (pca_entries c) \<Longrightarrow> cache_inv (c\<lparr>pca_entries := hm_insert k v (pca_entries c)\<rparr>)"
  by (simp add: cache_inv_def insert_absorb)

definition evict :: "pending_cache \<Rightarrow> pending_cache" where
  "evict c = (case pca_order c of [] \<Rightarrow> c
     | oldest # order \<Rightarrow> c\<lparr>pca_order := order, pca_entries := hm_remove oldest (pca_entries c)\<rparr>)"

lemma cache_inv_evict: "cache_inv c \<Longrightarrow> cache_inv (evict c)"
proof (cases "pca_order c")
  case (Cons x xs)
  assume inv: "cache_inv c"
  have "set xs = insert x (set xs) - {x}" using inv Cons by (auto simp: cache_inv_def)
  also have "insert x (set xs) = fst ` set (pca_entries c)" using inv Cons by (simp add: cache_inv_def)
  finally show ?thesis using inv Cons by (simp add: cache_inv_def evict_def)
qed (simp add: evict_def)

lemma cache_inv_push:
  "cache_inv c \<Longrightarrow> k \<notin> fst ` set (pca_entries c) \<Longrightarrow>
     cache_inv (c\<lparr>pca_order := pca_order c @ [k], pca_entries := hm_insert k v (pca_entries c)\<rparr>)"
  by (auto simp: cache_inv_def)

lemma evict_keys: "fst ` set (pca_entries (evict c)) \<subseteq> fst ` set (pca_entries c)"
  by (auto simp: evict_def split: list.splits)

lemma cache_insert_eq:
  "cache_insert e c =
     (if pr_auth_id e \<in> fst ` set (pca_entries c)
      then cache_touch (pr_auth_id e) (c\<lparr>pca_entries := hm_insert (pr_auth_id e) e (pca_entries c)\<rparr>)
      else let c = (if length (pca_entries c) \<ge> pca_limit c then evict c else c) in
        c\<lparr>pca_order := pca_order c @ [pr_auth_id e], pca_entries := hm_insert (pr_auth_id e) e (pca_entries c)\<rparr>)"
  by (simp only: cache_insert_def Let_def map_of_in_keys evict_def)

lemma cache_inv_insert: "cache_inv c \<Longrightarrow> cache_inv (cache_insert e c)"
  using evict_keys [of c]
  by (auto simp: cache_insert_eq Let_def intro!: cache_inv_touch cache_inv_entries cache_inv_push cache_inv_evict)

lemma cache_inv_remove: "cache_inv c \<Longrightarrow> cache_inv (snd (cache_remove a c))"
  by (auto simp: cache_remove_def cache_inv_def split: option.splits)

section \<open>Refinement to a recency list\<close>

text \<open>The abstract cache: the entries themselves, least recently used first.\<close>

definition recency :: "pending_cache \<Rightarrow> (string \<times> pending_registration) list" where
  "recency c = map (\<lambda>i. (i, the (map_of (pca_entries c) i))) (pca_order c)"

definition forget :: "string \<Rightarrow> (string \<times> 'v) list \<Rightarrow> (string \<times> 'v) list" where
  "forget k xs = filter (\<lambda>e. fst e \<noteq> k) xs"

definition lru_insert :: "nat \<Rightarrow> string \<Rightarrow> 'v \<Rightarrow> (string \<times> 'v) list \<Rightarrow> (string \<times> 'v) list" where
  "lru_insert limit k v xs =
     (if k \<in> fst ` set xs then forget k xs @ [(k, v)]
      else (if length xs \<ge> limit then tl xs else xs) @ [(k, v)])"

lemma remove1_filter: "distinct xs \<Longrightarrow> remove1 x xs = filter (\<lambda>y. y \<noteq> x) xs"
  by (induction xs) (auto simp: filter_id_conv [THEN iffD2, symmetric] remove1_idem)

lemma recency_keys: "cache_inv c \<Longrightarrow> fst ` set (recency c) = fst ` set (pca_entries c)"
  by (auto simp: recency_def cache_inv_def image_image)

lemma recency_len: "cache_inv c \<Longrightarrow> length (recency c) = length (pca_entries c)"
  by (simp add: recency_def cache_inv_len)

lemma recency_get: "cache_inv c \<Longrightarrow> map_of (recency c) k = map_of (pca_entries c) k"
proof -
  assume inv: "cache_inv c"
  have "map_of (map (\<lambda>i. (i, f i)) xs) k = (if k \<in> set xs then Some (f k) else None)" for f :: "string \<Rightarrow> pending_registration" and xs
    by (induction xs) auto
  then show ?thesis
    using inv by (auto simp: recency_def cache_inv_def map_of_eq_None_iff dest: map_of_SomeD split: if_splits)
      (metis map_of_eq_None_iff option.exhaust_sel)
qed

lemma recency_touch: "distinct (pca_order c) \<Longrightarrow> k \<in> set (pca_order c) \<Longrightarrow>
    recency (cache_touch k c) = forget k (recency c) @ [(k, the (map_of (pca_entries c) k))]"
  by (simp add: recency_def cache_touch_def remove1_filter forget_def filter_map o_def)

lemma recency_update_other:
  "map (\<lambda>i. (i, the (map_of (hm_insert k v m) i))) (filter (\<lambda>y. y \<noteq> k) xs) = map (\<lambda>i. (i, the (map_of m i))) (filter (\<lambda>y. y \<noteq> k) xs)"
  by (induction xs) auto

lemma recency_evict: "cache_inv c \<Longrightarrow> recency (evict c) = tl (recency c)"
  by (auto simp: recency_def evict_def cache_inv_def split: list.splits)

lemma recency_push:
  "k \<notin> set (pca_order c) \<Longrightarrow>
     recency (c\<lparr>pca_order := pca_order c @ [k], pca_entries := hm_insert k v (pca_entries c)\<rparr>) = recency c @ [(k, v)]"
  by (auto simp: recency_def)

lemma recency_insert:
  assumes inv: "cache_inv c"
  shows "recency (cache_insert e c) = lru_insert (pca_limit c) (pr_auth_id e) e (recency c)"
proof (cases "pr_auth_id e \<in> fst ` set (pca_entries c)")
  case True
  let ?c = "c\<lparr>pca_entries := hm_insert (pr_auth_id e) e (pca_entries c)\<rparr>"
  have "distinct (pca_order ?c)" "pr_auth_id e \<in> set (pca_order ?c)" using inv True by (auto simp: cache_inv_def)
  from recency_touch [OF this]
  have "recency (cache_insert e c) = forget (pr_auth_id e) (recency ?c) @ [(pr_auth_id e, e)]"
    using True by (simp add: cache_insert_eq)
  moreover have "forget (pr_auth_id e) (recency ?c) = forget (pr_auth_id e) (recency c)"
    by (simp add: recency_def forget_def filter_map o_def recency_update_other del: map_of_hm_insert)
  ultimately show ?thesis using True by (simp add: lru_insert_def recency_keys [OF inv])
next
  case False
  let ?c = "if length (pca_entries c) \<ge> pca_limit c then evict c else c"
  have "set (pca_order ?c) = fst ` set (pca_entries ?c)" using inv cache_inv_evict [OF inv] by (auto simp: cache_inv_def)
  then have "pr_auth_id e \<notin> set (pca_order ?c)" using False evict_keys [of c] by (auto split: if_splits)
  from recency_push [OF this, of e] show ?thesis
    using False inv by (simp add: cache_insert_eq Let_def lru_insert_def recency_keys recency_len recency_evict)
qed

lemma recency_remove:
  assumes inv: "cache_inv c"
  shows "recency (snd (cache_remove a c)) = forget a (recency c)"
proof (cases "map_of (pca_entries c) a")
  case None
  then have "a \<notin> set (pca_order c)" using inv by (auto simp: cache_inv_def map_of_eq_None_iff)
  then have "forget a (recency c) = recency c" by (auto simp: forget_def recency_def filter_id_conv)
  then show ?thesis using None by (simp add: cache_remove_def)
next
  case (Some e)
  then show ?thesis
    by (simp add: cache_remove_def recency_def forget_def filter_map o_def)
qed

lemma forget_shorter: "k \<in> fst ` set xs \<Longrightarrow> length (forget k xs) < length xs"
  unfolding forget_def by (metis (mono_tags, lifting) imageE length_filter_less)

lemma lru_insert_len:
  assumes "length xs \<le> limit" "0 < limit"
  shows "length (lru_insert limit k v xs) \<le> limit"
proof (cases "k \<in> fst ` set xs")
  case True
  then show ?thesis using assms forget_shorter [OF True] by (simp add: lru_insert_def)
qed (use assms in \<open>auto simp: lru_insert_def\<close>)

section \<open>Histories of a cache\<close>

datatype cache_op = CInsert pending_registration | CGet string | CGetMut string "pending_registration \<Rightarrow> pending_registration" | CRemove string

fun cache_step :: "cache_op \<Rightarrow> pending_cache \<Rightarrow> pending_cache" where
  "cache_step (CInsert e) c = cache_insert e c"
| "cache_step (CGet a) c = snd (cache_get a c)"
| "cache_step (CGetMut a f) c = snd (cache_get_mut a f c)"
| "cache_step (CRemove a) c = snd (cache_remove a c)"

text \<open>The same operations on the recency list.\<close>

fun lru_step :: "nat \<Rightarrow> cache_op \<Rightarrow> (string \<times> pending_registration) list \<Rightarrow> (string \<times> pending_registration) list" where
  "lru_step limit (CInsert e) xs = lru_insert limit (pr_auth_id e) e xs"
| "lru_step limit (CGet a) xs = (case map_of xs a of None \<Rightarrow> xs | Some e \<Rightarrow> forget a xs @ [(a, e)])"
| "lru_step limit (CGetMut a f) xs = (case map_of xs a of None \<Rightarrow> xs | Some e \<Rightarrow> forget a xs @ [(a, f e)])"
| "lru_step limit (CRemove a) xs = forget a xs"

lemma cache_get_cases:
  assumes "cache_inv c"
  shows "snd (cache_get a c) = (if a \<in> set (pca_order c) then cache_touch a c else c)"
  using assms by (auto simp: cache_get_def Let_def cache_inv_def map_of_eq_None_iff)

lemma touch_entries [simp]: "pca_entries (cache_touch a c) = pca_entries c" "pca_limit (cache_touch a c) = pca_limit c"
  by (simp_all add: cache_touch_def)

lemma cache_get_mut_cases:
  assumes "cache_inv c"
  shows "snd (cache_get_mut a f c) = (case map_of (pca_entries c) a of None \<Rightarrow> c
     | Some e \<Rightarrow> (cache_touch a c)\<lparr>pca_entries := hm_insert a (f e) (pca_entries c)\<rparr>)"
  by (auto simp: cache_get_mut_def Let_def split: option.split)

lemma cache_step_limit [simp]: "pca_limit (cache_step op c) = pca_limit c"
  by (cases op) (auto simp: cache_insert_eq evict_def cache_get_def cache_get_mut_def cache_remove_def Let_def
      split: option.splits list.splits)

lemma cache_step_inv: "cache_inv c \<Longrightarrow> cache_inv (cache_step op c)"
proof (cases op)
  case (CGetMut a f)
  assume inv: "cache_inv c"
  show ?thesis
  proof (cases "map_of (pca_entries c) a")
    case (Some e)
    then have "a \<in> fst ` set (pca_entries (cache_touch a c))" using map_of_in_keys [of "pca_entries c" a] by simp
    then have "cache_inv ((cache_touch a c)\<lparr>pca_entries := hm_insert a (f e) (pca_entries (cache_touch a c))\<rparr>)"
      by (rule cache_inv_entries [OF cache_inv_touch [OF inv]])
    then show ?thesis using Some CGetMut by (simp add: cache_get_mut_cases [OF inv])
  qed (simp add: cache_get_mut_cases inv CGetMut)
qed (auto simp: cache_inv_insert cache_inv_remove cache_get_cases cache_inv_touch)

lemma recency_step:
  assumes inv: "cache_inv c"
  shows "recency (cache_step op c) = lru_step (pca_limit c) op (recency c)"
proof (cases op)
  case (CGet a)
  show ?thesis
  proof (cases "map_of (pca_entries c) a")
    case None
    then have "a \<notin> set (pca_order c)" using inv by (auto simp: cache_inv_def map_of_eq_None_iff)
    then show ?thesis using None CGet by (simp add: cache_get_cases inv recency_get)
  next
    case (Some e)
    then have "a \<in> set (pca_order c)" "distinct (pca_order c)" using inv map_of_in_keys [of "pca_entries c" a] by (auto simp: cache_inv_def)
    then show ?thesis using Some CGet by (simp add: cache_get_cases inv recency_get recency_touch)
  qed
next
  case (CGetMut a f)
  show ?thesis
  proof (cases "map_of (pca_entries c) a")
    case None
    then show ?thesis using CGetMut by (simp add: cache_get_mut_cases inv recency_get)
  next
    case (Some e)
    let ?c = "c\<lparr>pca_entries := hm_insert a (f e) (pca_entries c)\<rparr>"
    have o: "a \<in> set (pca_order ?c)" "distinct (pca_order ?c)" using inv Some map_of_in_keys [of "pca_entries c" a] by (auto simp: cache_inv_def)
    have "(cache_touch a c)\<lparr>pca_entries := hm_insert a (f e) (pca_entries c)\<rparr> = cache_touch a ?c" by (simp add: cache_touch_def)
    moreover have "forget a (recency ?c) = forget a (recency c)"
      by (simp add: recency_def forget_def filter_map o_def recency_update_other del: map_of_hm_insert)
    ultimately show ?thesis using Some CGetMut recency_touch [OF o(2,1)] by (simp add: cache_get_mut_cases inv recency_get)
  qed
qed (simp_all add: recency_insert recency_remove inv)

lemma fold_cache_inv: "cache_inv c \<Longrightarrow> cache_inv (fold cache_step ops c) \<and> pca_limit (fold cache_step ops c) = pca_limit c"
  by (induction ops arbitrary: c) (auto simp: cache_step_inv)

lemma lru_step_len:
  assumes "length xs \<le> limit" "0 < limit"
  shows "length (lru_step limit op xs) \<le> limit"
proof -
  have shorter: "length (forget a xs) < limit" if "map_of xs a = Some e" for a e
    using forget_shorter [of a xs] that map_of_in_keys [of xs a] assms by simp
  have "length (forget a xs) \<le> limit" for a using assms(1) by (auto simp: forget_def intro: le_trans length_filter_le)
  with shorter show ?thesis using assms by (cases op) (auto simp: lru_insert_len Suc_le_eq split: option.split)
qed

text \<open>
  C36. The pending cache is a least-recently-used cache: after any sequence of operations on a fresh cache of a
  positive limit, the entries read in queue order are those of the recency list under the same operations
  (insertion moves an entry to the back and drops the front of a full list, lookups move it to the back), every
  lookup agrees with that list, and it never holds more entries than its limit.
\<close>

theorem pending_cache_is_lru:
  assumes "0 < limit" and c_def: "c = fold cache_step ops (pending_cache_new limit)"
  shows "recency c = fold (lru_step limit) ops []
       \<and> (\<forall>a. fst (cache_get a c) = map_of (recency c) a)
       \<and> cache_len c = length (recency c) \<and> cache_len c \<le> limit"
proof -
  have new: "cache_inv (pending_cache_new limit)" "recency (pending_cache_new limit) = []" "pca_limit (pending_cache_new limit) = limit"
    by (simp_all add: cache_inv_def pending_cache_new_def recency_def)
  have ref: "cache_inv d \<Longrightarrow> recency (fold cache_step ops d) = fold (lru_step (pca_limit d)) ops (recency d)" for d
    by (induction ops arbitrary: d) (auto simp: cache_step_inv recency_step)
  have inv: "cache_inv c" using fold_cache_inv [OF new(1)] by (simp add: c_def)
  have rec: "recency c = fold (lru_step limit) ops []" using ref [OF new(1)] new by (simp add: c_def)
  have "length xs \<le> limit \<Longrightarrow> length (fold (lru_step limit) ops xs) \<le> limit" for xs
    by (induction ops arbitrary: xs) (auto simp: lru_step_len assms(1))
  then have "length (recency c) \<le> limit" using rec by simp
  moreover have "fst (cache_get a c) = map_of (recency c) a" for a
    by (simp add: cache_get_def recency_get [OF inv] Let_def)
  ultimately show ?thesis using rec recency_len [OF inv] by (simp add: cache_len_def)
qed

definition sample_pending :: "string \<Rightarrow> pending_registration" where
  "sample_pending a = \<lparr>pr_auth_id = a, pr_machine_key = [], pr_node_key = [], pr_hostinfo = None, pr_expiry = [],
     pr_version = 130, pr_ephemeral = False, pr_created_at = [], pr_expires_at = [], pr_verdict = VPending\<rparr>"

theorem pending_cache_is_lru_witness:
  "let c = fold cache_step [CInsert (sample_pending ''a''), CInsert (sample_pending ''b''), CGet ''a'',
             CInsert (sample_pending ''c'')] (pending_cache_new 2) in
   map fst (recency c) = [''a'', ''c''] \<and> cache_len c \<le> 2"
proof -
  let ?ops = "[CInsert (sample_pending ''a''), CInsert (sample_pending ''b''), CGet ''a'', CInsert (sample_pending ''c'')]"
  have pos2: "0 < (2 :: nat)" by simp
  have "map fst (fold (lru_step 2) ?ops []) = [''a'', ''c'']"
    by (simp add: sample_pending_def lru_insert_def forget_def)
  then show ?thesis unfolding Let_def using pending_cache_is_lru [OF pos2 refl, of ?ops] by metis
qed

end
