(* ===== verification/Control_Store.thy ===== *)
theory Control_Store
  imports Control_Pending
begin

text \<open>
  The durable store, \<^verbatim>\<open>crabscale-control/src/store.rs\<close>. The tables of the schema (\<^verbatim>\<open>run_migrations\<close>) are lists of
  rows and every SQL statement is its effect on them: a uniqueness or foreign-key violation aborts the statement,
  a new row gets the id after the largest one, \<^verbatim>\<open>last_insert_rowid\<close> keeps the id of the last row inserted, and
  \<^verbatim>\<open>ON CONFLICT ... DO UPDATE\<close> turns a conflict on the named column into an update. Failures of the database
  file itself are not modelled, so reads do not fail; the JSON and text columns hold the values they encode.
\<close>

section \<open>Rows and errors\<close>

datatype store_error = StoreNotFound | StoreAlreadyExists | Sqlite sqlite_failure | StoreJson string | StoreIo string

definition show_store_error :: "world \<Rightarrow> store_error \<Rightarrow> string" where
  "show_store_error w err = (case err of
      StoreNotFound \<Rightarrow> ''entity not found''
    | StoreAlreadyExists \<Rightarrow> ''entity already exists''
    | Sqlite f \<Rightarrow> ''sqlite error: '' @ w_sqlite_message w f
    | StoreJson e \<Rightarrow> ''json error: '' @ e
    | StoreIo e \<Rightarrow> ''io error: '' @ e)"

datatype ssh_verdict = SshPending | SshAccepted string | SshRejected

fun is_pending :: "ssh_verdict \<Rightarrow> bool" where
  "is_pending SshPending = True" | "is_pending _ = False"

fun is_accepted :: "ssh_verdict \<Rightarrow> bool" where
  "is_accepted (SshAccepted _) = True" | "is_accepted _ = False"

record ssh_auth =
  sh_auth_id :: string
  sh_src_node_id :: nat
  sh_dst_node_id :: nat
  sh_ssh_user :: string
  sh_local_user :: string
  sh_machine_key :: raw_key
  sh_created_at :: string
  sh_expires_at :: string
  sh_verdict :: ssh_verdict

record db =
  db_users :: "user list"
  db_logins :: "login list"
  db_nodes :: "node list"
  db_keys :: "pre_auth_key list"
  db_policies :: "policy_doc list"
  db_sessions :: "session_row list"
  db_pending :: "pending_registration list"
  db_ssh_auths :: "ssh_auth list"
  db_pending_rowids :: "(string \<times> int) list"
  db_ssh_rowids :: "(string \<times> int) list"
  db_last_rowid :: int

definition db_empty :: db where
  "db_empty = \<lparr>db_users = [], db_logins = [], db_nodes = [], db_keys = [], db_policies = [], db_sessions = [],
     db_pending = [], db_ssh_auths = [], db_pending_rowids = [], db_ssh_rowids = [], db_last_rowid = 0\<rparr>"

type_synonym 'a db_op = "db \<Rightarrow> (store_error, 'a) result \<times> db"

definition next_rowid :: "int list \<Rightarrow> int" where
  "next_rowid ids = (case ids of [] \<Rightarrow> 1 | i # rest \<Rightarrow> fold max rest i + 1)"

text \<open>\<^verbatim>\<open>INSERT ... ON CONFLICT(key) DO UPDATE\<close> of a whole row.\<close>

definition put_row :: "('r \<Rightarrow> 'k) \<Rightarrow> 'r \<Rightarrow> 'r list \<Rightarrow> 'r list" where
  "put_row key row rows =
     (if key row \<in> key ` set rows then map (\<lambda>r. if key r = key row then row else r) rows else rows @ [row])"

text \<open>A table whose primary key is a text has a rowid of its own, which an insertion makes the last one.\<close>

definition put_rowid :: "string \<Rightarrow> (string \<times> int) list \<Rightarrow> int \<Rightarrow> (string \<times> int) list \<times> int" where
  "put_rowid key ids i0 =
     (if key \<in> fst ` set ids then (ids, i0)
      else let i = next_rowid (map snd ids) in (ids @ [(key, i)], i))"

section \<open>Users and logins\<close>

definition db_create_user :: "user \<Rightarrow> user db_op" where
  "db_create_user u d =
     (let i = (if u_id u = 0 then next_rowid (map u_id (db_users d)) else u_id u) in
      if i \<in> u_id ` set (db_users d) then (Err (Sqlite (UniqueFailed ''users.id'')), d)
      else if u_login_name u \<in> u_login_name ` set (db_users d)
      then (Err (Sqlite (UniqueFailed ''users.login_name'')), d)
      else let row = u\<lparr>u_id := i\<rparr> in
        (Ok row, d\<lparr>db_users := db_users d @ [row], db_last_rowid := i\<rparr>))"

definition db_get_user :: "db \<Rightarrow> int \<Rightarrow> user option" where
  "db_get_user d i = find (\<lambda>u. u_id u = i) (db_users d)"

definition db_get_user_by_login_name :: "db \<Rightarrow> string \<Rightarrow> user option" where
  "db_get_user_by_login_name d name = find (\<lambda>u. u_login_name u = name) (db_users d)"

definition user_exists :: "db \<Rightarrow> int \<Rightarrow> bool" where
  "user_exists d i \<longleftrightarrow> i \<in> u_id ` set (db_users d)"

definition db_create_login :: "login \<Rightarrow> login db_op" where
  "db_create_login l d =
     (let i = (if l_id l = 0 then next_rowid (map l_id (db_logins d)) else l_id l) in
      if i \<in> l_id ` set (db_logins d) then (Err (Sqlite (UniqueFailed ''logins.id'')), d)
      else if (l_provider l, l_login_name l) \<in> (\<lambda>r. (l_provider r, l_login_name r)) ` set (db_logins d)
      then (Err (Sqlite (UniqueFailed ''logins.provider, logins.login_name'')), d)
      else if \<not> user_exists d (l_user_id l) then (Err (Sqlite ForeignKeyFailed), d)
      else let row = l\<lparr>l_id := i\<rparr> in
        (Ok row, d\<lparr>db_logins := db_logins d @ [row], db_last_rowid := i\<rparr>))"

definition db_get_login :: "db \<Rightarrow> int \<Rightarrow> login option" where
  "db_get_login d i = find (\<lambda>l. l_id l = i) (db_logins d)"

definition db_get_login_by_provider_subject :: "db \<Rightarrow> string \<Rightarrow> string \<Rightarrow> login option" where
  "db_get_login_by_provider_subject d provider subject =
     find (\<lambda>l. l_provider l = provider \<and> l_login_name l = subject) (db_logins d)"

definition db_update_user_display_name :: "int \<Rightarrow> string \<Rightarrow> unit db_op" where
  "db_update_user_display_name i name d =
     (if \<not> user_exists d i then (Err StoreNotFound, d)
      else (Ok (), d\<lparr>db_users := map (\<lambda>u. if u_id u = i then u\<lparr>u_display_name := name\<rparr> else u) (db_users d)\<rparr>))"

section \<open>Nodes\<close>

text \<open>\<^verbatim>\<open>format!("n{id:023}")\<close>: zero-padded to 23 characters, the sign included.\<close>

definition zero_pad :: "nat \<Rightarrow> string \<Rightarrow> string" where
  "zero_pad width ds = replicate (width - length ds) CHR ''0'' @ ds"

definition fmt_stable_id :: "int \<Rightarrow> string" where
  "fmt_stable_id i =
     ''n'' @ (if i < 0 then ''-'' @ zero_pad 22 (dec_str (nat (- i))) else zero_pad 23 (dec_str (nat i)))"

text \<open>The \<^verbatim>\<open>INSERT INTO nodes ... ON CONFLICT(node_key) DO UPDATE\<close> statement.\<close>

definition stable_taken :: "db \<Rightarrow> node \<Rightarrow> bool" where
  "stable_taken d n \<longleftrightarrow> n_stable_id n \<in> n_stable_id ` {r \<in> set (db_nodes d). n_node_key r \<noteq> n_node_key n}"

definition owner_known :: "db \<Rightarrow> node \<Rightarrow> bool" where
  "owner_known d n \<longleftrightarrow> set_option (n_user_id n) \<subseteq> u_id ` set (db_users d)"

definition insert_node_row :: "node \<Rightarrow> unit db_op" where
  "insert_node_row n d =
     (if stable_taken d n then (Err (Sqlite (UniqueFailed ''nodes.stable_id'')), d)
      else if \<not> owner_known d n then (Err (Sqlite ForeignKeyFailed), d)
      else if n_node_key n \<in> n_node_key ` set (db_nodes d)
      then (Ok (), d\<lparr>db_nodes := map (\<lambda>r. if n_node_key r = n_node_key n then n\<lparr>n_id := n_id r\<rparr> else r) (db_nodes d)\<rparr>)
      else let i = next_rowid (map n_id (db_nodes d)) in
        (Ok (), d\<lparr>db_nodes := db_nodes d @ [n\<lparr>n_id := i\<rparr>], db_last_rowid := i\<rparr>))"

text \<open>The \<^verbatim>\<open>UPDATE nodes SET stable_id = ? WHERE id = ?\<close> statement.\<close>

definition set_stable_id :: "string \<Rightarrow> int \<Rightarrow> unit db_op" where
  "set_stable_id sid i d =
     (if i \<in> n_id ` set (db_nodes d) \<and> sid \<in> n_stable_id ` {r \<in> set (db_nodes d). n_id r \<noteq> i}
      then (Err (Sqlite (UniqueFailed ''nodes.stable_id'')), d)
      else (Ok (), d\<lparr>db_nodes := map (\<lambda>r. if n_id r = i then r\<lparr>n_stable_id := sid\<rparr> else r) (db_nodes d)\<rparr>))"

definition db_upsert_node :: "node \<Rightarrow> node db_op" where
  "db_upsert_node n d =
     (case insert_node_row n d of
        (Inl e, d) \<Rightarrow> (Err e, d)
      | (Inr _, d) \<Rightarrow>
          (let i = (if n_id n = 0 then db_last_rowid d else n_id n) in
           if n_stable_id n = [] then
             let sid = fmt_stable_id i in
             (case set_stable_id sid i d of
                (Inl e, d) \<Rightarrow> (Err e, d)
              | (Inr _, d) \<Rightarrow> (Ok (n\<lparr>n_id := i, n_stable_id := sid\<rparr>), d))
           else (Ok (n\<lparr>n_id := i\<rparr>), d)))"

definition db_get_node_by_node_key :: "db \<Rightarrow> raw_key \<Rightarrow> node option" where
  "db_get_node_by_node_key d key = find (\<lambda>n. n_node_key n = key) (db_nodes d)"

text \<open>\<^verbatim>\<open>ORDER BY id\<close>.\<close>

definition db_list_nodes :: "db \<Rightarrow> node list" where
  "db_list_nodes d = sort_key n_id (db_nodes d)"

text \<open>The first row of the machine-key index, which is in the order of the ids.\<close>

definition db_get_node_by_machine_key :: "db \<Rightarrow> raw_key \<Rightarrow> node option" where
  "db_get_node_by_machine_key d key = find (\<lambda>n. n_machine_key n = key) (db_list_nodes d)"

definition db_get_node_by_id :: "db \<Rightarrow> int \<Rightarrow> node option" where
  "db_get_node_by_id d i = find (\<lambda>n. n_id n = i) (db_nodes d)"

definition db_delete_node :: "raw_key \<Rightarrow> unit db_op" where
  "db_delete_node key d =
     (if \<exists>n \<in> set (db_nodes d). n_node_key n = key \<and> n_id n \<in> sr_node_id ` set (db_sessions d)
      then (Err (Sqlite ForeignKeyFailed), d)
      else if key \<notin> n_node_key ` set (db_nodes d) then (Err StoreNotFound, d)
      else (Ok (), d\<lparr>db_nodes := filter (\<lambda>n. n_node_key n \<noteq> key) (db_nodes d)\<rparr>))"

section \<open>Pre-auth keys\<close>

definition db_create_pre_auth_key :: "pre_auth_key \<Rightarrow> pre_auth_key db_op" where
  "db_create_pre_auth_key k d =
     (if k_prefix k \<in> k_prefix ` set (db_keys d) then (Err (Sqlite (UniqueFailed ''pre_auth_keys.prefix'')), d)
      else if \<not> user_exists d (k_user_id k) then (Err (Sqlite ForeignKeyFailed), d)
      else let i = next_rowid (map k_id (db_keys d)); row = k\<lparr>k_id := i\<rparr> in
        (Ok row, d\<lparr>db_keys := db_keys d @ [row], db_last_rowid := i\<rparr>))"

definition db_get_pre_auth_key :: "db \<Rightarrow> string \<Rightarrow> pre_auth_key option" where
  "db_get_pre_auth_key d pre = find (\<lambda>k. k_prefix k = pre) (db_keys d)"

definition db_mark_pre_auth_key_used :: "int \<Rightarrow> unit db_op" where
  "db_mark_pre_auth_key_used i d =
     (if i \<notin> k_id ` set (db_keys d) then (Err StoreNotFound, d)
      else (Ok (), d\<lparr>db_keys := map (\<lambda>k. if k_id k = i then k\<lparr>k_used := True\<rparr> else k) (db_keys d)\<rparr>))"

definition db_list_pre_auth_keys :: "db \<Rightarrow> pre_auth_key list" where
  "db_list_pre_auth_keys d = sort_key k_id (db_keys d)"

definition db_revoke_pre_auth_key :: "string \<Rightarrow> unit db_op" where
  "db_revoke_pre_auth_key pre d =
     (if pre \<notin> k_prefix ` set (db_keys d) then (Err StoreNotFound, d)
      else (Ok (), d\<lparr>db_keys := map (\<lambda>k. if k_prefix k = pre then k\<lparr>k_revoked := True\<rparr> else k) (db_keys d)\<rparr>))"

section \<open>Policies and sessions\<close>

definition db_save_policy :: "policy_doc \<Rightarrow> policy_doc db_op" where
  "db_save_policy p d =
     (let (policies, last) =
        (if pd_name p \<in> pd_name ` set (db_policies d)
         then (map (\<lambda>r. if pd_name r = pd_name p then p\<lparr>pd_id := pd_id r\<rparr> else r) (db_policies d), db_last_rowid d)
         else let i = next_rowid (map pd_id (db_policies d)) in (db_policies d @ [p\<lparr>pd_id := i\<rparr>], i)) in
      (Ok (p\<lparr>pd_id := (if pd_id p = 0 then last else pd_id p)\<rparr>),
       d\<lparr>db_policies := policies, db_last_rowid := last\<rparr>))"

definition db_get_policy :: "db \<Rightarrow> string \<Rightarrow> policy_doc option" where
  "db_get_policy d name = find (\<lambda>p. pd_name p = name) (db_policies d)"

definition db_create_session :: "session_row \<Rightarrow> session_row db_op" where
  "db_create_session s d =
     (if sr_node_id s \<notin> n_id ` set (db_nodes d) then (Err (Sqlite ForeignKeyFailed), d)
      else let i = next_rowid (map sr_id (db_sessions d)); row = s\<lparr>sr_id := i\<rparr> in
        (Ok row, d\<lparr>db_sessions := db_sessions d @ [row], db_last_rowid := i\<rparr>))"

definition db_get_session :: "db \<Rightarrow> int \<Rightarrow> session_row option" where
  "db_get_session d i = find (\<lambda>s. sr_id s = i) (db_sessions d)"

definition db_delete_session :: "int \<Rightarrow> unit db_op" where
  "db_delete_session i d =
     (if i \<notin> sr_id ` set (db_sessions d) then (Err StoreNotFound, d)
      else (Ok (), d\<lparr>db_sessions := filter (\<lambda>s. sr_id s \<noteq> i) (db_sessions d)\<rparr>))"

section \<open>Pending registrations and SSH checks\<close>

definition db_save_pending :: "pending_registration \<Rightarrow> db \<Rightarrow> db" where
  "db_save_pending p d =
     (let (ids, i) = put_rowid (pr_auth_id p) (db_pending_rowids d) (db_last_rowid d) in
      d\<lparr>db_pending := put_row pr_auth_id p (db_pending d), db_pending_rowids := ids, db_last_rowid := i\<rparr>)"

definition db_get_pending :: "db \<Rightarrow> string \<Rightarrow> pending_registration option" where
  "db_get_pending d i = find (\<lambda>p. pr_auth_id p = i) (db_pending d)"

definition db_delete_pending :: "string \<Rightarrow> db \<Rightarrow> db" where
  "db_delete_pending i d =
     d\<lparr>db_pending := filter (\<lambda>p. pr_auth_id p \<noteq> i) (db_pending d),
       db_pending_rowids := filter (\<lambda>(key, _). key \<noteq> i) (db_pending_rowids d)\<rparr>"

definition db_save_ssh_auth :: "ssh_auth \<Rightarrow> db \<Rightarrow> db" where
  "db_save_ssh_auth a d =
     (let (ids, i) = put_rowid (sh_auth_id a) (db_ssh_rowids d) (db_last_rowid d) in
      d\<lparr>db_ssh_auths := put_row sh_auth_id a (db_ssh_auths d), db_ssh_rowids := ids, db_last_rowid := i\<rparr>)"

definition db_get_ssh_auth :: "db \<Rightarrow> string \<Rightarrow> ssh_auth option" where
  "db_get_ssh_auth d i = find (\<lambda>a. sh_auth_id a = i) (db_ssh_auths d)"

definition db_list_ssh_auths :: "db \<Rightarrow> ssh_auth list" where
  "db_list_ssh_auths d = sort_key sh_created_at (db_ssh_auths d)"

definition db_delete_ssh_auth :: "string \<Rightarrow> db \<Rightarrow> db" where
  "db_delete_ssh_auth i d =
     d\<lparr>db_ssh_auths := filter (\<lambda>a. sh_auth_id a \<noteq> i) (db_ssh_auths d),
       db_ssh_rowids := filter (\<lambda>(key, _). key \<noteq> i) (db_ssh_rowids d)\<rparr>"

section \<open>Tables by key\<close>

lemma find_key_iff: "distinct (map key rows) \<Longrightarrow> find (\<lambda>r. key r = k) rows = Some r \<longleftrightarrow> r \<in> set rows \<and> key r = k"
  by (induction rows) (auto simp: image_iff)

lemma find_key_None: "find (\<lambda>r. key r = k) rows = None \<longleftrightarrow> k \<notin> key ` set rows"
  by (auto simp: find_None_iff)

lemma find_SomeD: "find P rows = Some r \<Longrightarrow> r \<in> set rows \<and> P r"
  by (induction rows) (auto split: if_splits)

lemma put_row_keys: "key ` set (put_row key row rows) = insert (key row) (key ` set rows)"
  by (auto simp: put_row_def image_iff split: if_splits)

lemma put_row_map:
  "map key (map (\<lambda>r. if key r = key row then row else r) rows) = map key rows"
  by (induction rows) auto

lemma distinct_put_row: "distinct (map key rows) \<Longrightarrow> distinct (map key (put_row key row rows))"
  by (auto simp: put_row_def put_row_map simp del: map_map)

lemma find_put_row: "find (\<lambda>r. key r = k) (put_row key row rows) = (if k = key row then Some row else find (\<lambda>r. key r = k) rows)"
proof -
  have "find (\<lambda>r. key r = k) (map (\<lambda>r. if key r = key row then row else r) rows)
      = (if k = key row then (if k \<in> key ` set rows then Some row else None) else find (\<lambda>r. key r = k) rows)"
    by (induction rows) auto
  moreover have "find (\<lambda>r. key r = k) (rows @ [row]) = (case find (\<lambda>r. key r = k) rows of Some r \<Rightarrow> Some r | None \<Rightarrow> if key row = k then Some row else None)"
    by (induction rows) auto
  ultimately show ?thesis using find_key_None [of key k rows] by (auto simp: put_row_def split: option.split)
qed

lemma find_filter_key: "find (\<lambda>r. key r = k) (filter (\<lambda>r. key r \<noteq> j) rows) = (if k = j then None else find (\<lambda>r. key r = k) rows)"
  by (induction rows) auto

text \<open>The contract of a table of records with a key: what a read returns after a write.\<close>

locale keyed_table =
  fixes key :: "'r \<Rightarrow> 'k"
    and get :: "'d \<Rightarrow> 'k \<Rightarrow> 'r option"
    and put :: "'r \<Rightarrow> 'd \<Rightarrow> 'd"
    and del :: "'k \<Rightarrow> 'd \<Rightarrow> 'd"
  assumes get_key: "get d k = Some r \<Longrightarrow> key r = k"
    and get_put: "get (put r d) k = (if k = key r then Some r else get d k)"
    and get_del: "get (del j d) k = (if k = j then None else get d k)"
begin

lemma put_twice: "key r = key r' \<Longrightarrow> get (put r (put r' d)) k = get (put r d) k"
  by (simp add: get_put)

lemma put_back: "get d k = Some r \<Longrightarrow> get (put r d) j = get d j"
  using get_key [of d k r] by (auto simp: get_put)

lemma del_put: "key r = j \<Longrightarrow> get (del j (put r d)) k = get (del j d) k"
  by (simp add: get_put get_del)

lemma put_only: "get (put r d) k = Some r' \<Longrightarrow> get d k = Some r' \<or> r' = r"
  by (auto simp: get_put split: if_splits)

lemma del_only: "get (del j d) k = Some r \<Longrightarrow> get d k = Some r"
  by (auto simp: get_del split: if_splits)

end

interpretation pend: keyed_table pr_auth_id db_get_pending db_save_pending db_delete_pending
  by unfold_locales
    (auto simp: db_get_pending_def db_save_pending_def db_delete_pending_def split_def Let_def find_put_row find_filter_key dest: find_SomeD)

interpretation ssha: keyed_table sh_auth_id db_get_ssh_auth db_save_ssh_auth db_delete_ssh_auth
  by unfold_locales
    (auto simp: db_get_ssh_auth_def db_save_ssh_auth_def db_delete_ssh_auth_def split_def Let_def find_put_row find_filter_key dest: find_SomeD)

section \<open>The constraints of the schema\<close>

definition users_ok :: "user list \<Rightarrow> bool" where
  "users_ok us \<longleftrightarrow> distinct (map u_id us) \<and> distinct (map u_login_name us)"

definition nodes_ok :: "int set \<Rightarrow> node list \<Rightarrow> bool" where
  "nodes_ok uids ns \<longleftrightarrow> distinct (map n_id ns) \<and> distinct (map n_node_key ns) \<and> distinct (map n_stable_id ns) \<and>
     (\<forall>n \<in> set ns. set_option (n_user_id n) \<subseteq> uids)"

definition keys_ok :: "int set \<Rightarrow> pre_auth_key list \<Rightarrow> bool" where
  "keys_ok uids ks \<longleftrightarrow> distinct (map k_id ks) \<and> distinct (map k_prefix ks) \<and> (\<forall>k \<in> set ks. k_user_id k \<in> uids)"

definition db_ok :: "db \<Rightarrow> bool" where
  "db_ok d \<longleftrightarrow> users_ok (db_users d) \<and> nodes_ok (u_id ` set (db_users d)) (db_nodes d) \<and>
     keys_ok (u_id ` set (db_users d)) (db_keys d) \<and>
     distinct (map pr_auth_id (db_pending d)) \<and> distinct (map sh_auth_id (db_ssh_auths d))"

lemma fold_max_ge: "x \<in> set (i # xs) \<Longrightarrow> x \<le> fold max xs (i :: int)"
proof (induction xs arbitrary: i x)
  case (Cons y xs)
  have m: "max y i \<le> fold max xs (max y i)" by (rule Cons.IH) simp
  show ?case
  proof (cases "x \<in> set xs")
    case True
    then show ?thesis using Cons.IH [of x "max y i"] by simp
  qed (use Cons.prems m in auto)
qed simp

lemma next_rowid_above: "i \<in> set ids \<Longrightarrow> i < next_rowid ids"
  using fold_max_ge by (cases ids) (fastforce simp: next_rowid_def)+

lemma next_rowid_fresh [simp]: "next_rowid ids \<notin> set ids"
  using next_rowid_above by blast

lemma next_rowid_fresh' [simp]: "next_rowid (map f rs) \<notin> f ` set rs"
  using next_rowid_fresh [of "map f rs"] by simp

lemma db_ok_empty: "db_ok db_empty"
  by (simp add: db_ok_def db_empty_def users_ok_def nodes_ok_def keys_ok_def)

lemma nodes_ok_mono: "nodes_ok U ns \<Longrightarrow> U \<subseteq> V \<Longrightarrow> nodes_ok V ns"
  by (auto simp: nodes_ok_def)

lemma keys_ok_mono: "keys_ok U ns \<Longrightarrow> U \<subseteq> V \<Longrightarrow> keys_ok V ns"
  by (auto simp: keys_ok_def)

lemma db_ok_create_user: "db_ok d \<Longrightarrow> db_ok (snd (db_create_user u d))"
  by (auto simp: db_create_user_def Let_def db_ok_def users_ok_def intro: nodes_ok_mono keys_ok_mono)

lemma db_ok_create_login: "db_ok d \<Longrightarrow> db_ok (snd (db_create_login l d))"
  by (auto simp: db_create_login_def Let_def db_ok_def)

lemma map_update_users [simp]:
  "map u_id (map (\<lambda>u. if u_id u = i then u\<lparr>u_display_name := name\<rparr> else u) us) = map u_id us"
  "map u_login_name (map (\<lambda>u. if u_id u = i then u\<lparr>u_display_name := name\<rparr> else u) us) = map u_login_name us"
  by (induction us) auto

lemma db_ok_update_user: "db_ok d \<Longrightarrow> db_ok (snd (db_update_user_display_name i name d))"
proof -
  let ?us = "map (\<lambda>u. if u_id u = i then u\<lparr>u_display_name := name\<rparr> else u) (db_users d)"
  assume ok: "db_ok d"
  have "u_id ` set ?us = u_id ` set (db_users d)" by (metis list.set_map map_update_users(1))
  then show ?thesis using ok map_update_users [of i name "db_users d"]
    by (simp add: db_update_user_display_name_def db_ok_def users_ok_def del: set_map map_map)
qed

section \<open>Writing a node\<close>

lemma update_node_maps:
  "map n_id (map (\<lambda>r. if n_node_key r = n_node_key n then n\<lparr>n_id := n_id r\<rparr> else r) ns) = map n_id ns"
  "map n_node_key (map (\<lambda>r. if n_node_key r = n_node_key n then n\<lparr>n_id := n_id r\<rparr> else r) ns) = map n_node_key ns"
  by (induction ns) auto

lemma update_node_stable:
  assumes "distinct (map n_node_key ns)" "distinct (map n_stable_id ns)"
    and "n_stable_id n \<notin> n_stable_id ` {r \<in> set ns. n_node_key r \<noteq> n_node_key n}"
  shows "distinct (map n_stable_id (map (\<lambda>r. if n_node_key r = n_node_key n then n\<lparr>n_id := n_id r\<rparr> else r) ns))"
  using assms by (induction ns) (auto simp: image_iff)

lemma insert_node_row_Ok:
  assumes "insert_node_row n d = (Ok (), d')"
  shows "\<not> stable_taken d n" "owner_known d n"
   "d' = (if n_node_key n \<in> n_node_key ` set (db_nodes d)
      then d\<lparr>db_nodes := map (\<lambda>r. if n_node_key r = n_node_key n then n\<lparr>n_id := n_id r\<rparr> else r) (db_nodes d)\<rparr>
      else d\<lparr>db_nodes := db_nodes d @ [n\<lparr>n_id := next_rowid (map n_id (db_nodes d))\<rparr>], db_last_rowid := next_rowid (map n_id (db_nodes d))\<rparr>)"
proof -
  show 1: "\<not> stable_taken d n" using assms by (cases "stable_taken d n") (simp_all only: insert_node_row_def if_True prod.inject Inl_Inr_False simp_thms)
  show 2: "owner_known d n" using assms 1 by (cases "owner_known d n") (simp_all only: insert_node_row_def if_True if_False not_False_eq_True prod.inject Inl_Inr_False simp_thms)
  show "d' = (if n_node_key n \<in> n_node_key ` set (db_nodes d)
      then d\<lparr>db_nodes := map (\<lambda>r. if n_node_key r = n_node_key n then n\<lparr>n_id := n_id r\<rparr> else r) (db_nodes d)\<rparr>
      else d\<lparr>db_nodes := db_nodes d @ [n\<lparr>n_id := next_rowid (map n_id (db_nodes d))\<rparr>], db_last_rowid := next_rowid (map n_id (db_nodes d))\<rparr>)"
    using assms 1 2 by (cases "n_node_key n \<in> n_node_key ` set (db_nodes d)") 
     (simp_all only: insert_node_row_def if_True if_False not_True_eq_False prod.inject simp_thms Let_def)
qed
lemma insert_node_row_ok:
  assumes "db_ok d" "insert_node_row n d = (Ok (), d')"
  shows "db_ok d'"
proof -
  let ?ns = "db_nodes d" and ?U = "u_id ` set (db_users d)"
  note row = insert_node_row_Ok [OF assms(2)]
  have ok: "nodes_ok ?U ?ns" using assms(1) by (simp add: db_ok_def)
  have free: "n_stable_id n \<notin> n_stable_id ` {r \<in> set ?ns. n_node_key r \<noteq> n_node_key n}"
    using row(1) by (simp add: stable_taken_def)
  have "nodes_ok ?U (db_nodes d')"
  proof (cases "n_node_key n \<in> n_node_key ` set ?ns")
    case True
    let ?ns' = "map (\<lambda>r. if n_node_key r = n_node_key n then n\<lparr>n_id := n_id r\<rparr> else r) ?ns"
    have "distinct (map n_stable_id ?ns')" using ok free by (intro update_node_stable) (auto simp: nodes_ok_def)
    moreover have "set_option (n_user_id m) \<subseteq> ?U" if "m \<in> set ?ns'" for m
      using that ok row(2) by (auto simp: nodes_ok_def owner_known_def)
    ultimately have "nodes_ok ?U ?ns'" using ok unfolding nodes_ok_def update_node_maps by blast
    then show ?thesis using row(3) True by simp
  next
    case False
    have "n_stable_id n \<notin> n_stable_id ` set ?ns"
    proof
      assume "n_stable_id n \<in> n_stable_id ` set ?ns"
      then obtain r where r: "r \<in> set ?ns" "n_stable_id n = n_stable_id r" by blast
      have "n_node_key r \<in> n_node_key ` set ?ns" using r(1) by (rule imageI)
      then have "n_node_key r \<noteq> n_node_key n" using False by metis
      then show False using r free by blast
    qed
    then have "nodes_ok ?U (?ns @ [n\<lparr>n_id := next_rowid (map n_id ?ns)\<rparr>])"
      using ok False row(2) by (simp add: nodes_ok_def owner_known_def)
    then show ?thesis using row(3) False by simp
  qed
  moreover have "db_users d' = db_users d" "db_keys d' = db_keys d" "db_pending d' = db_pending d" "db_ssh_auths d' = db_ssh_auths d"
    using row(3) by simp_all
  ultimately show ?thesis using assms(1) by (simp add: db_ok_def)
qed

lemma set_stable_id_maps:
  "map n_id (map (\<lambda>r. if n_id r = i then r\<lparr>n_stable_id := sid\<rparr> else r) ns) = map n_id ns"
  "map n_node_key (map (\<lambda>r. if n_id r = i then r\<lparr>n_stable_id := sid\<rparr> else r) ns) = map n_node_key ns"
  by (induction ns) auto

lemma set_stable_id_distinct:
  assumes "distinct (map n_id ns)" "distinct (map n_stable_id ns)"
    and "i \<in> n_id ` set ns \<Longrightarrow> sid \<notin> n_stable_id ` {r \<in> set ns. n_id r \<noteq> i}"
  shows "distinct (map n_stable_id (map (\<lambda>r. if n_id r = i then r\<lparr>n_stable_id := sid\<rparr> else r) ns))"
proof (cases "i \<in> n_id ` set ns")
  case True
  with assms(3) have "sid \<notin> n_stable_id ` {r \<in> set ns. n_id r \<noteq> i}" by blast
  with assms(1,2) show ?thesis by (induction ns) (auto simp: image_iff)
next
  case False
  then have "map (\<lambda>r. if n_id r = i then r\<lparr>n_stable_id := sid\<rparr> else r) ns = ns" by (intro map_idI) auto
  then show ?thesis using assms(2) by simp
qed

lemma set_stable_id_ok:
  assumes "db_ok d"
  shows "db_ok (snd (set_stable_id sid i d))"
proof -
  have ns: "distinct (map n_id (db_nodes d))" "distinct (map n_stable_id (db_nodes d))"
    using assms by (auto simp: db_ok_def nodes_ok_def)
  then show ?thesis
    using assms set_stable_id_distinct [OF ns, of i sid]
    by (auto simp: set_stable_id_def db_ok_def nodes_ok_def set_stable_id_maps simp del: map_map)
qed

lemma insert_node_row_Err: "insert_node_row n d = (Err e, d') \<Longrightarrow> d' = d"
  by (auto simp: insert_node_row_def Let_def split: if_splits)

lemma db_ok_upsert_node:
  assumes "db_ok d"
  shows "db_ok (snd (db_upsert_node n d))"
proof (cases "insert_node_row n d")
  case (Pair r d')
  show ?thesis
  proof (cases r)
    case (Inl e)
    then show ?thesis using Pair insert_node_row_Err [of n d e d'] assms by (simp add: db_upsert_node_def)
  next
    case (Inr u)
    then have "db_ok d'" using insert_node_row_ok [OF assms, of n d'] Pair by simp
    then have "db_ok (snd (set_stable_id sid i d'))" for sid i by (rule set_stable_id_ok)
    from this [of "fmt_stable_id (if n_id n = 0 then db_last_rowid d' else n_id n)" "if n_id n = 0 then db_last_rowid d' else n_id n"]
    show ?thesis using Pair Inr \<open>db_ok d'\<close> by (auto simp: db_upsert_node_def Let_def split: prod.splits sum.splits)
  qed
qed

lemma db_ok_delete_node: "db_ok d \<Longrightarrow> db_ok (snd (db_delete_node key d))"
  by (auto simp: db_delete_node_def db_ok_def nodes_ok_def distinct_map_filter)

lemma db_ok_create_key: "db_ok d \<Longrightarrow> db_ok (snd (db_create_pre_auth_key k d))"
  by (auto simp: db_create_pre_auth_key_def Let_def db_ok_def keys_ok_def user_exists_def)

lemma map_update_keys:
  "map k_id (map (\<lambda>k. if P k then k\<lparr>k_used := True\<rparr> else k) ks) = map k_id ks"
  "map k_prefix (map (\<lambda>k. if P k then k\<lparr>k_used := True\<rparr> else k) ks) = map k_prefix ks"
  "map k_id (map (\<lambda>k. if P k then k\<lparr>k_revoked := True\<rparr> else k) ks) = map k_id ks"
  "map k_prefix (map (\<lambda>k. if P k then k\<lparr>k_revoked := True\<rparr> else k) ks) = map k_prefix ks"
  by (induction ks) auto

lemma db_ok_mark_used: "db_ok d \<Longrightarrow> db_ok (snd (db_mark_pre_auth_key_used i d))"
  by (auto simp: db_mark_pre_auth_key_used_def db_ok_def keys_ok_def map_update_keys simp del: map_map)

lemma db_ok_revoke: "db_ok d \<Longrightarrow> db_ok (snd (db_revoke_pre_auth_key pre d))"
  by (auto simp: db_revoke_pre_auth_key_def db_ok_def keys_ok_def map_update_keys simp del: map_map)

lemma db_ok_pending: "db_ok d \<Longrightarrow> db_ok (db_save_pending p d)" "db_ok d \<Longrightarrow> db_ok (db_delete_pending i d)"
  by (auto simp: db_ok_def db_save_pending_def db_delete_pending_def split_def Let_def distinct_put_row distinct_map_filter)

lemma db_ok_ssh: "db_ok d \<Longrightarrow> db_ok (db_save_ssh_auth a d)" "db_ok d \<Longrightarrow> db_ok (db_delete_ssh_auth i d)"
  by (auto simp: db_ok_def db_save_ssh_auth_def db_delete_ssh_auth_def split_def Let_def distinct_put_row distinct_map_filter)

lemmas db_ok_intros [inv_intros] = db_ok_create_user db_ok_create_login db_ok_update_user db_ok_upsert_node
  db_ok_delete_node db_ok_create_key db_ok_mark_used db_ok_revoke db_ok_pending db_ok_ssh

end
