(* ===== verification/Control_Session.thy ===== *)
theory Control_Session
  imports Crab_Prelude
begin

text \<open>
  The session registry, \<^verbatim>\<open>crabscale-control/src/session.rs\<close>. The two hash maps are partial functions;
  \<^verbatim>\<open>tick\<close> walks the nodes in the order of the hash map, which is unspecified and therefore an argument.
\<close>

definition DEFAULT_RECONNECT_GRACE_SECONDS :: int where "DEFAULT_RECONNECT_GRACE_SECONDS = 10"

datatype session_event = Online int | Offline int | EphemeralExpired int

record node_sessions =
  ns_live :: nat
  ns_online :: bool
  ns_offline_at :: "int option"
  ns_ephemeral :: bool

record session_registry =
  sg_grace_seconds :: int
  sg_next_session_id :: int
  sg_nodes :: "int \<rightharpoonup> node_sessions"
  sg_session_to_node :: "int \<rightharpoonup> int"

definition session_registry_new :: "int \<Rightarrow> session_registry" where
  "session_registry_new grace =
     \<lparr>sg_grace_seconds = grace, sg_next_session_id = 1, sg_nodes = Map.empty, sg_session_to_node = Map.empty\<rparr>"

definition session_entry :: "session_registry \<Rightarrow> int \<Rightarrow> bool \<Rightarrow> node_sessions" where
  "session_entry r node_id ephemeral =
     (case sg_nodes r node_id of
        Some e \<Rightarrow> e\<lparr>ns_ephemeral := ephemeral\<rparr>
      | None \<Rightarrow> \<lparr>ns_live = 0, ns_online = False, ns_offline_at = None, ns_ephemeral = ephemeral\<rparr>)"

definition open_entry :: "int \<Rightarrow> int \<Rightarrow> node_sessions \<Rightarrow> node_sessions \<times> session_event list" where
  "open_entry node_id now e =
     (if ns_live e = 0 then
        (let gone = (case ns_offline_at e of Some at \<Rightarrow> now \<ge> at \<and> ns_online e | None \<Rightarrow> False);
             e1 = e\<lparr>ns_offline_at := None, ns_online := ns_online e \<and> \<not> gone\<rparr>;
             ev1 = (if gone then [Offline node_id] else []) in
         if \<not> ns_online e1 then (e1\<lparr>ns_online := True\<rparr>, ev1 @ [Online node_id]) else (e1, ev1))
      else (e, []))"

definition session_open ::
  "int \<Rightarrow> bool \<Rightarrow> int \<Rightarrow> session_registry \<Rightarrow> (int \<times> session_event list) \<times> session_registry" where
  "session_open node_id ephemeral now r =
     (let session_id = sg_next_session_id r;
          (e, events) = open_entry node_id now (session_entry r node_id ephemeral) in
      ((session_id, events),
       r\<lparr>sg_next_session_id := session_id + 1,
         sg_nodes := (sg_nodes r)(node_id \<mapsto> e\<lparr>ns_live := ns_live e + 1\<rparr>),
         sg_session_to_node := (sg_session_to_node r)(session_id \<mapsto> node_id)\<rparr>))"

definition session_close :: "int \<Rightarrow> int \<Rightarrow> session_registry \<Rightarrow> bool \<times> session_registry" where
  "session_close session_id now r =
     (case sg_session_to_node r session_id of
        None \<Rightarrow> (False, r)
      | Some node_id \<Rightarrow>
          (let r = r\<lparr>sg_session_to_node := (sg_session_to_node r)(session_id := None)\<rparr> in
           case sg_nodes r node_id of
             None \<Rightarrow> (True, r)
           | Some e \<Rightarrow>
               (let live = ns_live e - 1;
                    e = e\<lparr>ns_live := live\<rparr>;
                    e = (if live = 0 then e\<lparr>ns_offline_at := Some (now + sg_grace_seconds r)\<rparr> else e) in
                (True, r\<lparr>sg_nodes := (sg_nodes r)(node_id \<mapsto> e)\<rparr>))))"

text \<open>One node of the walk: the map with the entry updated, its events, and whether it is to be dropped.\<close>

definition tick_entry :: "int \<Rightarrow> int \<Rightarrow> node_sessions \<Rightarrow> node_sessions \<times> session_event list \<times> bool" where
  "tick_entry now node_id e =
     (if ns_live e \<noteq> 0 then (e, [], False)
      else case ns_offline_at e of
        None \<Rightarrow> (e, [], False)
      | Some at \<Rightarrow>
          if now < at then (e, [], False)
          else (e\<lparr>ns_online := False, ns_offline_at := None\<rparr>,
                (if ns_online e then [Offline node_id] else [])
                  @ (if ns_ephemeral e then [EphemeralExpired node_id] else []),
                ns_ephemeral e))"

fun tick_walk ::
  "int \<Rightarrow> int list \<Rightarrow> (int \<rightharpoonup> node_sessions) \<Rightarrow> (int \<rightharpoonup> node_sessions) \<times> session_event list \<times> int list" where
  "tick_walk now [] nodes = (nodes, [], [])"
| "tick_walk now (node_id # order) nodes =
     (case nodes node_id of
        None \<Rightarrow> tick_walk now order nodes
      | Some e \<Rightarrow>
          (let (e', evs, drop_it) = tick_entry now node_id e;
               (nodes', evs', expired) = tick_walk now order (nodes(node_id \<mapsto> e')) in
           (nodes', evs @ evs', if drop_it then node_id # expired else expired)))"

definition session_tick :: "int list \<Rightarrow> int \<Rightarrow> session_registry \<Rightarrow> session_event list \<times> session_registry" where
  "session_tick order now r =
     (let (nodes, events, expired) = tick_walk now order (sg_nodes r) in
      (events, r\<lparr>sg_nodes := (\<lambda>n. if n \<in> set expired then None else nodes n)\<rparr>))"

definition is_online :: "int \<Rightarrow> session_registry \<Rightarrow> bool" where
  "is_online node_id r = (case sg_nodes r node_id of Some e \<Rightarrow> ns_online e | None \<Rightarrow> False)"

definition live_sessions :: "int \<Rightarrow> session_registry \<Rightarrow> nat" where
  "live_sessions node_id r = (case sg_nodes r node_id of Some e \<Rightarrow> ns_live e | None \<Rightarrow> 0)"

section \<open>Histories of a registry\<close>

datatype session_op = Open int bool int | Close int int | Tick "int list" int

fun session_step :: "session_op \<Rightarrow> session_registry \<Rightarrow> session_event list \<times> session_registry" where
  "session_step (Open n eph now) r = (case session_open n eph now r of ((_, evs), r') \<Rightarrow> (evs, r'))"
| "session_step (Close s now) r = ([], snd (session_close s now r))"
| "session_step (Tick order now) r = session_tick order now r"

text \<open>A tick visits every node once, in some order.\<close>

fun walks_all :: "session_op \<Rightarrow> session_registry \<Rightarrow> bool" where
  "walks_all (Tick order now) r \<longleftrightarrow> distinct order \<and> set order = dom (sg_nodes r)"
| "walks_all _ r \<longleftrightarrow> True"

inductive session_run :: "int \<Rightarrow> session_event list \<Rightarrow> session_registry \<Rightarrow> bool" for grace where
  start: "session_run grace [] (session_registry_new grace)"
| step: "session_run grace evs r \<Longrightarrow> walks_all op r \<Longrightarrow> session_step op r = (evs', r')
           \<Longrightarrow> session_run grace (evs @ evs') r'"

section \<open>The invariant\<close>

definition open_sessions :: "session_registry \<Rightarrow> int \<Rightarrow> int set" where
  "open_sessions r n = {s. sg_session_to_node r s = Some n}"

definition entry_ok :: "node_sessions \<Rightarrow> bool" where
  "entry_ok e \<longleftrightarrow> (if 0 < ns_live e then ns_online e \<and> ns_offline_at e = None
                   else (ns_online e \<longrightarrow> ns_offline_at e \<noteq> None))"

definition registry_inv :: "session_registry \<Rightarrow> bool" where
  "registry_inv r \<longleftrightarrow>
     finite (dom (sg_session_to_node r)) \<and>
     (\<forall>s \<in> dom (sg_session_to_node r). s < sg_next_session_id r) \<and>
     (\<forall>n. live_sessions n r = card (open_sessions r n)) \<and>
     (\<forall>n e. sg_nodes r n = Some e \<longrightarrow> entry_ok e)"

lemma registry_inv_new: "registry_inv (session_registry_new g)"
  by (simp add: registry_inv_def session_registry_new_def live_sessions_def open_sessions_def)

lemma finite_open: "finite (dom (sg_session_to_node r)) \<Longrightarrow> finite (open_sessions r n)"
  by (rule finite_subset [of _ "dom (sg_session_to_node r)"]) (auto simp: open_sessions_def)

lemma open_entry_live [simp]: "ns_live (fst (open_entry n now e)) = ns_live e"
  by (simp add: open_entry_def Let_def)

lemma open_entry_ok: "entry_ok e \<Longrightarrow> ns_online (fst (open_entry n now e)) \<and> ns_offline_at (fst (open_entry n now e)) = None"
  by (auto simp: open_entry_def entry_ok_def Let_def)

lemma session_entry_ok: "registry_inv r \<Longrightarrow> entry_ok (session_entry r n eph)"
  by (auto simp: registry_inv_def session_entry_def entry_ok_def split: option.splits)

lemma session_entry_live: "ns_live (session_entry r n eph) = live_sessions n r"
  by (simp add: session_entry_def live_sessions_def split: option.split)

lemma registry_inv_open:
  assumes "registry_inv r" "session_open n eph now r = (out, r')"
  shows "registry_inv r'"
proof -
  let ?s = "sg_next_session_id r"
  define e where "e = fst (open_entry n now (session_entry r n eph))"
  have r': "sg_nodes r' = (sg_nodes r)(n \<mapsto> e\<lparr>ns_live := ns_live e + 1\<rparr>)"
    "sg_session_to_node r' = (sg_session_to_node r)(?s \<mapsto> n)" "sg_next_session_id r' = ?s + 1"
    using assms(2) by (auto simp del: open_entry_live simp: session_open_def e_def Let_def split: prod.splits)
  have fresh: "sg_session_to_node r ?s = None" using assms(1) by (auto simp: registry_inv_def)
  have o: "open_sessions r' m = (if m = n then insert ?s (open_sessions r m) else open_sessions r m)" for m
    using fresh by (auto simp: open_sessions_def r')
  have ni: "?s \<notin> open_sessions r n" using fresh by (simp add: open_sessions_def)
  have fin: "finite (open_sessions r n)" using assms(1) by (auto simp: registry_inv_def intro: finite_open)
  have live: "live_sessions m r' = (if m = n then Suc (live_sessions n r) else live_sessions m r)" for m
    by (simp add: live_sessions_def r' e_def session_entry_live [unfolded live_sessions_def])
  have below: "\<forall>s \<in> dom (sg_session_to_node r'). s < ?s + 1"
  proof
    fix s
    assume that: "s \<in> dom (sg_session_to_node r')"
    show "s < ?s + 1"
    proof (cases "s = ?s")
      case False
      then have "s \<in> dom (sg_session_to_node r)" using that by (simp add: r' dom_def)
      then have "s < ?s" using assms(1) unfolding registry_inv_def by blast
      then show ?thesis by simp
    qed simp
  qed
  have "entry_ok (e\<lparr>ns_live := ns_live e + 1\<rparr>)"
    using open_entry_ok [OF session_entry_ok [OF assms(1)]] by (simp add: entry_ok_def e_def)
  then show ?thesis
    using assms(1) ni fin below
    unfolding registry_inv_def by (simp add: r' live o)
qed

lemma registry_inv_close:
  assumes "registry_inv r"
  shows "registry_inv (snd (session_close s now r))"
proof (cases "sg_session_to_node r s")
  case (Some n)
  have mem: "s \<in> open_sessions r n" using Some by (simp add: open_sessions_def)
  have fin: "finite (open_sessions r n)" using assms by (auto simp: registry_inv_def intro: finite_open)
  have "0 < live_sessions n r" using assms mem fin by (auto simp: registry_inv_def card_gt_0_iff)
  then obtain e where e: "sg_nodes r n = Some e" "0 < ns_live e" by (auto simp: live_sessions_def split: option.splits)
  define r' where "r' = snd (session_close s now r)"
  define e' where "e' = (let x = e\<lparr>ns_live := ns_live e - 1\<rparr> in
    if ns_live x = 0 then x\<lparr>ns_offline_at := Some (now + sg_grace_seconds r)\<rparr> else x)"
  have r': "sg_session_to_node r' = (sg_session_to_node r)(s := None)" "sg_next_session_id r' = sg_next_session_id r"
    "sg_nodes r' = (sg_nodes r)(n \<mapsto> e')"
    using Some e by (simp_all add: r'_def e'_def session_close_def Let_def)
  have eok: "entry_ok e" using assms e by (auto simp: registry_inv_def)
  then have e': "ns_live e' = ns_live e - 1" "entry_ok e'" using e by (auto simp: e'_def entry_ok_def Let_def split: if_splits)
  have o: "open_sessions r' m = open_sessions r m - {s}" for m by (auto simp: open_sessions_def r')
  have os: "m \<noteq> n \<Longrightarrow> s \<notin> open_sessions r m" for m using Some by (simp add: open_sessions_def)
  have live: "live_sessions m r' = (if m = n then live_sessions n r - 1 else live_sessions m r)" for m
    using r'(3) e e' by (auto simp: live_sessions_def)
  have "registry_inv r'"
    using assms mem os e'(2) fin by (auto simp: registry_inv_def live o r' split: if_splits)
  then show ?thesis by (simp add: r'_def)
qed (use assms in \<open>simp add: session_close_def\<close>)


text \<open>A walk over distinct nodes acts on each of them separately.\<close>

lemma tick_walk_eq:
  assumes "distinct order" "set order \<subseteq> dom nodes" "tick_walk now order nodes = (nodes', evs, expired)"
  shows "nodes' = (\<lambda>n. if n \<in> set order then map_option (\<lambda>e. fst (tick_entry now n e)) (nodes n) else nodes n)
       \<and> evs = concat (map (\<lambda>n. fst (snd (tick_entry now n (the (nodes n))))) order)
       \<and> expired = filter (\<lambda>n. snd (snd (tick_entry now n (the (nodes n))))) order"
  using assms
proof (induction order arbitrary: nodes nodes' evs expired)
  case (Cons n order)
  obtain e where e: "nodes n = Some e" using Cons.prems(2) by auto
  obtain e1 ev1 d where t: "tick_entry now n e = (e1, ev1, d)" by (cases "tick_entry now n e") auto
  obtain nodes2 evs2 ex2 where w: "tick_walk now order (nodes(n \<mapsto> e1)) = (nodes2, evs2, ex2)"
    by (cases "tick_walk now order (nodes(n \<mapsto> e1))") auto
  have out: "nodes' = nodes2" "evs = ev1 @ evs2" "expired = (if d then n # ex2 else ex2)"
    using Cons.prems(3) by (auto simp: e t w)
  have n: "n \<notin> set order" "distinct order" using Cons.prems(1) by auto
  have same: "x \<in> set order \<Longrightarrow> (nodes(n \<mapsto> e1)) x = nodes x" for x using n by auto
  have "set order \<subseteq> dom (nodes(n \<mapsto> e1))" using Cons.prems(2) by auto
  from Cons.IH [OF n(2) this w]
  have ih: "nodes2 = (\<lambda>x. if x \<in> set order then map_option (\<lambda>e. fst (tick_entry now x e)) ((nodes(n \<mapsto> e1)) x) else (nodes(n \<mapsto> e1)) x)"
     "evs2 = concat (map (\<lambda>x. fst (snd (tick_entry now x (the ((nodes(n \<mapsto> e1)) x))))) order)"
     "ex2 = filter (\<lambda>x. snd (snd (tick_entry now x (the ((nodes(n \<mapsto> e1)) x))))) order" by blast+
  have "evs2 = concat (map (\<lambda>x. fst (snd (tick_entry now x (the (nodes x))))) order)"
    unfolding ih(2) using same by (intro arg_cong [where f = concat] map_cong) (auto simp: same)
  moreover have "ex2 = filter (\<lambda>x. snd (snd (tick_entry now x (the (nodes x))))) order"
    unfolding ih(3) using same by (intro filter_cong) auto
  moreover have "nodes2 = (\<lambda>x. if x \<in> set (n # order) then map_option (\<lambda>e. fst (tick_entry now x e)) (nodes x) else nodes x)"
    unfolding ih(1) using n e t by (intro ext) auto
  ultimately show ?case by (simp add: out e t)
qed auto

text \<open>What a whole tick does to one node.\<close>

definition ticked :: "int \<Rightarrow> int \<Rightarrow> node_sessions option \<Rightarrow> node_sessions option" where
  "ticked now n eo = (case eo of None \<Rightarrow> None | Some e \<Rightarrow>
     (case tick_entry now n e of (e', _, gone) \<Rightarrow> if gone then None else Some e'))"

lemma session_tick_eq:
  assumes "walks_all (Tick order now) r" "session_tick order now r = (evs, r')"
  shows "evs = concat (map (\<lambda>n. fst (snd (tick_entry now n (the (sg_nodes r n))))) order)"
    and "sg_nodes r' = (\<lambda>n. ticked now n (sg_nodes r n))"
    and "sg_session_to_node r' = sg_session_to_node r" "sg_next_session_id r' = sg_next_session_id r"
    and "sg_grace_seconds r' = sg_grace_seconds r"
proof -
  obtain nodes evs1 ex where w: "tick_walk now order (sg_nodes r) = (nodes, evs1, ex)"
    by (cases "tick_walk now order (sg_nodes r)") auto
  have d: "distinct order" "set order = dom (sg_nodes r)" using assms(1) by auto
  note eq = tick_walk_eq [OF d(1) eq_refl [OF d(2)] w]
  have r': "evs = evs1" "r' = r\<lparr>sg_nodes := (\<lambda>n. if n \<in> set ex then None else nodes n)\<rparr>"
    using assms(2) by (auto simp: session_tick_def w)
  show "evs = concat (map (\<lambda>n. fst (snd (tick_entry now n (the (sg_nodes r n))))) order)" using eq r' by simp
  show "sg_nodes r' = (\<lambda>n. ticked now n (sg_nodes r n))"
  proof
    fix n
    show "sg_nodes r' n = ticked now n (sg_nodes r n)"
      using eq d(2) by (cases "sg_nodes r n") (auto simp: r' ticked_def split: prod.split)
  qed
  show "sg_session_to_node r' = sg_session_to_node r" "sg_next_session_id r' = sg_next_session_id r"
    "sg_grace_seconds r' = sg_grace_seconds r" by (simp_all add: r')
qed

lemma tick_entry_live: "ns_live (fst (tick_entry now n e)) = ns_live e"
  by (auto simp: tick_entry_def split: option.split)

lemma tick_entry_ok: "entry_ok e \<Longrightarrow> entry_ok (fst (tick_entry now n e))"
  by (auto simp: tick_entry_def entry_ok_def split: option.split if_splits)

lemma tick_entry_gone: "snd (snd (tick_entry now n e)) \<Longrightarrow> ns_live e = 0"
  by (auto simp: tick_entry_def split: option.splits if_splits)

lemma live_ticked: "(case ticked now n eo of Some e \<Rightarrow> ns_live e | None \<Rightarrow> 0) = (case eo of Some e \<Rightarrow> ns_live e | None \<Rightarrow> 0)"
proof (cases eo)
  case (Some e)
  then show ?thesis
    using tick_entry_gone [of now n e] tick_entry_live [of now n e] by (cases "tick_entry now n e") (simp add: ticked_def)
qed (simp add: ticked_def)

lemma registry_inv_tick:
  assumes "registry_inv r" "walks_all (Tick order now) r" "session_tick order now r = (evs, r')"
  shows "registry_inv r'"
proof -
  note t = session_tick_eq [OF assms(2,3)]
  have "live_sessions n r' = live_sessions n r" for n by (simp add: live_sessions_def t(2) live_ticked)
  moreover have "open_sessions r' n = open_sessions r n" for n by (simp add: open_sessions_def t(3))
  moreover have "sg_nodes r' n = Some e \<Longrightarrow> entry_ok e" for n e
    using assms(1) tick_entry_ok [of _ now n]
    by (auto simp: t(2) ticked_def registry_inv_def split: option.splits prod.splits if_splits)
       (metis fst_conv)
  ultimately show ?thesis using assms(1) by (simp add: registry_inv_def t)
qed

lemma registry_inv_step:
  assumes "registry_inv r" "walks_all op r" "session_step op r = (evs, r')"
  shows "registry_inv r'"
  using assms by (cases op) (auto intro: registry_inv_open registry_inv_tick simp: registry_inv_close split: prod.splits)

lemma registry_inv_run: "session_run g evs r \<Longrightarrow> registry_inv r \<and> sg_grace_seconds r = g"
proof (induction rule: session_run.induct)
  case start
  then show ?case by (simp add: registry_inv_new) (simp add: session_registry_new_def)
next
  case (step evs r op evs' r')
  then have "registry_inv r'" using registry_inv_step by blast
  moreover have "sg_grace_seconds r' = sg_grace_seconds r"
    using step(2,3) session_tick_eq(5)
    by (cases op) (auto simp: session_open_def session_close_def Let_def split: prod.splits option.splits)
  ultimately show ?case using step by simp
qed

section \<open>What an observer of the events sees\<close>

text \<open>
  The status of a node according to its events: \<^term>\<open>None\<close> when they do not alternate, or when the node is said to
  have expired while it is online.
\<close>

fun status :: "int \<Rightarrow> bool \<Rightarrow> session_event list \<Rightarrow> bool option" where
  "status n b [] = Some b"
| "status n b (Online m # evs) = (if m = n then (if b then None else status n True evs) else status n b evs)"
| "status n b (Offline m # evs) = (if m = n then (if b then status n False evs else None) else status n b evs)"
| "status n b (EphemeralExpired m # evs) = (if m = n \<and> b then None else status n b evs)"

lemma status_append: "status n b (evs @ evs') = Option.bind (status n b evs) (\<lambda>b. status n b evs')"
  by (induction n b evs rule: status.induct) auto

fun event_node :: "session_event \<Rightarrow> int" where
  "event_node (Online m) = m" | "event_node (Offline m) = m" | "event_node (EphemeralExpired m) = m"

lemma status_other: "(\<And>e. e \<in> set evs \<Longrightarrow> event_node e \<noteq> n) \<Longrightarrow> status n b evs = Some b"
proof (induction evs)
  case (Cons e evs)
  have "event_node e \<noteq> n" using Cons.prems [of e] by simp
  moreover have "status n b evs = Some b" using Cons.IH Cons.prems by simp
  ultimately show ?case by (cases e) auto
qed simp

lemma status_concat_other:
  "(\<And>m e. m \<in> set ms \<Longrightarrow> e \<in> set (f m) \<Longrightarrow> event_node e = m) \<Longrightarrow> n \<notin> set ms \<Longrightarrow> status n b (concat (map f ms)) = Some b"
  by (rule status_other) auto

lemma status_concat:
  assumes "\<And>m e. m \<in> set ms \<Longrightarrow> e \<in> set (f m) \<Longrightarrow> event_node e = m" "n \<in> set ms" "distinct ms"
  shows "status n b (concat (map f ms)) = status n b (f n)"
proof -
  obtain as bs where ms: "ms = as @ n # bs" using split_list [OF assms(2)] by blast
  have "status n b (concat (map f as)) = Some b" for b
    by (rule status_concat_other) (use assms ms in auto)
  moreover have "status n b (concat (map f bs)) = Some b" for b
    by (rule status_concat_other) (use assms ms in auto)
  moreover have "Option.bind (status n b (f n)) Some = status n b (f n)" by (cases "status n b (f n)") auto
  ultimately show ?thesis by (simp add: ms status_append)
qed

lemma tick_entry_events: "e \<in> set (fst (snd (tick_entry now m x))) \<Longrightarrow> event_node e = m"
  by (auto simp: tick_entry_def split: option.splits if_splits)

lemma tick_entry_status:
  "entry_ok e \<Longrightarrow> status n (ns_online e) (fst (snd (tick_entry now n e))) =
     Some (case ticked now n (Some e) of Some e' \<Rightarrow> ns_online e' | None \<Rightarrow> False)"
  by (auto simp: tick_entry_def ticked_def entry_ok_def split: option.splits if_splits)

lemma status_tick:
  assumes "registry_inv r" "walks_all (Tick order now) r" "session_tick order now r = (evs, r')"
  shows "status n (is_online n r) evs = Some (is_online n r')"
proof (cases "sg_nodes r n")
  case None
  then have "n \<notin> set order" using assms(2) by auto
  then have "status n (is_online n r) evs = Some (is_online n r)"
    unfolding session_tick_eq(1) [OF assms(2,3)] by (rule status_concat_other [rotated]) (rule tick_entry_events)
  then show ?thesis using None by (simp add: is_online_def session_tick_eq(2) [OF assms(2,3)] ticked_def)
next
  case (Some e)
  have n: "n \<in> set order" "distinct order" using assms(2) Some by auto
  have "status n b evs = status n b (fst (snd (tick_entry now n e)))" for b
    unfolding session_tick_eq(1) [OF assms(2,3)]
    by (subst status_concat [OF _ n]) (rule tick_entry_events, assumption, simp add: Some)
  moreover have "entry_ok e" using assms(1) Some by (auto simp: registry_inv_def)
  ultimately show ?thesis
    by (simp add: tick_entry_status is_online_def Some session_tick_eq(2) [OF assms(2,3)])
qed

lemma status_open:
  assumes "session_open m eph now r = ((s, evs), r')"
  shows "registry_inv r \<Longrightarrow> status n (is_online n r) evs = Some (is_online n r')"
  using assms session_entry_ok [of r m eph]
  by (auto simp: session_open_def open_entry_def entry_ok_def is_online_def session_entry_def Let_def
      split: option.splits if_splits prod.splits)

lemma is_online_close: "is_online n (snd (session_close s now r)) = is_online n r"
  by (auto simp: session_close_def is_online_def Let_def split: option.splits)

text \<open>
  C21. The registry is the single owner of the session counts: in every state it can reach, and for every node, the
  live count is the number of sessions opened and not yet closed, a node with such a session is online, and the
  events published so far alternate between online and offline for the node (with an expiry only while it is
  offline), ending in the status the registry reports.
\<close>

theorem session_registry_tracks:
  assumes "session_run grace evs r"
  shows "live_sessions n r = card (open_sessions r n)
       \<and> (open_sessions r n \<noteq> {} \<longrightarrow> is_online n r)
       \<and> status n False evs = Some (is_online n r)"
proof (intro conjI impI)
  have inv: "registry_inv r" using registry_inv_run [OF assms] by simp
  show live: "live_sessions n r = card (open_sessions r n)" using inv by (simp add: registry_inv_def)
  have "finite (open_sessions r n)" using inv by (auto simp: registry_inv_def intro: finite_open)
  then show "is_online n r" if "open_sessions r n \<noteq> {}"
    using that inv live by (auto simp: live_sessions_def is_online_def registry_inv_def entry_ok_def card_gt_0_iff split: option.splits)
  show "status n False evs = Some (is_online n r)"
    using assms
  proof (induction rule: session_run.induct)
    case (step evs r op evs' r')
    have "registry_inv r" using registry_inv_run [OF step(1)] by simp
    then have "status n (is_online n r) evs' = Some (is_online n r')"
      using step(2,3) status_open status_tick
      by (cases op) (auto simp: is_online_close split: prod.splits)
    with step show ?case by (simp add: status_append)
  qed (simp add: is_online_def session_registry_new_def)
qed

theorem session_registry_tracks_witness:
  "session_run 10 [Online 7] (snd (session_step (Open 7 False 100) (session_registry_new 10)))
   \<and> is_online 7 (snd (session_step (Open 7 False 100) (session_registry_new 10)))"
proof -
  let ?r = "snd (session_step (Open 7 False 100) (session_registry_new 10))"
  have "session_step (Open 7 False 100) (session_registry_new 10) = ([Online 7], ?r)"
    by (simp add: session_open_def session_entry_def open_entry_def session_registry_new_def)
  from session_run.step [OF session_run.start _ this] have run: "session_run 10 [Online 7] ?r" by simp
  then show ?thesis using session_registry_tracks [OF run, of 7] by simp
qed

text \<open>Between the close and the end of the grace period other nodes come and go and the timer may fire early.\<close>

fun session_steps :: "session_op list \<Rightarrow> session_registry \<Rightarrow> session_event list \<times> session_registry" where
  "session_steps [] r = ([], r)"
| "session_steps (op # ops) r =
     (let (evs, r1) = session_step op r; (evs', r2) = session_steps ops r1 in (evs @ evs', r2))"

fun walks_alls :: "session_op list \<Rightarrow> session_registry \<Rightarrow> bool" where
  "walks_alls [] r \<longleftrightarrow> True"
| "walks_alls (op # ops) r \<longleftrightarrow> walks_all op r \<and> walks_alls ops (snd (session_step op r))"

fun waits :: "int \<Rightarrow> int \<Rightarrow> session_op \<Rightarrow> bool" where
  "waits deadline n (Open m eph now) \<longleftrightarrow> m \<noteq> n"
| "waits deadline n (Close s now) \<longleftrightarrow> True"
| "waits deadline n (Tick order now) \<longleftrightarrow> now < deadline"

definition leaving :: "int \<Rightarrow> int \<Rightarrow> bool \<Rightarrow> session_registry \<Rightarrow> bool" where
  "leaving n deadline eph r \<longleftrightarrow> open_sessions r n = {} \<and>
     sg_nodes r n = Some \<lparr>ns_live = 0, ns_online = True, ns_offline_at = Some deadline, ns_ephemeral = eph\<rparr>"

lemma leaving_online: "leaving n deadline eph r \<Longrightarrow> is_online n r"
  by (simp add: leaving_def is_online_def)

lemma close_last_leaves:
  assumes "registry_inv r" "open_sessions r n = {s}" "session_close s t r = (b, r1)"
  shows "b \<and> leaving n (t + sg_grace_seconds r) (ns_ephemeral (the (sg_nodes r n))) r1"
proof -
  have s: "sg_session_to_node r s = Some n" using assms(2) by (auto simp: open_sessions_def)
  have "live_sessions n r = 1" using assms(1,2) by (simp add: registry_inv_def)
  then obtain e where e: "sg_nodes r n = Some e" "ns_live e = 1" by (auto simp: live_sessions_def split: option.splits)
  then have "ns_online e" using assms(1) by (auto simp: registry_inv_def entry_ok_def)
  moreover have "r1 = r\<lparr>sg_session_to_node := (sg_session_to_node r)(s := None),
      sg_nodes := (sg_nodes r)(n \<mapsto> e\<lparr>ns_live := 0, ns_offline_at := Some (t + sg_grace_seconds r)\<rparr>)\<rparr>" "b"
    using assms(3) s e by (simp_all add: session_close_def Let_def)
  moreover have "{x. ((sg_session_to_node r)(s := None)) x = Some n} = {}"
    using assms(2) by (auto simp: open_sessions_def split: if_splits)
  ultimately show ?thesis
    using e by (simp add: leaving_def open_sessions_def)
qed

lemma leaving_step:
  assumes "leaving n deadline eph r" "waits deadline n op" "walks_all op r" "session_step op r = (evs, r')"
  shows "leaving n deadline eph r' \<and> (\<forall>e \<in> set evs. event_node e \<noteq> n)"
proof (cases op)
  case (Open m eph' now)
  then show ?thesis using assms(1,2,4)
    by (auto simp: leaving_def open_sessions_def session_open_def open_entry_def Let_def split: prod.splits if_splits)
next
  case (Close s now)
  then show ?thesis using assms(1,4)
    by (auto simp: leaving_def open_sessions_def session_close_def Let_def split: option.splits if_split_asm)
next
  case (Tick order now)
  have w: "walks_all (Tick order now) r" and t: "session_tick order now r = (evs, r')" using assms(3,4) Tick by auto
  have n: "n \<in> set order" and early: "now < deadline" using w assms(1,2) Tick by (auto simp: leaving_def)
  have quiet: "tick_entry now n (the (sg_nodes r n)) = (the (sg_nodes r n), [], False)"
    using assms(1) early by (simp add: leaving_def tick_entry_def)
  have "event_node e \<noteq> n" if "e \<in> set evs" for e
  proof -
    obtain m where "e \<in> set (fst (snd (tick_entry now m (the (sg_nodes r m)))))"
      using \<open>e \<in> set evs\<close> unfolding session_tick_eq(1) [OF w t] by auto
    then show ?thesis using tick_entry_events [of e now m] quiet by auto
  qed
  moreover have "sg_nodes r' n = sg_nodes r n"
    using assms(1) quiet by (simp add: session_tick_eq(2) [OF w t] leaving_def ticked_def)
  ultimately show ?thesis
    using assms(1) by (simp add: leaving_def open_sessions_def session_tick_eq(3) [OF w t])
qed

lemma leaving_steps:
  assumes "leaving n deadline eph r" "list_all (waits deadline n) ops" "walks_alls ops r"
    "session_steps ops r = (evs, r')"
  shows "leaving n deadline eph r' \<and> (\<forall>e \<in> set evs. event_node e \<noteq> n)"
  using assms
proof (induction ops arbitrary: r evs)
  case (Cons op ops)
  obtain evs1 r1 where s: "session_step op r = (evs1, r1)" by (cases "session_step op r")
  obtain evs2 r2 where ss: "session_steps ops r1 = (evs2, r2)" by (cases "session_steps ops r1")
  have one: "leaving n deadline eph r1 \<and> (\<forall>e \<in> set evs1. event_node e \<noteq> n)"
    using leaving_step [OF Cons.prems(1) _ _ s] Cons.prems(2,3) by simp
  have "leaving n deadline eph r2 \<and> (\<forall>e \<in> set evs2. event_node e \<noteq> n)"
    using Cons.IH [of r1 evs2] one Cons.prems ss s by simp
  then show ?case using one Cons.prems(4) s ss by auto
qed simp

lemma filter_tick_events:
  assumes "walks_all (Tick order now) r" "session_tick order now r = (evs, r')" "n \<in> set order"
  shows "filter (\<lambda>e. event_node e = n) evs = fst (snd (tick_entry now n (the (sg_nodes r n))))"
proof -
  let ?f = "\<lambda>m. fst (snd (tick_entry now m (the (sg_nodes r m))))"
  have f: "filter (\<lambda>e. event_node e = n) (?f m) = (if m = n then ?f n else [])" for m
    using tick_entry_events [of _ now m "the (sg_nodes r m)"] by (auto simp: filter_id_conv filter_empty_conv)
  have d: "distinct order" using assms(1) by simp
  have "filter (\<lambda>e. event_node e = n) evs = concat (map (\<lambda>m. if m = n then ?f n else []) order)"
    unfolding session_tick_eq(1) [OF assms(1,2)] by (simp add: filter_concat comp_def f)
  also have "\<dots> = ?f n" using d assms(3)
  proof (induction order)
    case (Cons m order)
    have "concat (map (\<lambda>m. if m = n then ?f n else []) order) = []" if "n \<notin> set order"
      using that by (induction order) auto
    then show ?case using Cons by auto
  qed simp
  finally show ?thesis .
qed

text \<open>
  C22. Offline is delayed by the grace period and no longer. When the only open session of a node is closed at
  \<^term>\<open>t\<close>, the node stays online and publishes nothing for as long as it is not opened again and the timer only fires
  before \<^term>\<open>t + grace\<close>, whatever other nodes do and whatever else is closed. The first tick at or after
  \<^term>\<open>t + grace\<close> publishes exactly one offline event for the node, followed by its expiry when the node was
  registered as ephemeral; the node is offline afterwards, and an ephemeral node is gone from the registry.
\<close>

theorem last_close_goes_offline:
  assumes "session_run grace evs r" "open_sessions r n = {s}" "session_close s t r = (b, r1)"
    and "list_all (waits (t + grace) n) ops" "walks_alls ops r1" "session_steps ops r1 = (quiet, r2)"
    and "t + grace \<le> now" "distinct order" "set order = dom (sg_nodes r2)" "session_tick order now r2 = (evs', r3)"
  shows "b \<and> is_online n r1 \<and> is_online n r2 \<and> filter (\<lambda>e. event_node e = n) quiet = [] \<and>
     filter (\<lambda>e. event_node e = n) evs' =
       Offline n # (if ns_ephemeral (the (sg_nodes r n)) then [EphemeralExpired n] else []) \<and>
     \<not> is_online n r3 \<and> (ns_ephemeral (the (sg_nodes r n)) \<longrightarrow> sg_nodes r3 n = None)"
proof -
  have inv: "registry_inv r" and g: "sg_grace_seconds r = grace" using registry_inv_run [OF assms(1)] by auto
  have l1: "b \<and> leaving n (t + grace) (ns_ephemeral (the (sg_nodes r n))) r1"
    using close_last_leaves [OF inv assms(2,3)] g by simp
  then have l2: "leaving n (t + grace) (ns_ephemeral (the (sg_nodes r n))) r2"
    and q: "filter (\<lambda>e. event_node e = n) quiet = []"
    using leaving_steps [OF _ assms(4-6)] by (auto simp: filter_empty_conv)
  have w: "walks_all (Tick order now) r2" using assms(8,9) by simp
  have "n \<in> set order" using assms(9) l2 by (auto simp: leaving_def)
  note evs' = filter_tick_events [OF w assms(10) this]
  have "sg_nodes r3 n = ticked now n (sg_nodes r2 n)" by (simp add: session_tick_eq(2) [OF w assms(10)])
  then show ?thesis
    using l1 l2 q evs' assms(7) leaving_online
    by (auto simp: leaving_def tick_entry_def ticked_def is_online_def)
qed

theorem last_close_goes_offline_witness:
  "let r = snd (session_step (Open 7 True 100) (session_registry_new 10));
       r1 = snd (session_close 1 101 r);
       r2 = snd (session_steps [Tick [7] 110] r1) in
   is_online 7 r2 \<and> \<not> is_online 7 (snd (session_tick [7] 111 r2))
   \<and> filter (\<lambda>e. event_node e = 7) (fst (session_tick [7] 111 r2)) = [Offline 7, EphemeralExpired 7]"
proof -
  let ?r = "snd (session_step (Open 7 True 100) (session_registry_new 10))"
  let ?r1 = "snd (session_close 1 101 ?r)"
  let ?r2 = "snd (session_steps [Tick [7] 110] ?r1)"
  note defs = session_close_def session_open_def session_registry_new_def Let_def session_entry_def open_entry_def
  have "session_step (Open 7 True 100) (session_registry_new 10) = ([Online 7], ?r)"
    by (simp add: session_open_def session_entry_def open_entry_def session_registry_new_def)
  from session_run.step [OF session_run.start _ this] have run: "session_run 10 [Online 7] ?r" by simp
  have o: "open_sessions ?r 7 = {1}" by (auto simp: open_sessions_def defs split: prod.splits if_splits)
  have e: "ns_ephemeral (the (sg_nodes ?r 7))" by (simp add: defs)
  have d: "set [7] = dom (sg_nodes ?r1)" by (auto simp: defs split: if_splits)
  have d2: "set [7] = dom (sg_nodes ?r2)"
    by (auto simp: defs session_tick_def tick_entry_def split: if_splits)
  have w: "walks_alls [Tick [7] 110] ?r1" using d by simp
  have "session_close 1 101 ?r = (fst (session_close 1 101 ?r), ?r1)" by simp
  note t = last_close_goes_offline [OF run o this _ w prod.collapse [symmetric] _ _ d2 prod.collapse [symmetric], of 111]
  show ?thesis using t e by (simp add: Let_def)
qed

end
