(* ===== verification/Control_Events.thy ===== *)
theory Control_Events
  imports Rust_Map
begin

text \<open>
  The change bus, \<^verbatim>\<open>crabscale-control/src/events.rs\<close>. The broadcast channel is the list of the batches sent, oldest
  first; the sweeper task is the sequence of \<^verbatim>\<open>flush\<close> calls it makes.
\<close>

definition DEFAULT_CHANGE_BATCH_WINDOW :: nat where "DEFAULT_CHANGE_BATCH_WINDOW = 100"
definition DEFAULT_CHANGE_BATCH_MAX :: nat where "DEFAULT_CHANGE_BATCH_MAX = 64"

datatype change_event =
    NodeChanged int
  | NodeRemoved int
  | PolicyChanged
  | DnsChanged
  | DerpMapChanged
  | OnlineChanged int bool
  | PeerSeen int

type_synonym change_batch = "change_event list"

definition has_dns :: "change_batch \<Rightarrow> bool" where "has_dns b \<longleftrightarrow> list_ex (\<lambda>e. e = DnsChanged) b"
definition has_derp :: "change_batch \<Rightarrow> bool" where "has_derp b \<longleftrightarrow> list_ex (\<lambda>e. e = DerpMapChanged) b"
definition has_policy :: "change_batch \<Rightarrow> bool" where "has_policy b \<longleftrightarrow> list_ex (\<lambda>e. e = PolicyChanged) b"

definition needs_peer_rescan :: "change_batch \<Rightarrow> bool" where
  "needs_peer_rescan b \<longleftrightarrow> list_ex (\<lambda>e. case e of
      NodeChanged _ \<Rightarrow> True | NodeRemoved _ \<Rightarrow> True | PolicyChanged \<Rightarrow> True
    | OnlineChanged _ _ \<Rightarrow> True | PeerSeen _ \<Rightarrow> True | DnsChanged \<Rightarrow> False | DerpMapChanged \<Rightarrow> False) b"

definition online_changes :: "change_batch \<Rightarrow> (int \<times> bool) list" where
  "online_changes b = List.map_filter (\<lambda>e. case e of OnlineChanged n on \<Rightarrow> Some (n, on) | _ \<Rightarrow> None) b"

definition seen_nodes :: "change_batch \<Rightarrow> int list" where
  "seen_nodes b = List.map_filter (\<lambda>e. case e of PeerSeen n \<Rightarrow> Some n | _ \<Rightarrow> None) b"

record node_accumulator =
  na_changed :: bool
  na_removed :: bool
  na_seen :: bool
  na_online :: "bool option"

definition na_default :: node_accumulator where
  "na_default = \<lparr>na_changed = False, na_removed = False, na_seen = False, na_online = None\<rparr>"

record accumulator =
  ac_nodes :: "(int, node_accumulator) btree"
  ac_policy :: bool
  ac_dns :: bool
  ac_derp :: bool

definition ac_default :: accumulator where
  "ac_default = \<lparr>ac_nodes = [], ac_policy = False, ac_dns = False, ac_derp = False\<rparr>"

definition on_node :: "int \<Rightarrow> (node_accumulator \<Rightarrow> node_accumulator) \<Rightarrow> accumulator \<Rightarrow> accumulator" where
  "on_node n f a = a\<lparr>ac_nodes := bt_entry n na_default f (ac_nodes a)\<rparr>"

fun ac_apply :: "change_event \<Rightarrow> accumulator \<Rightarrow> accumulator" where
  "ac_apply (NodeChanged n) a =
     on_node n (\<lambda>acc. if \<not> na_removed acc then acc\<lparr>na_changed := True\<rparr> else acc) a"
| "ac_apply (NodeRemoved n) a =
     on_node n (\<lambda>acc. acc\<lparr>na_removed := True, na_changed := False, na_seen := False, na_online := None\<rparr>) a"
| "ac_apply PolicyChanged a = a\<lparr>ac_policy := True\<rparr>"
| "ac_apply DnsChanged a = a\<lparr>ac_dns := True\<rparr>"
| "ac_apply DerpMapChanged a = a\<lparr>ac_derp := True\<rparr>"
| "ac_apply (OnlineChanged n on) a =
     on_node n (\<lambda>acc. if \<not> na_removed acc then acc\<lparr>na_online := Some on\<rparr> else acc) a"
| "ac_apply (PeerSeen n) a =
     on_node n (\<lambda>acc. if \<not> na_removed acc then acc\<lparr>na_seen := True\<rparr> else acc) a"

definition node_count :: "node_accumulator \<Rightarrow> nat" where
  "node_count n = of_bool (na_removed n \<or> na_changed n) + of_bool (na_online n \<noteq> None) + of_bool (na_seen n)"

definition ac_count :: "accumulator \<Rightarrow> nat" where
  "ac_count a = sum_list (map (\<lambda>(_, n). node_count n) (ac_nodes a))
     + of_bool (ac_policy a) + of_bool (ac_dns a) + of_bool (ac_derp a)"

definition node_events :: "int \<Rightarrow> node_accumulator \<Rightarrow> change_event list" where
  "node_events n acc =
     (if na_removed acc then [NodeRemoved n]
      else (if na_changed acc then [NodeChanged n] else [])
        @ (case na_online acc of Some on \<Rightarrow> [OnlineChanged n on] | None \<Rightarrow> [])
        @ (if na_seen acc then [PeerSeen n] else []))"

definition drain_batch :: "accumulator \<Rightarrow> change_batch \<times> accumulator" where
  "drain_batch a =
     ((if ac_policy a then [PolicyChanged] else [])
        @ (if ac_dns a then [DnsChanged] else [])
        @ (if ac_derp a then [DerpMapChanged] else [])
        @ concat (map (\<lambda>(n, acc). node_events n acc) (ac_nodes a)),
      \<lparr>ac_nodes = [], ac_policy = False, ac_dns = False, ac_derp = False\<rparr>)"

record change_bus =
  cb_pending :: accumulator
  cb_sent :: "change_batch list"
  cb_window :: nat
  cb_max_events :: nat
  cb_sweeper_started :: bool

definition change_bus_new :: "nat \<Rightarrow> nat \<Rightarrow> change_bus" where
  "change_bus_new window mx =
     \<lparr>cb_pending = ac_default, cb_sent = [], cb_window = window, cb_max_events = mx, cb_sweeper_started = False\<rparr>"

definition bus_broadcast :: "change_batch \<Rightarrow> change_bus \<Rightarrow> change_bus" where
  "bus_broadcast batch b = (if batch = [] then b else b\<lparr>cb_sent := cb_sent b @ [batch]\<rparr>)"

definition bus_publish :: "change_event \<Rightarrow> change_bus \<Rightarrow> change_bus" where
  "bus_publish event b =
     (let pending = ac_apply event (cb_pending b) in
      if ac_count pending \<ge> cb_max_events b
      then (let (batch, pending) = drain_batch pending in bus_broadcast batch (b\<lparr>cb_pending := pending\<rparr>))
      else b\<lparr>cb_pending := pending\<rparr>)"

definition bus_flush :: "change_bus \<Rightarrow> change_bus" where
  "bus_flush b = (let (batch, pending) = drain_batch (cb_pending b) in bus_broadcast batch (b\<lparr>cb_pending := pending\<rparr>))"

definition bus_pending_count :: "change_bus \<Rightarrow> nat" where "bus_pending_count b = ac_count (cb_pending b)"

text \<open>Only the first caller starts the sweeper.\<close>

definition spawn_sweeper :: "change_bus \<Rightarrow> bool \<times> change_bus" where
  "spawn_sweeper b = (\<not> cb_sweeper_started b, b\<lparr>cb_sweeper_started := True\<rparr>)"

section \<open>What a window of events coalesces to\<close>

fun event_id :: "change_event \<Rightarrow> int option" where
  "event_id (NodeChanged n) = Some n"
| "event_id (NodeRemoved n) = Some n"
| "event_id (OnlineChanged n _) = Some n"
| "event_id (PeerSeen n) = Some n"
| "event_id _ = None"

fun last_online :: "int \<Rightarrow> change_event list \<Rightarrow> bool option" where
  "last_online n [] = None"
| "last_online n (e # evs) =
     (case last_online n evs of Some on \<Rightarrow> Some on
      | None \<Rightarrow> (case e of OnlineChanged m on \<Rightarrow> if m = n then Some on else None | _ \<Rightarrow> None))"

definition coalesced_node :: "change_event list \<Rightarrow> int \<Rightarrow> change_event list" where
  "coalesced_node evs n =
     (if NodeRemoved n \<in> set evs then [NodeRemoved n]
      else (if NodeChanged n \<in> set evs then [NodeChanged n] else [])
        @ (case last_online n evs of Some on \<Rightarrow> [OnlineChanged n on] | None \<Rightarrow> [])
        @ (if PeerSeen n \<in> set evs then [PeerSeen n] else []))"

text \<open>
  The reference: policy, DNS and relay changes once each, then for every node concerned, in the order of the node
  ids, its removal alone, or else one change, its last online state and one sighting.
\<close>

definition coalesced :: "change_event list \<Rightarrow> change_batch" where
  "coalesced evs =
     filter (\<lambda>e. e \<in> set evs) [PolicyChanged, DnsChanged, DerpMapChanged]
     @ concat (map (coalesced_node evs) (sorted_list_of_set {n. \<exists>e \<in> set evs. event_id e = Some n}))"

definition expected :: "change_event list \<Rightarrow> int \<Rightarrow> node_accumulator" where
  "expected evs n =
     (if NodeRemoved n \<in> set evs
      then \<lparr>na_changed = False, na_removed = True, na_seen = False, na_online = None\<rparr>
      else \<lparr>na_changed = NodeChanged n \<in> set evs, na_removed = False, na_seen = PeerSeen n \<in> set evs, na_online = last_online n evs\<rparr>)"

definition accumulated :: "change_event list \<Rightarrow> accumulator" where
  "accumulated evs = fold ac_apply evs ac_default"

lemma last_online_snoc:
  "last_online n (evs @ [e]) = (case e of OnlineChanged m on \<Rightarrow> if m = n then Some on else last_online n evs | _ \<Rightarrow> last_online n evs)"
  by (induction evs) (auto split: change_event.splits option.splits)

lemma accumulated_Nil [simp]: "accumulated [] = ac_default"
  by (simp add: accumulated_def)

lemma accumulated_snoc: "accumulated (evs @ [e]) = ac_apply e (accumulated evs)"
  by (simp add: accumulated_def)

lemma expected_default: "\<forall>e \<in> set evs. event_id e \<noteq> Some n \<Longrightarrow> expected evs n = na_default"
proof -
  assume a: "\<forall>e \<in> set evs. event_id e \<noteq> Some n"
  have "last_online n evs = None" using a by (induction evs) (auto split: change_event.splits)
  then show ?thesis using a by (auto simp: expected_def na_default_def)
qed

lemma accumulated_flags:
  "ac_policy (accumulated evs) = (PolicyChanged \<in> set evs)"
  "ac_dns (accumulated evs) = (DnsChanged \<in> set evs)"
  "ac_derp (accumulated evs) = (DerpMapChanged \<in> set evs)"
proof (induction evs rule: rev_induct)
  case (snoc e evs)
  { case 1 then show ?case using snoc by (cases e) (auto simp: accumulated_snoc on_node_def) next
    case 2 then show ?case using snoc by (cases e) (auto simp: accumulated_snoc on_node_def) next
    case 3 then show ?case using snoc by (cases e) (auto simp: accumulated_snoc on_node_def) }
qed (simp_all add: accumulated_def ac_default_def)

definition nodes_exact :: "change_event list \<Rightarrow> (int, node_accumulator) btree \<Rightarrow> bool" where
  "nodes_exact evs m \<longleftrightarrow> bt_inv m \<and>
     (\<forall>n. bt_get m n = (if \<exists>e \<in> set evs. event_id e = Some n then Some (expected evs n) else None))"

lemma nodes_exact_step:
  assumes ok: "nodes_exact evs m" and e: "event_id e = Some n"
    and f: "f (expected evs n) = expected (evs @ [e]) n"
    and o: "\<And>k. k \<noteq> n \<Longrightarrow> expected (evs @ [e]) k = expected evs k"
  shows "nodes_exact (evs @ [e]) (bt_entry n na_default f m)"
proof -
  have g: "bt_get m k = (if \<exists>e \<in> set evs. event_id e = Some k then Some (expected evs k) else None)" for k
    using ok by (simp add: nodes_exact_def)
  have inv: "bt_inv m" using ok by (simp add: nodes_exact_def)
  have d: "(case bt_get m n of None \<Rightarrow> na_default | Some v \<Rightarrow> v) = expected evs n"
    using expected_default [of evs n] by (auto simp: g)
  have "bt_get (bt_entry n na_default f m) k = (if \<exists>e' \<in> set (evs @ [e]). event_id e' = Some k then Some (expected (evs @ [e]) k) else None)" for k
    unfolding bt_get_entry [OF inv] d using o [of k] e f by (auto simp: g)
  then show ?thesis using inv by (simp add: nodes_exact_def bt_inv_entry)
qed

lemma nodes_exact_skip: "nodes_exact evs m \<Longrightarrow> event_id e = None \<Longrightarrow> nodes_exact (evs @ [e]) m"
  by (cases e) (auto simp: nodes_exact_def expected_def last_online_snoc)

lemma accumulated_nodes: "nodes_exact evs (ac_nodes (accumulated evs))"
proof (induction evs rule: rev_induct)
  case (snoc e evs)
  note step = nodes_exact_step [OF snoc]
  show ?case
  proof (cases "event_id e")
    case None
    then have "ac_nodes (accumulated (evs @ [e])) = ac_nodes (accumulated evs)"
      by (cases e) (auto simp: accumulated_snoc on_node_def)
    then show ?thesis using nodes_exact_skip [OF snoc None] by simp
  next
    case (Some n)
    then show ?thesis
      by (cases e) (auto simp: accumulated_snoc on_node_def expected_def last_online_snoc intro!: step)
  qed
qed (simp add: nodes_exact_def accumulated_def ac_default_def bt_get_def)

lemma btree_as_map:
  assumes "bt_inv m"
  shows "m = map (\<lambda>k. (k, the (bt_get m k))) (sorted_list_of_set (fst ` set m))"
proof -
  have d: "sorted (map fst m)" "distinct (map fst m)" using assms by (auto simp: bt_inv_def strict_sorted_iff)
  have "sorted_list_of_set (set (map fst m)) = map fst m" using d by (rule sorted_list_of_set.idem_if_sorted_distinct)
  then have keys: "sorted_list_of_set (fst ` set m) = map fst m" by simp
  have "map (\<lambda>e. (fst e, the (bt_get m (fst e)))) m = map (\<lambda>e. e) m"
  proof (rule map_cong [OF refl])
    fix e assume "e \<in> set m"
    then have "bt_get m (fst e) = Some (snd e)" using bt_get_Some_iff [OF assms, of "fst e" "snd e"] by simp
    then show "(fst e, the (bt_get m (fst e))) = e" by simp
  qed
  then show ?thesis by (simp add: keys comp_def)
qed

lemma bt_keys: "bt_inv m \<Longrightarrow> fst ` set m = {k. bt_get m k \<noteq> None}"
  by (auto simp: bt_get_def map_of_eq_None_iff)

lemma drain_accumulated: "drain_batch (accumulated evs) = (coalesced evs, ac_default)"
proof -
  let ?m = "ac_nodes (accumulated evs)"
  have ok: "bt_inv ?m" "\<And>n. bt_get ?m n = (if \<exists>e \<in> set evs. event_id e = Some n then Some (expected evs n) else None)"
    using accumulated_nodes [of evs] by (auto simp: nodes_exact_def)
  define ks where "ks = {n. \<exists>e \<in> set evs. event_id e = Some n}"
  have keys: "fst ` set ?m = ks" using bt_keys [OF ok(1)] by (auto simp: ok(2) ks_def)
  have fin: "finite ks" unfolding keys [symmetric] by simp
  have "?m = map (\<lambda>k. (k, the (bt_get ?m k))) (sorted_list_of_set ks)" using btree_as_map [OF ok(1)] by (simp add: keys)
  also have "\<dots> = map (\<lambda>k. (k, expected evs k)) (sorted_list_of_set ks)"
    by (rule map_cong [OF refl]) (use fin in \<open>auto simp: ok(2) ks_def\<close>)
  finally have m: "?m = map (\<lambda>k. (k, expected evs k)) (sorted_list_of_set ks)" .
  have node: "node_events n (expected evs n) = coalesced_node evs n" for n
    by (simp add: node_events_def expected_def coalesced_node_def)
  have "concat (map (\<lambda>(n, acc). node_events n acc) ?m) = concat (map (coalesced_node evs) (sorted_list_of_set ks))"
    unfolding m by (simp add: comp_def node)
  then show ?thesis
    by (simp add: drain_batch_def accumulated_flags coalesced_def ks_def ac_default_def)
qed

lemma count_coalesced: "ac_count (accumulated evs) = length (coalesced evs)"
proof -
  let ?m = "ac_nodes (accumulated evs)"
  have "node_count (snd e) = length (node_events (fst e) (snd e))" if "e \<in> set ?m" for e
  proof -
    have "bt_get ?m (fst e) = Some (snd e)"
      using that accumulated_nodes [of evs] by (metis bt_get_Some_iff nodes_exact_def prod.collapse)
    then have "snd e = expected evs (fst e)"
      using accumulated_nodes [of evs] by (auto simp: nodes_exact_def split: if_splits)
    then show ?thesis by (auto simp: node_count_def node_events_def expected_def split: option.split)
  qed
  then have "sum_list (map (\<lambda>(_, n). node_count n) ?m) = length (concat (map (\<lambda>(n, acc). node_events n acc) ?m))"
    by (auto simp: length_concat comp_def split_beta intro!: arg_cong [where f = sum_list])
  then have "ac_count (accumulated evs) = length (fst (drain_batch (accumulated evs)))"
    by (simp add: ac_count_def drain_batch_def)
  then show ?thesis by (simp add: drain_accumulated)
qed

section \<open>Histories of a bus\<close>

datatype bus_op = Publish change_event | Flush

fun bus_step :: "bus_op \<Rightarrow> change_bus \<Rightarrow> change_bus" where
  "bus_step (Publish e) b = bus_publish e b"
| "bus_step Flush b = bus_flush b"

definition published :: "bus_op list \<Rightarrow> change_event list" where
  "published ops = List.map_filter (\<lambda>x. case x of Publish e \<Rightarrow> Some e | Flush \<Rightarrow> None) ops"

lemma published_simps [simp]: "published [] = []" "published (ops @ ops') = published ops @ published ops'"
  "published [Publish e] = [e]" "published [Flush] = []"
  by (simp_all add: published_def List.map_filter_def)

definition windowed :: "nat \<Rightarrow> change_event list \<Rightarrow> change_event list list \<Rightarrow> change_event list \<Rightarrow> change_bus \<Rightarrow> bool" where
  "windowed mx evs ws rest b \<longleftrightarrow> evs = concat ws @ rest \<and> cb_sent b = filter (\<lambda>x. x \<noteq> []) (map coalesced ws) \<and>
     cb_pending b = accumulated rest \<and> cb_max_events b = mx \<and>
     (\<forall>w \<in> set ws. length (coalesced w) \<le> max 1 mx) \<and> (rest = [] \<or> length (coalesced rest) < mx)"

lemma coalesced_single: "length (coalesced [e]) \<le> 1"
  by (cases e) (auto simp: coalesced_def coalesced_node_def Collect_conv_if)

lemma on_node_count:
  assumes "\<And>x. node_count (f x) \<le> node_count x + 1"
  shows "ac_count (on_node n f a) \<le> ac_count a + 1"
proof -
  have d: "node_count na_default = 0" by (simp add: node_count_def na_default_def)
  have "sum_list (map (\<lambda>(_, n). node_count n) (bt_entry n na_default f m)) \<le> sum_list (map (\<lambda>(_, n). node_count n) m) + 1" for m
    using assms assms [of na_default] d
    by (induction n na_default f m rule: bt_entry.induct) (auto simp: add.assoc intro: le_trans add_mono)
  then show ?thesis by (simp add: ac_count_def on_node_def)
qed

lemma count_apply: "ac_count (ac_apply e a) \<le> ac_count a + 1"
proof (cases "event_id e")
  case None
  then show ?thesis by (cases e) (simp_all add: ac_count_def)
next
  case (Some n)
  then show ?thesis
    by (cases e) (simp_all only: ac_apply.simps, auto simp: node_count_def intro!: on_node_count [simplified])
qed

lemma windowed_publish:
  assumes "windowed mx evs ws rest b"
  shows "\<exists>ws' rest'. windowed mx (evs @ [e]) ws' rest' (bus_publish e b)"
proof (cases "mx \<le> ac_count (accumulated (rest @ [e]))")
  case True
  have "length (coalesced (rest @ [e])) \<le> max 1 mx"
  proof (cases "rest = []")
    case False
    then have "length (coalesced rest) < mx" using assms by (simp add: windowed_def)
    then show ?thesis using count_apply [of e "accumulated rest"] by (simp add: accumulated_snoc [symmetric] count_coalesced)
  qed (use coalesced_single [of e] in simp)
  moreover have "bus_publish e b = bus_broadcast (coalesced (rest @ [e])) (b\<lparr>cb_pending := ac_default\<rparr>)"
    using assms True by (simp add: bus_publish_def windowed_def Let_def accumulated_snoc [symmetric] drain_accumulated)
  ultimately have "windowed mx (evs @ [e]) (ws @ [rest @ [e]]) [] (bus_publish e b)"
    using assms by (auto simp: windowed_def bus_broadcast_def)
  then show ?thesis by blast
next
  case False
  then have "windowed mx (evs @ [e]) ws (rest @ [e]) (bus_publish e b)"
    using assms by (simp add: windowed_def bus_publish_def Let_def accumulated_snoc [symmetric] count_coalesced)
  then show ?thesis by blast
qed

lemma windowed_flush:
  assumes "windowed mx evs ws rest b"
  shows "windowed mx evs (ws @ [rest]) [] (bus_flush b)"
proof -
  have w: "evs = concat ws @ rest" "cb_sent b = filter (\<lambda>x. x \<noteq> []) (map coalesced ws)" "cb_pending b = accumulated rest"
    "cb_max_events b = mx" "\<forall>w \<in> set ws. length (coalesced w) \<le> max 1 mx" "rest = [] \<or> length (coalesced rest) < mx"
    using assms unfolding windowed_def by blast+
  have "length (coalesced rest) \<le> max 1 mx" using w(6) by (cases "rest = []") (simp_all add: coalesced_def)
  moreover have "bus_flush b = bus_broadcast (coalesced rest) (b\<lparr>cb_pending := ac_default\<rparr>)"
    by (simp add: bus_flush_def w(3) drain_accumulated)
  ultimately show ?thesis
    using w(1,2,4,5) by (cases "coalesced rest = []") (simp_all add: windowed_def bus_broadcast_def)
qed

lemma windowed_run: "\<exists>ws rest. windowed mx (published ops) ws rest (fold bus_step ops (change_bus_new win mx))"
proof (induction ops rule: rev_induct)
  case Nil
  have "windowed mx [] [] [] (change_bus_new win mx)"
    by (simp add: windowed_def change_bus_new_def accumulated_def)
  then show ?case by auto
next
  case (snoc op ops)
  then obtain ws rest where w: "windowed mx (published ops) ws rest (fold bus_step ops (change_bus_new win mx))" by blast
  show ?case using windowed_publish [OF w] windowed_flush [OF w] by (cases op) auto
qed

text \<open>
  C24. Nothing published is lost or reordered across windows, and nothing is sent twice: for every sequence of
  publications and flushes that ends with a flush, the published events split into consecutive windows, the
  batches sent are, in order, the coalesced forms of those windows (empty ones apart), none exceeds the batch
  maximum, and no event stays pending.
\<close>

theorem change_bus_delivers:
  "\<exists>ws. published ops = concat ws
     \<and> cb_sent (fold bus_step (ops @ [Flush]) (change_bus_new win mx)) = filter (\<lambda>x. x \<noteq> []) (map coalesced ws)
     \<and> (\<forall>b \<in> set (cb_sent (fold bus_step (ops @ [Flush]) (change_bus_new win mx))). length b \<le> max 1 mx)
     \<and> bus_pending_count (fold bus_step (ops @ [Flush]) (change_bus_new win mx)) = 0"
proof -
  obtain ws rest where "windowed mx (published ops) ws rest (fold bus_step ops (change_bus_new win mx))"
    using windowed_run by blast
  from windowed_flush [OF this]
  have w: "windowed mx (published ops) (ws @ [rest]) [] (fold bus_step (ops @ [Flush]) (change_bus_new win mx))" by simp
  then have "bus_pending_count (fold bus_step (ops @ [Flush]) (change_bus_new win mx)) = 0"
    using count_coalesced [of "[]"] by (simp add: windowed_def bus_pending_count_def coalesced_def)
  with w show ?thesis by (intro exI [of _ "ws @ [rest]"]) (auto simp: windowed_def)
qed

theorem change_bus_delivers_witness:
  "\<exists>ws. [NodeChanged 4, PeerSeen 4, NodeRemoved 4] = concat ws
     \<and> (\<forall>b \<in> set (cb_sent (fold bus_step ([Publish (NodeChanged 4), Publish (PeerSeen 4), Publish (NodeRemoved 4)] @ [Flush])
          (change_bus_new 100 64))). length b \<le> 64)"
proof -
  let ?ops = "[Publish (NodeChanged 4), Publish (PeerSeen 4), Publish (NodeRemoved 4)]"
  have "published ?ops = [NodeChanged 4, PeerSeen 4, NodeRemoved 4]" by (simp add: published_def List.map_filter_def)
  then show ?thesis using change_bus_delivers [of ?ops 100 64] by auto
qed

end
