(* ===== verification/Control_Ip.thy ===== *)
theory Control_Ip
  imports Rust_Net
begin

text \<open>
  Address allocation, \<^verbatim>\<open>crabscale-control/src/ip_allocator.rs\<close>. The random draws are a parameter: the
  function giving the value of \<^verbatim>\<open>gen_range(0..count)\<close> at each attempt, of which only its documented range
  is assumed.
\<close>

datatype ip_allocator_error = NoAddresses | Exhausted

record ip_allocator =
  ia_ipv4_prefix :: u32
  ia_ipv4_prefix_len :: nat
  ia_ipv6_prefix :: u128
  ia_ipv6_prefix_len :: nat

definition ip_allocator_new :: "u32 \<Rightarrow> nat \<Rightarrow> u128 \<Rightarrow> nat \<Rightarrow> ip_allocator" where
  "ip_allocator_new p4 l4 p6 l6 =
     \<lparr>ia_ipv4_prefix = p4, ia_ipv4_prefix_len = l4, ia_ipv6_prefix = p6, ia_ipv6_prefix_len = l6\<rparr>"

definition ipv4_host_range :: "u32 \<Rightarrow> nat \<Rightarrow> (ip_allocator_error, u32 \<times> u32) result" where
  "ipv4_host_range pre prefix_len =
     (if prefix_len = 0 \<or> prefix_len > 32 then Err NoAddresses
      else let mask = push_bit (32 - prefix_len) (- 1);
               network = pre AND mask;
               host_bits = 32 - prefix_len in
        if host_bits < 2 then Err NoAddresses
        else let host_count = push_bit host_bits 1;
                 first = network + 1;
                 count = host_count - 2 in
          if count = 0 then Err NoAddresses else Ok (first, count))"

definition ipv6_host_range :: "u128 \<Rightarrow> nat \<Rightarrow> (ip_allocator_error, u128 \<times> u128) result" where
  "ipv6_host_range pre prefix_len =
     (if prefix_len = 0 \<or> prefix_len > 128 then Err NoAddresses
      else let mask = push_bit (128 - prefix_len) (- 1);
               network = pre AND mask;
               host_bits = 128 - prefix_len in
        if host_bits < 1 then Err NoAddresses
        else let host_count = push_bit host_bits 1;
                 first = network + 1;
                 count = host_count - 1 in
          if count = 0 then Err NoAddresses else Ok (first, count))"

definition ALLOCATE_ATTEMPTS :: nat where "ALLOCATE_ATTEMPTS = 1024"

fun draw_loop :: "(nat \<Rightarrow> 'w::len word) \<Rightarrow> 'w word \<Rightarrow> 'w word set \<Rightarrow> nat \<Rightarrow> nat \<Rightarrow> (ip_allocator_error, 'w word) result" where
  "draw_loop draw first used i 0 = Err Exhausted"
| "draw_loop draw first used i (Suc n) =
     (let candidate = first + draw i in
      if candidate \<notin> used then Ok candidate else draw_loop draw first used (Suc i) n)"

definition allocate_ipv4 :: "ip_allocator \<Rightarrow> (u32 \<Rightarrow> nat \<Rightarrow> u32) \<Rightarrow> u32 set \<Rightarrow> (ip_allocator_error, u32) result" where
  "allocate_ipv4 a gen_range used =
     bind_res (ipv4_host_range (ia_ipv4_prefix a) (ia_ipv4_prefix_len a)) (\<lambda>(first, count).
       draw_loop (gen_range count) first used 0 ALLOCATE_ATTEMPTS)"

definition allocate_ipv6 :: "ip_allocator \<Rightarrow> (u128 \<Rightarrow> nat \<Rightarrow> u128) \<Rightarrow> u128 set \<Rightarrow> (ip_allocator_error, u128) result" where
  "allocate_ipv6 a gen_range used =
     bind_res (ipv6_host_range (ia_ipv6_prefix a) (ia_ipv6_prefix_len a)) (\<lambda>(first, count).
       draw_loop (gen_range count) first used 0 ALLOCATE_ATTEMPTS)"

definition allocate ::
  "ip_allocator \<Rightarrow> (u32 \<Rightarrow> nat \<Rightarrow> u32) \<Rightarrow> (u128 \<Rightarrow> nat \<Rightarrow> u128) \<Rightarrow> u32 set \<Rightarrow> u128 set
     \<Rightarrow> (ip_allocator_error, u32 \<times> u128) result" where
  "allocate a gen4 gen6 used_ipv4 used_ipv6 =
     bind_res (allocate_ipv4 a gen4 used_ipv4) (\<lambda>ipv4.
     bind_res (allocate_ipv6 a gen6 used_ipv6) (\<lambda>ipv6. Ok (ipv4, ipv6)))"

section \<open>The draws\<close>

lemma draw_loop_Ok:
  "draw_loop draw first used i n = Ok a \<Longrightarrow> \<exists>j. i \<le> j \<and> j < i + n \<and> a = first + draw j \<and> a \<notin> used"
proof (induction draw first used i n rule: draw_loop.induct)
  case (2 draw first used i n)
  then show ?case by (cases "first + draw i \<notin> used") (auto simp: Let_def, metis Suc_leD add_Suc_right add_Suc_shift)
qed simp

lemma draw_loop_Err:
  "draw_loop draw first used i n = Err e \<Longrightarrow> e = Exhausted \<and> (\<forall>j. i \<le> j \<and> j < i + n \<longrightarrow> first + draw j \<in> used)"
proof (induction draw first used i n rule: draw_loop.induct)
  case (2 draw first used i n)
  then have "first + draw i \<in> used" "draw_loop draw first used (Suc i) n = Err e"
    by (auto simp: Let_def split: if_splits)
  with "2.IH" show ?case by (metis Suc_leI add_Suc_shift le_neq_implies_less)
qed auto

lemma draw_loop_unused: "0 < n \<Longrightarrow> draw_loop draw first {} i n = Ok (first + draw i)"
  by (cases n) simp_all

section \<open>Addresses inside a prefix\<close>

lemma network_plus:
  fixes p x :: "'w::len word"
  assumes "take_bit h x = x"
  shows "drop_bit h ((p AND push_bit h (- 1)) + x) = drop_bit h p" "take_bit h ((p AND push_bit h (- 1)) + x) = x"
proof -
  have bx: "bit x n \<Longrightarrow> n < h" for n using assms by (metis bit_take_bit_iff)
  have d: "(p AND push_bit h (- 1)) AND x = 0"
    by (rule bit_word_eqI) (auto simp: bit_simps dest: bx)
  have o: "(p AND push_bit h (- 1)) + x = (p AND push_bit h (- 1)) OR x"
    using d by (simp add: disjunctive_add_eq_or)
  show "drop_bit h ((p AND push_bit h (- 1)) + x) = drop_bit h p"
    unfolding o by (rule bit_word_eqI) (auto simp: bit_simps dest: bx bit_imp_le_length)
  have "take_bit h ((p AND push_bit h (- 1)) OR x) = take_bit h x"
    by (rule bit_word_eqI) (auto simp: bit_simps dest: bx)
  then show "take_bit h ((p AND push_bit h (- 1)) + x) = x" unfolding o assms .
qed

lemma unat_push_bit_one:
  assumes "h < LENGTH('w)"
  shows "unat (push_bit h 1 :: 'w::len word) = 2 ^ h"
proof -
  have big: "2 ^ h < (2 :: nat) ^ LENGTH('w)" using assms by simp
  have "unat (push_bit h (1 :: 'w word)) = take_bit LENGTH('w) (push_bit h 1)"
    by (simp only: unsigned_push_bit_eq unsigned_1)
  also have "\<dots> = 2 ^ h" using big by (simp only: push_bit_eq_mult mult_1 take_bit_nat_eq_self)
  finally show ?thesis .
qed

lemma unat_mask:
  assumes "h < LENGTH('w)"
  shows "unat (mask h :: 'w::len word) = 2 ^ h - 1"
proof -
  have "(mask h :: 'w word) = push_bit h 1 - 1" by (simp add: mask_eq_exp_minus_1)
  moreover have nz: "(push_bit h 1 :: 'w word) \<noteq> 0"
    using unat_push_bit_one [OF assms] by (metis unsigned_0 power_not_zero zero_neq_numeral)
  have "unat (push_bit h 1 - 1 :: 'w word) = unat (push_bit h 1 :: 'w word) - 1"
    by (rule unat_minus_one [OF nz])
  ultimately show ?thesis by (simp only: unat_push_bit_one [OF assms])
qed

lemma host_offset:
  fixes off :: "'w::len word"
  assumes "h < LENGTH('w)" "k \<le> 2 ^ h" "off < push_bit h 1 - of_nat k" "1 \<le> k"
  shows "take_bit h (1 + off) = 1 + off" "1 + off \<noteq> 0" "unat (1 + off) \<le> 2 ^ h - k"
proof -
  have big: "2 ^ h < (2 :: nat) ^ LENGTH('w)" using assms(1) by simp
  note p = unat_push_bit_one [OF assms(1)]
  have "k < 2 ^ LENGTH('w)" using assms(2) big by linarith
  then have k: "unat (of_nat k :: 'w word) = k" by (simp add: unat_of_nat take_bit_nat_eq_self)
  have c: "unat (push_bit h 1 - of_nat k :: 'w word) = 2 ^ h - k"
    using p k assms(2) by (subst unat_sub) (auto simp: word_le_nat_alt)
  have o: "unat off < 2 ^ h - k" using assms(3) c by (simp add: word_less_nat_alt)
  then have "Suc (unat off) < 2 ^ LENGTH('w)" using big by linarith
  then have u: "unat (1 + off) = Suc (unat off)" by (simp add: unat_plus_if')
  show "1 + off \<noteq> 0" using u by auto
  show "unat (1 + off) \<le> 2 ^ h - k" using u o by simp
  have "unat off + k < 2 ^ h" using o by (simp add: less_diff_conv)
  then have "unat (1 + off) < 2 ^ h" using u assms(4) by linarith
  then have "unat (take_bit h (1 + off)) = unat (1 + off)" by (simp add: unsigned_take_bit_eq take_bit_nat_eq_self)
  then show "take_bit h (1 + off) = 1 + off" by (simp add: word_unat_eq_iff)
qed

text \<open>
  An address is a host address of a prefix of length \<open>len\<close> when it agrees with the prefix on its first
  \<open>len\<close> bits and its other bits are not those of a reserved address.
\<close>

definition host_in :: "'w::len word \<Rightarrow> nat \<Rightarrow> 'w word set \<Rightarrow> 'w word \<Rightarrow> bool" where
  "host_in pre len reserved a \<longleftrightarrow>
     (let h = LENGTH('w) - len in drop_bit h a = drop_bit h pre \<and> take_bit h a \<notin> reserved)"

lemma draw_host:
  fixes p :: "'w::len word"
  assumes "h < LENGTH('w)" "1 \<le> k" "k \<le> 2 ^ h" "off < push_bit h 1 - of_nat k"
    and "r = (p AND push_bit h (- 1)) + 1 + off"
  shows "drop_bit h r = drop_bit h p" "take_bit h r \<noteq> 0" "unat (take_bit h r) \<le> 2 ^ h - k"
proof -
  note o = host_offset [OF assms(1,3,4,2)]
  have r: "r = (p AND push_bit h (- 1)) + (1 + off)" using assms(5) by (simp add: add.assoc)
  show "drop_bit h r = drop_bit h p" "take_bit h r \<noteq> 0" "unat (take_bit h r) \<le> 2 ^ h - k"
    using network_plus [OF o(1), of p] o(2,3) by (simp_all add: r)
qed

lemma ipv4_host_range_Ok:
  assumes "ipv4_host_range p l = Ok (f, c)"
  shows "32 - l < 32" "2 \<le> 32 - l" "c = push_bit (32 - l) 1 - 2" "0 < c" "f = (p AND push_bit (32 - l) (- 1)) + 1"
  using assms by (auto simp: ipv4_host_range_def Let_def word_gt_0 split: if_splits)

lemma allocate_ipv4_Ok:
  assumes "allocate_ipv4 a gen used = Ok v" "\<And>c i. 0 < c \<Longrightarrow> gen c i < c"
  shows "v \<notin> used \<and> host_in (ia_ipv4_prefix a) (ia_ipv4_prefix_len a) {0, mask (32 - ia_ipv4_prefix_len a)} v"
proof -
  let ?p = "ia_ipv4_prefix a" and ?h = "32 - ia_ipv4_prefix_len a"
  obtain f c where r: "ipv4_host_range ?p (ia_ipv4_prefix_len a) = Ok (f, c)"
    "draw_loop (gen c) f used 0 ALLOCATE_ATTEMPTS = Ok v"
    using assms(1) by (auto simp: allocate_ipv4_def bind_res_Ok_iff)
  note h = ipv4_host_range_Ok [OF r(1)]
  obtain j where v: "v = (?p AND push_bit ?h (- 1)) + 1 + gen c j" "v \<notin> used"
    using draw_loop_Ok [OF r(2)] h(5) by auto
  have k: "2 \<le> (2 :: nat) ^ ?h" using h(2) self_le_power [of "2 :: nat" ?h] by simp
  have g: "gen c j < push_bit ?h 1 - of_nat 2" using assms(2) [OF h(4)] h(3) by simp
  note d = draw_host [where k = 2, OF _ _ k g v(1)]
  have "unat (take_bit ?h v) \<le> 2 ^ ?h - 2" using d(3) h(1) by simp
  moreover have "unat (mask ?h :: u32) = 2 ^ ?h - 1"
    using h(1) by (simp add: unat_mask)
  ultimately have "take_bit ?h v \<noteq> mask ?h" using k by auto
  with d h(1) v(2) show ?thesis by (simp add: host_in_def)
qed

lemma ipv6_host_range_Ok:
  assumes "ipv6_host_range p l = Ok (f, c)"
  shows "128 - l < 128" "1 \<le> 128 - l" "c = push_bit (128 - l) 1 - 1" "0 < c" "f = (p AND push_bit (128 - l) (- 1)) + 1"
  using assms by (auto simp: ipv6_host_range_def Let_def word_gt_0 split: if_splits)

lemma allocate_ipv6_Ok:
  assumes "allocate_ipv6 a gen used = Ok v" "\<And>c i. 0 < c \<Longrightarrow> gen c i < c"
  shows "v \<notin> used \<and> host_in (ia_ipv6_prefix a) (ia_ipv6_prefix_len a) {0} v"
proof -
  let ?p = "ia_ipv6_prefix a" and ?h = "128 - ia_ipv6_prefix_len a"
  obtain f c where r: "ipv6_host_range ?p (ia_ipv6_prefix_len a) = Ok (f, c)"
    "draw_loop (gen c) f used 0 ALLOCATE_ATTEMPTS = Ok v"
    using assms(1) by (auto simp: allocate_ipv6_def bind_res_Ok_iff)
  note h = ipv6_host_range_Ok [OF r(1)]
  obtain j where v: "v = (?p AND push_bit ?h (- 1)) + 1 + gen c j" "v \<notin> used"
    using draw_loop_Ok [OF r(2)] h(5) by auto
  have k: "1 \<le> (2 :: nat) ^ ?h" using h(2) self_le_power [of "2 :: nat" ?h] by simp
  have g: "gen c j < push_bit ?h 1 - of_nat 1" using assms(2) [OF h(4)] h(3) by simp
  note d = draw_host [where k = 1, OF _ _ k g v(1)]
  with d h(1) v(2) show ?thesis by (simp add: host_in_def)
qed

text \<open>When allocation fails.\<close>

lemma host_range_Err:
  "ipv4_host_range p l = Err e \<Longrightarrow> e = NoAddresses \<and> l \<notin> {1..30}"
  "ipv6_host_range q m = Err e \<Longrightarrow> e = NoAddresses \<and> m \<notin> {1..127}"
proof -
  have "push_bit h 1 \<noteq> (2 :: u32)" if "2 \<le> h" "h < 32" for h
    using unat_push_bit_one [where 'w = 32, of h] that self_le_power [of "2 :: nat" h] power_inject_exp [of "2 :: nat" h 1] by auto
  then have "\<not> (l \<noteq> 0 \<and> l \<le> 32 \<and> 2 \<le> 32 - l \<and> push_bit (32 - l) 1 - 2 = (0 :: u32))" by auto
  then show "ipv4_host_range p l = Err e \<Longrightarrow> e = NoAddresses \<and> l \<notin> {1..30}"
    by (auto simp: ipv4_host_range_def Let_def split: if_splits)
  have "push_bit h 1 \<noteq> (1 :: u128)" if "1 \<le> h" "h < 128" for h
    using unat_push_bit_one [where 'w = 128, of h] that self_le_power [of "2 :: nat" h] by auto
  then have "\<not> (m \<noteq> 0 \<and> m \<le> 128 \<and> 1 \<le> 128 - m \<and> push_bit (128 - m) 1 - 1 = (0 :: u128))" by auto
  then show "ipv6_host_range q m = Err e \<Longrightarrow> e = NoAddresses \<and> m \<notin> {1..127}"
    by (auto simp: ipv6_host_range_def Let_def split: if_splits)
qed

text \<open>The address tried at a draw.\<close>

definition drawn4 :: "ip_allocator \<Rightarrow> (u32 \<Rightarrow> nat \<Rightarrow> u32) \<Rightarrow> nat \<Rightarrow> u32" where
  "drawn4 a gen j = (let h = 32 - ia_ipv4_prefix_len a in (ia_ipv4_prefix a AND push_bit h (- 1)) + 1 + gen (push_bit h 1 - 2) j)"

definition drawn6 :: "ip_allocator \<Rightarrow> (u128 \<Rightarrow> nat \<Rightarrow> u128) \<Rightarrow> nat \<Rightarrow> u128" where
  "drawn6 a gen j = (let h = 128 - ia_ipv6_prefix_len a in (ia_ipv6_prefix a AND push_bit h (- 1)) + 1 + gen (push_bit h 1 - 1) j)"

lemma allocate_ipv4_Err:
  assumes "allocate_ipv4 a gen used = Err e"
  shows "e = NoAddresses \<and> ia_ipv4_prefix_len a \<notin> {1..30} \<or> e = Exhausted \<and> (\<forall>j < 1024. drawn4 a gen j \<in> used)"
proof (cases "ipv4_host_range (ia_ipv4_prefix a) (ia_ipv4_prefix_len a)")
  case (Inl e')
  then show ?thesis using assms host_range_Err(1) [OF Inl] by (simp add: allocate_ipv4_def)
next
  case (Inr fc)
  obtain f c where fc: "fc = (f, c)" by (cases fc)
  have "draw_loop (gen c) f used 0 ALLOCATE_ATTEMPTS = Err e" using assms Inr fc by (simp add: allocate_ipv4_def)
  from draw_loop_Err [OF this] ipv4_host_range_Ok [OF Inr [unfolded fc]] show ?thesis
    by (simp add: drawn4_def Let_def ALLOCATE_ATTEMPTS_def)
qed

lemma allocate_ipv6_Err:
  assumes "allocate_ipv6 a gen used = Err e"
  shows "e = NoAddresses \<and> ia_ipv6_prefix_len a \<notin> {1..127} \<or> e = Exhausted \<and> (\<forall>j < 1024. drawn6 a gen j \<in> used)"
proof (cases "ipv6_host_range (ia_ipv6_prefix a) (ia_ipv6_prefix_len a)")
  case (Inl e')
  then show ?thesis using assms host_range_Err(2) [OF Inl] by (simp add: allocate_ipv6_def)
next
  case (Inr fc)
  obtain f c where fc: "fc = (f, c)" by (cases fc)
  have "draw_loop (gen c) f used 0 ALLOCATE_ATTEMPTS = Err e" using assms Inr fc by (simp add: allocate_ipv6_def)
  from draw_loop_Err [OF this] ipv6_host_range_Ok [OF Inr [unfolded fc]] show ?thesis
    by (simp add: drawn6_def Let_def ALLOCATE_ATTEMPTS_def)
qed

text \<open>
  C35. Allocation, for random draws within their range. An allocated pair consists of addresses not in use that lie
  inside the configured prefixes and are neither the network nor the broadcast address (IPv4) nor the subnet-router
  address (IPv6); no addition wraps around. \<^verbatim>\<open>NoAddresses\<close> is returned only for a prefix length outside 1 to 30
  (IPv4) or 1 to 127 (IPv6), and \<^verbatim>\<open>Exhausted\<close> only when all 1024 addresses drawn for one of the families were in use.
\<close>

theorem allocate_fresh_in_prefix:
  assumes "\<And>c i. 0 < c \<Longrightarrow> gen4 c i < c" "\<And>c i. 0 < c \<Longrightarrow> gen6 c i < c"
  shows "case allocate a gen4 gen6 used4 used6 of
      Inr (v4, v6) \<Rightarrow> v4 \<notin> used4 \<and> v6 \<notin> used6
        \<and> host_in (ia_ipv4_prefix a) (ia_ipv4_prefix_len a) {0, mask (32 - ia_ipv4_prefix_len a)} v4
        \<and> host_in (ia_ipv6_prefix a) (ia_ipv6_prefix_len a) {0} v6
    | Inl NoAddresses \<Rightarrow> ia_ipv4_prefix_len a \<notin> {1..30} \<or> ia_ipv6_prefix_len a \<notin> {1..127}
    | Inl Exhausted \<Rightarrow> (\<forall>j < 1024. drawn4 a gen4 j \<in> used4) \<or> (\<forall>j < 1024. drawn6 a gen6 j \<in> used6)"
proof (cases "allocate a gen4 gen6 used4 used6")
  case (Inl e)
  then have "allocate_ipv4 a gen4 used4 = Err e \<or> allocate_ipv6 a gen6 used6 = Err e"
    by (auto simp: allocate_def bind_res_Err_iff)
  then show ?thesis using allocate_ipv4_Err allocate_ipv6_Err Inl by (cases e) fastforce+
next
  case (Inr v)
  then obtain v4 v6 where v: "v = (v4, v6)" "allocate_ipv4 a gen4 used4 = Ok v4" "allocate_ipv6 a gen6 used6 = Ok v6"
    by (cases v) (auto simp: allocate_def bind_res_Ok_iff)
  then show ?thesis using allocate_ipv4_Ok [OF v(2) assms(1)] allocate_ipv6_Ok [OF v(3) assms(2)] Inr by simp
qed

theorem allocate_fresh_in_prefix_witness:
  "let v4 = 0x64400001 + 5; v6 = 0xFD7A115CA1E000000000000000000001 + 5 in
   host_in 0x64400000 10 {0, mask 22} (v4 :: u32) \<and> host_in 0xFD7A115CA1E000000000000000000000 48 {0} (v6 :: u128)"
proof -
  define a where "a = ip_allocator_new 0x64400000 10 0xFD7A115CA1E000000000000000000000 48"
  let ?g = "\<lambda>c (i :: nat). if 5 < c then 5 else 0"
  have g: "0 < c \<Longrightarrow> ?g c i < c" for c :: "'w::len word" and i by auto
  have "allocate a ?g ?g {} {} = Ok (0x64400001 + 5, 0xFD7A115CA1E000000000000000000001 + 5)"
    by (simp add: a_def ip_allocator_new_def allocate_def allocate_ipv4_def allocate_ipv6_def ipv4_host_range_def
        ipv6_host_range_def Let_def ALLOCATE_ATTEMPTS_def draw_loop_unused mask_eq_exp_minus_1)
  with allocate_fresh_in_prefix [OF g g, of a "{}" "{}"] show ?thesis by (simp add: a_def ip_allocator_new_def Let_def)
qed

end
