(* ===== verification/Control_Dns.thy ===== *)
theory Control_Dns
  imports Control_Model Control_Ip
begin

text \<open>
  DNS settings and the wire configuration built from them, \<^verbatim>\<open>crabscale-control/src/dns.rs\<close>. Reading the
  extra-records file and its JSON are parameters; the revision channel is the list of the revisions sent.
\<close>

definition DEFAULT_MAGIC_DNS_IPV4 :: u32 where "DEFAULT_MAGIC_DNS_IPV4 = 0x64646464"
definition DEFAULT_MAGIC_DNS_IPV6 :: u128 where "DEFAULT_MAGIC_DNS_IPV6 = 0xFD7A115CA1E000000000000000000100"
definition DEFAULT_EXTRA_RECORD_TTL :: nat where "DEFAULT_EXTRA_RECORD_TTL = 300"

record dns_settings =
  ds_magic_dns :: bool
  ds_magic_dns_ipv4 :: "u32 option"
  ds_magic_dns_ipv6 :: "u128 option"
  ds_search_domains :: "string list"
  ds_split_dns :: "(string, string list) btree"
  ds_extra_records_path :: "string option"

definition dns_settings_default :: dns_settings where
  "dns_settings_default =
     \<lparr>ds_magic_dns = True, ds_magic_dns_ipv4 = None, ds_magic_dns_ipv6 = None, ds_search_domains = [],
      ds_split_dns = [], ds_extra_records_path = None\<rparr>"

datatype dns_error = DnsIo string | DnsParse string

definition show_dns_error :: "dns_error \<Rightarrow> string" where
  "show_dns_error err = (case err of
      DnsIo e \<Rightarrow> ''failed to read DNS extra records: '' @ e
    | DnsParse e \<Rightarrow> ''invalid DNS extra records: '' @ e)"

record extra_record_file =
  er_name :: string
  er_rec_type :: string
  er_class :: nat
  er_ttl :: nat
  er_value :: string

section \<open>Addresses\<close>

definition parse_ipv4 :: "string \<Rightarrow> u32 option" where
  "parse_ipv4 s = (case read_ipv4_octets s of Some (os, []) \<Rightarrow> Some (of_octets os) | _ \<Rightarrow> None)"

definition split_address :: "string \<Rightarrow> (string \<times> string) option" where
  "split_address address =
     (let ip_literal = hd (split_char CHR ''/'' address) in
      map_option (\<lambda>ip. (ip_literal, if is_ipv4 ip then ''A'' else ''AAAA'')) (parse_ip ip_literal))"

definition node_name :: "proto_node \<Rightarrow> string" where
  "node_name node =
     (if pn_name node = [] then pn_name node
      else if ends_with (pn_name node) ''.'' then pn_name node
      else pn_name node @ ''.'')"

definition node_record :: "proto_node \<Rightarrow> string \<Rightarrow> dns_record option" where
  "node_record node address =
     map_option (\<lambda>(ip_str, family).
       \<lparr>rec_name = node_name node, rec_rec_type = family, rec_class = 1, rec_ttl = DEFAULT_EXTRA_RECORD_TTL,
        rec_value = ip_str\<rparr>) (split_address address)"

definition ipv4_contains :: "u32 \<Rightarrow> nat \<Rightarrow> u32 \<Rightarrow> bool" where
  "ipv4_contains pre prefix_len ip =
     (if prefix_len = 0 then True
      else if prefix_len > 32 then False
      else let mask = (if prefix_len = 32 then - 1 else push_bit (32 - prefix_len) (- 1)) in
        pre AND mask = ip AND mask)"

definition ipv6_contains :: "u128 \<Rightarrow> nat \<Rightarrow> u128 \<Rightarrow> bool" where
  "ipv6_contains pre prefix_len ip =
     (if prefix_len = 0 then True
      else if prefix_len > 128 then False
      else let mask = (if prefix_len = 128 then - 1 else push_bit (128 - prefix_len) (- 1)) in
        pre AND mask = ip AND mask)"

definition ipv4_last_host :: "u32 \<Rightarrow> nat \<Rightarrow> u32" where
  "ipv4_last_host pre prefix_len =
     (if prefix_len = 0 \<or> prefix_len \<ge> 31 then pre
      else let mask = push_bit (32 - prefix_len) (- 1);
               network = pre AND mask;
               host_bits = 32 - prefix_len;
               host_count = push_bit host_bits 1 in
        network + host_count - 2)"

definition ipv6_last_host :: "u128 \<Rightarrow> nat \<Rightarrow> u128" where
  "ipv6_last_host pre prefix_len =
     (if prefix_len = 0 \<or> prefix_len \<ge> 128 then pre
      else let mask = push_bit (128 - prefix_len) (- 1);
               network = pre AND mask;
               host_bits = 128 - prefix_len;
               host_count = push_bit host_bits 1 in
        network + host_count - 1)"

definition derive_magic_dns_ipv4 :: "u32 \<Rightarrow> nat \<Rightarrow> u32" where
  "derive_magic_dns_ipv4 pre prefix_len =
     (if ipv4_contains pre prefix_len DEFAULT_MAGIC_DNS_IPV4 then DEFAULT_MAGIC_DNS_IPV4
      else ipv4_last_host pre prefix_len)"

definition derive_magic_dns_ipv6 :: "u128 \<Rightarrow> nat \<Rightarrow> u128" where
  "derive_magic_dns_ipv6 pre prefix_len =
     (if ipv6_contains pre prefix_len DEFAULT_MAGIC_DNS_IPV6 then DEFAULT_MAGIC_DNS_IPV6
      else ipv6_last_host pre prefix_len)"

section \<open>The configuration sent to clients\<close>

definition resolver :: "string \<Rightarrow> dns_resolver" where
  "resolver addr = dns_resolver_default\<lparr>res_addr := addr\<rparr>"

definition push_domain :: "string list \<Rightarrow> string \<Rightarrow> string list" where
  "push_domain ds d = (if d \<in> set ds then ds else ds @ [d])"

definition magic_records :: "proto_node list \<Rightarrow> dns_record list" where
  "magic_records nodes = concat (map (\<lambda>node. List.map_filter (node_record node) (pn_addresses node)) nodes)"

definition dns_build ::
  "dns_settings \<Rightarrow> string \<Rightarrow> u32 \<Rightarrow> u128 \<Rightarrow> proto_node list \<Rightarrow> dns_record list \<Rightarrow> dns_config" where
  "dns_build s tailnet_domain magic4 magic6 nodes extra =
     (let suffix = tailnet_domain @ ''.'';
          config = dns_config_default\<lparr>dc_routes := map (\<lambda>(k, addrs). (k, map resolver addrs)) (ds_split_dns s)\<rparr>;
          search = foldl push_domain (if ds_magic_dns s then [tailnet_domain] else []) (ds_search_domains s);
          config = config\<lparr>dc_domains := search, dc_search_domains := search\<rparr> in
      if ds_magic_dns s then
        let magic = [resolver (show_ipv4 magic4), resolver (show_ipv6 magic6)] in
        config\<lparr>dc_resolvers := magic, dc_proxied := True, dc_magic_dns_suffix := suffix,
               dc_routes := bt_entry suffix [] (\<lambda>rs. rs @ magic) (dc_routes config),
               dc_extra_records := magic_records nodes @ extra\<rparr>
      else config)"

section \<open>Extra records\<close>

definition infer_record_type :: "string \<Rightarrow> string \<Rightarrow> string" where
  "infer_record_type explicit value =
     (if explicit \<noteq> [] then explicit
      else if parse_ipv4 value \<noteq> None then ''A''
      else if parse_ipv6 value \<noteq> None then ''AAAA''
      else [])"

definition extra_record :: "extra_record_file \<Rightarrow> (dns_error, dns_record) result" where
  "extra_record r =
     (if er_name r = [] then Err (DnsParse ''an extra record must have a non-empty name'')
      else if er_value r = [] then Err (DnsParse ''an extra record must have a non-empty value'')
      else Ok \<lparr>rec_name = er_name r, rec_rec_type = infer_record_type (er_rec_type r) (er_value r),
               rec_class = (if er_class r = 0 then 1 else er_class r), rec_ttl = er_ttl r, rec_value = er_value r\<rparr>)"

fun collect_res :: "('a \<Rightarrow> ('e, 'b) result) \<Rightarrow> 'a list \<Rightarrow> ('e, 'b list) result" where
  "collect_res f [] = Ok []"
| "collect_res f (x # xs) = bind_res (f x) (\<lambda>y. bind_res (collect_res f xs) (\<lambda>ys. Ok (y # ys)))"

type_synonym extra_json = "bytes \<Rightarrow> (string, extra_record_file list) result"

definition parse_extra_records :: "extra_json \<Rightarrow> bytes \<Rightarrow> (dns_error, dns_record list) result" where
  "parse_extra_records from_slice body =
     bind_res (map_err DnsParse (from_slice body)) (\<lambda>records. collect_res extra_record records)"

definition load_extra_records :: "world \<Rightarrow> extra_json \<Rightarrow> string \<Rightarrow> (dns_error, dns_record list) result" where
  "load_extra_records w from_slice path =
     bind_res (map_err DnsIo (w_read_file w path)) (\<lambda>body. parse_extra_records from_slice body)"

section \<open>Shared state\<close>

record dns_state =
  dst_extra_records :: "dns_record list"
  dst_revision :: nat
  dst_sent :: "nat list"

definition dns_state_new :: "dns_record list \<Rightarrow> dns_state" where
  "dns_state_new records = \<lparr>dst_extra_records = records, dst_revision = 0, dst_sent = []\<rparr>"

definition set_extra_records :: "dns_record list \<Rightarrow> dns_state \<Rightarrow> nat \<times> dns_state" where
  "set_extra_records records s =
     (let revision = dst_revision s + 1 in
      (revision, s\<lparr>dst_extra_records := records, dst_revision := revision, dst_sent := dst_sent s @ [revision]\<rparr>))"

text \<open>\<^verbatim>\<open>derp.rs\<close>: the relay map and its revisions.\<close>

record derp_map_state =
  dms_map :: derp_map
  dms_revision :: nat
  dms_sent :: "nat list"

definition derp_map_state_new :: "derp_map \<Rightarrow> derp_map_state" where
  "derp_map_state_new m = \<lparr>dms_map = m, dms_revision = 0, dms_sent = []\<rparr>"

definition derp_set_map :: "derp_map \<Rightarrow> derp_map_state \<Rightarrow> nat \<times> derp_map_state" where
  "derp_set_map m s =
     (let revision = dms_revision s + 1 in
      (revision, s\<lparr>dms_map := m, dms_revision := revision, dms_sent := dms_sent s @ [revision]\<rparr>))"

section \<open>The derived resolver lies in the tailnet\<close>

lemma same_network:
  fixes p x :: "'w::len word"
  assumes "take_bit h x = x"
  shows "((p AND push_bit h (- 1)) + x) AND push_bit h (- 1) = p AND push_bit h (- 1)"
proof -
  have "drop_bit h ((p AND push_bit h (- 1)) + x) = drop_bit h p" by (rule network_plus(1) [OF assms])
  then have "push_bit h (drop_bit h ((p AND push_bit h (- 1)) + x)) = push_bit h (drop_bit h p)" by simp
  moreover have "push_bit h (drop_bit h a) = a AND push_bit h (- 1)" for a :: "'w word"
    by (rule bit_word_eqI) (auto simp: bit_simps)
  ultimately show ?thesis by simp
qed

lemma host_below:
  assumes "h < LENGTH('w)" "1 \<le> k" "k \<le> 2 ^ h"
  shows "take_bit h (push_bit h 1 - of_nat k) = (push_bit h 1 - of_nat k :: 'w::len word)"
proof -
  have big: "2 ^ h < (2 :: nat) ^ LENGTH('w)" using assms(1) by simp
  have "k < 2 ^ LENGTH('w)" using assms(3) big by linarith
  then have k: "unat (of_nat k :: 'w word) = k" by (simp add: unat_of_nat take_bit_nat_eq_self)
  have "unat (push_bit h 1 - of_nat k :: 'w word) = 2 ^ h - k"
    using unat_push_bit_one [OF assms(1)] k assms(3) by (subst unat_sub) (auto simp: word_le_nat_alt)
  moreover have "2 ^ h - k < (2 :: nat) ^ h" using assms(2) by (simp add: diff_less)
  ultimately have "unat (take_bit h (push_bit h 1 - of_nat k :: 'w word)) = unat (push_bit h 1 - of_nat k :: 'w word)"
    by (simp only: unsigned_take_bit_eq take_bit_nat_eq_self)
  then show ?thesis by (simp only: word_unat_eq_iff)
qed

lemma ipv4_last_host_in: "l \<le> 32 \<Longrightarrow> ipv4_contains p l (ipv4_last_host p l)"
proof (cases "l = 0 \<or> 31 \<le> l")
  case False
  let ?h = "32 - l"
  have k: "(2 :: nat) \<le> 2 ^ ?h" using False self_le_power [of "2 :: nat" ?h] by simp
  have t: "take_bit ?h (push_bit ?h 1 - of_nat 2) = (push_bit ?h 1 - of_nat 2 :: u32)"
    by (rule host_below) (use False k in auto)
  have "ipv4_last_host p l = (p AND push_bit ?h (- 1)) + (push_bit ?h 1 - of_nat 2)"
    using False by (simp only: ipv4_last_host_def Let_def if_False add_diff_eq of_nat_numeral)
  then show ?thesis using same_network [OF t, of p] False by (simp only: ipv4_contains_def Let_def) simp
qed (auto simp: ipv4_contains_def ipv4_last_host_def)

lemma ipv6_last_host_in: "l \<le> 128 \<Longrightarrow> ipv6_contains p l (ipv6_last_host p l)"
proof (cases "l = 0 \<or> 128 \<le> l")
  case False
  let ?h = "128 - l"
  have t: "take_bit ?h (push_bit ?h 1 - of_nat 1) = (push_bit ?h 1 - of_nat 1 :: u128)"
    by (rule host_below) (use False in auto)
  have "ipv6_last_host p l = (p AND push_bit ?h (- 1)) + (push_bit ?h 1 - of_nat 1)"
    using False by (simp only: ipv6_last_host_def Let_def if_False add_diff_eq of_nat_1)
  then show ?thesis using same_network [OF t, of p] False by (simp only: ipv6_contains_def Let_def) simp
qed (auto simp: ipv6_contains_def ipv6_last_host_def)

text \<open>
  The MagicDNS resolver addresses derived from the tailnet prefixes lie inside those prefixes, for every
  prefix and every prefix length that its address family has; an overridden well-known address is used only when
  the prefix covers it.
\<close>

theorem magic_dns_in_prefix:
  assumes "l4 \<le> 32" "l6 \<le> 128"
  shows "ipv4_contains p4 l4 (derive_magic_dns_ipv4 p4 l4) \<and> ipv6_contains p6 l6 (derive_magic_dns_ipv6 p6 l6)"
  using assms ipv4_last_host_in ipv6_last_host_in by (simp add: derive_magic_dns_ipv4_def derive_magic_dns_ipv6_def)

text \<open>
  The allocator does not reserve that address: in the default prefix a draw can hand it to a node.
\<close>

lemma allocator_hands_out_magic_dns:
  "\<exists>gen. (\<forall>c i. 0 < c \<longrightarrow> gen c i < c) \<and>
     allocate_ipv4 (ip_allocator_new 0x64400000 10 p6 l6) gen {} = Ok (derive_magic_dns_ipv4 0x64400000 10)"
proof -
  let ?g = "\<lambda>c (i :: nat). if (0x246463 :: u32) < c then 0x246463 else 0"
  have "allocate_ipv4 (ip_allocator_new 0x64400000 10 p6 l6) ?g {} = Ok 0x64646464"
    by (simp add: ip_allocator_new_def allocate_ipv4_def ipv4_host_range_def Let_def ALLOCATE_ATTEMPTS_def draw_loop_unused mask_eq_exp_minus_1)
  moreover have "derive_magic_dns_ipv4 0x64400000 10 = 0x64646464"
    by (simp add: derive_magic_dns_ipv4_def ipv4_contains_def DEFAULT_MAGIC_DNS_IPV4_def Let_def mask_eq_exp_minus_1)
  ultimately show ?thesis by (intro exI [of _ ?g]) (auto simp: word_gt_0)
qed

end
