(* ===== verification/Control_Plane.thy ===== *)
theory Control_Plane
  imports Control_Store Control_Session Control_Events Control_Dns
begin

text \<open>
  The control plane of \<^verbatim>\<open>crabscale-control/src/lib.rs\<close>: configuration, errors, registration, interactive approval,
  logout, pre-auth keys and routes. An operation maps the plane to a result and the new plane; \<^term>\<open>None\<close> is the
  divergence that a cyclic policy group causes in the policy checks. The metrics counters are left out.
\<close>

section \<open>Configuration and errors\<close>

record control_config =
  cc_auth_key :: string
  cc_protocol_version :: nat
  cc_tailnet_domain :: string
  cc_derp_map :: derp_map
  cc_policy :: policy
  cc_user_id :: nat
  cc_login_id :: nat
  cc_user_login_name :: string
  cc_user_display_name :: string
  cc_ipv4_prefix :: u32
  cc_ipv4_prefix_len :: nat
  cc_ipv6_prefix :: u128
  cc_ipv6_prefix_len :: nat
  cc_server_url :: string
  cc_pending_ttl_seconds :: int
  cc_pending_cache_limit :: nat
  cc_reconnect_grace_seconds :: int
  cc_dns :: dns_settings
  cc_change_batch_window :: nat
  cc_change_batch_max :: nat

definition DEFAULT_IPV4_PREFIX :: u32 where "DEFAULT_IPV4_PREFIX = 0x64400000"
definition DEFAULT_IPV4_PREFIX_LEN :: nat where "DEFAULT_IPV4_PREFIX_LEN = 10"
definition DEFAULT_IPV6_PREFIX :: u128 where "DEFAULT_IPV6_PREFIX = 0xFD7A115CA1E000000000000000000000"
definition DEFAULT_IPV6_PREFIX_LEN :: nat where "DEFAULT_IPV6_PREFIX_LEN = 48"
definition CONTROL_TIME :: string where "CONTROL_TIME = ''2026-08-20T00:00:00Z''"

definition control_config_default :: control_config where
  "control_config_default =
     \<lparr>cc_auth_key = ''hskey-auth-test-secret'',
      cc_protocol_version = 130,
      cc_tailnet_domain = ''tailnet.example'',
      cc_derp_map = derp_map_default\<lparr>dm_regions := bt_insert ''1''
        (derp_region_default\<lparr>dr_region_id := 1, dr_region_code := ''test'', dr_region_name := ''Test'',
          dr_nodes := [derp_node_default\<lparr>dn_name := ''test-1'', dn_region_id := 1,
            dn_host_name := ''derp.example.com'', dn_derp_port := 443, dn_stun_port := 3478\<rparr>]\<rparr>) []\<rparr>,
      cc_policy = empty_policy,
      cc_user_id = 1,
      cc_login_id = 1,
      cc_user_login_name = ''owner@example.com'',
      cc_user_display_name = ''Owner'',
      cc_ipv4_prefix = DEFAULT_IPV4_PREFIX,
      cc_ipv4_prefix_len = DEFAULT_IPV4_PREFIX_LEN,
      cc_ipv6_prefix = DEFAULT_IPV6_PREFIX,
      cc_ipv6_prefix_len = DEFAULT_IPV6_PREFIX_LEN,
      cc_server_url = ''https://tailnet.example'',
      cc_pending_ttl_seconds = DEFAULT_PENDING_TTL_SECONDS,
      cc_pending_cache_limit = DEFAULT_PENDING_CACHE_LIMIT,
      cc_reconnect_grace_seconds = DEFAULT_RECONNECT_GRACE_SECONDS,
      cc_dns = dns_settings_default,
      cc_change_batch_window = DEFAULT_CHANGE_BATCH_WINDOW,
      cc_change_batch_max = DEFAULT_CHANGE_BATCH_MAX\<rparr>"

datatype control_error =
    NotFound
  | UnsupportedVersion nat
  | Store string
  | IpAllocation
  | JsonFailed
  | FrameFailed
  | ZstdFailed
  | InvalidAuthKey string
  | InvalidEndpointTypes
  | PolicyRejected string
  | UnauthorizedTags "string list"
  | InvalidRoute string
  | ExtraRecords string
  | Unauthorized
  | SshBinding string
  | Timeout

definition show_control_error :: "control_error \<Rightarrow> string" where
  "show_control_error err = (case err of
      NotFound \<Rightarrow> ''node not found or machine key mismatch''
    | UnsupportedVersion v \<Rightarrow> ''unsupported capability version '' @ dec_str v
    | Store e \<Rightarrow> ''store error: '' @ e
    | IpAllocation \<Rightarrow> ''no free tailnet IP available''
    | JsonFailed \<Rightarrow> ''failed to serialize JSON''
    | FrameFailed \<Rightarrow> ''failed to frame MapResponse''
    | ZstdFailed \<Rightarrow> ''failed to compress MapResponse''
    | InvalidAuthKey e \<Rightarrow> ''invalid auth key: '' @ e
    | InvalidEndpointTypes \<Rightarrow> ''endpoint_types length does not match endpoints length''
    | PolicyRejected e \<Rightarrow> ''policy error: '' @ e
    | UnauthorizedTags tags \<Rightarrow> ''requested tags are not permitted: '' @ join '', '' tags
    | InvalidRoute route \<Rightarrow> ''invalid route `'' @ route @ ''`: expected an IP or CIDR''
    | ExtraRecords e \<Rightarrow> ''DNS extra records: '' @ e
    | Unauthorized \<Rightarrow> ''unauthorized: machine key mismatch''
    | SshBinding auth_id \<Rightarrow> ''SSH auth binding mismatch for `'' @ auth_id @ ''`''
    | Timeout \<Rightarrow> ''timed out waiting for an SSH approval'')"

record oidc_profile =
  op_subject :: string
  op_email :: string
  op_display_name :: string

section \<open>State and operations\<close>

record plane =
  pl_config :: control_config
  pl_db :: db
  pl_pending :: pending_cache
  pl_sessions :: session_registry
  pl_reaper_started :: bool
  pl_dns :: dns_state
  pl_derp :: derp_map_state
  pl_events :: change_bus
  pl_ssh_waiters :: "string list"

type_synonym 'a plane_op = "plane \<Rightarrow> ((control_error, 'a) result \<times> plane) option"

definition ret :: "'a \<Rightarrow> 'a plane_op" where "ret x p = Some (Ok x, p)"
definition throw :: "control_error \<Rightarrow> 'a plane_op" where "throw e p = Some (Err e, p)"
definition reads :: "(plane \<Rightarrow> 'a) \<Rightarrow> 'a plane_op" where "reads f p = Some (Ok (f p), p)"
definition updates :: "(plane \<Rightarrow> plane) \<Rightarrow> unit plane_op" where "updates f p = Some (Ok (), f p)"
definition of_opt :: "'a option \<Rightarrow> 'a plane_op" where "of_opt o' p = map_option (\<lambda>x. (Ok x, p)) o'"

definition bind_op :: "'a plane_op \<Rightarrow> ('a \<Rightarrow> 'b plane_op) \<Rightarrow> 'b plane_op" where
  "bind_op m f p = (case m p of
      None \<Rightarrow> None
    | Some (Inl e, p') \<Rightarrow> Some (Inl e, p')
    | Some (Inr x, p') \<Rightarrow> f x p')"

text \<open>A store call, with \<^verbatim>\<open>map_err(|e| ControlError::Store(e.to_string()))\<close>.\<close>

definition store_op :: "world \<Rightarrow> 'a db_op \<Rightarrow> 'a plane_op" where
  "store_op w f p = (case f (pl_db p) of
      (Inl e, d) \<Rightarrow> Some (Err (Store (show_store_error w e)), p\<lparr>pl_db := d\<rparr>)
    | (Inr x, d) \<Rightarrow> Some (Ok x, p\<lparr>pl_db := d\<rparr>))"

definition reads_db :: "(db \<Rightarrow> 'a) \<Rightarrow> 'a plane_op" where "reads_db f = reads (\<lambda>p. f (pl_db p))"
definition updates_db :: "(db \<Rightarrow> db) \<Rightarrow> unit plane_op" where "updates_db f = updates (\<lambda>p. p\<lparr>pl_db := f (pl_db p)\<rparr>)"

definition publish_change :: "change_event \<Rightarrow> unit plane_op" where
  "publish_change e = updates (\<lambda>p. p\<lparr>pl_events := bus_publish e (pl_events p)\<rparr>)"

definition plane_flush_changes :: "unit plane_op" where
  "plane_flush_changes = updates (\<lambda>p. p\<lparr>pl_events := bus_flush (pl_events p)\<rparr>)"

definition publish_policy_changed :: "unit plane_op" where
  "publish_policy_changed = publish_change PolicyChanged"

section \<open>DNS and the relay map\<close>

definition reload_dns_extra_records :: "world \<Rightarrow> extra_json \<Rightarrow> nat plane_op" where
  "reload_dns_extra_records w from_slice =
     bind_op (reads (\<lambda>p. ds_extra_records_path (cc_dns (pl_config p)))) (\<lambda>path.
       case path of
         None \<Rightarrow> throw (ExtraRecords ''no DNS extra records path configured'')
       | Some path \<Rightarrow>
           (case load_extra_records w from_slice path of
              Inl e \<Rightarrow> throw (ExtraRecords (show_dns_error e))
            | Inr records \<Rightarrow>
                bind_op (updates (\<lambda>p. p\<lparr>pl_dns := snd (set_extra_records records (pl_dns p))\<rparr>)) (\<lambda>_.
                bind_op (publish_change DnsChanged) (\<lambda>_.
                ret (length records)))))"

definition set_derp_map :: "derp_map \<Rightarrow> nat plane_op" where
  "set_derp_map m =
     bind_op (reads (\<lambda>p. fst (derp_set_map m (pl_derp p)))) (\<lambda>revision.
     bind_op (updates (\<lambda>p. p\<lparr>pl_derp := snd (derp_set_map m (pl_derp p))\<rparr>)) (\<lambda>_.
     bind_op (publish_change DerpMapChanged) (\<lambda>_. ret revision)))"

definition build_dns_config :: "dns_config option plane_op" where
  "build_dns_config =
     reads (\<lambda>p.
       let c = pl_config p; dns = cc_dns c; extra = dst_extra_records (pl_dns p) in
       if \<not> ds_magic_dns dns \<and> ds_split_dns dns = [] \<and> ds_search_domains dns = [] \<and> extra = [] then None
       else
         let magic4 = (case ds_magic_dns_ipv4 dns of Some a \<Rightarrow> a
               | None \<Rightarrow> derive_magic_dns_ipv4 (cc_ipv4_prefix c) (cc_ipv4_prefix_len c));
             magic6 = (case ds_magic_dns_ipv6 dns of Some a \<Rightarrow> a
               | None \<Rightarrow> derive_magic_dns_ipv6 (cc_ipv6_prefix c) (cc_ipv6_prefix_len c));
             nodes = map to_proto (db_list_nodes (pl_db p)) in
         Some (dns_build dns (cc_tailnet_domain c) magic4 magic6 nodes extra))"

definition plane_with_store :: "world \<Rightarrow> extra_json \<Rightarrow> control_config \<Rightarrow> db \<Rightarrow> plane" where
  "plane_with_store w from_slice config d =
     (let p = \<lparr>pl_config = config, pl_db = d,
               pl_pending = pending_cache_new (cc_pending_cache_limit config),
               pl_sessions = session_registry_new (cc_reconnect_grace_seconds config),
               pl_reaper_started = False,
               pl_dns = dns_state_new [],
               pl_derp = derp_map_state_new (cc_derp_map config),
               pl_events = change_bus_new (cc_change_batch_window config) (cc_change_batch_max config),
               pl_ssh_waiters = []\<rparr> in
      if ds_extra_records_path (cc_dns config) \<noteq> None
      then (case reload_dns_extra_records w from_slice p of Some (_, p') \<Rightarrow> p' | None \<Rightarrow> p)
      else p)"

section \<open>Sessions\<close>

fun publish_online :: "session_event list \<Rightarrow> unit plane_op" where
  "publish_online [] = ret ()"
| "publish_online (Online n # evs) = bind_op (publish_change (OnlineChanged n True)) (\<lambda>_. publish_online evs)"
| "publish_online (Offline n # evs) = publish_online evs"
| "publish_online (EphemeralExpired n # evs) = publish_online evs"

definition open_session :: "world \<Rightarrow> int \<Rightarrow> bool \<Rightarrow> int plane_op" where
  "open_session w node_id ephemeral =
     bind_op (reads (\<lambda>p. fst (session_open node_id ephemeral (now_unix w) (pl_sessions p)))) (\<lambda>(session_id, events).
     bind_op (updates (\<lambda>p. p\<lparr>pl_sessions := snd (session_open node_id ephemeral (now_unix w) (pl_sessions p))\<rparr>)) (\<lambda>_.
     bind_op (publish_online events) (\<lambda>_. ret session_id)))"

definition close_session :: "world \<Rightarrow> int \<Rightarrow> unit plane_op" where
  "close_session w session_id =
     updates (\<lambda>p. p\<lparr>pl_sessions := snd (session_close session_id (now_unix w) (pl_sessions p))\<rparr>)"

definition claim_reaper :: "bool plane_op" where
  "claim_reaper p = Some (Ok (\<not> pl_reaper_started p), p\<lparr>pl_reaper_started := True\<rparr>)"

definition reap_event :: "session_event \<Rightarrow> unit plane_op" where
  "reap_event ev = (case ev of
      Offline n \<Rightarrow> publish_change (OnlineChanged n False)
    | EphemeralExpired n \<Rightarrow>
        bind_op (reads_db (\<lambda>d. db_get_node_by_id d n)) (\<lambda>found.
        bind_op (case found of
                   Some node \<Rightarrow> updates_db (\<lambda>d. snd (db_delete_node (n_node_key node) d))
                 | None \<Rightarrow> ret ()) (\<lambda>_.
        publish_change (NodeRemoved n)))
    | Online _ \<Rightarrow> ret ())"

fun reap_events :: "session_event list \<Rightarrow> unit plane_op" where
  "reap_events [] = ret ()"
| "reap_events (ev # evs) = bind_op (reap_event ev) (\<lambda>_. reap_events evs)"

definition reap_sessions_at :: "int list \<Rightarrow> int \<Rightarrow> session_event list plane_op" where
  "reap_sessions_at order now =
     bind_op (reads (\<lambda>p. fst (session_tick order now (pl_sessions p)))) (\<lambda>events.
     bind_op (updates (\<lambda>p. p\<lparr>pl_sessions := snd (session_tick order now (pl_sessions p))\<rparr>)) (\<lambda>_.
     bind_op (reap_events events) (\<lambda>_. ret events)))"

definition is_node_online :: "int \<Rightarrow> bool plane_op" where
  "is_node_online node_id = reads (\<lambda>p. is_online node_id (pl_sessions p))"

definition live_session_count :: "int \<Rightarrow> nat plane_op" where
  "live_session_count node_id = reads (\<lambda>p. live_sessions node_id (pl_sessions p))"

section \<open>Responses\<close>

definition authorized_response :: "register_response plane_op" where
  "authorized_response = reads (\<lambda>p. register_response_default
     \<lparr>rr_user := cc_user_id (pl_config p), rr_login := cc_login_id (pl_config p), rr_machine_authorized := True\<rparr>)"

definition unauthorized_response :: "string \<Rightarrow> register_response" where
  "unauthorized_response e = register_response_default\<lparr>rr_machine_authorized := False, rr_error := e\<rparr>"

definition expired_response :: "string \<Rightarrow> register_response" where
  "expired_response e =
     register_response_default\<lparr>rr_machine_authorized := False, rr_node_key_expired := True, rr_error := e\<rparr>"

definition auth_url_response :: "string \<Rightarrow> register_response plane_op" where
  "auth_url_response auth_id = reads (\<lambda>p. register_response_default
     \<lparr>rr_machine_authorized := False, rr_auth_url := cc_server_url (pl_config p) @ ''/register/'' @ auth_id\<rparr>)"

text \<open>\<^verbatim>\<open>rfind\<close> of the marker: the text after its last occurrence.\<close>

fun after_last :: "string \<Rightarrow> string \<Rightarrow> string option" where
  "after_last m [] = (if m = [] then Some [] else None)"
| "after_last m (c # s) =
     (case after_last m s of Some r \<Rightarrow> Some r
      | None \<Rightarrow> if prefix m (c # s) then Some (drop (length m) (c # s)) else None)"

definition auth_id_from_followup :: "string \<Rightarrow> string option" where
  "auth_id_from_followup followup =
     Option.bind (after_last ''/register/'' followup) (\<lambda>i. if i = [] then None else Some i)"

section \<open>Users and keys\<close>

definition ensure_default_user :: "world \<Rightarrow> unit plane_op" where
  "ensure_default_user w =
     bind_op (reads pl_config) (\<lambda>c.
     let user_id = as_i64 (cc_user_id c) in
     bind_op (reads_db (\<lambda>d. db_get_user d user_id)) (\<lambda>u.
     bind_op (if u = None
              then bind_op (store_op w (db_create_user \<lparr>u_id = user_id, u_login_name = cc_user_login_name c,
                     u_display_name = cc_user_display_name c, u_created_at = CONTROL_TIME\<rparr>)) (\<lambda>_. ret ())
              else ret ()) (\<lambda>_.
     let login_id = as_i64 (cc_login_id c) in
     bind_op (reads_db (\<lambda>d. db_get_login d login_id)) (\<lambda>l.
     if l = None
     then bind_op (store_op w (db_create_login \<lparr>l_id = login_id, l_user_id = user_id, l_provider = ''authkey'',
            l_login_name = cc_user_login_name c, l_created_at = CONTROL_TIME\<rparr>)) (\<lambda>_. ret ())
     else ret ()))))"

definition new_key :: "world \<Rightarrow> string \<Rightarrow> string \<Rightarrow> bool \<Rightarrow> bool \<Rightarrow> string option \<Rightarrow> string list option \<Rightarrow> control_config \<Rightarrow> pre_auth_key" where
  "new_key w pre secret reusable ephemeral expiration tags c =
     \<lparr>k_id = 0, k_prefix = pre, k_secret_hash = hash_secret w secret, k_reusable = reusable, k_ephemeral = ephemeral,
      k_expiration = expiration, k_revoked = False, k_used = False, k_tags = tags, k_user_id = as_i64 (cc_user_id c),
      k_created_at = now_rfc3339 w\<rparr>"

definition ensure_bootstrap_key :: "world \<Rightarrow> unit plane_op" where
  "ensure_bootstrap_key w =
     bind_op (reads pl_config) (\<lambda>c.
       if cc_auth_key c = [] then ret ()
       else case parse_auth_key (cc_auth_key c) of
         None \<Rightarrow> ret ()
       | Some (pre, secret) \<Rightarrow>
           bind_op (reads_db (\<lambda>d. db_get_pre_auth_key d pre)) (\<lambda>k.
             if k \<noteq> None then ret ()
             else bind_op (store_op w (db_create_pre_auth_key (new_key w pre secret True False None None c))) (\<lambda>_. ret ())))"

definition create_pre_auth_key ::
  "world \<Rightarrow> string \<Rightarrow> bool \<Rightarrow> bool \<Rightarrow> string option \<Rightarrow> string list option \<Rightarrow> string plane_op" where
  "create_pre_auth_key w pre reusable ephemeral expiration tags =
     bind_op (ensure_default_user w) (\<lambda>_.
       if pre = [] \<or> \<not> list_all is_ascii_alphanumeric pre
       then throw (InvalidAuthKey ''prefix must be non-empty alphanumeric'')
       else bind_op (reads pl_config) (\<lambda>c.
         bind_op (case tags of
                    None \<Rightarrow> ret []
                  | Some ts \<Rightarrow> of_opt (unauthorized_tags (cc_policy c) (Some (cc_user_login_name c)) ts)) (\<lambda>rejected.
           if rejected \<noteq> [] then throw (PolicyRejected (''creator may not approve tags: '' @ join '', '' rejected))
           else let secret = generate_secret w in
             bind_op (store_op w (db_create_pre_auth_key (new_key w pre secret reusable ephemeral expiration tags c))) (\<lambda>_.
             ret (format_auth_key pre secret)))))"

definition plane_revoke_pre_auth_key :: "world \<Rightarrow> string \<Rightarrow> unit plane_op" where
  "plane_revoke_pre_auth_key w pre = store_op w (db_revoke_pre_auth_key pre)"

definition validated_auth_key :: "world \<Rightarrow> register_auth \<Rightarrow> string \<Rightarrow> pre_auth_key option plane_op" where
  "validated_auth_key w auth now =
     (case parse_auth_key (ra_auth_key auth) of
        None \<Rightarrow> ret None
      | Some (pre, secret) \<Rightarrow>
          bind_op (reads_db (\<lambda>d. db_get_pre_auth_key d pre)) (\<lambda>found.
            case found of
              None \<Rightarrow> ret None
            | Some key \<Rightarrow>
                if \<not> verify_secret w secret (k_secret_hash key) then ret None
                else if k_revoked key then ret None
                else if (case k_expiration key of Some e \<Rightarrow> is_past w e now | None \<Rightarrow> False) then ret None
                else if \<not> k_reusable key \<and> k_used key then ret None
                else ret (Some key)))"

definition resolve_user_id :: "world \<Rightarrow> string \<Rightarrow> int plane_op" where
  "resolve_user_id w user_name =
     bind_op (reads_db (\<lambda>d. db_get_user_by_login_name d user_name)) (\<lambda>found.
       case found of
         Some user \<Rightarrow> ret (u_id user)
       | None \<Rightarrow>
           bind_op (store_op w (db_create_user \<lparr>u_id = 0, u_login_name = user_name, u_display_name = user_name,
             u_created_at = now_rfc3339 w\<rparr>)) (\<lambda>user. ret (u_id user)))"

definition upsert_oidc_user :: "world \<Rightarrow> oidc_profile \<Rightarrow> int plane_op" where
  "upsert_oidc_user w profile =
     bind_op (reads_db (\<lambda>d. db_get_user_by_login_name d (op_email profile))) (\<lambda>found.
     bind_op (case found of
                Some user \<Rightarrow>
                  if u_display_name user \<noteq> op_display_name profile
                  then bind_op (store_op w (db_update_user_display_name (u_id user) (op_display_name profile)))
                    (\<lambda>_. ret (user\<lparr>u_display_name := op_display_name profile\<rparr>))
                  else ret user
              | None \<Rightarrow> store_op w (db_create_user \<lparr>u_id = 0, u_login_name = op_email profile,
                  u_display_name = op_display_name profile, u_created_at = now_rfc3339 w\<rparr>)) (\<lambda>user.
     bind_op (reads_db (\<lambda>d. db_get_login_by_provider_subject d ''oidc'' (op_subject profile))) (\<lambda>l.
     bind_op (if l = None
              then bind_op (store_op w (db_create_login \<lparr>l_id = 0, l_user_id = u_id user, l_provider = ''oidc'',
                     l_login_name = op_subject profile, l_created_at = now_rfc3339 w\<rparr>)) (\<lambda>_. ret ())
              else ret ()) (\<lambda>_.
     ret (u_id user)))))"

section \<open>Nodes, tags and routes\<close>

definition requested_tags :: "hostinfo option \<Rightarrow> string list" where
  "requested_tags hi = (case hi of None \<Rightarrow> [] | Some h \<Rightarrow> (case hi_request_tags h of Some ts \<Rightarrow> ts | None \<Rightarrow> []))"

definition route_list :: "hostinfo option \<Rightarrow> string list" where
  "route_list hi = sort_dedup (case hi of None \<Rightarrow> []
     | Some h \<Rightarrow> (case hi_routable_ips h of None \<Rightarrow> [] | Some rs \<Rightarrow> List.map_filter canonical_route rs))"

definition node_owner_login :: "node \<Rightarrow> string option plane_op" where
  "node_owner_login node =
     (case n_user_id node of
        None \<Rightarrow> ret None
      | Some user_id \<Rightarrow> reads_db (\<lambda>d. map_option u_login_name (db_get_user d user_id)))"

text \<open>The result carries the node the source updates in place.\<close>

definition apply_request_tags :: "world \<Rightarrow> node \<Rightarrow> string option \<Rightarrow> string list \<Rightarrow> (bool \<times> node) plane_op" where
  "apply_request_tags w node auth_user_login req =
     (let current = sort_dedup (case n_tags node of Some ts \<Rightarrow> ts | None \<Rightarrow> []);
          requested = sort_dedup req in
      if requested = current then ret (False, node)
      else if requested = [] then
        bind_op (case n_user_id node of
                   Some i \<Rightarrow> ret i
                 | None \<Rightarrow> (case auth_user_login of
                     None \<Rightarrow> throw (PolicyRejected ''cannot return a tagged node to user ownership without a user'')
                   | Some login \<Rightarrow> resolve_user_id w login)) (\<lambda>user_id.
        ret (True, node\<lparr>n_tags := None, n_user_id := Some user_id\<rparr>))
      else
        bind_op (reads (\<lambda>p. cc_policy (pl_config p))) (\<lambda>pol.
        bind_op (of_opt (unauthorized_tags pol auth_user_login requested)) (\<lambda>rejected.
          if rejected \<noteq> [] then throw (UnauthorizedTags rejected)
          else ret (True, node\<lparr>n_tags := Some requested, n_user_id := None\<rparr>))))"

definition address_host :: "string \<Rightarrow> string" where
  "address_host address = hd (split_char CHR ''/'' address)"

definition used_ipv4 :: "node list \<Rightarrow> u32 set" where
  "used_ipv4 nodes = set (List.map_filter (\<lambda>a. parse_ipv4 (address_host a)) (concat (map n_addresses nodes)))"

definition used_ipv6 :: "node list \<Rightarrow> u128 set" where
  "used_ipv6 nodes = set (List.map_filter
     (\<lambda>a. if parse_ipv4 (address_host a) \<noteq> None then None else parse_ipv6 (address_host a)) (concat (map n_addresses nodes)))"

definition create_node_from_request ::
  "world \<Rightarrow> raw_key \<Rightarrow> register_request \<Rightarrow> int \<Rightarrow> string list option \<Rightarrow> bool \<Rightarrow> string \<Rightarrow> node plane_op" where
  "create_node_from_request w machine_key request user_id tags ephemeral now =
     bind_op (reads_db db_list_nodes) (\<lambda>nodes.
     bind_op (reads pl_config) (\<lambda>c.
       let allocator = ip_allocator_new (cc_ipv4_prefix c) (cc_ipv4_prefix_len c) (cc_ipv6_prefix c) (cc_ipv6_prefix_len c) in
       case allocate allocator (w_gen4 w) (w_gen6 w) (used_ipv4 nodes) (used_ipv6 nodes) of
         Inl _ \<Rightarrow> throw IpAllocation
       | Inr (ipv4, ipv6) \<Rightarrow>
           let hostname = (case rq_hostinfo request of
                 Some h \<Rightarrow> if hi_hostname h = [] then ''node'' else hi_hostname h
               | None \<Rightarrow> ''node'');
               addresses = [show_ipv4 ipv4 @ ''/32'', show_ipv6 ipv6 @ ''/128''];
               owner = (case tags of Some (_ # _) \<Rightarrow> None | _ \<Rightarrow> Some user_id) in
           ret \<lparr>n_id = 0, n_stable_id = [], n_name = hostname @ ''.'' @ cc_tailnet_domain c @ ''.'', n_user_id = owner,
             n_node_key = rq_node_key request, n_machine_key = machine_key, n_disco_key = replicate KEY_BYTES 0,
             n_addresses = addresses, n_allowed_ips = Some addresses, n_endpoints = [], n_endpoint_types = [],
             n_home_derp = 1, n_hostinfo = rq_hostinfo request, n_created = now, n_cap = rq_version request,
             n_tags = tags, n_advertised_routes = route_list (rq_hostinfo request), n_approved_routes = [],
             n_machine_authorized = True, n_ephemeral = ephemeral, n_last_seen = Some now, n_key_expiry = None\<rparr>))"

definition upsert_and_publish :: "world \<Rightarrow> node \<Rightarrow> unit plane_op" where
  "upsert_and_publish w node =
     bind_op (store_op w (db_upsert_node node)) (\<lambda>stored. publish_change (NodeChanged (n_id stored)))"

definition approve_route :: "world \<Rightarrow> raw_key \<Rightarrow> string \<Rightarrow> unit plane_op" where
  "approve_route w node_key route =
     (case canonical_route route of
        None \<Rightarrow> throw (InvalidRoute route)
      | Some canonical \<Rightarrow>
          bind_op (reads_db (\<lambda>d. db_get_node_by_node_key d node_key)) (\<lambda>found.
            case found of
              None \<Rightarrow> throw NotFound
            | Some node \<Rightarrow>
                if canonical \<in> set (n_approved_routes node) then ret ()
                else upsert_and_publish w (node\<lparr>n_approved_routes := sort_dedup (n_approved_routes node @ [canonical])\<rparr>)))"

definition disapprove_route :: "world \<Rightarrow> raw_key \<Rightarrow> string \<Rightarrow> unit plane_op" where
  "disapprove_route w node_key route =
     (case canonical_route route of
        None \<Rightarrow> throw (InvalidRoute route)
      | Some canonical \<Rightarrow>
          bind_op (reads_db (\<lambda>d. db_get_node_by_node_key d node_key)) (\<lambda>found.
            case found of
              None \<Rightarrow> throw NotFound
            | Some node \<Rightarrow>
                let kept = filter (\<lambda>r. r \<noteq> canonical) (n_approved_routes node) in
                if length kept \<noteq> length (n_approved_routes node)
                then upsert_and_publish w (node\<lparr>n_approved_routes := kept\<rparr>)
                else ret ()))"

section \<open>Logout\<close>

definition logged_out :: "bool \<Rightarrow> register_response" where
  "logged_out node_key_expired = register_response_default
     \<lparr>rr_machine_authorized := False, rr_node_key_expired := node_key_expired, rr_error := ''node logged out''\<rparr>"

definition logout_node :: "world \<Rightarrow> node \<Rightarrow> bool \<Rightarrow> register_response plane_op" where
  "logout_node w node node_key_expired =
     (if n_tags node \<noteq> None then authorized_response
      else if n_ephemeral node then
        bind_op (store_op w (db_delete_node (n_node_key node))) (\<lambda>_.
        bind_op (publish_change (NodeRemoved (n_id node))) (\<lambda>_.
        ret (logged_out node_key_expired)))
      else
        bind_op (upsert_and_publish w (node\<lparr>n_machine_authorized := False\<rparr>)) (\<lambda>_.
        ret (logged_out node_key_expired)))"

definition logout :: "world \<Rightarrow> raw_key \<Rightarrow> raw_key \<Rightarrow> register_response plane_op" where
  "logout w machine_key node_key =
     bind_op (reads_db (\<lambda>d. db_get_node_by_node_key d node_key)) (\<lambda>found.
       case found of
         None \<Rightarrow> throw NotFound
       | Some node \<Rightarrow> if n_machine_key node = machine_key then logout_node w node False else throw NotFound)"

section \<open>Interactive registration\<close>

definition get_pending_entry :: "string \<Rightarrow> pending_registration option plane_op" where
  "get_pending_entry auth_id =
     bind_op (reads_db (\<lambda>d. db_get_pending d auth_id)) (\<lambda>entry.
     bind_op (case entry of
                Some e \<Rightarrow> updates (\<lambda>p. p\<lparr>pl_pending := cache_insert e (pl_pending p)\<rparr>)
              | None \<Rightarrow> ret ()) (\<lambda>_.
     ret entry))"

definition remove_pending_entry :: "string \<Rightarrow> unit plane_op" where
  "remove_pending_entry auth_id =
     bind_op (updates (\<lambda>p. p\<lparr>pl_pending := snd (cache_remove auth_id (pl_pending p))\<rparr>)) (\<lambda>_.
     updates_db (db_delete_pending auth_id))"

definition store_pending_entry :: "pending_registration \<Rightarrow> unit plane_op" where
  "store_pending_entry entry =
     bind_op (updates (\<lambda>p. p\<lparr>pl_pending := cache_insert entry (pl_pending p)\<rparr>)) (\<lambda>_.
     updates_db (db_save_pending entry))"

definition start_interactive :: "world \<Rightarrow> raw_key \<Rightarrow> register_request \<Rightarrow> string \<Rightarrow> register_response plane_op" where
  "start_interactive w machine_key request now =
     (let auth_id = generate_secret w in
      bind_op (reads pl_config) (\<lambda>c.
      bind_op (store_pending_entry
        \<lparr>pr_auth_id = auth_id, pr_machine_key = machine_key, pr_node_key = rq_node_key request,
         pr_hostinfo = rq_hostinfo request, pr_expiry = rq_expiry request, pr_version = rq_version request,
         pr_ephemeral = rq_ephemeral request, pr_created_at = now,
         pr_expires_at = now_plus_seconds w (cc_pending_ttl_seconds c), pr_verdict = VPending\<rparr>) (\<lambda>_.
      auth_url_response auth_id)))"

definition finish_approved ::
  "world \<Rightarrow> raw_key \<Rightarrow> pending_registration \<Rightarrow> int \<Rightarrow> string list option \<Rightarrow> string \<Rightarrow> register_response plane_op" where
  "finish_approved w machine_key entry user_id tags now =
     bind_op (reads_db (\<lambda>d. db_get_node_by_node_key d (pr_node_key entry))) (\<lambda>found.
       if (case found of Some node \<Rightarrow> n_machine_key node = machine_key \<and> n_machine_authorized node | None \<Rightarrow> False)
       then authorized_response
       else
         let request = register_request_default\<lparr>rq_version := pr_version entry, rq_node_key := pr_node_key entry,
               rq_expiry := pr_expiry entry, rq_hostinfo := pr_hostinfo entry, rq_ephemeral := pr_ephemeral entry\<rparr> in
         bind_op (create_node_from_request w machine_key request user_id tags (pr_ephemeral entry) now) (\<lambda>node.
         bind_op (upsert_and_publish w node) (\<lambda>_.
         authorized_response)))"

definition poll_followup :: "world \<Rightarrow> raw_key \<Rightarrow> register_request \<Rightarrow> string \<Rightarrow> register_response plane_op" where
  "poll_followup w machine_key request now =
     (case auth_id_from_followup (rq_followup request) of
        None \<Rightarrow> ret (unauthorized_response ''invalid followup URL'')
      | Some auth_id \<Rightarrow>
          bind_op (get_pending_entry auth_id) (\<lambda>found.
            case found of
              None \<Rightarrow> ret (unauthorized_response ''registration expired; start a new registration'')
            | Some entry \<Rightarrow>
                if pr_machine_key entry \<noteq> machine_key
                then ret (unauthorized_response ''auth id does not match machine key'')
                else if is_past w (pr_expires_at entry) now
                then bind_op (remove_pending_entry auth_id) (\<lambda>_.
                  ret (unauthorized_response ''registration expired; start a new registration''))
                else (case pr_verdict entry of
                   VPending \<Rightarrow> auth_url_response (pr_auth_id entry)
                 | VRejected \<Rightarrow> bind_op (remove_pending_entry auth_id) (\<lambda>_.
                     ret (unauthorized_response ''registration rejected''))
                 | VApproved user_id tags \<Rightarrow> bind_op (remove_pending_entry auth_id) (\<lambda>_.
                     finish_approved w machine_key entry user_id tags now))))"

definition approve_pending :: "world \<Rightarrow> string \<Rightarrow> string \<Rightarrow> unit plane_op" where
  "approve_pending w auth_id user_name =
     bind_op (get_pending_entry auth_id) (\<lambda>found.
       case found of
         None \<Rightarrow> throw NotFound
       | Some entry \<Rightarrow>
           if is_past w (pr_expires_at entry) (now_rfc3339 w)
           then bind_op (remove_pending_entry auth_id) (\<lambda>_. throw NotFound)
           else
             bind_op (resolve_user_id w user_name) (\<lambda>user_id.
             let requested = requested_tags (pr_hostinfo entry) in
             bind_op (if requested = [] then ret None
                      else bind_op (reads (\<lambda>p. cc_policy (pl_config p))) (\<lambda>pol.
                        bind_op (of_opt (unauthorized_tags pol (Some user_name) requested)) (\<lambda>rejected.
                          if rejected \<noteq> [] then throw (UnauthorizedTags rejected) else ret (Some requested)))) (\<lambda>approved_tags.
             store_pending_entry (entry\<lparr>pr_verdict := VApproved user_id approved_tags\<rparr>))))"

definition reject_pending :: "world \<Rightarrow> string \<Rightarrow> unit plane_op" where
  "reject_pending w auth_id =
     bind_op (get_pending_entry auth_id) (\<lambda>found.
       case found of
         None \<Rightarrow> throw NotFound
       | Some entry \<Rightarrow>
           if is_past w (pr_expires_at entry) (now_rfc3339 w)
           then bind_op (remove_pending_entry auth_id) (\<lambda>_. throw NotFound)
           else store_pending_entry (entry\<lparr>pr_verdict := VRejected\<rparr>))"

definition pending_info :: "world \<Rightarrow> string \<Rightarrow> pending_registration option plane_op" where
  "pending_info w auth_id =
     bind_op (get_pending_entry auth_id) (\<lambda>found.
       case found of
         None \<Rightarrow> ret None
       | Some entry \<Rightarrow>
           if is_past w (pr_expires_at entry) (now_rfc3339 w)
           then bind_op (remove_pending_entry auth_id) (\<lambda>_. ret None)
           else ret (Some entry))"

section \<open>Registration\<close>

text \<open>An authorized node that registers again: only a change of tags is stored.\<close>

definition relogin :: "world \<Rightarrow> node \<Rightarrow> register_request \<Rightarrow> register_response plane_op" where
  "relogin w node request =
     bind_op (node_owner_login node) (\<lambda>owner.
     bind_op (apply_request_tags w node owner (requested_tags (rq_hostinfo request))) (\<lambda>(changed, updated).
     bind_op (if changed
              then bind_op (store_op w (db_upsert_node updated)) (\<lambda>_. publish_change (NodeChanged (n_id updated)))
              else ret ()) (\<lambda>_.
     authorized_response)))"

definition consume_key :: "world \<Rightarrow> pre_auth_key \<Rightarrow> unit plane_op" where
  "consume_key w key = (if \<not> k_reusable key then store_op w (db_mark_pre_auth_key_used (k_id key)) else ret ())"

definition reauthorize :: "world \<Rightarrow> node \<Rightarrow> pre_auth_key \<Rightarrow> register_response plane_op" where
  "reauthorize w node key =
     (let updated = node\<lparr>n_machine_authorized := True, n_tags := k_tags key, n_ephemeral := k_ephemeral key\<rparr> in
      bind_op (store_op w (db_upsert_node updated)) (\<lambda>_.
      bind_op (publish_change (NodeChanged (n_id updated))) (\<lambda>_.
      bind_op (consume_key w key) (\<lambda>_.
      authorized_response))))"

definition register_existing ::
  "world \<Rightarrow> raw_key \<Rightarrow> register_request \<Rightarrow> string \<Rightarrow> node \<Rightarrow> register_response plane_op" where
  "register_existing w machine_key request now node =
     (if n_machine_key node \<noteq> machine_key
      then ret (unauthorized_response ''node key is already registered to another machine'')
      else if rq_expiry request \<noteq> [] \<and> is_past w (rq_expiry request) now then logout_node w node True
      else if rq_expiry request \<noteq> [] \<and> is_future w (rq_expiry request) now
      then ret (unauthorized_response ''clients may not extend their own key'')
      else case rq_auth request of
        Some auth \<Rightarrow>
          if n_machine_authorized node then relogin w node request
          else bind_op (validated_auth_key w auth now) (\<lambda>key.
            case key of
              Some key \<Rightarrow> reauthorize w node key
            | None \<Rightarrow> start_interactive w machine_key request now)
      | None \<Rightarrow>
          if n_machine_authorized node then relogin w node request
          else start_interactive w machine_key request now)"

definition register_with_key ::
  "world \<Rightarrow> raw_key \<Rightarrow> register_request \<Rightarrow> string \<Rightarrow> pre_auth_key \<Rightarrow> register_response plane_op" where
  "register_with_key w machine_key request now key =
     (if k_tags key = None \<and> requested_tags (rq_hostinfo request) \<noteq> []
      then throw (PolicyRejected ''pre-auth key registrations may not request tags'')
      else
        bind_op (create_node_from_request w machine_key request (k_user_id key) (k_tags key) (k_ephemeral key) now) (\<lambda>node.
        bind_op (upsert_and_publish w node) (\<lambda>_.
        bind_op (consume_key w key) (\<lambda>_.
        authorized_response))))"

definition register_new :: "world \<Rightarrow> raw_key \<Rightarrow> register_request \<Rightarrow> string \<Rightarrow> register_response plane_op" where
  "register_new w machine_key request now =
     bind_op (case rq_auth request of Some auth \<Rightarrow> validated_auth_key w auth now | None \<Rightarrow> ret None) (\<lambda>key.
       let is_tagged_key = (case key of Some k \<Rightarrow> (case k_tags k of Some (_ # _) \<Rightarrow> True | _ \<Rightarrow> False) | None \<Rightarrow> False) in
       if \<not> is_tagged_key \<and> rq_expiry request \<noteq> [] \<and> is_past w (rq_expiry request) now
       then ret (expired_response ''node key is expired'')
       else if \<not> is_tagged_key \<and> rq_expiry request \<noteq> [] \<and> is_future w (rq_expiry request) now
       then ret (unauthorized_response ''clients may not extend their own key'')
       else case key of
         Some key \<Rightarrow> register_with_key w machine_key request now key
       | None \<Rightarrow> start_interactive w machine_key request now)"

definition try_register :: "world \<Rightarrow> raw_key \<Rightarrow> register_request \<Rightarrow> register_response plane_op" where
  "try_register w machine_key request =
     bind_op (ensure_default_user w) (\<lambda>_.
     bind_op (ensure_bootstrap_key w) (\<lambda>_.
       let now = now_rfc3339 w in
       if rq_followup request \<noteq> [] then poll_followup w machine_key request now
       else bind_op (reads_db (\<lambda>d. db_get_node_by_node_key d (rq_node_key request))) (\<lambda>found.
         case found of
           Some node \<Rightarrow> register_existing w machine_key request now node
         | None \<Rightarrow> register_new w machine_key request now)))"

definition register :: "world \<Rightarrow> raw_key \<Rightarrow> register_request \<Rightarrow> plane \<Rightarrow> (register_response \<times> plane) option" where
  "register w machine_key request p =
     map_option (\<lambda>(r, p'). (case r of
         Inr response \<Rightarrow> response
       | Inl e \<Rightarrow> register_response_default\<lparr>rr_machine_authorized := False, rr_error := show_control_error e\<rparr>, p'))
       (try_register w machine_key request p)"

definition node_is_authorized :: "raw_key \<Rightarrow> plane \<Rightarrow> bool" where
  "node_is_authorized node_key p =
     (case db_get_node_by_node_key (pl_db p) node_key of Some node \<Rightarrow> n_machine_authorized node | None \<Rightarrow> False)"

end
