(* ===== verification/Proto_Frame.thy ===== *)
theory Proto_Frame
  imports Crab_Prelude
begin

text \<open>
  The length-prefixed frames of map responses, \<^verbatim>\<open>crabscale-proto/src/frame.rs\<close>: four bytes of
  little-endian length and the payload.
\<close>

definition MAP_RESPONSE_FRAME_HEADER_LEN :: nat where "MAP_RESPONSE_FRAME_HEADER_LEN = 4"
definition MAX_MAP_RESPONSE_PAYLOAD_LEN :: nat where "MAX_MAP_RESPONSE_PAYLOAD_LEN = 16 * 1024 * 1024"

datatype map_frame_error = MapTruncated | MapOversized

definition un_le32 :: "bytes \<Rightarrow> u32" where
  "un_le32 bs = un_be32 (bs ! 3) (bs ! 2) (bs ! 1) (bs ! 0)"

definition encode_map_response_frame :: "bytes \<Rightarrow> (map_frame_error, bytes) result" where
  "encode_map_response_frame payload =
     (if length payload > MAX_MAP_RESPONSE_PAYLOAD_LEN then Err MapOversized
      else Ok (le32 (of_nat (length payload)) @ payload))"

definition decode_map_response_frame :: "bytes \<Rightarrow> (map_frame_error, bytes \<times> nat) result" where
  "decode_map_response_frame buf =
     (if length buf < MAP_RESPONSE_FRAME_HEADER_LEN then Err MapTruncated
      else let len = unat (un_le32 (take MAP_RESPONSE_FRAME_HEADER_LEN buf)) in
        if len > MAX_MAP_RESPONSE_PAYLOAD_LEN then Err MapOversized
        else let end_pos = MAP_RESPONSE_FRAME_HEADER_LEN + len in
          if length buf < end_pos then Err MapTruncated
          else Ok (take len (drop MAP_RESPONSE_FRAME_HEADER_LEN buf), end_pos))"

lemma un_le32_le32 [codec_simps, simp]: "un_le32 (le32 w) = w"
  by (simp add: un_le32_def le32_def)

lemma le32_un_le32: "length bs = 4 \<Longrightarrow> le32 (un_le32 bs) = bs"
proof -
  assume "length bs = 4"
  then obtain a b c d where bs: "bs = [a, b, c, d]"
    by (auto simp: numeral_eq_Suc length_Suc_conv)
  have "be32 (un_be32 d c b a) = [d, c, b, a]" by simp
  then show ?thesis by (simp add: bs un_le32_def le32_def be32_def)
qed

text \<open>
  Map response frames: a buffer decodes to a payload exactly when it starts with the encoding of that
  payload, the decoder then consumes that encoding and nothing else, and it refuses a declared length
  beyond the limit before looking at the payload.
\<close>

theorem map_frame_exact:
  "(decode_map_response_frame buf = Ok (payload, n) \<longleftrightarrow>
      (\<exists>frame rest. encode_map_response_frame payload = Ok frame \<and> buf = frame @ rest \<and> n = length frame)) \<and>
   (4 \<le> length buf \<and> unat (un_le32 (take 4 buf)) > MAX_MAP_RESPONSE_PAYLOAD_LEN \<longleftrightarrow>
      decode_map_response_frame buf = Err MapOversized)"
proof (intro conjI iffI)
  assume d: "decode_map_response_frame buf = Ok (payload, n)"
  define len where "len = unat (un_le32 (take 4 buf))"
  have l: "4 + len \<le> length buf" "len \<le> MAX_MAP_RESPONSE_PAYLOAD_LEN" "payload = take len (drop 4 buf)" "n = 4 + len"
    using d by (auto simp: decode_map_response_frame_def MAP_RESPONSE_FRAME_HEADER_LEN_def len_def Let_def split: if_splits)
  have "length payload = len" using l by simp
  moreover have "le32 (of_nat len) = take 4 buf"
    using le32_un_le32 [of "take 4 buf"] l(1) by (simp add: len_def)
  ultimately have "encode_map_response_frame payload = Ok (take 4 buf @ payload)"
    using l(2) by (simp add: encode_map_response_frame_def)
  moreover have "buf = (take 4 buf @ payload) @ drop (4 + len) buf"
    by (simp add: l(3) drop_drop add.commute [of 4]) (metis append_take_drop_id drop_drop)
  ultimately show "\<exists>frame rest. encode_map_response_frame payload = Ok frame \<and> buf = frame @ rest \<and> n = length frame"
    using l \<open>length payload = len\<close> by (intro exI [of _ "take 4 buf @ payload"] exI [of _ "drop (4 + len) buf"]) simp
next
  assume "\<exists>frame rest. encode_map_response_frame payload = Ok frame \<and> buf = frame @ rest \<and> n = length frame"
  then obtain rest where m: "length payload \<le> MAX_MAP_RESPONSE_PAYLOAD_LEN"
    and b: "buf = le32 (of_nat (length payload)) @ payload @ rest" and n: "n = 4 + length payload"
    by (auto simp: encode_map_response_frame_def split: if_splits)
  have "length payload < 2 ^ 32" using m by (simp add: MAX_MAP_RESPONSE_PAYLOAD_LEN_def)
  then have "unat (of_nat (length payload) :: u32) = length payload"
    by (simp add: unat_of_nat take_bit_nat_eq_self)
  then show "decode_map_response_frame buf = Ok (payload, n)"
    using m by (simp add: b n decode_map_response_frame_def MAP_RESPONSE_FRAME_HEADER_LEN_def Let_def)
qed (auto simp: decode_map_response_frame_def MAP_RESPONSE_FRAME_HEADER_LEN_def Let_def split: if_splits)

end
