(* ===== verification/Control_Map.thy ===== *)
theory Control_Map
  imports Control_Plane Proto_Frame
begin

text \<open>
  MapRequest handling: \<^verbatim>\<open>handle_map\<close> and the complete map of \<^verbatim>\<open>crabscale-control/src/lib.rs\<close>, and the incremental
  maps of \<^verbatim>\<open>delta.rs\<close>. Serialization and compression are the parameters of the world; the framing is the
  framing of the protocol crate.
\<close>

section \<open>Frames\<close>

definition plane_encode_frame :: "world \<Rightarrow> map_response \<Rightarrow> bool \<Rightarrow> bytes plane_op" where
  "plane_encode_frame w response compress =
     (case w_to_json w response of
        None \<Rightarrow> throw JsonFailed
      | Some json \<Rightarrow>
          (case (if compress then w_zstd w json else Some json) of
             None \<Rightarrow> throw ZstdFailed
           | Some payload \<Rightarrow>
               (case encode_map_response_frame payload of
                  Inl _ \<Rightarrow> throw FrameFailed
                | Inr frame \<Rightarrow> ret frame)))"

definition keepalive_frame :: "world \<Rightarrow> bool \<Rightarrow> bytes plane_op" where
  "keepalive_frame w compress = plane_encode_frame w (map_response_default\<lparr>mr_keep_alive := True\<rparr>) compress"

definition build_dns_delta_frame :: "world \<Rightarrow> bool \<Rightarrow> bytes plane_op" where
  "build_dns_delta_frame w compress =
     bind_op build_dns_config (\<lambda>dns.
       case dns of
         None \<Rightarrow> throw (ExtraRecords ''no DNS config to push'')
       | Some dns \<Rightarrow> plane_encode_frame w (map_response_default\<lparr>mr_dns := Some dns\<rparr>) compress)"

definition build_derp_map_delta_frame :: "world \<Rightarrow> bool \<Rightarrow> bytes plane_op" where
  "build_derp_map_delta_frame w compress =
     bind_op (reads (\<lambda>p. dms_map (pl_derp p))) (\<lambda>m.
     plane_encode_frame w (map_response_default\<lparr>mr_derp_map := Some m\<rparr>) compress)"

section \<open>Nodes as the policy and the wire see them\<close>

definition compile_node_of :: "db \<Rightarrow> node \<Rightarrow> compile_node" where
  "compile_node_of d node =
     \<lparr>cn_id = as_u64 (n_id node), cn_stable_id = n_stable_id node,
      cn_user_login = (case n_user_id node of
          Some user_id \<Rightarrow> map_option u_login_name (db_get_user d user_id)
        | None \<Rightarrow> None),
      cn_addresses = n_addresses node,
      cn_tags = (case n_tags node of Some ts \<Rightarrow> ts | None \<Rightarrow> [])\<rparr>"

definition compile_nodes :: "compile_node list plane_op" where
  "compile_nodes = reads_db (\<lambda>d. map (compile_node_of d) (db_list_nodes d))"

definition effective_approved_routes :: "node \<Rightarrow> string list plane_op" where
  "effective_approved_routes node =
     bind_op (reads_db (\<lambda>d. compile_node_of d node)) (\<lambda>compile.
     bind_op (reads (\<lambda>p. cc_policy (pl_config p))) (\<lambda>pol.
     bind_op (of_opt (auto_approved_routes pol compile (n_advertised_routes node))) (\<lambda>auto.
     let approved = sort_dedup (filter (\<lambda>r. r \<in> set (n_advertised_routes node)) (n_approved_routes node)) in
     ret (sort_dedup (approved @ auto)))))"

definition non_address_routes :: "string list \<Rightarrow> string list \<Rightarrow> string list" where
  "non_address_routes routes addresses = filter (\<lambda>r. r \<notin> set addresses) routes"

definition allowed_ips_for :: "nat \<Rightarrow> string list \<Rightarrow> string list option \<Rightarrow> string list option" where
  "allowed_ips_for version addresses allowed =
     (let effective = (case allowed of Some a \<Rightarrow> a | None \<Rightarrow> addresses) in
      if allowed_ips_null_means_addresses version \<and> effective = addresses then None else Some effective)"

definition peer_wire :: "node \<Rightarrow> nat \<Rightarrow> bool \<Rightarrow> string list \<Rightarrow> proto_node" where
  "peer_wire stored client_version online routes =
     (let node = (to_proto stored)\<lparr>pn_online := Some online\<rparr>;
          node = (if routes \<noteq> []
            then node\<lparr>pn_allowed_ips := Some (sort_dedup (n_addresses stored @ routes)),
                      pn_primary_routes := non_address_routes routes (n_addresses stored)\<rparr>
            else node) in
      node\<lparr>pn_allowed_ips := allowed_ips_for client_version (n_addresses stored) (pn_allowed_ips node)\<rparr>)"

definition peer_node :: "node \<Rightarrow> nat \<Rightarrow> proto_node plane_op" where
  "peer_node stored client_version =
     bind_op (is_node_online (n_id stored)) (\<lambda>online.
     bind_op (effective_approved_routes stored) (\<lambda>routes.
     ret (peer_wire stored client_version online routes)))"

definition shows_peer :: "nat set \<Rightarrow> node \<Rightarrow> node \<Rightarrow> bool" where
  "shows_peer visible self stored \<longleftrightarrow>
     n_node_key stored \<noteq> n_node_key self \<and> n_machine_authorized stored \<and> as_u64 (n_id stored) \<in> visible"

fun peer_nodes :: "nat \<Rightarrow> node list \<Rightarrow> proto_node list plane_op" where
  "peer_nodes version [] = ret []"
| "peer_nodes version (stored # rest) =
     bind_op (peer_node stored version) (\<lambda>peer.
     bind_op (peer_nodes version rest) (\<lambda>peers. ret (peer # peers)))"

section \<open>The complete map\<close>

definition self_wire :: "node \<Rightarrow> nat \<Rightarrow> string list \<Rightarrow> proto_node" where
  "self_wire node version routes =
     (let n = (to_proto node)\<lparr>pn_primary_routes := non_address_routes routes (n_addresses node)\<rparr> in
      n\<lparr>pn_allowed_ips := allowed_ips_for version (n_addresses node) (pn_allowed_ips n)\<rparr>)"

definition self_cap_map :: "policy \<Rightarrow> node \<Rightarrow> compile_node list \<Rightarrow> proto_node \<Rightarrow> proto_node plane_op" where
  "self_cap_map pol node nodes wire =
     (case find (\<lambda>n. cn_id n = as_u64 (n_id node)) nodes of
        Some self \<Rightarrow>
          if p_node_attrs pol \<noteq> []
          then bind_op (of_opt (node_attributes pol self)) (\<lambda>attrs. ret (wire\<lparr>pn_cap_map := attrs\<rparr>))
          else ret wire
      | None \<Rightarrow> ret wire)"

definition profile_of :: "user \<Rightarrow> user_profile" where
  "profile_of user = user_profile_default
     \<lparr>up_id := as_u64 (u_id user), up_login_name := u_login_name user, up_display_name := u_display_name user\<rparr>"

definition get_or :: "'v \<Rightarrow> 'v option \<Rightarrow> 'v" where
  "get_or d x = (case x of Some v \<Rightarrow> v | None \<Rightarrow> d)"

definition build_initial_map :: "node \<Rightarrow> map_request \<Rightarrow> map_response plane_op" where
  "build_initial_map node request =
     (let version = mq_version request; id = as_u64 (n_id node) in
      bind_op compile_nodes (\<lambda>nodes.
      bind_op (reads pl_config) (\<lambda>c.
      let pol = cc_policy c; compiled = compile_policy pol nodes in
      bind_op (effective_approved_routes node) (\<lambda>self_routes.
      let ssh_policy = build_wire_ssh_policy (compile_ssh_policy pol nodes) id (cc_server_url c) nodes in
      bind_op (self_cap_map pol node nodes (self_wire node version self_routes)) (\<lambda>proto_node.
      let base = get_or [] (bt_get (cp_node_filters compiled) id);
          (packet_filter, packet_filters) =
            (if prefers_incremental_packet_filters version
             then (None, Some (bt_insert ''base'' base [])) else (Some base, None));
          visible = get_or {} (bt_get (cp_peer_visibility compiled) id) in
      bind_op (reads_db db_list_nodes) (\<lambda>stored.
      let shown = filter (shows_peer visible node) stored;
          user_ids = insert (case n_user_id node of Some u \<Rightarrow> u | None \<Rightarrow> 0) (set (List.map_filter n_user_id shown)) in
      bind_op (peer_nodes version shown) (\<lambda>peers.
      bind_op (reads_db (\<lambda>d. List.map_filter (db_get_user d) (sorted_list_of_set user_ids))) (\<lambda>users.
      bind_op (reads (\<lambda>p. dms_map (pl_derp p))) (\<lambda>derp.
      bind_op build_dns_config (\<lambda>dns.
      ret (map_response_default
        \<lparr>mr_node := Some proto_node,
         mr_derp_map := Some derp,
         mr_domain := cc_tailnet_domain c,
         mr_peers := Some (sort_key pn_id peers),
         mr_packet_filter := packet_filter,
         mr_packet_filters := packet_filters,
         mr_user_profiles := map profile_of users,
         mr_ssh_policy := ssh_policy,
         mr_control_time := CONTROL_TIME,
         mr_dns := dns\<rparr>)))))))))))"

section \<open>Handling a request\<close>

record session_peers =
  spe_peers :: "(nat, proto_node) btree"
  spe_key_expiry :: "(nat, string option) btree"

definition session_peers_new :: session_peers where
  "session_peers_new = \<lparr>spe_peers = [], spe_key_expiry = []\<rparr>"

definition session_peers_from :: "proto_node list \<Rightarrow> session_peers" where
  "session_peers_from nodes = \<lparr>spe_peers = fold (\<lambda>n m. bt_insert (pn_id n) n m) nodes [], spe_key_expiry = []\<rparr>"

datatype map_outcome =
    LiteUpdate
  | FullFrame bytes
  | StreamFrames (mo_first_frame: bytes) (mo_keep_alive: bool) (mo_compress: bool) (mo_session_id: int) (mo_node_id: int)
      (mo_initial_peers: session_peers) (mo_client_version: nat)

text \<open>The fields a request may change on the stored node, before the tags.\<close>

definition apply_request :: "world \<Rightarrow> map_request \<Rightarrow> node \<Rightarrow> node" where
  "apply_request w request node =
     (let node = node\<lparr>n_disco_key := mq_disco_key request, n_last_seen := Some (now_rfc3339 w)\<rparr>;
          read_only = mq_stream request \<and> streaming_read_only (mq_version request) in
      if read_only then node
      else
        let node = (case mq_hostinfo request of
              None \<Rightarrow> node
            | Some h \<Rightarrow>
                let node = node\<lparr>n_hostinfo := Some h, n_advertised_routes := route_list (Some h)\<rparr> in
                (case hi_net_info h of
                   Some ni \<Rightarrow> if ni_preferred_derp ni \<noteq> 0 then node\<lparr>n_home_derp := ni_preferred_derp ni\<rparr> else node
                 | None \<Rightarrow> node)) in
        node\<lparr>n_endpoints := mq_endpoints request, n_endpoint_types := mq_endpoint_types request\<rparr>)"

definition respond_map :: "world \<Rightarrow> node \<Rightarrow> map_request \<Rightarrow> map_outcome plane_op" where
  "respond_map w node request =
     (let compress = (mq_compress request = ''zstd'') in
      bind_op (build_initial_map node request) (\<lambda>response.
      bind_op (plane_encode_frame w response compress) (\<lambda>frame.
        if mq_stream request then
          bind_op (open_session w (n_id node) (n_ephemeral node)) (\<lambda>session_id.
          ret (StreamFrames frame (mq_keep_alive request) compress session_id (n_id node)
            (session_peers_from (get_or [] (mr_peers response))) (mq_version request)))
        else ret (FullFrame frame))))"

definition handle_map :: "world \<Rightarrow> raw_key \<Rightarrow> map_request \<Rightarrow> map_outcome plane_op" where
  "handle_map w machine_key request =
     (if mq_version request < MIN_SUPPORTED_CAPVER then throw (UnsupportedVersion (mq_version request))
      else if length (mq_endpoint_types request) \<noteq> length (mq_endpoints request) then throw InvalidEndpointTypes
      else
        bind_op (reads_db (\<lambda>d. db_get_node_by_node_key d (mq_node_key request))) (\<lambda>found.
          case found of
            None \<Rightarrow> throw NotFound
          | Some before \<Rightarrow>
              if n_machine_key before \<noteq> machine_key then throw NotFound
              else
                let lite_update = (\<not> mq_stream request \<and> mq_omit_peers request \<and> \<not> mq_read_only request);
                    read_only = (mq_stream request \<and> streaming_read_only (mq_version request));
                    node = apply_request w request before in
                bind_op (if \<not> read_only \<and> mq_hostinfo request \<noteq> None
                         then bind_op (node_owner_login node) (\<lambda>owner.
                           bind_op (apply_request_tags w node owner (requested_tags (mq_hostinfo request))) (\<lambda>(_, node). ret node))
                         else ret node) (\<lambda>node.
                bind_op (store_op w (db_upsert_node node)) (\<lambda>_.
                bind_op (if node \<noteq> before then publish_change (NodeChanged (n_id node)) else ret ()) (\<lambda>_.
                bind_op (publish_change (PeerSeen (n_id node))) (\<lambda>_.
                if lite_update then ret LiteUpdate else respond_map w node request))))))"

section \<open>Deltas\<close>

datatype peer_diff = Unchanged | Patch peer_change | FullPeer

record peer_deltas =
  pds_removed :: "nat list"
  pds_changed :: "proto_node list"
  pds_patches :: "peer_change list"
  pds_current :: "proto_node list"
  pds_visible :: "nat set"

definition structural_equal :: "proto_node \<Rightarrow> proto_node \<Rightarrow> bool" where
  "structural_equal prev nxt \<longleftrightarrow>
     pn_stable_id prev = pn_stable_id nxt \<and> pn_name prev = pn_name nxt \<and> pn_user prev = pn_user nxt \<and>
     pn_machine prev = pn_machine nxt \<and> pn_addresses prev = pn_addresses nxt \<and>
     pn_allowed_ips prev = pn_allowed_ips nxt \<and> pn_hostinfo prev = pn_hostinfo nxt \<and>
     pn_created prev = pn_created nxt \<and> pn_tags prev = pn_tags nxt \<and> pn_cap_map prev = pn_cap_map nxt \<and>
     pn_primary_routes prev = pn_primary_routes nxt \<and>
     pn_machine_authorized prev = pn_machine_authorized nxt \<and> pn_capabilities prev = pn_capabilities nxt"

definition when_changed :: "'a \<Rightarrow> 'a \<Rightarrow> 'b option \<Rightarrow> 'b option" where
  "when_changed old new v = (if old \<noteq> new then v else None)"

definition diff_peers :: "proto_node \<Rightarrow> proto_node \<Rightarrow> string option \<Rightarrow> string option \<Rightarrow> peer_diff" where
  "diff_peers prev nxt prev_expiry next_expiry =
     (if \<not> structural_equal prev nxt then FullPeer
      else
        let patch = peer_change_default
              \<lparr>pc_node_id := pn_id nxt,
               pc_endpoints := when_changed (pn_endpoints prev) (pn_endpoints nxt) (Some (pn_endpoints nxt)),
               pc_derp_region := when_changed (pn_home_derp prev) (pn_home_derp nxt) (Some (pn_home_derp nxt)),
               pc_key := when_changed (pn_key prev) (pn_key nxt) (Some (pn_key nxt)),
               pc_disco_key := when_changed (pn_disco_key prev) (pn_disco_key nxt) (Some (pn_disco_key nxt)),
               pc_online := when_changed (pn_online prev) (pn_online nxt) (pn_online nxt),
               pc_last_seen := when_changed (pn_last_seen prev) (pn_last_seen nxt) (pn_last_seen nxt),
               pc_cap := when_changed (pn_cap prev) (pn_cap nxt) (Some (pn_cap nxt)),
               pc_key_expiry := when_changed prev_expiry next_expiry next_expiry\<rparr>;
            has_patch = (pn_endpoints prev \<noteq> pn_endpoints nxt \<or> pn_home_derp prev \<noteq> pn_home_derp nxt \<or>
              pn_key prev \<noteq> pn_key nxt \<or> pn_disco_key prev \<noteq> pn_disco_key nxt \<or> pn_online prev \<noteq> pn_online nxt \<or>
              pn_last_seen prev \<noteq> pn_last_seen nxt \<or> pn_cap prev \<noteq> pn_cap nxt \<or> prev_expiry \<noteq> next_expiry) in
        if has_patch then Patch patch else Unchanged)"

text \<open>One peer of the current set against the tracking.\<close>

definition delta_peer ::
  "nat \<times> proto_node \<times> string option \<Rightarrow> peer_deltas \<times> session_peers \<Rightarrow> peer_deltas \<times> session_peers" where
  "delta_peer x s =
     (case x of (i, current, next_expiry) \<Rightarrow> case s of (deltas, last_sent) \<Rightarrow>
        let deltas = (case bt_get (spe_peers last_sent) i of
              None \<Rightarrow> deltas\<lparr>pds_changed := pds_changed deltas @ [current]\<rparr>
            | Some prev \<Rightarrow>
                let prev_expiry = Option.bind (bt_get (spe_key_expiry last_sent) i) (\<lambda>e. e) in
                (case diff_peers prev current prev_expiry next_expiry of
                   Unchanged \<Rightarrow> deltas
                 | Patch patch \<Rightarrow> deltas\<lparr>pds_patches := pds_patches deltas @ [patch]\<rparr>
                 | FullPeer \<Rightarrow> deltas\<lparr>pds_changed := pds_changed deltas @ [current]\<rparr>)) in
        (deltas, last_sent\<lparr>spe_peers := bt_insert i current (spe_peers last_sent),
                          spe_key_expiry := bt_insert i next_expiry (spe_key_expiry last_sent)\<rparr>))"

definition drop_peer :: "nat \<Rightarrow> session_peers \<Rightarrow> session_peers" where
  "drop_peer i s = s\<lparr>spe_peers := bt_remove i (spe_peers s), spe_key_expiry := bt_remove i (spe_key_expiry s)\<rparr>"

definition diff_peer_sets ::
  "(nat, proto_node \<times> string option) btree \<Rightarrow> nat set \<Rightarrow> session_peers \<Rightarrow> peer_deltas \<times> session_peers" where
  "diff_peer_sets nxt visible last_sent =
     (let removed = filter (\<lambda>i. bt_get nxt i = None) (map fst (spe_peers last_sent));
          last_sent = fold drop_peer removed last_sent;
          deltas = \<lparr>pds_removed = removed, pds_changed = [], pds_patches = [], pds_current = [], pds_visible = visible\<rparr>;
          (deltas, last_sent) = fold delta_peer nxt (deltas, last_sent) in
      (deltas\<lparr>pds_current := map (\<lambda>(_, node, _). node) nxt\<rparr>, last_sent))"

definition compute_peer_delta :: "node \<Rightarrow> session_peers \<Rightarrow> nat \<Rightarrow> (peer_deltas \<times> session_peers) plane_op" where
  "compute_peer_delta self_node last_sent client_version =
     bind_op compile_nodes (\<lambda>nodes.
     bind_op (reads (\<lambda>p. cc_policy (pl_config p))) (\<lambda>pol.
     let visible = get_or {} (bt_get (cp_peer_visibility (compile_policy pol nodes)) (as_u64 (n_id self_node))) in
     bind_op (reads_db db_list_nodes) (\<lambda>stored.
     let shown = filter (shows_peer visible self_node) stored in
     bind_op (peer_nodes client_version shown) (\<lambda>peers.
     let nxt = fold (\<lambda>(s, peer) m. bt_insert (as_u64 (n_id s)) (peer, n_key_expiry s) m) (zip shown peers) [] in
     ret (diff_peer_sets nxt visible last_sent)))))"

definition base_packet_filters :: "node \<Rightarrow> (string, filter_rule list) btree plane_op" where
  "base_packet_filters self_node =
     bind_op compile_nodes (\<lambda>nodes.
     bind_op (reads (\<lambda>p. cc_policy (pl_config p))) (\<lambda>pol.
     ret (bt_insert ''base'' (get_or [] (bt_get (cp_node_filters (compile_policy pol nodes)) (as_u64 (n_id self_node)))) [])))"

definition ssh_policy_for :: "node \<Rightarrow> wire_ssh_policy option plane_op" where
  "ssh_policy_for self_node =
     bind_op compile_nodes (\<lambda>nodes.
     bind_op (reads pl_config) (\<lambda>c.
     ret (build_wire_ssh_policy (compile_ssh_policy (cc_policy c) nodes) (as_u64 (n_id self_node)) (cc_server_url c) nodes)))"

definition self_node_proto :: "node \<Rightarrow> nat \<Rightarrow> proto_node option plane_op" where
  "self_node_proto self_node client_version =
     bind_op (effective_approved_routes self_node) (\<lambda>routes.
     bind_op (reads (\<lambda>p. cc_policy (pl_config p))) (\<lambda>pol.
     bind_op compile_nodes (\<lambda>nodes.
     bind_op (self_cap_map pol self_node nodes (self_wire self_node client_version routes)) (\<lambda>n. ret (Some n)))))"

definition some_unless_empty :: "'a list \<Rightarrow> 'a list option" where
  "some_unless_empty xs = (if xs = [] then None else Some xs)"

definition build_delta ::
  "int \<Rightarrow> change_batch \<Rightarrow> session_peers \<Rightarrow> nat \<Rightarrow> (map_response option \<times> session_peers) plane_op" where
  "build_delta session_node_id batch last_sent client_version =
     bind_op (if has_dns batch then build_dns_config else ret None) (\<lambda>dns.
     bind_op (reads (\<lambda>p. dms_map (pl_derp p))) (\<lambda>derp.
     let response = map_response_default\<lparr>mr_dns := dns, mr_derp_map := (if has_derp batch then Some derp else None)\<rparr> in
     if \<not> needs_peer_rescan batch
     then ret (if response = map_response_default then None else Some response, last_sent)
     else
       bind_op (reads_db (\<lambda>d. db_get_node_by_id d session_node_id)) (\<lambda>found.
       case found of
         None \<Rightarrow> throw NotFound
       | Some self_node \<Rightarrow>
           bind_op (compute_peer_delta self_node last_sent client_version) (\<lambda>(deltas, last_sent).
           if has_policy batch then
             bind_op (base_packet_filters self_node) (\<lambda>filters.
             bind_op (ssh_policy_for self_node) (\<lambda>ssh.
             bind_op (self_node_proto self_node client_version) (\<lambda>self.
             ret (Some (response\<lparr>mr_peers := Some (pds_current deltas), mr_packet_filters := Some filters,
                          mr_ssh_policy := ssh, mr_node := self\<rparr>), last_sent))))
           else
             let online = fold (\<lambda>(i, on) m. bt_insert (as_u64 i) on m)
                   (filter (\<lambda>(i, _). as_u64 i \<in> pds_visible deltas) (online_changes batch)) [];
                 seen = fold (\<lambda>i m. bt_insert (as_u64 i) True m)
                   (filter (\<lambda>i. as_u64 i \<in> pds_visible deltas) (seen_nodes batch)) [];
                 response = response
                   \<lparr>mr_peers_removed := some_unless_empty (pds_removed deltas),
                    mr_peers_changed := some_unless_empty (pds_changed deltas),
                    mr_peers_changed_patch := some_unless_empty (pds_patches deltas),
                    mr_online_change := some_unless_empty online,
                    mr_peer_seen_change := some_unless_empty seen\<rparr> in
             ret (if response = map_response_default then None else Some response, last_sent)))))"

end
