(* ===== verification/Control_Ssh.thy ===== *)
theory Control_Ssh
  imports Control_Map
begin

text \<open>
  SSH check mode, \<^verbatim>\<open>crabscale-control/src/ssh.rs\<close>. A followup waits by polling the store; what other processes do to
  the database between two polls, with the outside world at each poll, is the list of polls; its end is the deadline.
\<close>

definition DEFAULT_SSH_AUTH_TTL_SECONDS :: int where "DEFAULT_SSH_AUTH_TTL_SECONDS = 15 * 60"
definition DEFAULT_SSH_AUTH_LIMIT :: nat where "DEFAULT_SSH_AUTH_LIMIT = 1024"

definition ssh_action_default :: ssh_action where
  "ssh_action_default = \<lparr>sa_message = [], sa_reject = False, sa_accept = False, sa_hold_and_delegate = [],
     sa_allow_agent_forwarding = False, sa_allow_local_port_forwarding = False, sa_allow_remote_port_forwarding = False\<rparr>"

definition accept_action :: ssh_action where
  "accept_action = ssh_action_default\<lparr>sa_message := ''SSH connection accepted'', sa_accept := True,
     sa_allow_agent_forwarding := True, sa_allow_local_port_forwarding := True, sa_allow_remote_port_forwarding := True\<rparr>"

definition reject_action :: "string \<Rightarrow> ssh_action" where
  "reject_action message = ssh_action_default\<lparr>sa_message := message, sa_reject := True\<rparr>"

section \<open>The followup URL\<close>

definition upper_hex :: "nat \<Rightarrow> char" where
  "upper_hex d = (if d < 10 then char_of (48 + d) else char_of (55 + d))"

definition is_unreserved :: "byte \<Rightarrow> bool" where
  "is_unreserved b \<longleftrightarrow> is_ascii_alphanumeric (char_of_byte b) \<or> char_of_byte b \<in> set ''-_.~''"

definition escape_byte :: "byte \<Rightarrow> string" where
  "escape_byte b =
     (if b = byte_of_char CHR '' '' then ''+''
      else if is_unreserved b then [char_of_byte b]
      else [CHR ''%'', upper_hex (unat b div 16), upper_hex (unat b mod 16)])"

definition url_query_escape :: "string \<Rightarrow> string" where
  "url_query_escape input = concat (map escape_byte (as_bytes input))"

definition trim_end_slashes :: "string \<Rightarrow> string" where
  "trim_end_slashes s = rev (dropWhile (\<lambda>c. c = CHR ''/'') (rev s))"

definition build_ssh_action_url :: "string \<Rightarrow> nat \<Rightarrow> nat \<Rightarrow> string \<Rightarrow> string \<Rightarrow> string \<Rightarrow> string" where
  "build_ssh_action_url server_url src dst auth_id ssh_user local_user =
     trim_end_slashes server_url @ ''/machine/ssh/action/'' @ dec_str src @ ''/to/'' @ dec_str dst
       @ ''?auth_id='' @ auth_id @ ''&ssh_user='' @ url_query_escape ssh_user
       @ ''&local_user='' @ url_query_escape local_user"

section \<open>Verdicts\<close>

definition settle_ssh :: "world \<Rightarrow> string \<Rightarrow> ssh_verdict \<Rightarrow> unit plane_op" where
  "settle_ssh w auth_id verdict =
     bind_op (reads_db (\<lambda>d. db_get_ssh_auth d auth_id)) (\<lambda>found.
       case found of
         None \<Rightarrow> throw NotFound
       | Some entry \<Rightarrow>
           if is_past w (sh_expires_at entry) (now_rfc3339 w)
           then bind_op (updates_db (db_delete_ssh_auth (sh_auth_id entry))) (\<lambda>_. throw NotFound)
           else
             bind_op (updates_db (db_save_ssh_auth (entry\<lparr>sh_verdict := verdict\<rparr>))) (\<lambda>_.
             updates (\<lambda>p. p\<lparr>pl_ssh_waiters := pl_ssh_waiters p @ [sh_auth_id entry]\<rparr>)))"

definition approve_ssh :: "world \<Rightarrow> string \<Rightarrow> unit plane_op" where
  "approve_ssh w auth_id = settle_ssh w auth_id (SshAccepted (now_rfc3339 w))"

definition reject_ssh :: "world \<Rightarrow> string \<Rightarrow> unit plane_op" where
  "reject_ssh w auth_id = settle_ssh w auth_id SshRejected"

definition plane_list_ssh_auths :: "world \<Rightarrow> ssh_auth list plane_op" where
  "plane_list_ssh_auths w =
     reads_db (\<lambda>d. filter (\<lambda>e. \<not> is_past w (sh_expires_at e) (now_rfc3339 w)) (db_list_ssh_auths d))"

definition ssh_auth_info :: "world \<Rightarrow> string \<Rightarrow> ssh_auth option plane_op" where
  "ssh_auth_info w auth_id =
     bind_op (reads_db (\<lambda>d. db_get_ssh_auth d auth_id)) (\<lambda>found.
       case found of
         None \<Rightarrow> ret None
       | Some entry \<Rightarrow>
           if is_past w (sh_expires_at entry) (now_rfc3339 w)
           then bind_op (updates_db (db_delete_ssh_auth (sh_auth_id entry))) (\<lambda>_. ret None)
           else ret (Some entry))"

section \<open>Repeat connections\<close>

definition same_binding :: "nat \<Rightarrow> nat \<Rightarrow> string \<Rightarrow> string \<Rightarrow> ssh_auth \<Rightarrow> bool" where
  "same_binding src dst ssh_user local_user e \<longleftrightarrow>
     sh_src_node_id e = src \<and> sh_dst_node_id e = dst \<and> sh_ssh_user e = ssh_user \<and> sh_local_user e = local_user"

definition better_acceptance ::
  "world \<Rightarrow> nat \<Rightarrow> nat \<Rightarrow> string \<Rightarrow> string \<Rightarrow> ssh_auth \<Rightarrow> (ssh_auth \<times> int) option \<Rightarrow> (ssh_auth \<times> int) option" where
  "better_acceptance w src dst ssh_user local_user entry best =
     (if \<not> same_binding src dst ssh_user local_user entry then best
      else case sh_verdict entry of
        SshAccepted last_auth_at \<Rightarrow>
          (case parse_rfc3339 w last_auth_at of
             Some at \<Rightarrow>
               (case best of
                  None \<Rightarrow> Some (entry, at)
                | Some (_, best_last) \<Rightarrow> if at > best_last then Some (entry, at) else best)
           | None \<Rightarrow> best)
      | _ \<Rightarrow> best)"

definition recent_ssh_acceptance :: "world \<Rightarrow> nat \<Rightarrow> nat \<Rightarrow> string \<Rightarrow> string \<Rightarrow> nat \<Rightarrow> bool plane_op" where
  "recent_ssh_acceptance w src dst ssh_user local_user check_period =
     bind_op (reads_db db_list_ssh_auths) (\<lambda>entries.
       case fold (better_acceptance w src dst ssh_user local_user) entries None of
         None \<Rightarrow> ret False
       | Some (entry, best_last) \<Rightarrow>
           if best_last < now_unix w - as_i64 check_period then ret False
           else
             bind_op (updates_db (db_save_ssh_auth (entry\<lparr>sh_verdict := SshAccepted (now_rfc3339 w)\<rparr>))) (\<lambda>_.
             ret True))"

fun delete_ssh_auths :: "ssh_auth list \<Rightarrow> unit plane_op" where
  "delete_ssh_auths [] = ret ()"
| "delete_ssh_auths (e # es) = bind_op (updates_db (db_delete_ssh_auth (sh_auth_id e))) (\<lambda>_. delete_ssh_auths es)"

definition prune_ssh_auths :: "world \<Rightarrow> nat \<Rightarrow> unit plane_op" where
  "prune_ssh_auths w limit =
     bind_op (reads_db db_list_ssh_auths) (\<lambda>entries.
     let expired = (\<lambda>e. is_past w (sh_expires_at e) (now_rfc3339 w));
         remaining = filter (\<lambda>e. \<not> expired e) entries in
     bind_op (delete_ssh_auths (filter expired entries)) (\<lambda>_.
       if length remaining > limit
       then delete_ssh_auths (take (length remaining - limit) (sort_key sh_created_at remaining))
       else ret ()))"

section \<open>Requests\<close>

definition respond_ssh_initial :: "world \<Rightarrow> raw_key \<Rightarrow> nat \<Rightarrow> nat \<Rightarrow> string \<Rightarrow> string \<Rightarrow> ssh_action plane_op" where
  "respond_ssh_initial w machine_key src dst ssh_user local_user =
     bind_op compile_nodes (\<lambda>nodes.
     bind_op (reads pl_config) (\<lambda>c.
       case first_matching_ssh_rule (compile_ssh_policy (cc_policy c) nodes) src dst ssh_user of
         None \<Rightarrow> ret (reject_action ''no SSH rule permits this connection'')
       | Some rule \<Rightarrow>
           (case csr_action rule of
              SshAccept \<Rightarrow> ret accept_action
            | SshCheck check_period \<Rightarrow>
                bind_op (recent_ssh_acceptance w src dst ssh_user local_user check_period) (\<lambda>recent.
                  if recent then ret accept_action
                  else
                    bind_op (prune_ssh_auths w DEFAULT_SSH_AUTH_LIMIT) (\<lambda>_.
                    let auth_id = generate_secret w in
                    bind_op (updates_db (db_save_ssh_auth
                      \<lparr>sh_auth_id = auth_id, sh_src_node_id = src, sh_dst_node_id = dst, sh_ssh_user = ssh_user,
                       sh_local_user = local_user, sh_machine_key = machine_key, sh_created_at = now_rfc3339 w,
                       sh_expires_at = now_plus_seconds w DEFAULT_SSH_AUTH_TTL_SECONDS, sh_verdict = SshPending\<rparr>)) (\<lambda>_.
                    ret (ssh_action_default\<lparr>sa_message := ''approval required'',
                      sa_hold_and_delegate := build_ssh_action_url (cc_server_url c) src dst auth_id ssh_user local_user,
                      sa_allow_agent_forwarding := True, sa_allow_local_port_forwarding := True,
                      sa_allow_remote_port_forwarding := True\<rparr>)))))))"

text \<open>A poll: the world at that moment, and what others have done to the store since the poll before.\<close>

type_synonym poll = "world \<times> (db \<Rightarrow> db)"

fun wait_ssh_verdict :: "string \<Rightarrow> poll list \<Rightarrow> ssh_verdict plane_op" where
  "wait_ssh_verdict auth_id [] = throw Timeout"
| "wait_ssh_verdict auth_id ((w, others) # rounds) =
     bind_op (updates_db others) (\<lambda>_.
     bind_op (reads_db (\<lambda>d. db_get_ssh_auth d auth_id)) (\<lambda>found.
       case found of
         None \<Rightarrow> throw NotFound
       | Some entry \<Rightarrow>
           if is_past w (sh_expires_at entry) (now_rfc3339 w)
           then bind_op (updates_db (db_delete_ssh_auth auth_id)) (\<lambda>_. throw NotFound)
           else if \<not> is_pending (sh_verdict entry) then ret (sh_verdict entry)
           else wait_ssh_verdict auth_id rounds))"

definition verdict_action :: "ssh_verdict \<Rightarrow> ssh_action plane_op" where
  "verdict_action verdict = (case verdict of
      SshAccepted _ \<Rightarrow> ret accept_action
    | SshRejected \<Rightarrow> ret (reject_action ''SSH request rejected'')
    | SshPending \<Rightarrow> throw Timeout)"

definition respond_ssh_followup ::
  "world \<Rightarrow> raw_key \<Rightarrow> nat \<Rightarrow> nat \<Rightarrow> string \<Rightarrow> string \<Rightarrow> string \<Rightarrow> poll list \<Rightarrow> ssh_action plane_op" where
  "respond_ssh_followup w machine_key src dst auth_id ssh_user local_user rounds =
     bind_op (reads_db (\<lambda>d. db_get_ssh_auth d auth_id)) (\<lambda>found.
       case found of
         None \<Rightarrow> throw NotFound
       | Some entry \<Rightarrow>
           if is_past w (sh_expires_at entry) (now_rfc3339 w)
           then bind_op (updates_db (db_delete_ssh_auth auth_id)) (\<lambda>_. throw NotFound)
           else if \<not> same_binding src dst ssh_user local_user entry \<or> sh_machine_key entry \<noteq> machine_key
           then throw (SshBinding auth_id)
           else case sh_verdict entry of
             SshPending \<Rightarrow> bind_op (wait_ssh_verdict auth_id rounds) verdict_action
           | v \<Rightarrow> verdict_action v)"

definition handle_ssh_action ::
  "world \<Rightarrow> raw_key \<Rightarrow> nat \<Rightarrow> nat \<Rightarrow> string option \<Rightarrow> string \<Rightarrow> string \<Rightarrow> poll list \<Rightarrow> ssh_action plane_op" where
  "handle_ssh_action w machine_key src dst auth_id ssh_user local_user rounds =
     bind_op (reads_db (\<lambda>d. db_get_node_by_id d (as_i64 dst))) (\<lambda>found.
       case found of
         None \<Rightarrow> throw NotFound
       | Some dst_node \<Rightarrow>
           if n_machine_key dst_node \<noteq> machine_key then throw Unauthorized
           else
             bind_op (reads_db (\<lambda>d. db_get_node_by_id d (as_i64 src))) (\<lambda>src_node.
               case src_node of
                 None \<Rightarrow> throw NotFound
               | Some _ \<Rightarrow>
                   (case auth_id of
                      Some auth_id \<Rightarrow> respond_ssh_followup w machine_key src dst auth_id ssh_user local_user rounds
                    | None \<Rightarrow> respond_ssh_initial w machine_key src dst ssh_user local_user)))"

end
