(* ===== verification/Control_Steps.thy ===== *)
theory Control_Steps
  imports Control_Ssh
begin

text \<open>
  What the operations of the control plane do to it: a calculus for relations between the plane before and after an
  operation, and the relations it is used for here (the schema and address invariants, and which nodes can become
  authorized).
\<close>

section \<open>The calculus\<close>

definition step_at :: "(plane \<Rightarrow> plane \<Rightarrow> bool) \<Rightarrow> plane \<Rightarrow> 'a plane_op \<Rightarrow> bool" where
  "step_at R p m \<longleftrightarrow> (\<forall>r p'. m p = Some (r, p') \<longrightarrow> R p p')"

definition steps :: "(plane \<Rightarrow> plane \<Rightarrow> bool) \<Rightarrow> 'a plane_op \<Rightarrow> bool" where
  "steps R m \<longleftrightarrow> (\<forall>p. step_at R p m)"

lemma stepsI: "(\<And>p. step_at R p m) \<Longrightarrow> steps R m"
  by (simp add: steps_def)

lemma stepsD: "steps R m \<Longrightarrow> step_at R p m"
  by (simp add: steps_def)

lemma steps_elim: "steps R m \<Longrightarrow> m p = Some (r, p') \<Longrightarrow> R p p'"
  by (simp add: steps_def step_at_def)

lemma step_at_mono: "step_at R p m \<Longrightarrow> (\<And>p'. R p p' \<Longrightarrow> R' p p') \<Longrightarrow> step_at R' p m"
  by (auto simp: step_at_def)

lemma bind_op_Some:
  "bind_op m f p = Some (r, p') \<longleftrightarrow>
     (\<exists>e. m p = Some (Inl e, p') \<and> r = Inl e) \<or> (\<exists>x p1. m p = Some (Inr x, p1) \<and> f x p1 = Some (r, p'))"
  by (auto simp: bind_op_def split: option.splits sum.splits)

text \<open>Reading does not change the plane.\<close>

lemma step_at_reads [simp]: "step_at R p (bind_op (reads f) g) \<longleftrightarrow> step_at R p (g (f p))"
  by (simp add: step_at_def bind_op_Some reads_def)

lemma step_at_reads_db [simp]: "step_at R p (bind_op (reads_db f) g) \<longleftrightarrow> step_at R p (g (f (pl_db p)))"
  by (simp add: reads_db_def)

lemma step_at_ret_bind [simp]: "step_at R p (bind_op (ret x) g) \<longleftrightarrow> step_at R p (g x)"
  by (simp add: step_at_def bind_op_Some ret_def)

lemma step_at_throw_bind [simp]: "step_at R p (bind_op (throw e) g) \<longleftrightarrow> R p p"
  by (simp add: step_at_def bind_op_Some throw_def)

lemma step_at_bind:
  assumes "\<And>r p'. m p = Some (r, p') \<Longrightarrow> Q p'"
    and "\<And>p'. Q p' \<Longrightarrow> R p p'"
    and "\<And>x p'. m p = Some (Inr x, p') \<Longrightarrow> Q p' \<Longrightarrow> step_at (\<lambda>_ q. R p q) p' (f x)"
  shows "step_at R p (bind_op m f)"
  using assms by (auto simp: step_at_def bind_op_Some)

locale step_relation =
  fixes R :: "plane \<Rightarrow> plane \<Rightarrow> bool"
  assumes refl: "R p p"
    and trans: "R p q \<Longrightarrow> R q s \<Longrightarrow> R p s"
begin

lemma at_ret: "step_at R p (ret x)" by (simp add: step_at_def ret_def refl)
lemma at_throw: "step_at R p (throw e)" by (simp add: step_at_def throw_def refl)
lemma at_reads: "step_at R p (reads f)" by (simp add: step_at_def reads_def refl)
lemma at_reads_db: "step_at R p (reads_db f)" by (simp add: reads_db_def at_reads)
lemma at_of_opt: "step_at R p (of_opt x)" by (auto simp: step_at_def of_opt_def refl)

lemma at_bind: "step_at R p m \<Longrightarrow> (\<And>x p'. m p = Some (Inr x, p') \<Longrightarrow> R p p' \<Longrightarrow> step_at R p' (f x)) \<Longrightarrow> step_at R p (bind_op m f)"
  by (auto simp: step_at_def bind_op_Some) (blast intro: trans)

lemma ret: "steps R (ret x)" by (rule stepsI) (rule at_ret)
lemma throw: "steps R (throw e)" by (rule stepsI) (rule at_throw)
lemma reads: "steps R (reads f)" by (rule stepsI) (rule at_reads)
lemma reads_db: "steps R (reads_db f)" by (rule stepsI) (rule at_reads_db)
lemma of_opt: "steps R (of_opt x)" by (rule stepsI) (rule at_of_opt)

lemma bind: "steps R m \<Longrightarrow> (\<And>x. steps R (f x)) \<Longrightarrow> steps R (bind_op m f)"
  by (simp add: steps_def at_bind)

lemma if_op: "steps R a \<Longrightarrow> steps R b \<Longrightarrow> steps R (if c then a else b)" by simp
lemma opt_op: "steps R a \<Longrightarrow> (\<And>x. steps R (b x)) \<Longrightarrow> steps R (case v of None \<Rightarrow> a | Some x \<Rightarrow> b x)"
  by (cases v) auto
lemma sum_op: "(\<And>e. steps R (a e)) \<Longrightarrow> (\<And>x. steps R (b x)) \<Longrightarrow> steps R (case v of Inl e \<Rightarrow> a e | Inr x \<Rightarrow> b x)"
  by (cases v) auto
lemma prod_op: "(\<And>x y. steps R (f x y)) \<Longrightarrow> steps R (case v of (x, y) \<Rightarrow> f x y)"
  by (cases v) auto
lemma let_op: "(\<And>x. steps R (f x)) \<Longrightarrow> steps R (Let v f)"
  by simp
lemma list_op: "steps R a \<Longrightarrow> (\<And>x y. steps R (b x y)) \<Longrightarrow> steps R (case v of [] \<Rightarrow> a | x # y \<Rightarrow> b x y)"
  by (cases v) auto
lemma verdict_op: "steps R a \<Longrightarrow> (\<And>x y. steps R (b x y)) \<Longrightarrow> steps R c \<Longrightarrow>
    steps R (case v of VPending \<Rightarrow> a | VApproved x y \<Rightarrow> b x y | VRejected \<Rightarrow> c)"
  by (cases v) auto
lemma ssh_verdict_op: "steps R a \<Longrightarrow> (\<And>x. steps R (b x)) \<Longrightarrow> steps R c \<Longrightarrow>
    steps R (case v of SshPending \<Rightarrow> a | SshAccepted x \<Rightarrow> b x | SshRejected \<Rightarrow> c)"
  by (cases v) auto
lemma rule_op: "steps R a \<Longrightarrow> (\<And>x. steps R (b x)) \<Longrightarrow> steps R (case v of SshAccept \<Rightarrow> a | SshCheck x \<Rightarrow> b x)"
  by (cases v) auto
lemma event_op: "(\<And>x. steps R (a x)) \<Longrightarrow> (\<And>x. steps R (b x)) \<Longrightarrow> (\<And>x. steps R (c x)) \<Longrightarrow>
    steps R (case v of Online x \<Rightarrow> a x | Offline x \<Rightarrow> b x | EphemeralExpired x \<Rightarrow> c x)"
  by (cases v) auto

lemmas composed = ret throw reads reads_db of_opt bind if_op opt_op sum_op prod_op let_op list_op verdict_op ssh_verdict_op
  rule_op event_op

end

lemma store_op_Some:
  "store_op w f p = Some (r, p') \<Longrightarrow> p' = p\<lparr>pl_db := snd (f (pl_db p))\<rparr>"
  by (auto simp: store_op_def split: prod.splits sum.splits)

lemma steps_store_op: "(\<And>p. R p (p\<lparr>pl_db := snd (f (pl_db p))\<rparr>)) \<Longrightarrow> steps R (store_op w f)"
  by (auto simp: steps_def step_at_def dest: store_op_Some)

lemma step_at_store_op: "R p (p\<lparr>pl_db := snd (f (pl_db p))\<rparr>) \<Longrightarrow> step_at R p (store_op w f)"
  by (auto simp: step_at_def dest: store_op_Some)

lemma steps_updates: "(\<And>p. R p (f p)) \<Longrightarrow> steps R (updates f)"
  by (auto simp: steps_def step_at_def updates_def)

lemma steps_updates_db: "(\<And>p. R p (p\<lparr>pl_db := f (pl_db p)\<rparr>)) \<Longrightarrow> steps R (updates_db f)"
  by (simp add: updates_db_def steps_updates)

section \<open>Operations that leave the nodes alone\<close>

lemma db_nodes_same [simp]:
  "db_nodes (snd (db_create_user u d)) = db_nodes d"
  "db_nodes (snd (db_create_login l d)) = db_nodes d"
  "db_nodes (snd (db_update_user_display_name i name d)) = db_nodes d"
  "db_nodes (snd (db_create_pre_auth_key k d)) = db_nodes d"
  "db_nodes (snd (db_mark_pre_auth_key_used i d)) = db_nodes d"
  "db_nodes (snd (db_revoke_pre_auth_key pre d)) = db_nodes d"
  "db_nodes (db_save_pending e d) = db_nodes d"
  "db_nodes (db_delete_pending a d) = db_nodes d"
  "db_nodes (db_save_ssh_auth s d) = db_nodes d"
  "db_nodes (db_delete_ssh_auth a d) = db_nodes d"
  by (simp_all add: db_create_user_def db_create_login_def db_update_user_display_name_def db_create_pre_auth_key_def
      db_mark_pre_auth_key_used_def db_revoke_pre_auth_key_def db_save_pending_def db_delete_pending_def
      db_save_ssh_auth_def db_delete_ssh_auth_def split_def Let_def)

text \<open>The part of the plane that no operation may damage.\<close>

definition base_ok :: "plane \<Rightarrow> bool" where
  "base_ok p \<longleftrightarrow> db_ok (pl_db p) \<and> cache_inv (pl_pending p) \<and> registry_inv (pl_sessions p)"

definition quiet :: "plane \<Rightarrow> plane \<Rightarrow> bool" where
  "quiet p q \<longleftrightarrow> (base_ok p \<longrightarrow> base_ok q) \<and> db_nodes (pl_db q) = db_nodes (pl_db p) \<and> pl_config q = pl_config p"

interpretation qt: step_relation quiet
  by unfold_locales (auto simp: quiet_def)

lemma quiet_store:
  assumes "\<And>d. db_nodes (snd (f d)) = db_nodes d" "\<And>d. db_ok d \<Longrightarrow> db_ok (snd (f d))"
  shows "steps quiet (store_op w f)"
  using assms by (auto simp: quiet_def base_ok_def intro!: steps_store_op)

lemma quiet_updates_db:
  assumes "\<And>d. db_nodes (f d) = db_nodes d" "\<And>d. db_ok d \<Longrightarrow> db_ok (f d)"
  shows "steps quiet (updates_db f)"
  using assms by (auto simp: quiet_def base_ok_def intro!: steps_updates_db)

lemma quiet_updates_cache:
  "(\<And>c. cache_inv c \<Longrightarrow> cache_inv (f c)) \<Longrightarrow> steps quiet (updates (\<lambda>p. p\<lparr>pl_pending := f (pl_pending p)\<rparr>))"
  by (auto simp: quiet_def base_ok_def intro!: steps_updates)

lemma quiet_publish: "steps quiet (publish_change e)"
  by (auto simp: publish_change_def quiet_def base_ok_def intro!: steps_updates)

lemmas quiet_rules = qt.composed quiet_publish

lemma quiet_store_ops:
  "steps quiet (store_op w (db_create_user u))" "steps quiet (store_op w (db_create_login l))"
  "steps quiet (store_op w (db_update_user_display_name i name))" "steps quiet (store_op w (db_create_pre_auth_key k))"
  "steps quiet (store_op w (db_mark_pre_auth_key_used i))" "steps quiet (store_op w (db_revoke_pre_auth_key pre))"
  "steps quiet (updates_db (db_save_pending e))" "steps quiet (updates_db (db_delete_pending a))"
  "steps quiet (updates_db (db_save_ssh_auth s))" "steps quiet (updates_db (db_delete_ssh_auth a))"
  by (intro quiet_store quiet_updates_db; simp add: db_ok_intros)+

lemma quiet_pending_ops:
  "steps quiet (get_pending_entry a)" "steps quiet (remove_pending_entry a)" "steps quiet (store_pending_entry e)"
  unfolding get_pending_entry_def remove_pending_entry_def store_pending_entry_def
  by (intro quiet_rules quiet_store_ops quiet_updates_cache cache_inv_insert cache_inv_remove; assumption)+

lemmas quiet_prims = quiet_rules quiet_store_ops quiet_pending_ops

lemma quiet_ensure_default_user: "steps quiet (ensure_default_user w)"
  unfolding ensure_default_user_def by (intro quiet_prims)

lemma quiet_ensure_bootstrap_key: "steps quiet (ensure_bootstrap_key w)"
  unfolding ensure_bootstrap_key_def by (intro quiet_prims)

lemma quiet_create_pre_auth_key: "steps quiet (create_pre_auth_key w pre reusable ephemeral expiration tags)"
  unfolding create_pre_auth_key_def by (intro quiet_prims quiet_ensure_default_user)

lemma quiet_revoke: "steps quiet (plane_revoke_pre_auth_key w pre)"
  unfolding plane_revoke_pre_auth_key_def by (intro quiet_prims)

lemma quiet_validated_auth_key: "steps quiet (validated_auth_key w auth now)"
  unfolding validated_auth_key_def by (intro quiet_prims)

lemma quiet_resolve_user_id: "steps quiet (resolve_user_id w name)"
  unfolding resolve_user_id_def by (intro quiet_prims)

lemma quiet_upsert_oidc_user: "steps quiet (upsert_oidc_user w profile)"
  unfolding upsert_oidc_user_def by (intro quiet_prims)

lemma quiet_node_owner_login: "steps quiet (node_owner_login node)"
  unfolding node_owner_login_def by (intro quiet_prims)

lemma quiet_apply_request_tags: "steps quiet (apply_request_tags w node login req)"
  unfolding apply_request_tags_def by (intro quiet_prims quiet_resolve_user_id)

lemma quiet_create_node: "steps quiet (create_node_from_request w mk req u tags eph now)"
  unfolding create_node_from_request_def by (intro quiet_prims)

lemma quiet_consume_key: "steps quiet (consume_key w key)"
  unfolding consume_key_def by (intro quiet_prims)

lemma quiet_responses: "steps quiet authorized_response" "steps quiet (auth_url_response a)"
  unfolding authorized_response_def auth_url_response_def by (intro quiet_prims)+

lemma quiet_start_interactive: "steps quiet (start_interactive w mk req now)"
  unfolding start_interactive_def by (intro quiet_prims quiet_responses)

lemma quiet_approve_pending: "steps quiet (approve_pending w a name)"
  unfolding approve_pending_def by (intro quiet_prims quiet_resolve_user_id)

lemma quiet_reject_pending: "steps quiet (reject_pending w a)"
  unfolding reject_pending_def by (intro quiet_prims)

lemma quiet_pending_info: "steps quiet (pending_info w a)"
  unfolding pending_info_def by (intro quiet_prims)

lemma quiet_dns: "steps quiet build_dns_config" "steps quiet (reload_dns_extra_records w from_slice)" "steps quiet (set_derp_map m)"
  unfolding build_dns_config_def reload_dns_extra_records_def set_derp_map_def
  by (intro quiet_prims steps_updates; simp add: quiet_def base_ok_def)+

lemma quiet_publish_online: "steps quiet (publish_online evs)"
  by (induction evs rule: publish_online.induct) (auto intro!: quiet_prims)

lemma registry_inv_open': "registry_inv r \<Longrightarrow> registry_inv (snd (session_open n eph now r))"
  using registry_inv_open [of r n eph now "fst (session_open n eph now r)" "snd (session_open n eph now r)"] by simp

lemma quiet_sessions: "steps quiet (open_session w n eph)" "steps quiet (close_session w s)"
  unfolding open_session_def close_session_def
  by (intro quiet_prims quiet_publish_online steps_updates; simp add: quiet_def base_ok_def registry_inv_open' registry_inv_close)+

lemma quiet_frames: "steps quiet (plane_encode_frame w response compress)"
  unfolding plane_encode_frame_def by (intro quiet_prims)

lemma quiet_routes: "steps quiet (effective_approved_routes node)" "steps quiet compile_nodes" "steps quiet (is_node_online n)"
  unfolding effective_approved_routes_def compile_nodes_def is_node_online_def by (intro quiet_prims)+

lemma quiet_peers: "steps quiet (peer_node stored v)" "steps quiet (peer_nodes v ns)"
proof -
  show 1: "steps quiet (peer_node stored v)" for stored
    unfolding peer_node_def by (intro quiet_prims quiet_routes)
  show "steps quiet (peer_nodes v ns)"
    by (induction ns) (auto intro!: quiet_prims 1)
qed

lemma quiet_build_initial_map: "steps quiet (build_initial_map node request)"
  unfolding build_initial_map_def self_cap_map_def by (intro quiet_prims quiet_routes quiet_peers quiet_dns)

lemma quiet_build_delta: "steps quiet (build_delta n batch last_sent v)"
  unfolding build_delta_def compute_peer_delta_def base_packet_filters_def ssh_policy_for_def self_node_proto_def self_cap_map_def
  by (intro quiet_prims quiet_routes quiet_peers quiet_dns)

lemma quiet_respond_map: "steps quiet (respond_map w node request)"
  unfolding respond_map_def by (intro quiet_prims quiet_build_initial_map quiet_frames quiet_sessions)

lemma quiet_settle_ssh: "steps quiet (settle_ssh w a v)"
  unfolding settle_ssh_def by (intro quiet_prims steps_updates) (simp add: quiet_def base_ok_def)

lemma quiet_ssh_auth_info: "steps quiet (ssh_auth_info w a)"
  unfolding ssh_auth_info_def by (intro quiet_prims)

lemma quiet_delete_ssh_auths: "steps quiet (delete_ssh_auths es)"
  by (induction es) (auto intro!: quiet_prims)

lemma quiet_respond_ssh_initial: "steps quiet (respond_ssh_initial w mk src dst su lu)"
  unfolding respond_ssh_initial_def recent_ssh_acceptance_def prune_ssh_auths_def
  by (intro quiet_prims quiet_routes quiet_delete_ssh_auths)

end
