(* ===== verification/Control_Addresses.thy ===== *)
theory Control_Addresses
  imports Control_Steps
begin

text \<open>
  The state invariant of the control plane: the constraints of the schema, the pending cache and the session registry
  stay intact, and every registered node has one IPv4 and one IPv6 address of the configured prefixes that no other
  node has.
\<close>

section \<open>Addresses of a node\<close>

definition addresses_of :: "u32 \<Rightarrow> u128 \<Rightarrow> string list" where
  "addresses_of v4 v6 = [show_ipv4 v4 @ ''/32'', show_ipv6 v6 @ ''/128'']"

definition in_prefixes :: "control_config \<Rightarrow> u32 \<Rightarrow> u128 \<Rightarrow> bool" where
  "in_prefixes c v4 v6 \<longleftrightarrow>
     host_in (cc_ipv4_prefix c) (cc_ipv4_prefix_len c) {0, mask (32 - cc_ipv4_prefix_len c)} v4 \<and>
     host_in (cc_ipv6_prefix c) (cc_ipv6_prefix_len c) {0} v6"

definition addressed :: "control_config \<Rightarrow> node \<Rightarrow> bool" where
  "addressed c n \<longleftrightarrow> (\<exists>v4 v6. n_addresses n = addresses_of v4 v6 \<and> in_prefixes c v4 v6)"

definition apart :: "node \<Rightarrow> node \<Rightarrow> bool" where
  "apart m n \<longleftrightarrow> n_node_key m = n_node_key n \<or> set (n_addresses m) \<inter> set (n_addresses n) = {}"

definition addrs_ok :: "control_config \<Rightarrow> node list \<Rightarrow> bool" where
  "addrs_ok c ns \<longleftrightarrow> (\<forall>n \<in> set ns. addressed c n) \<and> (\<forall>m \<in> set ns. \<forall>n \<in> set ns. apart m n)"

definition plane_inv :: "plane \<Rightarrow> bool" where
  "plane_inv p \<longleftrightarrow> base_ok p \<and> addrs_ok (pl_config p) (db_nodes (pl_db p))"

text \<open>The node key and the machine key of an authorized node.\<close>

definition authd :: "db \<Rightarrow> raw_key \<Rightarrow> raw_key \<Rightarrow> bool" where
  "authd d k m \<longleftrightarrow> (\<exists>n \<in> set (db_nodes d). n_node_key n = k \<and> n_machine_key n = m \<and> n_machine_authorized n)"

text \<open>
  A step that keeps the invariant and the configuration, and authorizes no node but those of the given set.
\<close>

definition safe :: "(raw_key \<times> raw_key) set \<Rightarrow> plane \<Rightarrow> plane \<Rightarrow> bool" where
  "safe S p q \<longleftrightarrow> (plane_inv p \<longrightarrow> plane_inv q) \<and> pl_config q = pl_config p
     \<and> (\<forall>k m. authd (pl_db q) k m \<longrightarrow> authd (pl_db p) k m \<or> (k, m) \<in> S)"

interpretation sf: step_relation "safe S" for S
  by unfold_locales (auto simp: safe_def)

lemma quiet_safe: "quiet p q \<Longrightarrow> safe S p q"
  by (auto simp: quiet_def safe_def plane_inv_def authd_def)

lemma steps_quiet_safe: "steps quiet m \<Longrightarrow> steps (safe S) m"
  by (auto simp: steps_def step_at_def intro: quiet_safe)

lemma at_quiet_safe: "steps quiet m \<Longrightarrow> step_at (safe S) p m"
  by (auto simp: steps_def step_at_def intro: quiet_safe)

section \<open>Writing a node\<close>

definition fits :: "control_config \<Rightarrow> node list \<Rightarrow> node \<Rightarrow> bool" where
  "fits c ns n \<longleftrightarrow> addressed c n \<and> (\<forall>r \<in> set ns. apart r n)"

lemma apart_sym: "apart m n \<longleftrightarrow> apart n m"
  by (auto simp: apart_def)

lemma apart_cong: "n_addresses m = n_addresses m' \<Longrightarrow> n_node_key m = n_node_key m' \<Longrightarrow> apart m n \<longleftrightarrow> apart m' n"
  by (simp add: apart_def)

text \<open>Every row after a write is an old row or the new node, up to its ids.\<close>

definition like :: "node \<Rightarrow> node \<Rightarrow> bool" where
  "like m n \<longleftrightarrow> n_addresses m = n_addresses n \<and> n_node_key m = n_node_key n \<and> n_machine_key m = n_machine_key n
     \<and> n_machine_authorized m = n_machine_authorized n"

lemma insert_node_row_like:
  assumes "insert_node_row n d = (r, d')" "m \<in> set (db_nodes d')"
  shows "m \<in> set (db_nodes d) \<or> like m n"
proof (cases r)
  case (Inl e)
  then show ?thesis using insert_node_row_Err assms by blast
next
  case (Inr u)
  have d': "d' = (if n_node_key n \<in> n_node_key ` set (db_nodes d)
      then d\<lparr>db_nodes := map (\<lambda>r. if n_node_key r = n_node_key n then n\<lparr>n_id := n_id r\<rparr> else r) (db_nodes d)\<rparr>
      else d\<lparr>db_nodes := db_nodes d @ [n\<lparr>n_id := next_rowid (map n_id (db_nodes d))\<rparr>], db_last_rowid := next_rowid (map n_id (db_nodes d))\<rparr>)"
    using insert_node_row_Ok(3) [of n d d'] assms(1) Inr by simp
  show ?thesis
  proof (cases "n_node_key n \<in> n_node_key ` set (db_nodes d)")
    case True
    then have "db_nodes d' = map (\<lambda>r. if n_node_key r = n_node_key n then n\<lparr>n_id := n_id r\<rparr> else r) (db_nodes d)" by (simp add: d')
    then show ?thesis using assms(2) by (auto simp: like_def split: if_splits)
  next
    case False
    then have "db_nodes d' = db_nodes d @ [n\<lparr>n_id := next_rowid (map n_id (db_nodes d))\<rparr>]" by (simp add: d')
    then show ?thesis using assms(2) by (auto simp: like_def)
  qed
qed

lemma set_stable_id_like:
  assumes "m \<in> set (db_nodes (snd (set_stable_id sid i d)))"
  shows "\<exists>r \<in> set (db_nodes d). like m r"
  using assms by (auto simp: set_stable_id_def like_def split: if_splits)

lemma upsert_node_like:
  assumes "m \<in> set (db_nodes (snd (db_upsert_node n d)))"
  shows "(\<exists>r \<in> set (db_nodes d). like m r) \<or> like m n"
proof (cases "insert_node_row n d")
  case (Pair r d')
  have ins: "m \<in> set (db_nodes d') \<Longrightarrow> (\<exists>r \<in> set (db_nodes d). like m r) \<or> like m n" for m
    using insert_node_row_like [OF Pair, of m] by (auto simp: like_def)
  have stable: "\<exists>r \<in> set (db_nodes d'). like m r" if "m \<in> set (db_nodes (snd (set_stable_id sid i d')))" for sid i
    by (rule set_stable_id_like [OF that])
  have cases: "m \<in> set (db_nodes d') \<or> (\<exists>sid i. m \<in> set (db_nodes (snd (set_stable_id sid i d'))))"
    using assms Pair by (auto simp: db_upsert_node_def Let_def split: sum.splits if_splits prod.splits) (metis snd_conv)+
  show ?thesis
  proof (cases "m \<in> set (db_nodes d')")
    case False
    then obtain r where r: "r \<in> set (db_nodes d')" "like m r" using cases stable by blast
    then show ?thesis using ins [OF r(1)] by (auto simp: like_def)
  qed (rule ins)
qed

lemma like_addressed: "like m n \<Longrightarrow> addressed c n \<Longrightarrow> addressed c m"
  by (simp add: like_def addressed_def)

lemma like_apart: "like m n \<Longrightarrow> apart n k \<Longrightarrow> apart m k"
  by (simp add: like_def apart_def)

lemma addrs_ok_upsert:
  assumes "addrs_ok c (db_nodes d)" "fits c (db_nodes d) n"
  shows "addrs_ok c (db_nodes (snd (db_upsert_node n d)))"
proof -
  let ?ok = "\<lambda>r. r \<in> set (db_nodes d) \<or> r = n"
  have old: "?ok a \<Longrightarrow> ?ok b \<Longrightarrow> apart a b" for a b
    using assms apart_sym by (auto simp: addrs_ok_def fits_def) (simp add: apart_def)
  have src: "m \<in> set (db_nodes (snd (db_upsert_node n d))) \<Longrightarrow> \<exists>r. ?ok r \<and> like m r" for m
    using upsert_node_like [of m n d] by blast
  have "addressed c m" if "m \<in> set (db_nodes (snd (db_upsert_node n d)))" for m
    using src [OF that] assms like_addressed by (auto simp: addrs_ok_def fits_def)
  moreover have "apart m k" if mk: "m \<in> set (db_nodes (snd (db_upsert_node n d)))" "k \<in> set (db_nodes (snd (db_upsert_node n d)))" for m k
  proof -
    obtain a b where ab: "?ok a" "like m a" "?ok b" "like k b" using src [OF mk(1)] src [OF mk(2)] by blast
    then have "apart m b" using old like_apart by blast
    then show ?thesis using like_apart [OF ab(4), of m] apart_sym by blast
  qed
  ultimately show ?thesis by (simp add: addrs_ok_def)
qed

lemma authd_upsert:
  assumes "authd (snd (db_upsert_node n d)) k m"
  shows "authd d k m \<or> k = n_node_key n \<and> m = n_machine_key n \<and> n_machine_authorized n"
  using assms upsert_node_like [of _ n d] by (fastforce simp: authd_def like_def)

lemma safe_upsert:
  assumes "plane_inv p \<Longrightarrow> fits (pl_config p) (db_nodes (pl_db p)) n"
    and "n_machine_authorized n \<Longrightarrow> authd (pl_db p) (n_node_key n) (n_machine_key n) \<or> (n_node_key n, n_machine_key n) \<in> S"
  shows "step_at (safe S) p (store_op w (db_upsert_node n))"
proof (rule step_at_store_op)
  let ?q = "p\<lparr>pl_db := snd (db_upsert_node n (pl_db p))\<rparr>"
  have "plane_inv ?q" if "plane_inv p"
    using that assms(1) by (simp add: plane_inv_def base_ok_def db_ok_upsert_node addrs_ok_upsert)
  moreover have "authd (pl_db ?q) k m \<longrightarrow> authd (pl_db p) k m \<or> (k, m) \<in> S" for k m
    using authd_upsert [of n "pl_db p" k m] assms(2) by auto
  ultimately show "safe S p ?q" by (simp add: safe_def)
qed

lemma fits_update:
  assumes "plane_inv p" "r \<in> set (db_nodes (pl_db p))" "n_addresses n = n_addresses r" "n_node_key n = n_node_key r"
  shows "fits (pl_config p) (db_nodes (pl_db p)) n"
  using assms by (auto simp: plane_inv_def addrs_ok_def fits_def addressed_def apart_def)

lemma safe_update:
  assumes "r \<in> set (db_nodes (pl_db p))" "n_addresses n = n_addresses r" "n_node_key n = n_node_key r"
    and "n_machine_authorized n \<Longrightarrow> n_machine_key n = n_machine_key r \<and> (n_machine_authorized r \<or> (n_node_key r, n_machine_key r) \<in> S)"
  shows "step_at (safe S) p (store_op w (db_upsert_node n))"
proof (rule safe_upsert)
  show "plane_inv p \<Longrightarrow> fits (pl_config p) (db_nodes (pl_db p)) n" using fits_update [OF _ assms(1-3)] .
  show "n_machine_authorized n \<Longrightarrow> authd (pl_db p) (n_node_key n) (n_machine_key n) \<or> (n_node_key n, n_machine_key n) \<in> S"
    using assms by (auto simp: authd_def)
qed

section \<open>Fresh addresses\<close>

lemma split_char_hd: "c \<notin> set a \<Longrightarrow> hd (split_char c (a @ c # b)) = a"
proof (induction a)
  case (Cons x a)
  have "split_char c (a @ c # b) \<noteq> []" by (cases "a @ c # b") (auto split: list.splits)
  with Cons show ?case by (cases "split_char c (a @ c # b)") auto
qed simp

lemma address_host_v4 [simp]: "address_host (show_ipv4 v @ ''/32'') = show_ipv4 v"
  using slash_not_in_ip [of "V4 v"] split_char_hd [of "CHR ''/''" "show_ipv4 v" "''32''"] by (simp add: address_host_def)

lemma address_host_v6 [simp]: "address_host (show_ipv6 v @ ''/128'') = show_ipv6 v"
  using slash_not_in_ip [of "V6 v"] split_char_hd [of "CHR ''/''" "show_ipv6 v" "''128''"] by (simp add: address_host_def)

lemma parse_ipv4_show [simp]: "parse_ipv4 (show_ipv4 v) = Some v"
  using parse_ip_show_ipv4 [of v]
  by (auto simp: parse_ip_def parse_ipv4_def split: option.splits if_splits)

lemma parse_ipv4_show_v6 [simp]: "parse_ipv4 (show_ipv6 v) = None"
  by (simp add: parse_ipv4_def show_ipv6_not_ipv4)

lemma parse_ipv6_show [simp]: "parse_ipv6 (show_ipv6 v) = Some v"
  using parse_show_ip [of "V6 v"] by (simp add: parse_ip_def show_ipv6_not_ipv4)

lemma used_addresses:
  assumes "n \<in> set ns" "n_addresses n = addresses_of v4 v6"
  shows "v4 \<in> used_ipv4 ns" "v6 \<in> used_ipv6 ns"
proof -
  have m: "show_ipv4 v4 @ ''/32'' \<in> set (concat (map n_addresses ns))" "show_ipv6 v6 @ ''/128'' \<in> set (concat (map n_addresses ns))"
    using assms by (auto simp: addresses_of_def intro!: bexI [of _ n])
  show "v4 \<in> used_ipv4 ns" unfolding used_ipv4_def List.map_filter_def
    using m(1) by (force simp del: set_concat intro: image_eqI [where x = "show_ipv4 v4 @ ''/32''"])
  show "v6 \<in> used_ipv6 ns" unfolding used_ipv6_def List.map_filter_def
    using m(2) by (force simp del: set_concat intro: image_eqI [where x = "show_ipv6 v6 @ ''/128''"])
qed

lemma v4_v6_differ: "show_ipv4 a @ ''/32'' \<noteq> show_ipv6 b @ ''/128''"
proof
  assume "show_ipv4 a @ ''/32'' = show_ipv6 b @ ''/128''"
  from arg_cong [where f = address_host, OF this] have "show_ipv4 a = show_ipv6 b"
    by (simp only: address_host_v4 address_host_v6)
  from arg_cong [where f = parse_ipv4, OF this] show False by simp
qed

lemma addresses_disjoint:
  assumes "v4 \<noteq> u4" "v6 \<noteq> u6"
  shows "set (addresses_of v4 v6) \<inter> set (addresses_of u4 u6) = {}"
proof -
  have "show_ipv4 v4 \<noteq> show_ipv4 u4" using assms(1) show_ip_inject [of "V4 v4" "V4 u4"] by simp
  moreover have "show_ipv6 v6 \<noteq> show_ipv6 u6" using assms(2) show_ip_inject [of "V6 v6" "V6 u6"] by simp
  ultimately show ?thesis
    using v4_v6_differ [of v4 u6] v4_v6_differ [of u4 v6, symmetric] by (simp add: addresses_of_def)
qed

definition draws_in_range :: "world \<Rightarrow> bool" where
  "draws_in_range w \<longleftrightarrow> (\<forall>c i. 0 < c \<longrightarrow> w_gen4 w c i < c) \<and> (\<forall>c i. 0 < c \<longrightarrow> w_gen6 w c i < c)"

lemma create_node_fits:
  assumes "draws_in_range w" "create_node_from_request w mk req u tags eph now p = Some (Inr n, q)"
  shows "q = p" and "n_node_key n = rq_node_key req" and "n_machine_key n = mk" and "n_machine_authorized n"
    and "n_id n = 0 \<and> n_stable_id n = []"
    and "addrs_ok (pl_config p) (db_nodes (pl_db p)) \<Longrightarrow> fits (pl_config p) (db_nodes (pl_db p)) n"
proof -
  let ?c = "pl_config p" and ?ns = "db_list_nodes (pl_db p)"
  let ?a = "ip_allocator_new (cc_ipv4_prefix ?c) (cc_ipv4_prefix_len ?c) (cc_ipv6_prefix ?c) (cc_ipv6_prefix_len ?c)"
  obtain v4 v6 where al: "allocate ?a (w_gen4 w) (w_gen6 w) (used_ipv4 ?ns) (used_ipv6 ?ns) = Ok (v4, v6)"
    using assms(2) by (auto simp: create_node_from_request_def bind_op_Some reads_db_def reads_def throw_def Let_def split: sum.splits)
  then have n: "n_addresses n = addresses_of v4 v6" "q = p" "n_node_key n = rq_node_key req" "n_machine_key n = mk" "n_machine_authorized n"
      "n_id n = 0" "n_stable_id n = []"
    using assms(2) by (auto simp: create_node_from_request_def bind_op_Some reads_db_def reads_def ret_def Let_def addresses_of_def)
  show "q = p" "n_node_key n = rq_node_key req" "n_machine_key n = mk" "n_machine_authorized n" "n_id n = 0 \<and> n_stable_id n = []"
    using n by simp_all
  have v4: "allocate_ipv4 ?a (w_gen4 w) (used_ipv4 ?ns) = Ok v4" and v6: "allocate_ipv6 ?a (w_gen6 w) (used_ipv6 ?ns) = Ok v6"
    using al by (auto simp: allocate_def bind_res_Ok_iff)
  have d4: "\<And>c i. 0 < c \<Longrightarrow> w_gen4 w c i < c" and d6: "\<And>c i. 0 < c \<Longrightarrow> w_gen6 w c i < c"
    using assms(1) by (auto simp: draws_in_range_def)
  have f4: "v4 \<notin> used_ipv4 ?ns" and f6: "v6 \<notin> used_ipv6 ?ns" and "in_prefixes ?c v4 v6"
    using allocate_ipv4_Ok [OF v4 d4] allocate_ipv6_Ok [OF v6 d6] by (simp_all add: in_prefixes_def ip_allocator_new_def)
  then have ad: "addressed ?c n" using n(1) by (auto simp: addressed_def)
  show "fits ?c (db_nodes (pl_db p)) n" if ok: "addrs_ok ?c (db_nodes (pl_db p))"
    unfolding fits_def
  proof (intro conjI ballI ad)
    fix r assume r: "r \<in> set (db_nodes (pl_db p))"
    then obtain u4 u6 where u: "n_addresses r = addresses_of u4 u6" using ok by (auto simp: addrs_ok_def addressed_def)
    have "r \<in> set ?ns" using r by (simp add: db_list_nodes_def)
    then have "u4 \<in> used_ipv4 ?ns" "u6 \<in> used_ipv6 ?ns" using used_addresses u by blast+
    then have "u4 \<noteq> v4" "u6 \<noteq> v6" using f4 f6 by auto
    then show "apart r n" using addresses_disjoint u n(1) by (simp add: apart_def)
  qed
qed

section \<open>The operations\<close>

lemma safe_delete: "steps (safe S) (store_op w (db_delete_node k))" "steps (safe S) (updates_db (\<lambda>d. snd (db_delete_node k d)))"
proof -
  have "safe S p (p\<lparr>pl_db := snd (db_delete_node k (pl_db p))\<rparr>)" for p
    using db_ok_delete_node [of "pl_db p" k]
    by (auto simp: safe_def plane_inv_def base_ok_def addrs_ok_def authd_def db_delete_node_def)
  then show "steps (safe S) (store_op w (db_delete_node k))" "steps (safe S) (updates_db (\<lambda>d. snd (db_delete_node k d)))"
    by (auto intro!: steps_store_op steps_updates_db)
qed

lemma safe_then_quiet:
  "step_at (safe S) p m \<Longrightarrow> (\<And>x. steps quiet (f x)) \<Longrightarrow> step_at (safe S) p (bind_op m f)"
  by (rule sf.at_bind) (auto intro: at_quiet_safe)

lemma safe_upsert_and_publish:
  "step_at (safe S) p (store_op w (db_upsert_node n)) \<Longrightarrow> step_at (safe S) p (upsert_and_publish w n)"
  unfolding upsert_and_publish_def by (rule safe_then_quiet) (auto intro: quiet_publish)

lemma found_node: "db_get_node_by_node_key d k = Some n \<Longrightarrow> n \<in> set (db_nodes d) \<and> n_node_key n = k"
  by (auto simp: db_get_node_by_node_key_def dest: find_SomeD)

lemma quiet_nodes: "steps quiet m \<Longrightarrow> m p = Some (r, q) \<Longrightarrow> db_nodes (pl_db q) = db_nodes (pl_db p) \<and> pl_config q = pl_config p"
  using steps_elim by (force simp: quiet_def)

lemma safe_approve_route: "steps (safe S) (approve_route w k route)"
proof (rule stepsI)
  fix p
  have "step_at (safe S) p (upsert_and_publish w (n\<lparr>n_approved_routes := rs\<rparr>))" if "db_get_node_by_node_key (pl_db p) k = Some n" for n rs
    by (rule safe_upsert_and_publish, rule safe_update [of n]) (use found_node [OF that] in auto)
  then show "step_at (safe S) p (approve_route w k route)"
    by (auto simp: approve_route_def split: option.split intro: sf.at_ret sf.at_throw)
qed

lemma safe_disapprove_route: "steps (safe S) (disapprove_route w k route)"
proof (rule stepsI)
  fix p
  have "step_at (safe S) p (upsert_and_publish w (n\<lparr>n_approved_routes := rs\<rparr>))" if "db_get_node_by_node_key (pl_db p) k = Some n" for n rs
    by (rule safe_upsert_and_publish, rule safe_update [of n]) (use found_node [OF that] in auto)
  then show "step_at (safe S) p (disapprove_route w k route)"
    by (auto simp: disapprove_route_def Let_def split: option.split intro: sf.at_ret sf.at_throw)
qed

lemma safe_logout_node:
  assumes "n \<in> set (db_nodes (pl_db p))"
  shows "step_at (safe S) p (logout_node w n expired)"
proof -
  have "step_at (safe S) p (upsert_and_publish w (n\<lparr>n_machine_authorized := False\<rparr>))"
    by (rule safe_upsert_and_publish, rule safe_update [of n]) (use assms in auto)
  moreover have "step_at (safe S) p (store_op w (db_delete_node (n_node_key n)))" using safe_delete(1) by (rule stepsD)
  moreover have "step_at (safe S) p authorized_response" using quiet_responses(1) by (rule at_quiet_safe)
  ultimately show ?thesis
    by (auto simp: logout_node_def intro!: safe_then_quiet quiet_prims)
qed

lemma safe_logout: "steps (safe S) (logout w mk k)"
proof (rule stepsI)
  fix p
  show "step_at (safe S) p (logout w mk k)"
    using found_node by (auto simp: logout_def split: option.split intro: sf.at_throw safe_logout_node)
qed

lemma apply_request_tags_node:
  assumes "apply_request_tags w node login req p = Some (Inr (b, n), q)"
  shows "n_addresses n = n_addresses node \<and> n_node_key n = n_node_key node \<and> n_machine_key n = n_machine_key node
    \<and> n_machine_authorized n = n_machine_authorized node \<and> n_id n = n_id node \<and> n_stable_id n = n_stable_id node"
  using assms by (auto simp: apply_request_tags_def bind_op_Some ret_def throw_def Let_def split: if_splits)

lemma safe_relogin:
  assumes "node \<in> set (db_nodes (pl_db p))"
  shows "step_at (safe S) p (relogin w node request)"
  unfolding relogin_def
proof (rule sf.at_bind)
  show "step_at (safe S) p (node_owner_login node)" using quiet_node_owner_login by (rule at_quiet_safe)
  fix owner q assume "node_owner_login node p = Some (Inr owner, q)"
  then have q: "node \<in> set (db_nodes (pl_db q))" using quiet_nodes [OF quiet_node_owner_login] assms by simp
  show "step_at (safe S) q (bind_op (apply_request_tags w node owner (requested_tags (rq_hostinfo request))) (\<lambda>(changed, updated).
     bind_op (if changed then bind_op (store_op w (db_upsert_node updated)) (\<lambda>_. publish_change (NodeChanged (n_id updated))) else ret ())
       (\<lambda>_. authorized_response)))"
  proof (rule sf.at_bind)
    show "step_at (safe S) q (apply_request_tags w node owner (requested_tags (rq_hostinfo request)))"
      using quiet_apply_request_tags by (rule at_quiet_safe)
    fix x s assume t: "apply_request_tags w node owner (requested_tags (rq_hostinfo request)) q = Some (Inr x, s)"
    obtain changed updated where x: "x = (changed, updated)" by (cases x)
    have s: "node \<in> set (db_nodes (pl_db s))" using quiet_nodes [OF quiet_apply_request_tags t] q by simp
    have "step_at (safe S) s (store_op w (db_upsert_node updated))"
      by (rule safe_update [OF s]) (use apply_request_tags_node [OF t [unfolded x]] in auto)
    then show "step_at (safe S) s (case x of (changed, updated) \<Rightarrow>
        bind_op (if changed then bind_op (store_op w (db_upsert_node updated)) (\<lambda>_. publish_change (NodeChanged (n_id updated))) else ret ())
          (\<lambda>_. authorized_response))"
      by (auto simp: x intro!: safe_then_quiet quiet_prims quiet_responses at_quiet_safe [OF quiet_responses(1)])
  qed
qed

lemma safe_reauthorize:
  assumes "node \<in> set (db_nodes (pl_db p))" "(n_node_key node, n_machine_key node) \<in> S"
  shows "step_at (safe S) p (reauthorize w node key)"
proof -
  have "step_at (safe S) p (store_op w (db_upsert_node (node\<lparr>n_machine_authorized := True, n_tags := k_tags key, n_ephemeral := k_ephemeral key\<rparr>)))"
    by (rule safe_update [OF assms(1)]) (use assms(2) in auto)
  then show ?thesis
    unfolding reauthorize_def Let_def by (auto intro!: safe_then_quiet quiet_prims quiet_responses quiet_consume_key)
qed

lemma safe_create_upsert:
  assumes "draws_in_range w" "(rq_node_key req, mk) \<in> S" "\<And>x. steps quiet (f x)"
  shows "step_at (safe S) p (bind_op (create_node_from_request w mk req u tags eph now) (\<lambda>node. bind_op (upsert_and_publish w node) f))"
proof (rule sf.at_bind)
  show "step_at (safe S) p (create_node_from_request w mk req u tags eph now)" using quiet_create_node by (rule at_quiet_safe)
  fix n q assume c: "create_node_from_request w mk req u tags eph now p = Some (Inr n, q)"
  note n = create_node_fits [OF assms(1) c]
  have "step_at (safe S) q (store_op w (db_upsert_node n))"
    using n assms(2) by (intro safe_upsert) (auto simp: plane_inv_def)
  then show "step_at (safe S) q (bind_op (upsert_and_publish w n) f)"
    by (intro safe_then_quiet safe_upsert_and_publish assms(3))
qed

lemma safe_register_with_key:
  assumes "draws_in_range w" "(rq_node_key request, mk) \<in> S"
  shows "step_at (safe S) p (register_with_key w mk request now key)"
  unfolding register_with_key_def
  by (auto intro!: sf.at_throw safe_create_upsert assms quiet_prims quiet_consume_key quiet_responses)

lemma safe_finish_approved:
  assumes "draws_in_range w" "(pr_node_key entry, mk) \<in> S"
  shows "step_at (safe S) p (finish_approved w mk entry u tags now)"
  unfolding finish_approved_def Let_def
  by (auto intro!: safe_create_upsert assms quiet_responses at_quiet_safe [OF quiet_responses(1)])

end
