(* ===== verification/Control_Register.thy ===== *)
theory Control_Register
  imports Control_Addresses
begin

text \<open>
  Registration is the only way to become authorized: what a register request can authorize, and on which evidence.
\<close>

section \<open>Evidence\<close>

definition key_valid :: "world \<Rightarrow> db \<Rightarrow> register_auth \<Rightarrow> string \<Rightarrow> pre_auth_key \<Rightarrow> bool" where
  "key_valid w d auth now key \<longleftrightarrow>
     (\<exists>pre secret. parse_auth_key (ra_auth_key auth) = Some (pre, secret) \<and> db_get_pre_auth_key d pre = Some key
       \<and> verify_secret w secret (k_secret_hash key)) \<and> \<not> k_revoked key
     \<and> (\<forall>e. k_expiration key = Some e \<longrightarrow> \<not> is_past w e now) \<and> (k_reusable key \<or> \<not> k_used key)"

lemma validated_auth_key_result:
  "\<exists>found. validated_auth_key w auth now p = Some (Inr found, p) \<and> (found = Some key \<longleftrightarrow> key_valid w (pl_db p) auth now key)"
proof (cases "parse_auth_key (ra_auth_key auth)")
  case None
  then show ?thesis by (simp add: validated_auth_key_def ret_def key_valid_def)
next
  case (Some ps)
  obtain pre secret where ps: "ps = (pre, secret)" by (cases ps)
  show ?thesis
    using Some by (cases "db_get_pre_auth_key (pl_db p) pre")
      (auto simp: ps validated_auth_key_def bind_op_def reads_db_def reads_def ret_def key_valid_def split: option.split)
qed

lemma validated_auth_key_Some:
  "validated_auth_key w auth now p = Some (Inr (Some key), q) \<Longrightarrow> key_valid w (pl_db p) auth now key \<and> q = p"
  using validated_auth_key_result [of w auth now p key] by auto

definition approved_entry :: "world \<Rightarrow> db \<Rightarrow> raw_key \<Rightarrow> string \<Rightarrow> string \<Rightarrow> pending_registration \<Rightarrow> bool" where
  "approved_entry w d mk followup now e \<longleftrightarrow>
     (\<exists>a. auth_id_from_followup followup = Some a \<and> db_get_pending d a = Some e) \<and> pr_machine_key e = mk
     \<and> \<not> is_past w (pr_expires_at e) now \<and> (\<exists>u ts. pr_verdict e = VApproved u ts)"

text \<open>What the plane may authorize for a request: the requested node key on a valid pre-auth key, or the node key of
  the approved registration of the same machine that the followup names.\<close>

definition granted :: "world \<Rightarrow> raw_key \<Rightarrow> register_request \<Rightarrow> db \<Rightarrow> (raw_key \<times> raw_key) set" where
  "granted w mk req d =
     (if rq_followup req = []
      then {(k, m). m = mk \<and> k = rq_node_key req \<and> (\<exists>auth key. rq_auth req = Some auth \<and> key_valid w d auth (now_rfc3339 w) key)}
      else {(k, m). m = mk \<and> (\<exists>e. approved_entry w d mk (rq_followup req) (now_rfc3339 w) e \<and> pr_node_key e = k)})"

definition prepare :: "world \<Rightarrow> unit plane_op" where
  "prepare w = bind_op (ensure_default_user w) (\<lambda>_. ensure_bootstrap_key w)"

section \<open>The branches\<close>

lemma quiet_prepare: "steps quiet (prepare w)"
  unfolding prepare_def by (intro quiet_prims quiet_ensure_default_user quiet_ensure_bootstrap_key)

lemma get_pending_entry_result:
  "get_pending_entry a p = Some (r, q) \<Longrightarrow> r = Inr (db_get_pending (pl_db p) a) \<and> pl_db q = pl_db p"
  by (auto simp: get_pending_entry_def bind_op_Some reads_db_def reads_def updates_def ret_def split: option.splits)

lemma safe_poll_followup:
  assumes "draws_in_range w" "rq_followup req \<noteq> []"
  shows "step_at (safe (granted w mk req (pl_db p))) p (poll_followup w mk req (now_rfc3339 w))"
proof (cases "auth_id_from_followup (rq_followup req)")
  case None
  then show ?thesis by (simp add: poll_followup_def sf.at_ret)
next
  case (Some a)
  let ?S = "granted w mk req (pl_db p)"
  have fin: "step_at (safe ?S) s (finish_approved w mk e u ts (now_rfc3339 w))"
    if "db_get_pending (pl_db p) a = Some e" "pr_machine_key e = mk" "\<not> is_past w (pr_expires_at e) (now_rfc3339 w)" "pr_verdict e = VApproved u ts" for s e u ts
    by (rule safe_finish_approved [OF assms(1)]) (use assms(2) Some that in \<open>auto simp: granted_def approved_entry_def\<close>)
  show ?thesis
    unfolding poll_followup_def Some option.case
  proof (rule sf.at_bind)
    show "step_at (safe ?S) p (get_pending_entry a)" using quiet_pending_ops(1) by (rule at_quiet_safe)
    fix found q assume "get_pending_entry a p = Some (Inr found, q)"
    then have found: "found = db_get_pending (pl_db p) a" using get_pending_entry_result by blast
    show "step_at (safe ?S) q (case found of
        None \<Rightarrow> ret (unauthorized_response ''registration expired; start a new registration'')
      | Some entry \<Rightarrow>
          if pr_machine_key entry \<noteq> mk then ret (unauthorized_response ''auth id does not match machine key'')
          else if is_past w (pr_expires_at entry) (now_rfc3339 w)
          then bind_op (remove_pending_entry a) (\<lambda>_. ret (unauthorized_response ''registration expired; start a new registration''))
          else (case pr_verdict entry of
              VPending \<Rightarrow> auth_url_response (pr_auth_id entry)
            | VApproved user_id tags \<Rightarrow> bind_op (remove_pending_entry a) (\<lambda>_. finish_approved w mk entry user_id tags (now_rfc3339 w))
            | VRejected \<Rightarrow> bind_op (remove_pending_entry a) (\<lambda>_. ret (unauthorized_response ''registration rejected''))))"
    proof (cases found)
      case None
      then show ?thesis by (simp add: sf.at_ret)
    next
      case (Some e)
      have rem: "step_at (safe ?S) q (remove_pending_entry a)" using quiet_pending_ops(2) by (rule at_quiet_safe)
      have url: "step_at (safe ?S) q (auth_url_response i)" for i using quiet_responses(2) by (rule at_quiet_safe)
      have "step_at (safe ?S) q (bind_op (remove_pending_entry a) (\<lambda>_. finish_approved w mk e u ts (now_rfc3339 w)))"
        if "pr_machine_key e = mk" "\<not> is_past w (pr_expires_at e) (now_rfc3339 w)" "pr_verdict e = VApproved u ts" for u ts
        by (rule sf.at_bind [OF rem]) (rule fin, use found Some that in auto)
      then show ?thesis
        unfolding Some option.case using rem url
        by (auto intro: sf.at_ret safe_then_quiet qt.ret split: pending_verdict.split simp del: append_Cons append_Nil)
    qed
  qed
qed

lemma safe_register_existing:
  assumes "draws_in_range w" "rq_followup req = []" "db_get_node_by_node_key (pl_db p) (rq_node_key req) = Some node"
  shows "step_at (safe (granted w mk req (pl_db p))) p (register_existing w mk req (now_rfc3339 w) node)"
proof -
  let ?S = "granted w mk req (pl_db p)" and ?now = "now_rfc3339 w"
  have node: "node \<in> set (db_nodes (pl_db p))" "n_node_key node = rq_node_key req" using found_node [OF assms(3)] by auto
  have inter: "step_at (safe ?S) q (start_interactive w mk req ?now)" for q using quiet_start_interactive by (rule at_quiet_safe)
  have key: "step_at (safe ?S) p (bind_op (validated_auth_key w auth ?now) (\<lambda>key. case key of
      Some key \<Rightarrow> reauthorize w node key | None \<Rightarrow> start_interactive w mk req ?now))"
    if "rq_auth req = Some auth" "n_machine_key node = mk" for auth
  proof (rule sf.at_bind)
    show "step_at (safe ?S) p (validated_auth_key w auth ?now)" using quiet_validated_auth_key by (rule at_quiet_safe)
    fix found q assume v: "validated_auth_key w auth ?now p = Some (Inr found, q)"
    show "step_at (safe ?S) q (case found of Some key \<Rightarrow> reauthorize w node key | None \<Rightarrow> start_interactive w mk req ?now)"
    proof (cases found)
      case (Some key)
      have "key_valid w (pl_db p) auth ?now key" "q = p" using validated_auth_key_Some v Some by auto
      then have "(n_node_key node, n_machine_key node) \<in> ?S" "node \<in> set (db_nodes (pl_db q))"
        using assms(2) that node by (auto simp: granted_def)
      then show ?thesis using Some by (simp add: safe_reauthorize)
    qed (simp add: inter)
  qed
  show ?thesis
    unfolding register_existing_def
    using key inter safe_logout_node [OF node(1)] safe_relogin [OF node(1)]
    by (auto intro: sf.at_ret split: option.split simp del: append_Cons append_Nil)
qed

lemma safe_register_new:
  assumes "draws_in_range w" "rq_followup req = []"
  shows "step_at (safe (granted w mk req (pl_db p))) p (register_new w mk req (now_rfc3339 w))"
proof -
  let ?S = "granted w mk req (pl_db p)" and ?now = "now_rfc3339 w"
  let ?v = "case rq_auth req of Some auth \<Rightarrow> validated_auth_key w auth ?now | None \<Rightarrow> ret None"
  have inter: "step_at (safe ?S) q (start_interactive w mk req ?now)" for q using quiet_start_interactive by (rule at_quiet_safe)
  show ?thesis
    unfolding register_new_def
  proof (rule sf.at_bind)
    show "step_at (safe ?S) p ?v"
      by (cases "rq_auth req") (auto intro: sf.at_ret at_quiet_safe quiet_validated_auth_key)
    fix found q assume v: "?v p = Some (Inr found, q)"
    have "step_at (safe ?S) q (register_with_key w mk req ?now key)" if some: "found = Some key" for key
    proof (rule safe_register_with_key [OF assms(1)])
      obtain auth where "rq_auth req = Some auth" "key_valid w (pl_db p) auth ?now key"
        using v some by (cases "rq_auth req") (auto simp: ret_def dest: validated_auth_key_Some)
      then show "(rq_node_key req, mk) \<in> ?S" using assms(2) by (auto simp: granted_def)
    qed
    then show "step_at (safe ?S) q
      (let is_tagged_key = case found of None \<Rightarrow> False | Some k \<Rightarrow> (case k_tags k of None \<Rightarrow> False | Some [] \<Rightarrow> False | Some (x # xs) \<Rightarrow> True) in
       if \<not> is_tagged_key \<and> rq_expiry req \<noteq> [] \<and> is_past w (rq_expiry req) ?now
       then ret (expired_response ''node key is expired'')
       else if \<not> is_tagged_key \<and> rq_expiry req \<noteq> [] \<and> is_future w (rq_expiry req) ?now
       then ret (unauthorized_response ''clients may not extend their own key'')
       else case found of None \<Rightarrow> start_interactive w mk req ?now | Some key \<Rightarrow> register_with_key w mk req ?now key)"
      using inter by (cases found) (simp_all add: Let_def sf.at_ret del: append_Cons append_Nil)
  qed
qed

lemma safe_try_register:
  assumes "draws_in_range w" "try_register w mk req p = Some (r, q)"
  shows "safe {} p q \<or> (\<exists>p1. prepare w p = Some (Inr (), p1) \<and> safe {} p p1 \<and> safe (granted w mk req (pl_db p1)) p1 q)"
proof -
  let ?rest = "\<lambda>_. let now = now_rfc3339 w in
       if rq_followup req \<noteq> [] then poll_followup w mk req now
       else bind_op (reads_db (\<lambda>d. db_get_node_by_node_key d (rq_node_key req))) (\<lambda>found.
         case found of Some node \<Rightarrow> register_existing w mk req now node | None \<Rightarrow> register_new w mk req now)"
  have eq: "try_register w mk req p = bind_op (prepare w) ?rest p"
    by (simp add: try_register_def prepare_def bind_op_def Let_def split: option.split sum.split)
  have "(\<exists>e. prepare w p = Some (Inl e, q)) \<or> (\<exists>p1. prepare w p = Some (Inr (), p1) \<and> ?rest () p1 = Some (r, q))"
    using assms(2) unfolding eq bind_op_Some by auto
  then show ?thesis
  proof (elim disjE exE conjE)
    fix e assume "prepare w p = Some (Inl e, q)"
    then show ?thesis using steps_elim [OF quiet_prepare] quiet_safe by blast
  next
    fix p1 assume p1: "prepare w p = Some (Inr (), p1)" and rest: "?rest () p1 = Some (r, q)"
    have "step_at (safe (granted w mk req (pl_db p1))) p1 (?rest ())"
      using safe_poll_followup [OF assms(1), of req mk p1] safe_register_existing [OF assms(1), of req p1]
        safe_register_new [OF assms(1), of req mk p1]
      by (auto simp: Let_def split: option.split)
    then have "safe (granted w mk req (pl_db p1)) p1 q" using rest by (simp add: step_at_def)
    then show ?thesis using p1 steps_elim [OF quiet_prepare p1] quiet_safe by blast
  qed
qed

lemma safe_authd: "safe S p q \<Longrightarrow> authd (pl_db q) k m \<Longrightarrow> authd (pl_db p) k m \<or> (k, m) \<in> S"
  by (simp add: safe_def)

end
