(* ===== verification/Control_Sample.thy ===== *)
theory Control_Sample
  imports Control_Register
begin

text \<open>
  A concrete world and a concrete plane, on which the results about the control plane are evaluated: the default
  configuration of \<^verbatim>\<open>crabscale-control/src/lib.rs\<close> over an empty store, before and after the default user and
  the bootstrap key have been seeded.
\<close>

definition hex_digits :: string where "hex_digits = ''0123456789abcdef''"

definition hex_of :: "bytes \<Rightarrow> string" where
  "hex_of bs = concat (map (\<lambda>b. [hex_digits ! (unat b div 16), hex_digits ! (unat b mod 16)]) bs)"

definition sample_world :: world where
  "sample_world = \<lparr>w_rfc3339 = (\<lambda>s. Some (int (length s))), w_now = ''2026-01-01T00:00:00Z'', w_now_unix = 1767225600,
     w_now_plus = (\<lambda>_. ''2026-01-01T00:15:00.000Z''), w_blake2b = id, w_hex_encode = hex_of, w_hex_decode = (\<lambda>_. Some []),
     w_secret_bytes = [1, 2], w_salt = [], w_gen4 = (\<lambda>c i. if of_nat i < c then of_nat i else 0),
     w_gen6 = (\<lambda>c i. if of_nat i < c then of_nat i else 0), w_to_json = (\<lambda>_. Some [7]), w_zstd = Some,
     w_read_file = (\<lambda>_. Inl ''missing''), w_sqlite_message = (\<lambda>_. ''constraint failed'')\<rparr>"

lemma sample_draws [simp]: "draws_in_range sample_world"
  by (simp add: draws_in_range_def sample_world_def)

definition sample_plane :: plane where
  "sample_plane = plane_with_store sample_world (\<lambda>_. Inr []) control_config_default db_empty"

definition sample_user :: user where
  "sample_user = \<lparr>u_id = 1, u_login_name = cc_user_login_name control_config_default,
     u_display_name = cc_user_display_name control_config_default, u_created_at = CONTROL_TIME\<rparr>"

definition sample_login :: login where
  "sample_login = \<lparr>l_id = 1, l_user_id = 1, l_provider = ''authkey'',
     l_login_name = cc_user_login_name control_config_default, l_created_at = CONTROL_TIME\<rparr>"

definition sample_key :: pre_auth_key where
  "sample_key = (new_key sample_world ''test'' ''secret'' True False None None control_config_default)\<lparr>k_id := 1\<rparr>"

definition sample_db :: db where
  "sample_db = db_empty\<lparr>db_users := [sample_user], db_logins := [sample_login], db_keys := [sample_key], db_last_rowid := 1\<rparr>"

definition sample_ready :: plane where
  "sample_ready = sample_plane\<lparr>pl_db := sample_db\<rparr>"

definition sample_request :: register_request where
  "sample_request = register_request_default\<lparr>rq_auth := Some \<lparr>ra_auth_key = ''hskey-auth-test-secret''\<rparr>\<rparr>"

lemma sample_config [simp]:
  "pl_config sample_plane = control_config_default" "pl_config sample_ready = control_config_default"
  "pl_db sample_plane = db_empty" "pl_db sample_ready = sample_db"
  by (simp_all add: sample_ready_def sample_plane_def plane_with_store_def control_config_default_def dns_settings_default_def Let_def)

lemma sample_key_text: "parse_auth_key ''hskey-auth-test-secret'' = Some (''test'', ''secret'')"
  by code_simp

lemma sample_seeding:
  "ensure_default_user sample_world sample_plane
     = Some (Inr (), sample_plane\<lparr>pl_db := db_empty\<lparr>db_users := [sample_user], db_logins := [sample_login], db_last_rowid := 1\<rparr>\<rparr>)"
  "ensure_bootstrap_key sample_world (sample_plane\<lparr>pl_db := db_empty\<lparr>db_users := [sample_user], db_logins := [sample_login],
       db_last_rowid := 1\<rparr>\<rparr>) = Some (Inr (), sample_ready)"
proof -
  have c: "cc_user_id control_config_default = 1" "cc_login_id control_config_default = 1"
    "cc_auth_key control_config_default = ''hskey-auth-test-secret''"
    by (simp_all add: control_config_default_def)
  note ops = bind_op_def reads_def reads_db_def store_op_def ret_def Let_def as_i64_def db_empty_def user_exists_def
    sample_user_def sample_login_def c
  show "ensure_default_user sample_world sample_plane
     = Some (Inr (), sample_plane\<lparr>pl_db := db_empty\<lparr>db_users := [sample_user], db_logins := [sample_login], db_last_rowid := 1\<rparr>\<rparr>)"
    by (simp add: ensure_default_user_def ops db_get_user_def db_create_user_def db_get_login_def db_create_login_def)
  show "ensure_bootstrap_key sample_world (sample_plane\<lparr>pl_db := db_empty\<lparr>db_users := [sample_user], db_logins := [sample_login],
       db_last_rowid := 1\<rparr>\<rparr>) = Some (Inr (), sample_ready)"
    using sample_key_text
    by (simp add: ensure_bootstrap_key_def ops db_get_pre_auth_key_def db_create_pre_auth_key_def new_key_def next_rowid_def
        sample_ready_def sample_db_def sample_key_def)
qed

lemma sample_prepared: "prepare sample_world sample_plane = Some (Inr (), sample_ready)"
  using sample_seeding by (simp add: prepare_def bind_op_def)

lemma sample_key_valid: "key_valid sample_world sample_db \<lparr>ra_auth_key = ''hskey-auth-test-secret''\<rparr> now sample_key"
proof -
  have "verify_secret sample_world ''secret'' (hash_secret sample_world ''secret'')" by code_simp
  then show ?thesis
    using sample_key_text
    by (simp add: key_valid_def sample_db_def db_get_pre_auth_key_def sample_key_def new_key_def db_empty_def)
qed

lemma sample_nodes [simp]: "db_nodes db_empty = []" "db_nodes sample_db = []" "db_list_nodes sample_db = []"
  by (simp_all add: sample_db_def db_empty_def db_list_nodes_def)

lemma sample_allocate:
  "allocate (ip_allocator_new DEFAULT_IPV4_PREFIX DEFAULT_IPV4_PREFIX_LEN DEFAULT_IPV6_PREFIX DEFAULT_IPV6_PREFIX_LEN)
     (w_gen4 sample_world) (w_gen6 sample_world) {} {} = Inr (DEFAULT_IPV4_PREFIX + 1, DEFAULT_IPV6_PREFIX + 1)"
proof -
  have "(1681915904 :: u32) AND NOT (mask 22) = 1681915904"
    "(336928495290377064170890405512231256064 :: u128) AND NOT (mask 80) = 336928495290377064170890405512231256064"
    by code_simp+
  then show ?thesis
    by (simp add: allocate_def allocate_ipv4_def allocate_ipv6_def ip_allocator_new_def ipv4_host_range_def ipv6_host_range_def
      DEFAULT_IPV4_PREFIX_def DEFAULT_IPV4_PREFIX_LEN_def DEFAULT_IPV6_PREFIX_def DEFAULT_IPV6_PREFIX_LEN_def
      ALLOCATE_ATTEMPTS_def draw_loop_unused sample_world_def)
qed

end
