(* ===== verification/Control_Keys.thy ===== *)
theory Control_Keys
  imports Control_Sample
begin

text \<open>
  The life of a pre-auth key: a valid key registers a fresh node, is spent by it unless it is reusable, and a
  revoked key is never valid again. A store whose rows show why a fresh node can be refused closes the theory.
\<close>

section \<open>Storing a fresh node\<close>

definition stored_row :: "db \<Rightarrow> node \<Rightarrow> node" where
  "stored_row d n = (let i = next_rowid (map n_id (db_nodes d)) in n\<lparr>n_id := i, n_stable_id := fmt_stable_id i\<rparr>)"

lemma next_rowid_neq: "n \<in> set ns \<Longrightarrow> n_id n \<noteq> next_rowid (map n_id ns)"
  using next_rowid_fresh [of "map n_id ns"] by (metis image_eqI image_set)

lemma upsert_fresh:
  assumes "n_id n = 0" "n_stable_id n = []" "owner_known d n" "n_node_key n \<notin> n_node_key ` set (db_nodes d)"
    and "[] \<notin> n_stable_id ` set (db_nodes d)"
    and "fmt_stable_id (next_rowid (map n_id (db_nodes d))) \<notin> n_stable_id ` set (db_nodes d)"
  shows "db_upsert_node n d = (Inr (stored_row d n),
     d\<lparr>db_nodes := db_nodes d @ [stored_row d n], db_last_rowid := next_rowid (map n_id (db_nodes d))\<rparr>)"
proof -
  let ?i = "next_rowid (map n_id (db_nodes d))" and ?ns = "db_nodes d"
  have "\<not> stable_taken d n" using assms(2,5) by (auto simp: stable_taken_def)
  then have ins: "insert_node_row n d = (Inr (), d\<lparr>db_nodes := ?ns @ [n\<lparr>n_id := ?i\<rparr>], db_last_rowid := ?i\<rparr>)"
    using assms(3,4) by (simp only: insert_node_row_def if_False not_True_eq_False Let_def)
  have same: "map (\<lambda>r. if n_id r = ?i then r\<lparr>n_stable_id := s\<rparr> else r) ?ns = ?ns" for s
    by (rule map_idI) (use next_rowid_neq in auto)
  have free: "fmt_stable_id ?i \<notin> n_stable_id ` {r \<in> set (?ns @ [n\<lparr>n_id := ?i\<rparr>]). n_id r \<noteq> ?i}"
    using assms(6) by auto
  have "set_stable_id (fmt_stable_id ?i) ?i (d\<lparr>db_nodes := ?ns @ [n\<lparr>n_id := ?i\<rparr>], db_last_rowid := ?i\<rparr>)
     = (Inr (), d\<lparr>db_nodes := ?ns @ [n\<lparr>n_id := ?i, n_stable_id := fmt_stable_id ?i\<rparr>], db_last_rowid := ?i\<rparr>)"
    using free by (simp add: set_stable_id_def same)
  then show ?thesis using ins assms(1,2) by (simp add: db_upsert_node_def stored_row_def Let_def)
qed

lemma upsert_blocked:
  assumes "n_stable_id n = []" "r \<in> set (db_nodes d)" "n_stable_id r = []" "n_node_key r \<noteq> n_node_key n"
  shows "db_upsert_node n d = (Inl (Sqlite (UniqueFailed ''nodes.stable_id'')), d)"
proof -
  have "stable_taken d n" unfolding stable_taken_def using assms by (intro image_eqI [of _ _ r]) auto
  then show ?thesis by (simp add: db_upsert_node_def insert_node_row_def)
qed

text \<open>
  A row that is overwritten by a node with no id and no stable id keeps the empty stable id, unless the id of the last
  insertion happens to be its own.
\<close>

lemma upsert_over_row:
  assumes "r \<in> set (db_nodes d)" "n_node_key r = n_node_key n" "n_id n = 0" "n_stable_id n = []" "db_last_rowid d \<noteq> n_id r"
    and "db_upsert_node n d = (Inr x, d')"
  shows "\<exists>r' \<in> set (db_nodes d'). n_node_key r' = n_node_key n \<and> n_stable_id r' = []"
proof -
  obtain d1 where d1: "insert_node_row n d = (Inr (), d1)"
    using assms(6) by (cases "insert_node_row n d") (auto simp: db_upsert_node_def split: sum.splits)
  have "n_node_key n \<in> n_node_key ` set (db_nodes d)" using assms(1,2) by (metis imageI)
  then have d1_eq: "d1 = d\<lparr>db_nodes := map (\<lambda>r. if n_node_key r = n_node_key n then n\<lparr>n_id := n_id r\<rparr> else r) (db_nodes d)\<rparr>"
    using insert_node_row_Ok(3) [OF d1] by (simp only: if_True)
  then have row: "n\<lparr>n_id := n_id r\<rparr> \<in> set (db_nodes d1)" and last: "db_last_rowid d1 = db_last_rowid d"
    using assms(1,2) by (auto intro: image_eqI [of _ _ r])
  let ?i = "db_last_rowid d" and ?sid = "fmt_stable_id (db_last_rowid d)"
  have "d' = d1\<lparr>db_nodes := map (\<lambda>r. if n_id r = ?i then r\<lparr>n_stable_id := ?sid\<rparr> else r) (db_nodes d1)\<rparr>"
    using assms(3,4,6) d1 last by (auto simp: db_upsert_node_def set_stable_id_def Let_def split: if_splits)
  then have "set (db_nodes d') = (\<lambda>r. if n_id r = ?i then r\<lparr>n_stable_id := ?sid\<rparr> else r) ` set (db_nodes d1)" by simp
  moreover have "(\<lambda>r. if n_id r = ?i then r\<lparr>n_stable_id := ?sid\<rparr> else r) (n\<lparr>n_id := n_id r\<rparr>) = n\<lparr>n_id := n_id r\<rparr>"
    using assms(5) by simp
  ultimately have "n\<lparr>n_id := n_id r\<rparr> \<in> set (db_nodes d')" by (simp only: rev_image_eqI [OF row])
  then show ?thesis using assms(4) by (intro bexI [of _ "n\<lparr>n_id := n_id r\<rparr>"]) simp_all
qed

section \<open>Spending a key\<close>

lemma get_key_mark_used:
  assumes "db_get_pre_auth_key d pre = Some key"
  shows "fst (db_mark_pre_auth_key_used (k_id key) d) = Inr ()"
    and "db_get_pre_auth_key (snd (db_mark_pre_auth_key_used (k_id key) d)) pre = Some (key\<lparr>k_used := True\<rparr>)"
proof -
  have "find (\<lambda>k. k_prefix k = pre) (map (\<lambda>k. if k_id k = k_id key then k\<lparr>k_used := True\<rparr> else k) ks) = Some (key\<lparr>k_used := True\<rparr>)"
    if "find (\<lambda>k. k_prefix k = pre) ks = Some key" for ks :: "pre_auth_key list"
    using that by (induction ks) (auto split: if_splits)
  moreover have "k_id key \<in> k_id ` set (db_keys d)"
    using assms by (auto simp: db_get_pre_auth_key_def dest: find_SomeD)
  ultimately show "fst (db_mark_pre_auth_key_used (k_id key) d) = Inr ()"
    and "db_get_pre_auth_key (snd (db_mark_pre_auth_key_used (k_id key) d)) pre = Some (key\<lparr>k_used := True\<rparr>)"
    using assms by (auto simp: db_mark_pre_auth_key_used_def db_get_pre_auth_key_def)
qed

lemma spent_key_invalid:
  assumes "parse_auth_key (ra_auth_key auth) = Some (pre, secret)" "db_get_pre_auth_key d pre = Some key"
    "k_revoked key \<or> k_used key \<and> \<not> k_reusable key"
  shows "\<not> key_valid w d auth now key'"
  using assms by (auto simp: key_valid_def)

section \<open>Registering with a key\<close>

definition fresh_node :: "world \<Rightarrow> raw_key \<Rightarrow> register_request \<Rightarrow> pre_auth_key \<Rightarrow> control_config \<Rightarrow> u32 \<Rightarrow> u128 \<Rightarrow> node" where
  "fresh_node w mk req key c v4 v6 =
     \<lparr>n_id = 0, n_stable_id = [],
      n_name = (case rq_hostinfo req of Some h \<Rightarrow> if hi_hostname h = [] then ''node'' else hi_hostname h | None \<Rightarrow> ''node'')
        @ ''.'' @ cc_tailnet_domain c @ ''.'',
      n_user_id = (case k_tags key of Some (_ # _) \<Rightarrow> None | _ \<Rightarrow> Some (k_user_id key)),
      n_node_key = rq_node_key req, n_machine_key = mk, n_disco_key = replicate KEY_BYTES 0,
      n_addresses = addresses_of v4 v6, n_allowed_ips = Some (addresses_of v4 v6), n_endpoints = [], n_endpoint_types = [],
      n_home_derp = 1, n_hostinfo = rq_hostinfo req, n_created = now_rfc3339 w, n_cap = rq_version req,
      n_tags = k_tags key, n_advertised_routes = route_list (rq_hostinfo req), n_approved_routes = [],
      n_machine_authorized = True, n_ephemeral = k_ephemeral key, n_last_seen = Some (now_rfc3339 w), n_key_expiry = None\<rparr>"

definition can_join :: "world \<Rightarrow> register_request \<Rightarrow> pre_auth_key \<Rightarrow> u32 \<Rightarrow> u128 \<Rightarrow> plane \<Rightarrow> bool" where
  "can_join w req key v4 v6 p \<longleftrightarrow>
     (let c = pl_config p; d = pl_db p; ns = db_nodes d in
      rq_followup req = [] \<and> rq_expiry req = [] \<and> (k_tags key \<noteq> None \<or> requested_tags (rq_hostinfo req) = [])
      \<and> rq_node_key req \<notin> n_node_key ` set ns \<and> k_user_id key \<in> u_id ` set (db_users d)
      \<and> [] \<notin> n_stable_id ` set ns \<and> fmt_stable_id (next_rowid (map n_id ns)) \<notin> n_stable_id ` set ns
      \<and> allocate (ip_allocator_new (cc_ipv4_prefix c) (cc_ipv4_prefix_len c) (cc_ipv6_prefix c) (cc_ipv6_prefix_len c))
          (w_gen4 w) (w_gen6 w) (used_ipv4 (db_list_nodes d)) (used_ipv6 (db_list_nodes d)) = Inr (v4, v6))"

lemma create_fresh_node:
  "can_join w req key v4 v6 p \<Longrightarrow>
   create_node_from_request w mk req (k_user_id key) (k_tags key) (k_ephemeral key) (now_rfc3339 w) p
     = Some (Inr (fresh_node w mk req key (pl_config p) v4 v6), p)"
  by (simp add: create_node_from_request_def bind_op_def reads_db_def reads_def ret_def can_join_def fresh_node_def
      addresses_of_def Let_def)

lemma bind_reads_db: "bind_op (reads_db f) g p = g (f (pl_db p)) p"
  by (simp add: bind_op_def reads_db_def reads_def)

lemma store_op_Ok: "f (pl_db p) = (Inr x, d) \<Longrightarrow> store_op w f p = Some (Inr x, p\<lparr>pl_db := d\<rparr>)"
  by (simp add: store_op_def)

lemma db_keys_upsert:
  "db_upsert_node n d = (r, d') \<Longrightarrow> db_keys d' = db_keys d"
  by (auto simp: db_upsert_node_def insert_node_row_def set_stable_id_def Let_def split: if_splits)

lemma register_with_fresh_key:
  assumes "can_join w req key v4 v6 p"
  shows "\<exists>q. register_with_key w mk req (now_rfc3339 w) key p
       = bind_op (consume_key w key) (\<lambda>_. authorized_response) q
     \<and> db_nodes (pl_db q) = db_nodes (pl_db p) @ [stored_row (pl_db p) (fresh_node w mk req key (pl_config p) v4 v6)]
     \<and> db_keys (pl_db q) = db_keys (pl_db p) \<and> pl_config q = pl_config p"
proof -
  let ?n = "fresh_node w mk req key (pl_config p) v4 v6" and ?d = "pl_db p"
  have "owner_known ?d ?n"
    using assms by (auto simp: can_join_def owner_known_def fresh_node_def Let_def split: option.splits list.splits)
  then have "db_upsert_node ?n ?d = (Inr (stored_row ?d ?n),
      ?d\<lparr>db_nodes := db_nodes ?d @ [stored_row ?d ?n], db_last_rowid := next_rowid (map n_id (db_nodes ?d))\<rparr>)"
    by (intro upsert_fresh) (use assms in \<open>simp_all add: fresh_node_def can_join_def Let_def\<close>)
  note up = store_op_Ok [of "db_upsert_node ?n" p, OF this, of w]
  have "\<not> (k_tags key = None \<and> requested_tags (rq_hostinfo req) \<noteq> [])" using assms by (auto simp: can_join_def Let_def)
  then have "register_with_key w mk req (now_rfc3339 w) key p
      = bind_op (upsert_and_publish w ?n) (\<lambda>_. bind_op (consume_key w key) (\<lambda>_. authorized_response)) p"
    using create_fresh_node [OF assms, of mk]
    by (simp only: register_with_key_def if_False) (simp add: bind_op_def [of "create_node_from_request _ _ _ _ _ _ _"])
  moreover obtain q where "upsert_and_publish w ?n p = Some (Inr (), q)" "pl_config q = pl_config p"
      "pl_db q = ?d\<lparr>db_nodes := db_nodes ?d @ [stored_row ?d ?n], db_last_rowid := next_rowid (map n_id (db_nodes ?d))\<rparr>"
    using up by (simp add: upsert_and_publish_def bind_op_def publish_change_def updates_def)
  ultimately show ?thesis by (intro exI [of _ q]) (simp add: bind_op_def [of "upsert_and_publish w ?n"])
qed

lemma find_append_fresh: "find P (xs @ [x]) = (case find P xs of Some y \<Rightarrow> Some y | None \<Rightarrow> if P x then Some x else None)"
  by (induction xs) auto

lemma register_fresh_key:
  assumes prep: "prepare w p = Some (Inr (), p1)" and auth: "rq_auth req = Some auth"
    and key: "key_valid w (pl_db p1) auth (now_rfc3339 w) key" and join: "can_join w req key v4 v6 p1"
  shows "\<exists>response q. register w mk req p = Some (response, q) \<and> rr_machine_authorized response
     \<and> db_nodes (pl_db q) = db_nodes (pl_db p1) @ [stored_row (pl_db p1) (fresh_node w mk req key (pl_config p1) v4 v6)]
     \<and> (\<forall>w' now key'. \<not> k_reusable key \<longrightarrow> \<not> key_valid w' (pl_db q) auth now key')"
proof -
  let ?now = "now_rfc3339 w"
  obtain pre secret where pre: "parse_auth_key (ra_auth_key auth) = Some (pre, secret)" "db_get_pre_auth_key (pl_db p1) pre = Some key"
    using key by (auto simp: key_valid_def)
  have v: "validated_auth_key w auth ?now p1 = Some (Inr (Some key), p1)"
    using validated_auth_key_result [of w auth ?now p1 key] key by auto
  have none: "db_get_node_by_node_key (pl_db p1) (rq_node_key req) = None"
    using join unfolding can_join_def db_get_node_by_node_key_def find_None_iff Let_def by (metis imageI)
  have "rq_followup req = []" "rq_expiry req = []" using join by (simp_all add: can_join_def Let_def)
  then have tr: "try_register w mk req p = register_with_key w mk req ?now key p1"
    using prep auth v none
    by (auto simp: try_register_def prepare_def register_new_def bind_op_def reads_db_def reads_def Let_def split: option.splits sum.splits)
  obtain q where q: "register_with_key w mk req ?now key p1 = bind_op (consume_key w key) (\<lambda>_. authorized_response) q"
      "db_nodes (pl_db q) = db_nodes (pl_db p1) @ [stored_row (pl_db p1) (fresh_node w mk req key (pl_config p1) v4 v6)]"
      "db_keys (pl_db q) = db_keys (pl_db p1)"
    using register_with_fresh_key [OF join] by blast
  then have get: "db_get_pre_auth_key (pl_db q) pre = Some key" using pre(2) by (simp add: db_get_pre_auth_key_def)
  show ?thesis
  proof (cases "k_reusable key")
    case True
    then show ?thesis using tr q(1,2)
      by (simp add: register_def consume_key_def bind_op_def ret_def authorized_response_def reads_def)
  next
    case False
    let ?d = "snd (db_mark_pre_auth_key_used (k_id key) (pl_db q))"
    have "db_mark_pre_auth_key_used (k_id key) (pl_db q) = (Inr (), ?d)"
      using get_key_mark_used(1) [OF get] by (simp add: prod_eq_iff)
    then have c: "consume_key w key q = Some (Inr (), q\<lparr>pl_db := ?d\<rparr>)"
      using False store_op_Ok by (simp add: consume_key_def)
    have "\<not> key_valid w' ?d auth now key'" for w' now key'
      using spent_key_invalid [OF pre(1) get_key_mark_used(2) [OF get]] False by simp
    then show ?thesis using tr q(1,2) c
      by (simp add: register_def bind_op_def authorized_response_def reads_def)
  qed
qed

section \<open>What registration authorizes\<close>

text \<open>
  C1. Authorization is never invented: when a register request leaves a node authorized for a machine that was not
  authorized for it before, then that machine is the one that made the request, and either the request carried a
  valid pre-auth key (known, verified, not revoked, not expired, not already consumed) for its own node key, or its
  followup names a registration that this very machine started, that has not expired, and that was approved. The
  evidence is looked up after the default user and the configured bootstrap key have been seeded.
\<close>

theorem register_authorizes_only:
  assumes "draws_in_range w" "register w mk req p = Some (response, q)"
    and "authd (pl_db q) k m" "\<not> authd (pl_db p) k m"
  shows "m = mk \<and> (\<exists>p1. prepare w p = Some (Inr (), p1) \<and>
     (if rq_followup req = []
      then k = rq_node_key req \<and> (\<exists>auth key. rq_auth req = Some auth \<and> key_valid w (pl_db p1) auth (now_rfc3339 w) key)
      else \<exists>e. approved_entry w (pl_db p1) mk (rq_followup req) (now_rfc3339 w) e \<and> pr_node_key e = k))"
proof -
  obtain r where "try_register w mk req p = Some (r, q)" using assms(2) by (auto simp: register_def)
  from safe_try_register [OF assms(1) this] assms(3,4)
  obtain p1 where p1: "prepare w p = Some (Inr (), p1)" "(k, m) \<in> granted w mk req (pl_db p1)"
    using safe_authd by blast
  then show ?thesis by (auto simp: granted_def split: if_splits)
qed

lemma sample_can_join: "can_join sample_world sample_request sample_key (DEFAULT_IPV4_PREFIX + 1) (DEFAULT_IPV6_PREFIX + 1) sample_ready"
proof -
  have "used_ipv4 [] = {}" "used_ipv6 [] = {}" by (simp_all add: used_ipv4_def used_ipv6_def)
  moreover have "k_user_id sample_key \<in> u_id ` set (db_users sample_db)"
    by (simp add: sample_db_def sample_user_def sample_key_def new_key_def as_i64_def control_config_default_def)
  moreover have "cc_ipv4_prefix control_config_default = DEFAULT_IPV4_PREFIX" "cc_ipv6_prefix control_config_default = DEFAULT_IPV6_PREFIX"
    "cc_ipv4_prefix_len control_config_default = DEFAULT_IPV4_PREFIX_LEN" "cc_ipv6_prefix_len control_config_default = DEFAULT_IPV6_PREFIX_LEN"
    by (simp_all add: control_config_default_def)
  ultimately show ?thesis
    using sample_allocate
    by (simp add: can_join_def sample_request_def register_request_default_def requested_tags_def Let_def)
qed

lemma sample_auth: "rq_auth sample_request = Some \<lparr>ra_auth_key = ''hskey-auth-test-secret''\<rparr>"
  by (simp add: sample_request_def)

lemma sample_register:
  "\<exists>response q. register sample_world [1] sample_request sample_plane = Some (response, q)
     \<and> authd (pl_db q) (rq_node_key sample_request) [1] \<and> \<not> authd (pl_db sample_plane) (rq_node_key sample_request) [1]"
proof -
  obtain response q where "register sample_world [1] sample_request sample_plane = Some (response, q)"
    "db_nodes (pl_db q) = [stored_row sample_db (fresh_node sample_world [1] sample_request sample_key control_config_default
       (DEFAULT_IPV4_PREFIX + 1) (DEFAULT_IPV6_PREFIX + 1))]"
    using register_fresh_key [OF sample_prepared sample_auth _ sample_can_join, of "[1]"] sample_key_valid by auto
  then show ?thesis by (auto simp: authd_def stored_row_def fresh_node_def Let_def)
qed

theorem register_authorizes_only_witness:
  "\<exists>p1 auth key. prepare sample_world sample_plane = Some (Inr (), p1) \<and> rq_auth sample_request = Some auth
     \<and> key_valid sample_world (pl_db p1) auth (now_rfc3339 sample_world) key"
proof -
  obtain response q where "register sample_world [1] sample_request sample_plane = Some (response, q)"
    "authd (pl_db q) (rq_node_key sample_request) [1]" "\<not> authd (pl_db sample_plane) (rq_node_key sample_request) [1]"
    using sample_register by blast
  from register_authorizes_only [OF sample_draws this] show ?thesis
    by (auto simp: sample_request_def register_request_default_def)
qed

text \<open>
  C14. A valid pre-auth key admits a node. Suppose the default user and the bootstrap key are in place, the request
  names no followup and no expiry, carries a key that is valid at that time, requests no tags unless the key has
  tags, and has a node key the store does not have; and suppose the owner of the key is a known user, the allocator
  finds a pair of addresses, no row has an empty stable id and none has the stable id the next row gets
  (\<^const>\<open>can_join\<close>). Then the request is answered as authorized; exactly one row is
  added, holding the requested key, the caller's machine key, the tags and the owner of the key and the allocated
  addresses, under the next id and the stable id made from it; and a key that is not reusable is never valid again.
\<close>

theorem valid_key_admits:
  assumes "prepare w p = Some (Inr (), p1)" "rq_auth req = Some auth" "key_valid w (pl_db p1) auth (now_rfc3339 w) key"
    "can_join w req key v4 v6 p1"
  shows "\<exists>response q row. register w mk req p = Some (response, q) \<and> rr_machine_authorized response
     \<and> db_nodes (pl_db q) = db_nodes (pl_db p1) @ [row]
     \<and> n_node_key row = rq_node_key req \<and> n_machine_key row = mk \<and> n_machine_authorized row
     \<and> n_tags row = k_tags key \<and> n_user_id row = (case k_tags key of Some (_ # _) \<Rightarrow> None | _ \<Rightarrow> Some (k_user_id key))
     \<and> n_addresses row = addresses_of v4 v6 \<and> n_id row = next_rowid (map n_id (db_nodes (pl_db p1)))
     \<and> n_stable_id row = fmt_stable_id (n_id row)
     \<and> (\<forall>w' now key'. \<not> k_reusable key \<longrightarrow> \<not> key_valid w' (pl_db q) auth now key')"
proof -
  obtain response q where "register w mk req p = Some (response, q)" "rr_machine_authorized response"
    "db_nodes (pl_db q) = db_nodes (pl_db p1) @ [stored_row (pl_db p1) (fresh_node w mk req key (pl_config p1) v4 v6)]"
    "\<forall>w' now key'. \<not> k_reusable key \<longrightarrow> \<not> key_valid w' (pl_db q) auth now key'"
    using register_fresh_key [OF assms] by blast
  then show ?thesis
    by (intro exI [of _ response] exI [of _ q] exI [of _ "stored_row (pl_db p1) (fresh_node w mk req key (pl_config p1) v4 v6)"])
      (simp add: stored_row_def fresh_node_def Let_def)
qed

theorem valid_key_admits_witness:
  "\<exists>response q row. register sample_world [1] sample_request sample_plane = Some (response, q)
     \<and> rr_machine_authorized response \<and> db_nodes (pl_db q) = [row] \<and> n_id row = 1 \<and> n_machine_key row = [1]"
proof -
  obtain response q row where "register sample_world [1] sample_request sample_plane = Some (response, q)"
    "rr_machine_authorized response" "db_nodes (pl_db q) = db_nodes (pl_db sample_ready) @ [row]" "n_machine_key row = [1]"
    "n_id row = next_rowid (map n_id (db_nodes (pl_db sample_ready)))"
    using valid_key_admits [OF sample_prepared sample_auth _ sample_can_join, of "[1]"] sample_key_valid by auto
  then show ?thesis by (auto simp: next_rowid_def)
qed

section \<open>A store that refuses fresh nodes\<close>

text \<open>
  Completing an approved registration for a node key that is already stored but not authorized (a node that logged
  out) empties the stable id of its row, unless the id of the last insertion happens to be the id of that row. From
  then on the store refuses every node that it does not have yet, since fresh nodes are inserted with an empty stable id.
\<close>

theorem reapproval_blocks_fresh_nodes:
  assumes "draws_in_range w" "finish_approved w mk entry u tags now p = Some (Inr response, q)"
    and "db_get_node_by_node_key (pl_db p) (pr_node_key entry) = Some r" "\<not> n_machine_authorized r"
    and "db_last_rowid (pl_db p) \<noteq> n_id r"
    and "n_stable_id x = []" "n_node_key x \<noteq> pr_node_key entry"
  shows "rr_machine_authorized response
     \<and> db_upsert_node x (pl_db q) = (Inl (Sqlite (UniqueFailed ''nodes.stable_id'')), pl_db q)"
proof -
  let ?req = "register_request_default\<lparr>rq_version := pr_version entry, rq_node_key := pr_node_key entry,
    rq_expiry := pr_expiry entry, rq_hostinfo := pr_hostinfo entry, rq_ephemeral := pr_ephemeral entry\<rparr>"
  have "bind_op (create_node_from_request w mk ?req u tags (pr_ephemeral entry) now)
      (\<lambda>n. bind_op (upsert_and_publish w n) (\<lambda>_. authorized_response)) p = Some (Inr response, q)"
    using assms(2,3,4) by (simp add: finish_approved_def bind_reads_db Let_def)
  then obtain n p1 p2 where c: "create_node_from_request w mk ?req u tags (pr_ephemeral entry) now p = Some (Inr n, p1)"
      and up: "upsert_and_publish w n p1 = Some (Inr (), p2)" and resp: "authorized_response p2 = Some (Inr response, q)"
    unfolding bind_op_Some by auto
  note n = create_node_fits(1,2,5) [OF assms(1) c]
  from up obtain y d where y: "db_upsert_node n (pl_db p) = (Inr y, d)" and q: "pl_db q = d"
    using n(1) resp by (auto simp: upsert_and_publish_def bind_op_Some store_op_def publish_change_def updates_def
        authorized_response_def reads_def split: prod.splits sum.splits)
  have r: "r \<in> set (db_nodes (pl_db p))" "n_node_key r = pr_node_key entry" using found_node [OF assms(3)] by auto
  obtain r' where "r' \<in> set (db_nodes (pl_db q))" "n_node_key r' = pr_node_key entry" "n_stable_id r' = []"
    using upsert_over_row [OF r(1) _ _ _ assms(5) y] n r(2) q by auto
  then have "db_upsert_node x (pl_db q) = (Inl (Sqlite (UniqueFailed ''nodes.stable_id'')), pl_db q)"
    using assms(6,7) by (intro upsert_blocked) auto
  moreover have "rr_machine_authorized response" using resp by (auto simp: authorized_response_def reads_def)
  ultimately show ?thesis by blast
qed

end
