(* ===== verification/Control_Reach.thy ===== *)
theory Control_Reach
  imports Control_Keys
begin

text \<open>
  Runs of the control plane: the commands its callers can issue, in any order and each in a world of its own, and the
  invariant that every plane reached this way satisfies.
\<close>

section \<open>The remaining operations\<close>

lemma apply_request_keeps:
  "n_addresses (apply_request w request n) = n_addresses n" "n_node_key (apply_request w request n) = n_node_key n"
  "n_machine_key (apply_request w request n) = n_machine_key n"
  "n_machine_authorized (apply_request w request n) = n_machine_authorized n"
  "n_id (apply_request w request n) = n_id n"
  by (simp_all add: apply_request_def Let_def split: option.split)

definition retag :: "world \<Rightarrow> map_request \<Rightarrow> node \<Rightarrow> node plane_op" where
  "retag w request node =
     (if \<not> (mq_stream request \<and> streaming_read_only (mq_version request)) \<and> mq_hostinfo request \<noteq> None
      then bind_op (node_owner_login node) (\<lambda>owner.
        bind_op (apply_request_tags w node owner (requested_tags (mq_hostinfo request))) (\<lambda>(_, node). ret node))
      else ret node)"

definition serve_map :: "world \<Rightarrow> map_request \<Rightarrow> node \<Rightarrow> node \<Rightarrow> map_outcome plane_op" where
  "serve_map w request before node =
     bind_op (if node \<noteq> before then publish_change (NodeChanged (n_id node)) else ret ()) (\<lambda>_.
     bind_op (publish_change (PeerSeen (n_id node))) (\<lambda>_.
     if \<not> mq_stream request \<and> mq_omit_peers request \<and> \<not> mq_read_only request then ret LiteUpdate
     else respond_map w node request))"

lemma handle_map_eq:
  "handle_map w machine_key request =
     (if mq_version request < MIN_SUPPORTED_CAPVER then throw (UnsupportedVersion (mq_version request))
      else if length (mq_endpoint_types request) \<noteq> length (mq_endpoints request) then throw InvalidEndpointTypes
      else
        bind_op (reads_db (\<lambda>d. db_get_node_by_node_key d (mq_node_key request))) (\<lambda>found.
          case found of
            None \<Rightarrow> throw NotFound
          | Some before \<Rightarrow>
              if n_machine_key before \<noteq> machine_key then throw NotFound
              else bind_op (retag w request (apply_request w request before)) (\<lambda>node.
                bind_op (store_op w (db_upsert_node node)) (\<lambda>_. serve_map w request before node))))"
  by (simp only: handle_map_def retag_def serve_map_def Let_def)

lemma quiet_retag: "steps quiet (retag w request node)"
  unfolding retag_def by (intro quiet_prims quiet_node_owner_login quiet_apply_request_tags)

lemma quiet_serve_map: "steps quiet (serve_map w request before node)"
  unfolding serve_map_def by (intro quiet_prims quiet_respond_map)

lemma retag_keeps:
  assumes "retag w request node p = Some (Inr n, q)"
  shows "n_addresses n = n_addresses node \<and> n_node_key n = n_node_key node \<and> n_machine_key n = n_machine_key node
    \<and> n_machine_authorized n = n_machine_authorized node \<and> n_id n = n_id node"
  using assms apply_request_tags_node
  by (fastforce simp: retag_def bind_op_Some ret_def split: if_splits)

lemma safe_handle_map: "steps (safe S) (handle_map w mk request)"
proof (rule stepsI)
  fix p
  have "step_at (safe S) p (bind_op (retag w request (apply_request w request before)) (\<lambda>node.
      bind_op (store_op w (db_upsert_node node)) (\<lambda>_. serve_map w request before node)))"
    if b: "db_get_node_by_node_key (pl_db p) (mq_node_key request) = Some before" for before
  proof (rule sf.at_bind)
    show "step_at (safe S) p (retag w request (apply_request w request before))" using quiet_retag by (rule at_quiet_safe)
    fix n q assume r: "retag w request (apply_request w request before) p = Some (Inr n, q)"
    then have "before \<in> set (db_nodes (pl_db q))" using found_node [OF b] quiet_nodes [OF quiet_retag r] by simp
    then have "step_at (safe S) q (store_op w (db_upsert_node n))"
      by (rule safe_update) (use retag_keeps [OF r] in \<open>simp_all add: apply_request_keeps\<close>)
    then show "step_at (safe S) q (bind_op (store_op w (db_upsert_node n)) (\<lambda>_. serve_map w request before n))"
      by (rule safe_then_quiet) (rule quiet_serve_map)
  qed
  then show "step_at (safe S) p (handle_map w mk request)"
    unfolding handle_map_eq by (auto split: option.split intro: sf.at_throw)
qed

lemma safe_reap_event: "steps (safe S) (reap_event ev)"
  unfolding reap_event_def
  by (intro sf.composed safe_delete stepsI [OF at_quiet_safe, OF quiet_publish])

lemma safe_reap_events: "steps (safe S) (reap_events evs)"
  by (induction evs) (auto intro: sf.composed safe_reap_event)

lemma safe_reap_sessions:
  assumes "walks_all (Tick order now) (pl_sessions p)"
  shows "step_at (safe S) p (reap_sessions_at order now)"
proof -
  have "registry_inv (pl_sessions p) \<Longrightarrow> registry_inv (snd (session_tick order now (pl_sessions p)))"
    using registry_inv_tick [OF _ assms] by (metis prod.collapse)
  then have "step_at (safe S) p (updates (\<lambda>p. p\<lparr>pl_sessions := snd (session_tick order now (pl_sessions p))\<rparr>))"
    by (auto simp: step_at_def updates_def safe_def plane_inv_def base_ok_def)
  then show ?thesis
    unfolding reap_sessions_at_def
    by (auto intro!: sf.at_bind sf.at_reads sf.at_ret stepsD [OF safe_reap_events])
qed

text \<open>What other processes do to the store between two polls keeps its schema and the addresses of the nodes.\<close>

definition well_behaved :: "control_config \<Rightarrow> (db \<Rightarrow> db) \<Rightarrow> bool" where
  "well_behaved c f \<longleftrightarrow> (\<forall>d. db_ok d \<and> addrs_ok c (db_nodes d) \<longrightarrow> db_ok (f d) \<and> addrs_ok c (db_nodes (f d)))"

lemma safe_others: "well_behaved (pl_config p) f \<Longrightarrow> step_at (safe UNIV) p (updates_db f)"
  by (auto simp: step_at_def updates_db_def updates_def safe_def plane_inv_def base_ok_def well_behaved_def)

lemma safe_wait_ssh_verdict:
  "list_all (well_behaved (pl_config p) \<circ> snd) rounds \<Longrightarrow> step_at (safe UNIV) p (wait_ssh_verdict a rounds)"
proof (induction rounds arbitrary: p)
  case (Cons r rounds)
  obtain w f where r: "r = (w, f)" by (cases r)
  show ?case
    unfolding r wait_ssh_verdict.simps
  proof (rule sf.at_bind)
    show "step_at (safe UNIV) p (updates_db f)" using Cons.prems r by (simp add: safe_others)
    fix x q assume "safe UNIV p q"
    then have "pl_config q = pl_config p" by (simp add: safe_def)
    then have "step_at (safe UNIV) q (wait_ssh_verdict a rounds)" using Cons by simp
    moreover have "step_at (safe UNIV) q (bind_op (updates_db (db_delete_ssh_auth a)) (\<lambda>_. throw NotFound))"
      by (rule at_quiet_safe) (intro quiet_prims)
    ultimately show "step_at (safe UNIV) q (bind_op (reads_db (\<lambda>d. db_get_ssh_auth d a)) (\<lambda>found. case found of
        None \<Rightarrow> throw NotFound
      | Some entry \<Rightarrow> if is_past w (sh_expires_at entry) (now_rfc3339 w)
          then bind_op (updates_db (db_delete_ssh_auth a)) (\<lambda>_. throw NotFound)
          else if \<not> is_pending (sh_verdict entry) then ret (sh_verdict entry) else wait_ssh_verdict a rounds))"
      by (auto intro: sf.at_throw sf.at_ret split: option.split)
  qed
qed (simp add: sf.at_throw)

lemma safe_handle_ssh_action:
  assumes "list_all (well_behaved (pl_config p) \<circ> snd) rounds"
  shows "step_at (safe UNIV) p (handle_ssh_action w mk src dst a su lu rounds)"
proof -
  have v: "steps quiet (verdict_action v)" for v
    unfolding verdict_action_def by (intro quiet_prims)
  have "step_at (safe UNIV) p (bind_op (wait_ssh_verdict i rounds) verdict_action)" for i
    using safe_wait_ssh_verdict [OF assms] v by (rule safe_then_quiet)
  moreover have "step_at (safe UNIV) p (bind_op (updates_db (db_delete_ssh_auth i)) (\<lambda>_. throw e))" for i e
    by (rule at_quiet_safe) (intro quiet_prims)
  moreover have "step_at (safe UNIV) p (respond_ssh_initial w mk src dst su lu)"
    using quiet_respond_ssh_initial by (rule at_quiet_safe)
  ultimately show ?thesis
    unfolding handle_ssh_action_def respond_ssh_followup_def
    by (auto intro: sf.at_throw at_quiet_safe [OF v] split: option.split ssh_verdict.split)
qed

section \<open>Commands\<close>

datatype command =
    CRegister raw_key register_request
  | CLogout raw_key raw_key
  | CApprovePending string string
  | CRejectPending string
  | CPendingInfo string
  | COidcUser oidc_profile
  | CCreateKey string bool bool "string option" "string list option"
  | CRevokeKey string
  | CApproveRoute raw_key string
  | CDisapproveRoute raw_key string
  | CMap raw_key map_request
  | CDelta int change_batch session_peers nat
  | COpenSession int bool
  | CCloseSession int
  | CReap "int list" int
  | CReloadDns extra_json
  | CSetDerp derp_map
  | CFlush
  | CSshAction raw_key nat nat "string option" string string "poll list"
  | CSettleSsh string ssh_verdict
  | CSshInfo string

definition after :: "'a plane_op \<Rightarrow> plane \<Rightarrow> plane option" where
  "after m p = map_option snd (m p)"

fun run_command :: "world \<Rightarrow> command \<Rightarrow> plane \<Rightarrow> plane option" where
  "run_command w (CRegister mk req) p = map_option snd (register w mk req p)"
| "run_command w (CLogout mk k) p = after (logout w mk k) p"
| "run_command w (CApprovePending a name) p = after (approve_pending w a name) p"
| "run_command w (CRejectPending a) p = after (reject_pending w a) p"
| "run_command w (CPendingInfo a) p = after (pending_info w a) p"
| "run_command w (COidcUser profile) p = after (upsert_oidc_user w profile) p"
| "run_command w (CCreateKey pre reusable eph expiration tags) p = after (create_pre_auth_key w pre reusable eph expiration tags) p"
| "run_command w (CRevokeKey pre) p = after (plane_revoke_pre_auth_key w pre) p"
| "run_command w (CApproveRoute k route) p = after (approve_route w k route) p"
| "run_command w (CDisapproveRoute k route) p = after (disapprove_route w k route) p"
| "run_command w (CMap mk request) p = after (handle_map w mk request) p"
| "run_command w (CDelta n batch last_sent v) p = after (build_delta n batch last_sent v) p"
| "run_command w (COpenSession n eph) p = after (open_session w n eph) p"
| "run_command w (CCloseSession s) p = after (close_session w s) p"
| "run_command w (CReap order now) p = after (reap_sessions_at order now) p"
| "run_command w (CReloadDns from_slice) p = after (reload_dns_extra_records w from_slice) p"
| "run_command w (CSetDerp m) p = after (set_derp_map m) p"
| "run_command w CFlush p = after plane_flush_changes p"
| "run_command w (CSshAction mk src dst a su lu rounds) p = after (handle_ssh_action w mk src dst a su lu rounds) p"
| "run_command w (CSettleSsh a v) p = after (settle_ssh w a v) p"
| "run_command w (CSshInfo a) p = after (ssh_auth_info w a) p"

text \<open>The reaper walks every session entry, in some order; other processes keep the schema of the store.\<close>

fun command_ok :: "command \<Rightarrow> plane \<Rightarrow> bool" where
  "command_ok (CReap order now) p \<longleftrightarrow> walks_all (Tick order now) (pl_sessions p)"
| "command_ok (CSshAction mk src dst a su lu rounds) p \<longleftrightarrow> list_all (well_behaved (pl_config p) \<circ> snd) rounds"
| "command_ok _ p \<longleftrightarrow> True"

inductive reachable :: "control_config \<Rightarrow> plane \<Rightarrow> bool" for c where
  start: "reachable c (plane_with_store w from_slice c db_empty)"
| step: "reachable c p \<Longrightarrow> draws_in_range w \<Longrightarrow> command_ok cmd p \<Longrightarrow> run_command w cmd p = Some q \<Longrightarrow> reachable c q"

lemma after_safe: "step_at (safe S) p m \<Longrightarrow> after m p = Some q \<Longrightarrow> safe S p q"
  by (auto simp: after_def step_at_def)

lemma after_quiet: "steps quiet m \<Longrightarrow> after m p = Some q \<Longrightarrow> safe S p q"
  by (rule after_safe [OF at_quiet_safe])

lemma quiet_flush: "steps quiet plane_flush_changes"
  unfolding plane_flush_changes_def by (rule steps_updates) (simp add: quiet_def base_ok_def)

lemma safe_mono: "safe S p q \<Longrightarrow> S \<subseteq> T \<Longrightarrow> safe T p q"
  by (auto simp: safe_def)

lemma safe_register: "draws_in_range w \<Longrightarrow> register w mk req p = Some (response, q) \<Longrightarrow> safe UNIV p q"
  using safe_try_register [of w mk req p] sf.trans [of UNIV] safe_mono [of _ _ _ UNIV]
  by (fastforce simp: register_def)

lemma run_command_safe:
  assumes "run_command w cmd p = Some q" "draws_in_range w" "command_ok cmd p"
  shows "safe UNIV p q"
proof (cases cmd)
  case (CRegister mk req)
  then show ?thesis using assms safe_register by auto
next
  case (CReap order now)
  then show ?thesis using assms after_safe [OF safe_reap_sessions] by simp
qed (use assms in \<open>auto intro: after_safe [OF stepsD] after_safe after_quiet safe_logout safe_approve_route safe_disapprove_route
    safe_handle_map safe_handle_ssh_action quiet_approve_pending quiet_reject_pending quiet_pending_info
    quiet_upsert_oidc_user quiet_create_pre_auth_key quiet_revoke quiet_build_delta quiet_sessions quiet_dns quiet_flush
    quiet_settle_ssh quiet_ssh_auth_info\<close>)

lemma start_ok: "plane_inv (plane_with_store w from_slice c db_empty) \<and> pl_config (plane_with_store w from_slice c db_empty) = c"
proof -
  let ?p = "\<lparr>pl_config = c, pl_db = db_empty, pl_pending = pending_cache_new (cc_pending_cache_limit c),
     pl_sessions = session_registry_new (cc_reconnect_grace_seconds c), pl_reaper_started = False,
     pl_dns = dns_state_new [], pl_derp = derp_map_state_new (cc_derp_map c),
     pl_events = change_bus_new (cc_change_batch_window c) (cc_change_batch_max c), pl_ssh_waiters = []\<rparr>"
  have "plane_inv ?p"
    by (simp add: plane_inv_def base_ok_def db_ok_empty cache_inv_def pending_cache_new_def registry_inv_new addrs_ok_def)
  moreover have "safe UNIV ?p q" if "reload_dns_extra_records w from_slice ?p = Some (r, q)" for r q
    using steps_elim [OF quiet_dns(2) that] by (rule quiet_safe)
  ultimately show ?thesis
    by (auto simp: plane_with_store_def Let_def safe_def split: option.split)
qed

lemma reachable_inv: "reachable c p \<Longrightarrow> plane_inv p \<and> pl_config p = c"
proof (induction rule: reachable.induct)
  case (start w from_slice)
  show ?case by (rule start_ok)
next
  case (step p w cmd q)
  then show ?case using run_command_safe [of w cmd p q] by (simp add: safe_def)
qed

text \<open>
  C2. The state invariant. In every plane that a sequence of commands reaches from an empty store (registrations,
  logouts, approvals, key and route administration, map requests, sessions opening, closing and being reaped, DNS and
  relay map changes, SSH checks with other processes writing the same store), two stored nodes never share an id, a
  stable id, a node key or an address, and every node has exactly one IPv4 and one IPv6 address, each a host address
  of the configured prefix; the owners of nodes and keys exist; the pending cache and the session registry are well
  formed; and the configuration is the one the plane was started with.
\<close>

theorem reachable_plane_invariant:
  assumes "reachable c p"
  shows "pl_config p = c \<and> db_ok (pl_db p) \<and> cache_inv (pl_pending p) \<and> registry_inv (pl_sessions p)
     \<and> (\<forall>n \<in> set (db_nodes (pl_db p)). \<exists>v4 v6. n_addresses n = addresses_of v4 v6 \<and> in_prefixes c v4 v6)
     \<and> (\<forall>m \<in> set (db_nodes (pl_db p)). \<forall>n \<in> set (db_nodes (pl_db p)). m \<noteq> n \<longrightarrow>
          n_id m \<noteq> n_id n \<and> n_stable_id m \<noteq> n_stable_id n \<and> n_node_key m \<noteq> n_node_key n
          \<and> set (n_addresses m) \<inter> set (n_addresses n) = {})"
proof -
  have inv: "plane_inv p" "pl_config p = c" using reachable_inv [OF assms] by auto
  have "n_id m \<noteq> n_id n \<and> n_stable_id m \<noteq> n_stable_id n \<and> n_node_key m \<noteq> n_node_key n"
    if "m \<in> set (db_nodes (pl_db p))" "n \<in> set (db_nodes (pl_db p))" "m \<noteq> n" for m n
    using inv(1) that unfolding plane_inv_def base_ok_def db_ok_def nodes_ok_def distinct_map inj_on_def by blast
  moreover have "apart m n" if "m \<in> set (db_nodes (pl_db p))" "n \<in> set (db_nodes (pl_db p))" for m n
    using inv(1) that by (simp add: plane_inv_def addrs_ok_def)
  moreover have "\<forall>n \<in> set (db_nodes (pl_db p)). addressed c n" using inv by (simp add: plane_inv_def addrs_ok_def)
  ultimately show ?thesis
    using inv unfolding plane_inv_def base_ok_def apart_def addressed_def by blast
qed

theorem reachable_plane_invariant_witness:
  "\<exists>q n. reachable control_config_default q \<and> db_nodes (pl_db q) = [n]
     \<and> (\<exists>v4 v6. n_addresses n = addresses_of v4 v6 \<and> in_prefixes control_config_default v4 v6)"
proof -
  obtain response q n where q: "register sample_world [1] sample_request sample_plane = Some (response, q)" "db_nodes (pl_db q) = [n]"
    using register_fresh_key [OF sample_prepared sample_auth _ sample_can_join, of "[1]"] sample_key_valid by auto
  have "reachable control_config_default sample_plane" unfolding sample_plane_def by (rule reachable.start)
  then have "reachable control_config_default q"
    by (rule reachable.step [OF _ sample_draws, where cmd = "CRegister [1] sample_request"]) (simp_all add: q(1))
  then show ?thesis using reachable_plane_invariant [of control_config_default q] q(2) by auto
qed

end
