(* ===== verification/Control_Peers.thy ===== *)
theory Control_Peers
  imports Control_Reach
begin

text \<open>
  What a client is told: the complete map against the compiled policy, and how map requests fail.
\<close>

section \<open>Operations that only read\<close>

interpretation rd: step_relation "(=)"
  by unfold_locales auto

lemma steps_eq: "steps (=) m \<Longrightarrow> m p = Some (r, q) \<Longrightarrow> q = p"
  using steps_elim by metis

lemma reads_routes: "steps (=) (effective_approved_routes node)" "steps (=) compile_nodes" "steps (=) (is_node_online n)"
  unfolding effective_approved_routes_def compile_nodes_def is_node_online_def by (intro rd.composed)+

lemma reads_dns: "steps (=) build_dns_config"
  unfolding build_dns_config_def by (intro rd.composed)

lemma reads_peer_nodes: "steps (=) (peer_nodes v ns)"
  by (induction ns) (auto simp: peer_node_def intro!: rd.composed reads_routes)

lemma reads_self_cap_map: "steps (=) (self_cap_map pol node nodes wire)"
  unfolding self_cap_map_def by (intro rd.composed)

lemma reads_build_initial_map: "steps (=) (build_initial_map node request)"
  unfolding build_initial_map_def by (intro rd.composed reads_routes reads_self_cap_map reads_peer_nodes reads_dns)

lemma reads_apply_request_tags:
  "n_user_id node = None \<longrightarrow> owner = None \<Longrightarrow> steps (=) (apply_request_tags w node owner tags)"
  unfolding apply_request_tags_def by (cases "n_user_id node") (auto simp: Let_def intro!: rd.composed)

text \<open>A map request never creates a user: a node without an owner has no login to return it to.\<close>

lemma reads_retag: "steps (=) (retag w request node)"
proof (rule stepsI)
  fix p
  have "step_at (=) p (bind_op (node_owner_login node) (\<lambda>owner.
      bind_op (apply_request_tags w node owner tags) (\<lambda>(_, node). ret node)))" for tags
  proof (rule rd.at_bind)
    show "step_at (=) p (node_owner_login node)"
      unfolding node_owner_login_def by (rule stepsD) (intro rd.composed)
    fix owner q assume "node_owner_login node p = Some (Inr owner, q)"
    then have "n_user_id node = None \<longrightarrow> owner = None" by (auto simp: node_owner_login_def ret_def)
    then show "step_at (=) q (bind_op (apply_request_tags w node owner tags) (\<lambda>(_, node). ret node))"
      by (intro stepsD rd.composed reads_apply_request_tags)
  qed
  then show "step_at (=) p (retag w request node)"
    unfolding retag_def by (auto intro: rd.at_ret)
qed

lemma reads_frame: "steps (=) (plane_encode_frame w response compress)"
  unfolding plane_encode_frame_def by (intro rd.composed)

lemma bind_reads: "bind_op (reads f) g p = g (f p) p"
  by (simp add: bind_op_def reads_def)

lemma bind_of_opt: "bind_op (of_opt (Some x)) f p = f x p"
  by (simp add: bind_op_def of_opt_def)

lemma bind_eq: "steps (=) m \<Longrightarrow> bind_op m f p = Some (Inr y, q) \<longleftrightarrow> (\<exists>x. m p = Some (Inr x, p) \<and> f x p = Some (Inr y, q))"
  using steps_eq by (fastforce simp: bind_op_Some)

section \<open>The peers of a node\<close>

definition routes_of :: "plane \<Rightarrow> node \<Rightarrow> string list" where
  "routes_of p s = (case effective_approved_routes s p of Some (Inr routes, _) \<Rightarrow> routes | _ \<Rightarrow> [])"

definition peer_of :: "plane \<Rightarrow> nat \<Rightarrow> node \<Rightarrow> proto_node" where
  "peer_of p version s = peer_wire s version (is_online (n_id s) (pl_sessions p)) (routes_of p s)"

lemma peer_node_result: "peer_node s v p = Some (Inr x, q) \<Longrightarrow> x = peer_of p v s \<and> q = p"
  by (auto simp: peer_node_def bind_eq reads_routes is_node_online_def bind_reads peer_of_def routes_of_def ret_def)

lemma peer_nodes_result: "peer_nodes v ss p = Some (Inr ps, q) \<Longrightarrow> ps = map (peer_of p v) ss \<and> q = p"
proof (induction ss arbitrary: ps)
  case (Cons s ss)
  then obtain x p1 qs where x: "peer_node s v p = Some (Inr x, p1)" and qs: "peer_nodes v ss p1 = Some (Inr qs, q)" "ps = x # qs"
    by (auto simp: bind_op_Some ret_def)
  have "x = peer_of p v s" "p1 = p" using peer_node_result [OF x] by auto
  with Cons.IH qs show ?case by simp
qed (simp add: ret_def)

lemma pn_id_peer_of [simp]: "pn_id (peer_of p v s) = as_u64 (n_id s)"
  by (simp add: peer_of_def peer_wire_def to_proto_def Let_def)

definition policy_nodes :: "db \<Rightarrow> compile_node list" where
  "policy_nodes d = map (compile_node_of d) (db_list_nodes d)"

definition sees :: "policy \<Rightarrow> db \<Rightarrow> node \<Rightarrow> node \<Rightarrow> bool" where
  "sees pol d a b \<longleftrightarrow> n_node_key b \<noteq> n_node_key a \<and> n_machine_authorized b \<and>
     (may_reach pol (policy_nodes d) (compile_node_of d a) (compile_node_of d b) \<or>
      may_reach pol (policy_nodes d) (compile_node_of d b) (compile_node_of d a))"

definition ids_in_range :: "db \<Rightarrow> bool" where
  "ids_in_range d \<longleftrightarrow> (\<forall>n \<in> set (db_nodes d). 0 \<le> n_id n \<and> n_id n < 2 ^ 63)"

lemma as_u64_range: "0 \<le> i \<Longrightarrow> i < 2 ^ 63 \<Longrightarrow> as_u64 i = nat i"
  by (simp add: as_u64_def)

lemma as_u64_eq: "0 \<le> i \<Longrightarrow> i < 2 ^ 63 \<Longrightarrow> 0 \<le> j \<Longrightarrow> j < 2 ^ 63 \<Longrightarrow> as_u64 i = as_u64 j \<longleftrightarrow> i = j"
  by (simp add: as_u64_range eq_nat_nat_iff)

lemma set_list_nodes [simp]: "set (db_list_nodes d) = set (db_nodes d)"
  by (simp add: db_list_nodes_def)

lemma distinct_policy_nodes:
  assumes "db_ok d" "ids_in_range d"
  shows "distinct (map cn_id (policy_nodes d))"
proof -
  have "distinct (map n_id (db_list_nodes d))"
    using assms(1) by (auto simp: db_ok_def nodes_ok_def db_list_nodes_def distinct_map)
  moreover have "inj_on (\<lambda>n. as_u64 (n_id n)) (set (db_nodes d))" if "inj_on n_id (set (db_nodes d))"
    using that assms(2) by (auto simp: inj_on_def ids_in_range_def as_u64_eq)
  ultimately show ?thesis
    by (simp add: policy_nodes_def compile_node_of_def distinct_map comp_def)
qed

lemma compile_node_id [simp]: "cn_id (compile_node_of d n) = as_u64 (n_id n)"
  by (simp add: compile_node_of_def)

lemma shows_peer_iff:
  assumes "db_ok d" "ids_in_range d" "a \<in> set (db_nodes d)" "b \<in> set (db_nodes d)"
  shows "shows_peer (get_or {} (bt_get (cp_peer_visibility (compile_policy pol (policy_nodes d))) (as_u64 (n_id a)))) a b
     \<longleftrightarrow> sees pol d a b"
proof -
  let ?ns = "policy_nodes d" and ?a = "compile_node_of d a" and ?b = "compile_node_of d b"
  have mem: "?a \<in> set ?ns" "?b \<in> set ?ns" using assms(3,4) by (auto simp: policy_nodes_def)
  note D = distinct_policy_nodes [OF assms(1,2)]
  have "as_u64 (n_id a) \<noteq> as_u64 (n_id b)" if "n_node_key b \<noteq> n_node_key a"
  proof -
    have "n_id a \<noteq> n_id b" using assms(1,3,4) that by (auto simp: db_ok_def nodes_ok_def distinct_map inj_on_def)
    then show ?thesis using assms(2,3,4) by (auto simp: ids_in_range_def as_u64_eq)
  qed
  then show ?thesis
    using compile_policy_result(2) [OF D mem(1), of pol] may_reach_alt [OF D mem, of pol] may_reach_alt [OF D mem(2,1), of pol]
    by (auto simp: shows_peer_def sees_def get_or_def)
qed

lemma sort_key_id: "sorted (map f xs) \<Longrightarrow> sort_key f xs = xs"
  by (induction xs) (simp_all add: insort_is_Cons)

lemma shown_sorted:
  assumes "ids_in_range d"
  shows "sorted (map (\<lambda>s. as_u64 (n_id s)) (filter P (db_list_nodes d)))"
proof -
  have "sorted (map n_id (filter P (db_list_nodes d)))"
    by (simp add: db_list_nodes_def sorted_filter)
  then show ?thesis
    using assms unfolding ids_in_range_def
    by (simp add: sorted_map) (erule sorted_wrt_mono_rel [rotated], auto simp: as_u64_range nat_mono)
qed

text \<open>
  C5. The complete map of a node agrees with the policy. The peers it lists are exactly the other authorized nodes
  that some ACL lets reach the node or be reached from it, each once, in the order of their ids, with their current
  online state and approved routes; and the packet filter it carries is the filter the policy gives the node, in the
  field the client's version expects. Building it changes nothing.
\<close>

theorem initial_map_agrees_with_policy:
  assumes "db_ok (pl_db p)" "ids_in_range (pl_db p)" "node \<in> set (db_nodes (pl_db p))"
    and "build_initial_map node request p = Some (Inr response, q)"
  shows "q = p
    \<and> mr_peers response = Some (map (peer_of p (mq_version request))
        (filter (sees (cc_policy (pl_config p)) (pl_db p) node) (db_list_nodes (pl_db p))))
    \<and> (let pol = cc_policy (pl_config p); ns = policy_nodes (pl_db p); n = compile_node_of (pl_db p) node;
           base = concat (map (acl_rules pol ns n) (p_acls pol)) @ concat (map (grant_rules pol ns n) (p_grants pol)) in
       if prefers_incremental_packet_filters (mq_version request)
       then mr_packet_filter response = None \<and> mr_packet_filters response = Some [(''base'', base)]
       else mr_packet_filter response = Some base \<and> mr_packet_filters response = None)"
proof -
  let ?d = "pl_db p" and ?pol = "cc_policy (pl_config p)" and ?v = "mq_version request"
  let ?ns = "policy_nodes ?d" and ?n = "compile_node_of ?d node" and ?i = "as_u64 (n_id node)"
  let ?visible = "get_or {} (bt_get (cp_peer_visibility (compile_policy ?pol ?ns)) ?i)"
  let ?base = "get_or [] (bt_get (cp_node_filters (compile_policy ?pol ?ns)) ?i)"
  let ?shown = "filter (shows_peer ?visible node) (db_list_nodes ?d)"
  have q: "q = p" using reads_build_initial_map assms(4) by (rule steps_eq)
  have nodes: "compile_nodes p = Some (Inr ?ns, p)"
    by (simp add: compile_nodes_def reads_db_def reads_def policy_nodes_def)
  obtain peers where peers: "peer_nodes ?v ?shown p = Some (Inr peers, p)"
    and resp: "mr_peers response = Some (sort_key pn_id peers)"
      "mr_packet_filter response = (if prefers_incremental_packet_filters ?v then None else Some ?base)"
      "mr_packet_filters response = (if prefers_incremental_packet_filters ?v then Some (bt_insert ''base'' ?base []) else None)"
    using assms(4) unfolding build_initial_map_def Let_def
    by (cases "prefers_incremental_packet_filters ?v")
      (auto simp: bind_reads bind_reads_db bind_eq reads_routes reads_self_cap_map reads_peer_nodes reads_dns nodes ret_def)
  have "?shown = filter (sees ?pol ?d node) (db_list_nodes ?d)"
    by (rule filter_cong) (use shows_peer_iff [OF assms(1-3)] in auto)
  then have "peers = map (peer_of p ?v) (filter (sees ?pol ?d node) (db_list_nodes ?d))"
    using peer_nodes_result [OF peers] by simp
  moreover have "sort_key pn_id peers = peers"
    using shown_sorted [OF assms(2)] calculation by (intro sort_key_id) (simp add: comp_def)
  moreover have "?base = concat (map (acl_rules ?pol ?ns ?n) (p_acls ?pol)) @ concat (map (grant_rules ?pol ?ns ?n) (p_grants ?pol))"
    using compile_policy_result(1) [OF distinct_policy_nodes [OF assms(1,2)], of ?n ?pol] assms(3)
    by (simp add: policy_nodes_def get_or_def)
  ultimately show ?thesis
    using q resp by (simp add: Let_def bt_insert_def)
qed

section \<open>The complete map is built\<close>

definition routes_known :: "plane \<Rightarrow> node \<Rightarrow> bool" where
  "routes_known p s \<longleftrightarrow>
     auto_approved_routes (cc_policy (pl_config p)) (compile_node_of (pl_db p) s) (n_advertised_routes s) \<noteq> None"

lemma routes_known_returns:
  "routes_known p s \<Longrightarrow> effective_approved_routes s p = Some (Inr (routes_of p s), p)"
  by (auto simp: routes_known_def routes_of_def effective_approved_routes_def bind_reads bind_reads_db bind_of_opt ret_def Let_def)

lemma peer_nodes_returns:
  "\<forall>s \<in> set ss. routes_known p s \<Longrightarrow> peer_nodes v ss p = Some (Inr (map (peer_of p v) ss), p)"
  by (induction ss)
    (simp_all add: ret_def bind_op_def peer_node_def is_node_online_def reads_def routes_known_returns peer_of_def)

lemma build_initial_map_returns:
  assumes "\<forall>s \<in> set (db_nodes (pl_db p)). routes_known p s" "routes_known p node" "p_node_attrs (cc_policy (pl_config p)) = []"
  shows "\<exists>response. build_initial_map node request p = Some (Inr response, p)"
proof -
  have peers: "peer_nodes v (filter P (db_list_nodes (pl_db p))) p = Some (Inr (map (peer_of p v) (filter P (db_list_nodes (pl_db p)))), p)" for v P
    by (rule peer_nodes_returns) (use assms(1) in auto)
  have self: "self_cap_map (cc_policy (pl_config p)) node ns wire p = Some (Inr wire, p)" for ns wire
    using assms(3) by (simp add: self_cap_map_def ret_def split: option.split)
  show ?thesis
    by (simp add: build_initial_map_def compile_nodes_def bind_reads bind_reads_db build_dns_config_def Let_def split_def
        bind_op_def [of "effective_approved_routes node"] routes_known_returns [OF assms(2)]
        bind_op_def [of "self_cap_map _ _ _ _"] self bind_op_def [of "peer_nodes _ _"] peers ret_def)
qed

definition sample_node :: "int \<Rightarrow> raw_key \<Rightarrow> string list \<Rightarrow> node" where
  "sample_node i key addrs = \<lparr>n_id = i, n_stable_id = fmt_stable_id i, n_name = ''node.tailnet.example.'', n_user_id = Some 1,
     n_node_key = key, n_machine_key = key, n_disco_key = [], n_addresses = addrs, n_allowed_ips = Some addrs, n_endpoints = [],
     n_endpoint_types = [], n_home_derp = 1, n_hostinfo = None, n_created = ''2026-01-01T00:00:00Z'', n_cap = 113,
     n_tags = None, n_advertised_routes = [], n_approved_routes = [], n_machine_authorized = True, n_ephemeral = False,
     n_last_seen = None, n_key_expiry = None\<rparr>"

definition open_policy :: policy where
  "open_policy = empty_policy\<lparr>p_acls := [\<lparr>acl_action = ''accept'', acl_src = [''*''], acl_dst = [''*:*''], acl_proto = None\<rparr>]\<rparr>"

definition sample_pair :: "node list" where
  "sample_pair = [sample_node 1 [1] [''100.64.0.1/32''], sample_node 2 [2] [''100.64.0.2/32'']]"

definition sample_pair_plane :: plane where
  "sample_pair_plane = sample_ready\<lparr>pl_config := control_config_default\<lparr>cc_policy := open_policy\<rparr>,
     pl_db := sample_db\<lparr>db_nodes := sample_pair\<rparr>\<rparr>"

lemma sample_pair_ok: "db_ok (sample_db\<lparr>db_nodes := sample_pair\<rparr>)" "ids_in_range (sample_db\<lparr>db_nodes := sample_pair\<rparr>)"
proof -
  have "fmt_stable_id 1 \<noteq> fmt_stable_id 2" by code_simp
  then show "db_ok (sample_db\<lparr>db_nodes := sample_pair\<rparr>)" "ids_in_range (sample_db\<lparr>db_nodes := sample_pair\<rparr>)"
    by (simp_all add: db_ok_def users_ok_def nodes_ok_def keys_ok_def sample_db_def sample_pair_def sample_node_def sample_user_def
        sample_key_def new_key_def as_i64_def control_config_default_def db_empty_def ids_in_range_def)
qed

lemma sample_pair_routes: "routes_known p s" if "cc_policy (pl_config p) = open_policy"
  using that by (simp add: routes_known_def auto_approved_routes_def open_policy_def empty_policy_def)

lemma sample_pair_sees:
  "filter (sees open_policy (sample_db\<lparr>db_nodes := sample_pair\<rparr>) (sample_node 1 [1] [''100.64.0.1/32''])) (db_list_nodes (sample_db\<lparr>db_nodes := sample_pair\<rparr>))
     = [sample_node 2 [2] [''100.64.0.2/32'']]"
  by code_simp

theorem initial_map_agrees_with_policy_witness:
  "\<exists>response. build_initial_map (sample_node 1 [1] [''100.64.0.1/32'']) map_request_default sample_pair_plane = Some (Inr response, sample_pair_plane)
     \<and> map_option (map pn_key) (mr_peers response) = Some [[2]]"
proof -
  have c: "cc_policy (pl_config sample_pair_plane) = open_policy" "pl_db sample_pair_plane = sample_db\<lparr>db_nodes := sample_pair\<rparr>"
    by (simp_all add: sample_pair_plane_def)
  have "sample_node 1 [1] [''100.64.0.1/32''] \<in> set (db_nodes (pl_db sample_pair_plane))" by (simp add: c sample_pair_def)
  moreover have "\<exists>response. build_initial_map node request sample_pair_plane = Some (Inr response, sample_pair_plane)" for node request
    by (rule build_initial_map_returns) (simp_all add: sample_pair_routes c, simp add: open_policy_def empty_policy_def)
  then obtain response where r: "build_initial_map (sample_node 1 [1] [''100.64.0.1/32'']) map_request_default sample_pair_plane
      = Some (Inr response, sample_pair_plane)"
    by blast
  ultimately have "mr_peers response = Some (map (peer_of sample_pair_plane (mq_version map_request_default)) [sample_node 2 [2] [''100.64.0.2/32'']])"
    using initial_map_agrees_with_policy [of sample_pair_plane _ map_request_default response sample_pair_plane] sample_pair_ok
    unfolding c sample_pair_sees [symmetric] by blast
  then show ?thesis using r
    by (simp add: peer_of_def peer_wire_def to_proto_def sample_node_def Let_def)
qed

end
