(* ===== verification/Control_Errors.thy ===== *)
theory Control_Errors
  imports Control_Peers
begin

text \<open>
  How map requests fail: which error a request is answered with, and what a failed request leaves behind.
\<close>

section \<open>Which errors an operation can raise\<close>

definition fails_in :: "control_error set \<Rightarrow> 'a plane_op \<Rightarrow> bool" where
  "fails_in E m \<longleftrightarrow> (\<forall>p e q. m p = Some (Inl e, q) \<longrightarrow> e \<in> E)"

lemma fails_inD: "fails_in E m \<Longrightarrow> m p = Some (Inl e, q) \<Longrightarrow> e \<in> E"
  by (auto simp: fails_in_def)

lemma fails_in_prims:
  "fails_in E (ret x)" "fails_in E (reads f)" "fails_in E (reads_db g)" "fails_in E (of_opt v)" "fails_in E (updates h)"
  "e \<in> E \<Longrightarrow> fails_in E (throw e)"
  by (auto simp: fails_in_def ret_def reads_def reads_db_def of_opt_def updates_def throw_def)

lemma fails_in_bind: "fails_in E m \<Longrightarrow> (\<And>x. fails_in E (f x)) \<Longrightarrow> fails_in E (bind_op m f)"
  by (fastforce simp: fails_in_def bind_op_Some)

lemma fails_in_if: "fails_in E a \<Longrightarrow> fails_in E b \<Longrightarrow> fails_in E (if c then a else b)"
  by simp

lemma fails_in_let: "(\<And>x. fails_in E (f x)) \<Longrightarrow> fails_in E (Let v f)"
  by simp

lemma fails_in_opt: "fails_in E a \<Longrightarrow> (\<And>x. fails_in E (b x)) \<Longrightarrow> fails_in E (case v of None \<Rightarrow> a | Some x \<Rightarrow> b x)"
  by (cases v) auto

lemma fails_in_prod: "(\<And>x y. fails_in E (f x y)) \<Longrightarrow> fails_in E (case v of (x, y) \<Rightarrow> f x y)"
  by (cases v) auto

lemma fails_in_sum: "(\<And>x. fails_in E (a x)) \<Longrightarrow> (\<And>x. fails_in E (b x)) \<Longrightarrow> fails_in E (case v of Inl x \<Rightarrow> a x | Inr x \<Rightarrow> b x)"
  by (cases v) auto

lemmas fails_in_rules = fails_in_prims fails_in_bind fails_in_if fails_in_let fails_in_opt fails_in_prod fails_in_sum

definition encoding_errors :: "control_error set" where
  "encoding_errors = {JsonFailed, ZstdFailed, FrameFailed}"

lemma fails_publish: "fails_in E (publish_change e)"
  unfolding publish_change_def by (intro fails_in_rules)

lemma fails_publish_online: "fails_in E (publish_online evs)"
proof (induction evs)
  case (Cons ev evs)
  then show ?case by (cases ev) (auto intro!: fails_in_rules fails_publish)
qed (simp add: fails_in_prims)

lemma fails_peer_nodes: "fails_in E (peer_nodes v ss)"
  by (induction ss)
    (auto simp: peer_node_def is_node_online_def effective_approved_routes_def intro!: fails_in_rules)

lemma fails_serve_map: "fails_in encoding_errors (serve_map w request before node)"
proof -
  have "fails_in encoding_errors (build_initial_map node request)"
    unfolding build_initial_map_def compile_nodes_def effective_approved_routes_def self_cap_map_def build_dns_config_def
    by (intro fails_in_rules fails_peer_nodes)
  moreover have "fails_in encoding_errors (plane_encode_frame w response compress)" for response compress
    unfolding plane_encode_frame_def by (intro fails_in_rules) (simp_all add: encoding_errors_def)
  moreover have "fails_in encoding_errors (open_session w n eph)" for n eph
    unfolding open_session_def by (intro fails_in_rules fails_publish_online)
  ultimately show ?thesis
    unfolding serve_map_def respond_map_def by (intro fails_in_rules fails_publish)
qed

section \<open>Failed writes\<close>

lemma upsert_failed:
  assumes "db_upsert_node n d = (Inl e, d')" "n_stable_id n \<noteq> []"
  shows "d' = d"
proof -
  have "insert_node_row n d = (Inl e, d')"
    using assms by (auto simp: db_upsert_node_def Let_def split: prod.splits sum.splits)
  then show ?thesis by (auto simp: insert_node_row_def Let_def split: if_splits)
qed

lemma retag_stable: "retag w request node p = Some (Inr n, q) \<Longrightarrow> n_stable_id n = n_stable_id node"
  using apply_request_tags_node by (fastforce simp: retag_def bind_op_Some ret_def split: if_splits)

lemma handle_map_failed:
  assumes "handle_map w mk request p = Some (Inl e, q)"
    "\<forall>n. db_get_node_by_node_key (pl_db p) (mq_node_key request) = Some n \<longrightarrow> n_stable_id n \<noteq> []"
  shows "q = p \<or> e \<in> encoding_errors"
proof (cases "mq_version request < MIN_SUPPORTED_CAPVER \<or> length (mq_endpoint_types request) \<noteq> length (mq_endpoints request)")
  case True
  then show ?thesis using assms(1) by (auto simp: handle_map_eq throw_def split: if_splits)
next
  case ok: False
  show ?thesis
  proof (cases "db_get_node_by_node_key (pl_db p) (mq_node_key request)")
    case None
    then show ?thesis using assms(1) ok by (auto simp: handle_map_eq bind_reads_db throw_def)
  next
    case (Some before)
    show ?thesis
    proof (cases "n_machine_key before = mk")
      case False
      then show ?thesis using assms(1) Some ok by (auto simp: handle_map_eq bind_reads_db throw_def)
    next
      case True
      let ?n = "apply_request w request before"
      have eq: "handle_map w mk request p = bind_op (retag w request ?n) (\<lambda>node.
          bind_op (store_op w (db_upsert_node node)) (\<lambda>_. serve_map w request before node)) p"
        using ok Some True by (simp add: handle_map_eq bind_reads_db)
      consider (tags) "retag w request ?n p = Some (Inl e, q)"
        | (rest) node p1 where "retag w request ?n p = Some (Inr node, p1)"
            "bind_op (store_op w (db_upsert_node node)) (\<lambda>_. serve_map w request before node) p1 = Some (Inl e, q)"
        using assms(1) unfolding eq bind_op_Some [of "retag w request ?n"] by blast
      then show ?thesis
      proof cases
        case tags
        then show ?thesis using reads_retag steps_eq by blast
      next
        case (rest node p1)
        have p1: "p1 = p" using reads_retag rest(1) by (rule steps_eq)
        have "n_stable_id node = n_stable_id before"
          using retag_stable [OF rest(1)] by (simp add: apply_request_def Let_def split: option.split)
        then have "n_stable_id node \<noteq> []" using assms(2) Some by simp
        then have "store_op w (db_upsert_node node) p = Some (Inl e', p2) \<Longrightarrow> p2 = p" for e' p2
          using upsert_failed by (auto simp: store_op_def split: prod.splits sum.splits)
        then show ?thesis
          using rest(2) p1 fails_inD [OF fails_serve_map] unfolding bind_op_Some by blast
      qed
    qed
  qed
qed

text \<open>
  C23. Map requests fail closed. A request of an unsupported version, with endpoint types that do not pair with its
  endpoints, or with a node key that is unknown or belongs to another machine is answered with the error for that
  cause and changes nothing; and whatever error a request is answered with, the plane is as before, unless
  the response it was about to send could not be encoded, provided the row stored for the node key, if there is one,
  has a stable id (the upsert of a row without one writes the row first and may then fail to name it).
\<close>

theorem handle_map_errors:
  "(mq_version request < MIN_SUPPORTED_CAPVER \<longrightarrow>
      handle_map w mk request p = Some (Inl (UnsupportedVersion (mq_version request)), p))
   \<and> (MIN_SUPPORTED_CAPVER \<le> mq_version request \<and> length (mq_endpoint_types request) \<noteq> length (mq_endpoints request) \<longrightarrow>
      handle_map w mk request p = Some (Inl InvalidEndpointTypes, p))
   \<and> (MIN_SUPPORTED_CAPVER \<le> mq_version request \<and> length (mq_endpoint_types request) = length (mq_endpoints request)
        \<and> (\<forall>n. db_get_node_by_node_key (pl_db p) (mq_node_key request) = Some n \<longrightarrow> n_machine_key n \<noteq> mk) \<longrightarrow>
      handle_map w mk request p = Some (Inl NotFound, p))
   \<and> (\<forall>e q. (\<forall>n. db_get_node_by_node_key (pl_db p) (mq_node_key request) = Some n \<longrightarrow> n_stable_id n \<noteq> [])
        \<and> handle_map w mk request p = Some (Inl e, q) \<longrightarrow>
      q = p \<or> e \<in> {JsonFailed, ZstdFailed, FrameFailed})"
proof -
  have "handle_map w mk request p = Some (Inl NotFound, p)"
    if "MIN_SUPPORTED_CAPVER \<le> mq_version request" "length (mq_endpoint_types request) = length (mq_endpoints request)"
      "\<forall>n. db_get_node_by_node_key (pl_db p) (mq_node_key request) = Some n \<longrightarrow> n_machine_key n \<noteq> mk"
    using that by (auto simp: handle_map_def bind_reads_db throw_def split: option.split)
  then show ?thesis
    using handle_map_failed [of w mk request p]
    by (auto simp: handle_map_def throw_def encoding_errors_def)
qed

theorem handle_map_errors_witness:
  "handle_map sample_world [9] (map_request_default\<lparr>mq_version := 113, mq_node_key := [1]\<rparr>) sample_pair_plane
     = Some (Inl NotFound, sample_pair_plane)"
  using handle_map_errors [of "map_request_default\<lparr>mq_version := 113, mq_node_key := [1]\<rparr>" sample_world "[9]" sample_pair_plane]
  by (simp add: MIN_SUPPORTED_CAPVER_def map_request_default_def sample_pair_plane_def sample_pair_def
      db_get_node_by_node_key_def sample_node_def)

end
