(* ===== verification/Control_Delta.thy ===== *)
theory Control_Delta
  imports Control_Errors
begin

text \<open>
  Incremental maps against what they promise: a client that holds the peers last sent to it and applies a delta holds
  the current peers.
\<close>

section \<open>A client\<close>

text \<open>The effect of the delta fields of a map response on the peers of a client, by node id (\<^verbatim>\<open>PeersRemoved\<close>,
  \<^verbatim>\<open>PeersChanged\<close>, \<^verbatim>\<open>PeersChangedPatch\<close> of \<^verbatim>\<open>crabscale-proto/src/netmap.rs\<close>).\<close>

definition patch_node :: "peer_change \<Rightarrow> proto_node \<Rightarrow> proto_node" where
  "patch_node pc n = n
     \<lparr>pn_home_derp := get_or (pn_home_derp n) (pc_derp_region pc),
      pn_endpoints := get_or (pn_endpoints n) (pc_endpoints pc),
      pn_key := get_or (pn_key n) (pc_key pc),
      pn_disco_key := get_or (pn_disco_key n) (pc_disco_key pc),
      pn_online := (case pc_online pc of None \<Rightarrow> pn_online n | Some x \<Rightarrow> Some x),
      pn_last_seen := (case pc_last_seen pc of None \<Rightarrow> pn_last_seen n | Some x \<Rightarrow> Some x),
      pn_cap := get_or (pn_cap n) (pc_cap pc)\<rparr>"

definition client_apply :: "nat list \<Rightarrow> proto_node list \<Rightarrow> peer_change list \<Rightarrow> (nat \<rightharpoonup> proto_node) \<Rightarrow> (nat \<rightharpoonup> proto_node)" where
  "client_apply removed changed patches m =
     fold (\<lambda>pc m. m(pc_node_id pc := map_option (patch_node pc) (m (pc_node_id pc)))) patches
       (fold (\<lambda>n m. m(pn_id n \<mapsto> n)) changed (\<lambda>i. if i \<in> set removed then None else m i))"

lemma fold_changed:
  "fold (\<lambda>n m. m(pn_id n \<mapsto> n)) ns m i = (case rev (filter (\<lambda>n. pn_id n = i) ns) of [] \<Rightarrow> m i | n # _ \<Rightarrow> Some n)"
  by (induction ns arbitrary: m) (auto split: list.splits)

lemma fold_patches:
  "fold (\<lambda>pc m. m(pc_node_id pc := map_option (patch_node pc) (m (pc_node_id pc)))) ps m i
     = map_option (fold patch_node (filter (\<lambda>pc. pc_node_id pc = i) ps)) (m i)"
  by (induction ps arbitrary: m) (auto simp: option.map_comp comp_def option.map_id)

section \<open>What one peer contributes\<close>

definition expiry_sent :: "session_peers \<Rightarrow> nat \<Rightarrow> string option" where
  "expiry_sent s i = Option.bind (bt_get (spe_key_expiry s) i) (\<lambda>e. e)"

definition full_of :: "session_peers \<Rightarrow> nat \<times> proto_node \<times> string option \<Rightarrow> proto_node list" where
  "full_of s x = (case x of (i, cur, e) \<Rightarrow>
     case bt_get (spe_peers s) i of
       None \<Rightarrow> [cur]
     | Some prev \<Rightarrow> (case diff_peers prev cur (expiry_sent s i) e of FullPeer \<Rightarrow> [cur] | _ \<Rightarrow> []))"

definition patch_of :: "session_peers \<Rightarrow> nat \<times> proto_node \<times> string option \<Rightarrow> peer_change list" where
  "patch_of s x = (case x of (i, cur, e) \<Rightarrow>
     case bt_get (spe_peers s) i of
       None \<Rightarrow> []
     | Some prev \<Rightarrow> (case diff_peers prev cur (expiry_sent s i) e of Patch pc \<Rightarrow> [pc] | _ \<Rightarrow> []))"

lemma patch_ofD:
  assumes "pc \<in> set (patch_of s (j, cur, e))"
  shows "\<exists>prev. bt_get (spe_peers s) j = Some prev \<and> diff_peers prev cur (expiry_sent s j) e = Patch pc"
proof (cases "bt_get (spe_peers s) j")
  case (Some prev)
  then show ?thesis using assms by (cases "diff_peers prev cur (expiry_sent s j) e") (auto simp: patch_of_def)
qed (use assms in \<open>simp add: patch_of_def\<close>)

definition track :: "nat \<times> proto_node \<times> string option \<Rightarrow> session_peers \<Rightarrow> session_peers" where
  "track x s = (case x of (i, cur, e) \<Rightarrow>
     s\<lparr>spe_peers := bt_insert i cur (spe_peers s), spe_key_expiry := bt_insert i e (spe_key_expiry s)\<rparr>)"

lemma delta_peer_eq:
  "delta_peer x (ds, s) = (ds\<lparr>pds_changed := pds_changed ds @ full_of s x, pds_patches := pds_patches ds @ patch_of s x\<rparr>, track x s)"
  by (cases x) (simp add: delta_peer_def full_of_def patch_of_def track_def expiry_sent_def Let_def split: option.split peer_diff.split)

definition session_ok :: "session_peers \<Rightarrow> bool" where
  "session_ok s \<longleftrightarrow> bt_inv (spe_peers s) \<and> bt_inv (spe_key_expiry s) \<and> (\<forall>i n. bt_get (spe_peers s) i = Some n \<longrightarrow> pn_id n = i)"

lemma track_gets:
  assumes "bt_inv (spe_peers s)" "bt_inv (spe_key_expiry s)"
  shows "bt_get (spe_peers (track x s)) i = (if i = fst x then Some (fst (snd x)) else bt_get (spe_peers s) i)"
    and "bt_get (spe_key_expiry (track x s)) i = (if i = fst x then Some (snd (snd x)) else bt_get (spe_key_expiry s) i)"
    and "bt_inv (spe_peers (track x s))" "bt_inv (spe_key_expiry (track x s))"
  using assms by (auto simp: track_def bt.get_insert bt.inv_insert split: prod.split)

lemma contributions_local:
  assumes "bt_inv (spe_peers s)" "bt_inv (spe_key_expiry s)" "fst y \<noteq> fst x"
  shows "full_of (track x s) y = full_of s y" "patch_of (track x s) y = patch_of s y"
proof -
  have "expiry_sent (track x s) (fst y) = expiry_sent s (fst y)" using assms by (simp add: expiry_sent_def track_gets)
  then show "full_of (track x s) y = full_of s y" "patch_of (track x s) y = patch_of s y"
    using assms by (cases y; cases "bt_get (spe_peers s) (fst y)"; simp add: full_of_def patch_of_def track_gets)+
qed

lemma fold_delta_peer:
  assumes "bt_inv (spe_peers s)" "bt_inv (spe_key_expiry s)" "distinct (map fst xs)"
  shows "fold delta_peer xs (ds, s) =
    (ds\<lparr>pds_changed := pds_changed ds @ concat (map (full_of s) xs), pds_patches := pds_patches ds @ concat (map (patch_of s) xs)\<rparr>,
     fold track xs s)"
  using assms
proof (induction xs arbitrary: ds s)
  case (Cons x xs)
  have "map (full_of (track x s)) xs = map (full_of s) xs" "map (patch_of (track x s)) xs = map (patch_of s) xs"
    using Cons.prems by (auto intro!: contributions_local simp: image_iff)
  then show ?case using Cons track_gets [OF Cons.prems(1,2)] by (simp add: delta_peer_eq cong: map_cong)
qed simp

lemma fold_track:
  assumes "bt_inv (spe_peers s)" "bt_inv (spe_key_expiry s)" "distinct (map fst xs)"
  shows "bt_get (spe_peers (fold track xs s)) i = (case map_of xs i of Some (cur, _) \<Rightarrow> Some cur | None \<Rightarrow> bt_get (spe_peers s) i)"
    and "bt_inv (spe_peers (fold track xs s)) \<and> bt_inv (spe_key_expiry (fold track xs s))"
  using assms
proof (induction xs arbitrary: s)
  case (Cons x xs)
  { case 1
    have "map_of xs i = None" if "i = fst x" using that 1 by (auto simp: map_of_eq_None_iff)
    then show ?case using Cons.IH(1) [of "track x s"] 1 track_gets [OF 1(1,2)]
      by (cases x) (auto split: option.split) }
  { case 2
    then show ?case using Cons.IH(2) [of "track x s"] track_gets [OF 2(1,2)] by simp }
qed simp_all

section \<open>Patches are exact\<close>

lemma diff_peers_exact:
  assumes "pn_id prev = pn_id cur" "pn_online cur = None \<longrightarrow> pn_online prev = None" "pn_last_seen cur = None \<longrightarrow> pn_last_seen prev = None"
  shows "diff_peers prev cur pe ne = Patch pc \<Longrightarrow> patch_node pc prev = cur \<and> pc_node_id pc = pn_id cur"
    and "diff_peers prev cur pe ne = Unchanged \<Longrightarrow> prev = cur"
proof -
  assume "diff_peers prev cur pe ne = Patch pc"
  then have s: "structural_equal prev cur" and pc: "pc = peer_change_default
              \<lparr>pc_node_id := pn_id cur,
               pc_endpoints := when_changed (pn_endpoints prev) (pn_endpoints cur) (Some (pn_endpoints cur)),
               pc_derp_region := when_changed (pn_home_derp prev) (pn_home_derp cur) (Some (pn_home_derp cur)),
               pc_key := when_changed (pn_key prev) (pn_key cur) (Some (pn_key cur)),
               pc_disco_key := when_changed (pn_disco_key prev) (pn_disco_key cur) (Some (pn_disco_key cur)),
               pc_online := when_changed (pn_online prev) (pn_online cur) (pn_online cur),
               pc_last_seen := when_changed (pn_last_seen prev) (pn_last_seen cur) (pn_last_seen cur),
               pc_cap := when_changed (pn_cap prev) (pn_cap cur) (Some (pn_cap cur)),
               pc_key_expiry := when_changed pe ne ne\<rparr>"
    by (auto simp: diff_peers_def Let_def split: if_splits)
  have "patch_node pc prev = cur"
    by (rule proto_node.equality)
      (use assms s in \<open>auto simp: pc patch_node_def structural_equal_def when_changed_def get_or_def peer_change_default_def split: option.split\<close>)
  then show "patch_node pc prev = cur \<and> pc_node_id pc = pn_id cur" by (simp add: pc)
next
  assume "diff_peers prev cur pe ne = Unchanged"
  then show "prev = cur"
    by (intro proto_node.equality) (use assms(1) in \<open>auto simp: diff_peers_def structural_equal_def Let_def split: if_splits\<close>)
qed

section \<open>A delta brings a client up to date\<close>

lemma filter_concat_key:
  "(\<And>x y. x \<in> set xs \<Longrightarrow> y \<in> set (f x) \<Longrightarrow> key y = fst x) \<Longrightarrow>
   filter (\<lambda>y. key y = i) (concat (map f xs)) = concat (map f (filter (\<lambda>x. fst x = i) xs))"
proof (induction xs)
  case (Cons x xs)
  have "filter (\<lambda>y. key y = i) (f x) = (if fst x = i then f x else [])"
    using Cons.prems [of x] by (auto intro!: filter_True simp: filter_empty_conv)
  then show ?case using Cons by simp
qed simp

lemma filter_key: "distinct (map fst xs) \<Longrightarrow> filter (\<lambda>x. fst x = i) xs = (case map_of xs i of None \<Rightarrow> [] | Some v \<Rightarrow> [(i, v)])"
proof (induction xs)
  case (Cons x xs)
  then have "map_of xs (fst x) = None" by (auto simp: map_of_eq_None_iff)
  with Cons show ?case by (cases x) (auto split: option.split)
qed simp

lemma drop_peers:
  assumes "bt_inv (spe_peers s)" "bt_inv (spe_key_expiry s)"
  shows "bt_get (spe_peers (fold drop_peer removed s)) i = (if i \<in> set removed then None else bt_get (spe_peers s) i)"
    and "bt_inv (spe_peers (fold drop_peer removed s)) \<and> bt_inv (spe_key_expiry (fold drop_peer removed s))"
  using assms by (induction removed arbitrary: s) (auto simp: drop_peer_def bt_get_remove bt_inv_remove)

definition nothing_cleared :: "session_peers \<Rightarrow> (nat, proto_node \<times> string option) btree \<Rightarrow> bool" where
  "nothing_cleared s nxt \<longleftrightarrow> (\<forall>i prev cur e. bt_get (spe_peers s) i = Some prev \<and> bt_get nxt i = Some (cur, e) \<longrightarrow>
     (pn_online cur = None \<longrightarrow> pn_online prev = None) \<and> (pn_last_seen cur = None \<longrightarrow> pn_last_seen prev = None))"

lemma diff_peer_sets_exact:
  assumes s: "session_ok s" and nxt: "bt_inv nxt" "\<And>i cur e. bt_get nxt i = Some (cur, e) \<Longrightarrow> pn_id cur = i"
    and clear: "nothing_cleared s nxt" and d: "diff_peer_sets nxt visible s = (ds, s')"
  shows "client_apply (pds_removed ds) (pds_changed ds) (pds_patches ds) (bt_get (spe_peers s)) = (\<lambda>i. map_option fst (bt_get nxt i))"
    and "bt_get (spe_peers s') = (\<lambda>i. map_option fst (bt_get nxt i))" "session_ok s'"
proof -
  let ?removed = "filter (\<lambda>i. bt_get nxt i = None) (map fst (spe_peers s))"
  let ?s = "fold drop_peer ?removed s"
  note inv = s [unfolded session_ok_def]
  have inv0: "bt_inv (spe_peers ?s)" "bt_inv (spe_key_expiry ?s)" using drop_peers(2) [of s] inv by auto
  have dist: "distinct (map fst nxt)" using nxt(1) by (simp add: bt_inv_def strict_sorted_iff)
  have mem: "i \<in> set ?removed \<longleftrightarrow> bt_get nxt i = None \<and> bt_get (spe_peers s) i \<noteq> None" for i
    by (auto simp: bt_get_def map_of_eq_None_iff)
  then have get0: "bt_get (spe_peers ?s) i = (if bt_get nxt i = None then None else bt_get (spe_peers s) i)" for i
    using drop_peers(1) [of s ?removed i] inv by auto
  have ds: "pds_removed ds = ?removed" "pds_changed ds = concat (map (full_of ?s) nxt)" "pds_patches ds = concat (map (patch_of ?s) nxt)"
    and s': "s' = fold track nxt ?s"
    using d fold_delta_peer [OF inv0 dist] by (auto simp: diff_peer_sets_def Let_def)
  have id: "pn_id cur = i" if "(i, cur, e) \<in> set nxt" for i cur e
    using that nxt bt_get_Some_iff [OF nxt(1)] by blast
  have exact: "diff_peers prev cur pe e = Patch pc \<Longrightarrow> patch_node pc prev = cur \<and> pc_node_id pc = i"
    "diff_peers prev cur pe e = Unchanged \<Longrightarrow> prev = cur"
    if h: "bt_get (spe_peers ?s) i = Some prev" "bt_get nxt i = Some (cur, e)" for i prev cur e pe pc
  proof -
    have prev: "bt_get (spe_peers s) i = Some prev" using h get0 [of i] by simp
    then have i: "pn_id prev = pn_id cur" "pn_id cur = i" using inv nxt(2) [OF h(2)] by auto
    have "pn_online cur = None \<longrightarrow> pn_online prev = None" "pn_last_seen cur = None \<longrightarrow> pn_last_seen prev = None"
      using clear prev h(2) unfolding nothing_cleared_def by blast+
    note D = diff_peers_exact [OF i(1) this]
    show "diff_peers prev cur pe e = Patch pc \<Longrightarrow> patch_node pc prev = cur \<and> pc_node_id pc = i" using D(1) i(2) by simp
    show "diff_peers prev cur pe e = Unchanged \<Longrightarrow> prev = cur" by (rule D(2))
  qed
  have full: "filter (\<lambda>n. pn_id n = i) (concat (map (full_of ?s) nxt)) = (case bt_get nxt i of None \<Rightarrow> [] | Some v \<Rightarrow> full_of ?s (i, v))" for i
  proof -
    have "filter (\<lambda>n. pn_id n = i) (concat (map (full_of ?s) nxt)) = concat (map (full_of ?s) (filter (\<lambda>x. fst x = i) nxt))"
      by (rule filter_concat_key) (auto simp: full_of_def dest!: id split: prod.splits option.splits peer_diff.splits)
    then show ?thesis using filter_key [OF dist, of i] by (simp add: bt_get_def split: option.split)
  qed
  have patch: "filter (\<lambda>pc. pc_node_id pc = i) (concat (map (patch_of ?s) nxt)) = (case bt_get nxt i of None \<Rightarrow> [] | Some v \<Rightarrow> patch_of ?s (i, v))" for i
  proof -
    have "filter (\<lambda>pc. pc_node_id pc = i) (concat (map (patch_of ?s) nxt)) = concat (map (patch_of ?s) (filter (\<lambda>x. fst x = i) nxt))"
    proof (rule filter_concat_key)
      fix x pc assume x: "x \<in> set nxt" "pc \<in> set (patch_of ?s x)"
      obtain j cur e where j: "x = (j, cur, e)" by (cases x)
      with x obtain prev where "bt_get (spe_peers ?s) j = Some prev" "diff_peers prev cur (expiry_sent ?s j) e = Patch pc"
        using patch_ofD by blast
      moreover have "bt_get nxt j = Some (cur, e)" using x(1) j bt_get_Some_iff [OF nxt(1)] by simp
      ultimately show "pc_node_id pc = fst x" using exact(1) j by simp
    qed
    then show ?thesis using filter_key [OF dist, of i] by (simp add: bt_get_def split: option.split)
  qed
  show "client_apply (pds_removed ds) (pds_changed ds) (pds_patches ds) (bt_get (spe_peers s)) = (\<lambda>i. map_option fst (bt_get nxt i))"
  proof
    fix i
    show "client_apply (pds_removed ds) (pds_changed ds) (pds_patches ds) (bt_get (spe_peers s)) i = map_option fst (bt_get nxt i)"
    proof (cases "bt_get nxt i")
      case None
      then show ?thesis using get0 [of i] mem [of i]
        by (simp add: client_apply_def fold_changed fold_patches ds full patch split: if_splits)
    next
      case (Some v)
      obtain cur e where v: "v = (cur, e)" by (cases v)
      show ?thesis
      proof (cases "bt_get (spe_peers ?s) i")
        case none: None
        then show ?thesis using Some v
          by (simp add: client_apply_def fold_changed fold_patches ds full patch full_of_def patch_of_def)
      next
        case prev: (Some prev)
        then show ?thesis using Some v get0 [of i] mem [of i] exact [OF prev, of cur e "expiry_sent ?s i"]
          by (cases "diff_peers prev cur (expiry_sent ?s i) e")
            (auto simp: client_apply_def fold_changed fold_patches ds full patch full_of_def patch_of_def)
      qed
    qed
  qed
  show s'_get: "bt_get (spe_peers s') = (\<lambda>i. map_option fst (bt_get nxt i))"
    using fold_track(1) [OF inv0 dist] get0 by (auto simp: s' bt_get_def split: option.split)
  show "session_ok s'"
    using fold_track(2) [OF inv0 dist] s'_get nxt(2) by (auto simp: session_ok_def s')
qed

section \<open>The peers of a session\<close>

definition current_peers :: "plane \<Rightarrow> nat \<Rightarrow> node \<Rightarrow> nat \<rightharpoonup> proto_node" where
  "current_peers p v self i = map_option (peer_of p v)
     (find (\<lambda>s. as_u64 (n_id s) = i) (filter (sees (cc_policy (pl_config p)) (pl_db p) self) (db_list_nodes (pl_db p))))"

lemma map_of_find: "map_of (map (\<lambda>s. (f s, g s)) xs) i = map_option g (find (\<lambda>s. f s = i) xs)"
  by (induction xs) auto

lemma distinct_shown:
  assumes "db_ok d" "ids_in_range d"
  shows "distinct (map (\<lambda>s. as_u64 (n_id s)) (filter P (db_list_nodes d)))"
proof -
  have "distinct (map (\<lambda>s. as_u64 (n_id s)) (db_list_nodes d))"
    using distinct_policy_nodes [OF assms] by (simp add: policy_nodes_def comp_def)
  then show ?thesis by (rule distinct_map_filter)
qed

definition peer_table :: "plane \<Rightarrow> nat \<Rightarrow> node list \<Rightarrow> (nat, proto_node \<times> string option) btree" where
  "peer_table p v shown = fold (\<lambda>(s, peer) m. bt_insert (as_u64 (n_id s)) (peer, n_key_expiry s) m) (zip shown (map (peer_of p v) shown)) []"

lemma peer_table_get:
  assumes "distinct (map (\<lambda>s. as_u64 (n_id s)) shown)"
  shows "bt_inv (peer_table p v shown)"
    and "bt_get (peer_table p v shown) i = map_option (\<lambda>s. (peer_of p v s, n_key_expiry s)) (find (\<lambda>s. as_u64 (n_id s) = i) shown)"
proof -
  let ?kvs = "map (\<lambda>s. (as_u64 (n_id s), peer_of p v s, n_key_expiry s)) shown"
  have eq: "peer_table p v shown = fold (\<lambda>(k, v). bt_insert k v) ?kvs []"
  proof -
    have "fold (\<lambda>(s, peer) m. bt_insert (as_u64 (n_id s)) (peer, n_key_expiry s) m) (zip shown (map (peer_of p v) shown)) m
      = fold (\<lambda>(k, v). bt_insert k v) ?kvs m" for m by (induction shown arbitrary: m) auto
    then show ?thesis by (simp add: peer_table_def)
  qed
  show "bt_inv (peer_table p v shown)" unfolding eq by (rule bt.inv_fold) simp
  have "map_of (rev ?kvs) = map_of ?kvs"
    using assms by (intro map_of_inject_set [THEN iffD2]) (simp_all add: comp_def rev_map [symmetric])
  then show "bt_get (peer_table p v shown) i = map_option (\<lambda>s. (peer_of p v s, n_key_expiry s)) (find (\<lambda>s. as_u64 (n_id s) = i) shown)"
    unfolding eq by (simp add: bt.get_built map_of_find)
qed

lemma compute_peer_delta_result:
  assumes "compute_peer_delta self s v p = Some (Inr (ds, s'), q)"
    "db_ok (pl_db p)" "ids_in_range (pl_db p)" "self \<in> set (db_nodes (pl_db p))"
  shows "\<exists>visible. diff_peer_sets (peer_table p v (filter (sees (cc_policy (pl_config p)) (pl_db p) self) (db_list_nodes (pl_db p)))) visible s = (ds, s')"
    and "q = p"
proof -
  let ?d = "pl_db p" and ?pol = "cc_policy (pl_config p)"
  let ?visible = "get_or {} (bt_get (cp_peer_visibility (compile_policy ?pol (policy_nodes ?d))) (as_u64 (n_id self)))"
  let ?shown = "filter (shows_peer ?visible self) (db_list_nodes ?d)"
  obtain peers where peers: "peer_nodes v ?shown p = Some (Inr peers, p)" and q: "q = p" and
      ds: "(ds, s') = diff_peer_sets (fold (\<lambda>(s, peer) m. bt_insert (as_u64 (n_id s)) (peer, n_key_expiry s) m) (zip ?shown peers) []) ?visible s"
    using assms(1) unfolding compute_peer_delta_def
    by (auto simp: compile_nodes_def bind_reads bind_reads_db Let_def bind_eq reads_peer_nodes policy_nodes_def ret_def)
  have "peers = map (peer_of p v) ?shown" using peer_nodes_result [OF peers] by simp
  with ds have "diff_peer_sets (peer_table p v ?shown) ?visible s = (ds, s')" by (simp add: peer_table_def)
  moreover have "?shown = filter (sees ?pol ?d self) (db_list_nodes ?d)"
    by (rule filter_cong) (use shows_peer_iff [OF assms(2-4)] in auto)
  ultimately show "\<exists>visible. diff_peer_sets (peer_table p v (filter (sees ?pol ?d self) (db_list_nodes ?d))) visible s = (ds, s')"
    by auto
  show "q = p" by (rule q)
qed

text \<open>
  C6. A delta keeps a client exact. When the peers of a client are those last sent to its session, then after it
  removes, replaces and patches peers as the delta says, it holds exactly the peers the policy shows it now, in
  their current form; the session remembers the same set, ready for the next delta. The one limit is what a patch
  cannot express: it can set a peer's online state or last-seen time but not clear it.
\<close>

theorem delta_brings_client_up_to_date:
  assumes "compute_peer_delta self s v p = Some (Inr (ds, s'), q)"
    and "db_ok (pl_db p)" "ids_in_range (pl_db p)" "self \<in> set (db_nodes (pl_db p))" "session_ok s"
    and "\<forall>i prev cur. bt_get (spe_peers s) i = Some prev \<and> current_peers p v self i = Some cur \<longrightarrow>
        (pn_online cur = None \<longrightarrow> pn_online prev = None) \<and> (pn_last_seen cur = None \<longrightarrow> pn_last_seen prev = None)"
  shows "client_apply (pds_removed ds) (pds_changed ds) (pds_patches ds) (bt_get (spe_peers s)) = current_peers p v self
     \<and> bt_get (spe_peers s') = current_peers p v self \<and> session_ok s' \<and> q = p"
proof -
  let ?shown = "filter (sees (cc_policy (pl_config p)) (pl_db p) self) (db_list_nodes (pl_db p))"
  let ?nxt = "peer_table p v ?shown"
  note T = peer_table_get [OF distinct_shown [OF assms(2,3)], of p v "sees (cc_policy (pl_config p)) (pl_db p) self"]
  have cur: "map_option fst (bt_get ?nxt i) = current_peers p v self i" for i
    by (simp add: T(2) current_peers_def option.map_comp comp_def)
  have id: "pn_id cur = i" if "bt_get ?nxt i = Some (cur, e)" for i cur e
    using that T(2) [of i] by (auto dest: find_SomeD)
  have "nothing_cleared s ?nxt"
    unfolding nothing_cleared_def using assms(6) cur by (metis fst_conv option.simps(9))
  moreover obtain visible where "diff_peer_sets ?nxt visible s = (ds, s')" using compute_peer_delta_result(1) [OF assms(1-4)] by blast
  ultimately show ?thesis
    using diff_peer_sets_exact [OF assms(5) T(1) id] compute_peer_delta_result(2) [OF assms(1-4)] cur by simp
qed

lemma compute_peer_delta_returns:
  assumes "\<forall>s \<in> set (db_nodes (pl_db p)). routes_known p s"
  shows "\<exists>ds s'. compute_peer_delta self s v p = Some (Inr (ds, s'), p)"
proof -
  have "peer_nodes v (filter P (db_list_nodes (pl_db p))) p = Some (Inr (map (peer_of p v) (filter P (db_list_nodes (pl_db p)))), p)" for P
    by (rule peer_nodes_returns) (use assms in auto)
  then show ?thesis
    by (simp add: compute_peer_delta_def compile_nodes_def bind_reads bind_reads_db Let_def bind_op_def [of "peer_nodes _ _"] ret_def)
qed

theorem delta_brings_client_up_to_date_witness:
  "\<exists>ds s'. compute_peer_delta (sample_node 1 [1] [''100.64.0.1/32'']) session_peers_new 113 sample_pair_plane
       = Some (Inr (ds, s'), sample_pair_plane)
     \<and> map_option pn_key (client_apply (pds_removed ds) (pds_changed ds) (pds_patches ds) Map.empty 2) = Some [2]"
proof -
  let ?p = sample_pair_plane and ?self = "sample_node 1 [1] [''100.64.0.1/32'']"
  have c: "cc_policy (pl_config ?p) = open_policy" "pl_db ?p = sample_db\<lparr>db_nodes := sample_pair\<rparr>"
    by (simp_all add: sample_pair_plane_def)
  have new: "session_ok session_peers_new" "bt_get (spe_peers session_peers_new) = Map.empty"
    by (simp_all add: session_ok_def session_peers_new_def bt_get_def fun_eq_iff)
  obtain ds s' where r: "compute_peer_delta ?self session_peers_new 113 ?p = Some (Inr (ds, s'), ?p)"
    using compute_peer_delta_returns [of ?p ?self session_peers_new 113] sample_pair_routes [OF c(1)] by blast
  have "?self \<in> set (db_nodes (pl_db ?p))" by (simp add: c sample_pair_def)
  with delta_brings_client_up_to_date [OF r] have
    "client_apply (pds_removed ds) (pds_changed ds) (pds_patches ds) Map.empty = current_peers ?p 113 ?self"
    using sample_pair_ok new by (simp add: c)
  moreover have "map_option pn_key (current_peers ?p 113 ?self 2) = Some [2]"
    using sample_pair_sees by (simp add: current_peers_def c peer_of_def peer_wire_def to_proto_def sample_node_def as_u64_def Let_def)
  ultimately show ?thesis using r by auto
qed

end
