(* ===== verification/Control_Checks.thy ===== *)
theory Control_Checks
  imports Control_Delta
begin

text \<open>
  Check-mode SSH: a connection is accepted only on the policy's word or on a recorded approval of that very connection.
\<close>

section \<open>Recent approvals\<close>

definition approval_at :: "world \<Rightarrow> nat \<Rightarrow> nat \<Rightarrow> string \<Rightarrow> string \<Rightarrow> ssh_auth \<Rightarrow> int \<Rightarrow> bool" where
  "approval_at w src dst su lu e at \<longleftrightarrow> same_binding src dst su lu e \<and>
     (\<exists>t. sh_verdict e = SshAccepted t \<and> parse_rfc3339 w t = Some at)"

lemma better_acceptance_cases:
  "better_acceptance w src dst su lu e best = Some (e', at) \<Longrightarrow>
     best = Some (e', at) \<or> e' = e \<and> approval_at w src dst su lu e at"
  by (auto simp: better_acceptance_def approval_at_def split: if_splits ssh_verdict.splits option.splits)

lemma fold_better_acceptance:
  "fold (better_acceptance w src dst su lu) es best = Some (e, at) \<Longrightarrow>
     best = Some (e, at) \<or> e \<in> set es \<and> approval_at w src dst su lu e at"
proof (induction es arbitrary: best)
  case (Cons x es)
  then show ?case using better_acceptance_cases [of w src dst su lu x best e at] by fastforce
qed simp

lemma recent_ssh_acceptance_True:
  assumes "recent_ssh_acceptance w src dst su lu period p = Some (Inr True, q)"
  shows "\<exists>e at. e \<in> set (db_ssh_auths (pl_db p)) \<and> approval_at w src dst su lu e at \<and> now_unix w - as_i64 period \<le> at"
proof -
  let ?best = "fold (better_acceptance w src dst su lu) (db_list_ssh_auths (pl_db p)) None"
  obtain e at where b: "?best = Some (e, at)"
    using assms by (auto simp: recent_ssh_acceptance_def bind_reads_db ret_def split: option.splits)
  then have "now_unix w - as_i64 period \<le> at"
    using assms by (auto simp: recent_ssh_acceptance_def bind_reads_db ret_def split: if_splits)
  moreover have "e \<in> set (db_ssh_auths (pl_db p))" "approval_at w src dst su lu e at"
    using fold_better_acceptance [OF b] by (auto simp: db_list_ssh_auths_def)
  ultimately show ?thesis by blast
qed

section \<open>Waiting for a verdict\<close>

lemma bind_updates_db: "bind_op (updates_db f) g p = g () (p\<lparr>pl_db := f (pl_db p)\<rparr>)"
  by (simp add: bind_op_def updates_db_def updates_def)

definition after_rounds :: "poll list \<Rightarrow> nat \<Rightarrow> db \<Rightarrow> db" where
  "after_rounds rounds k d = fold snd (take k rounds) d"

lemma wait_ssh_verdict_seen:
  assumes "wait_ssh_verdict i rounds p = Some (Inr v, q)"
  shows "\<exists>k < length rounds. \<exists>e. db_get_ssh_auth (after_rounds rounds (Suc k) (pl_db p)) i = Some e
     \<and> sh_verdict e = v \<and> \<not> is_pending v \<and> \<not> is_past (fst (rounds ! k)) (sh_expires_at e) (now_rfc3339 (fst (rounds ! k)))"
  using assms
proof (induction rounds arbitrary: p)
  case (Cons r rounds)
  obtain w f where r: "r = (w, f)" by (cases r)
  let ?p = "p\<lparr>pl_db := f (pl_db p)\<rparr>"
  have step: "wait_ssh_verdict i (r # rounds) p = (case db_get_ssh_auth (f (pl_db p)) i of
      None \<Rightarrow> throw NotFound
    | Some e \<Rightarrow> if is_past w (sh_expires_at e) (now_rfc3339 w)
        then bind_op (updates_db (db_delete_ssh_auth i)) (\<lambda>_. throw NotFound)
        else if \<not> is_pending (sh_verdict e) then ret (sh_verdict e) else wait_ssh_verdict i rounds) ?p"
    by (simp add: r bind_updates_db bind_reads_db)
  then obtain e where e: "db_get_ssh_auth (f (pl_db p)) i = Some e" "\<not> is_past w (sh_expires_at e) (now_rfc3339 w)"
    using Cons.prems by (auto simp: throw_def bind_updates_db split: option.splits if_splits)
  show ?case
  proof (cases "is_pending (sh_verdict e)")
    case True
    then have "wait_ssh_verdict i rounds ?p = Some (Inr v, q)" using Cons.prems step e by simp
    from Cons.IH [OF this] obtain k e' where "k < length rounds" "db_get_ssh_auth (after_rounds rounds (Suc k) (f (pl_db p))) i = Some e'"
      "sh_verdict e' = v" "\<not> is_pending v"
      "\<not> is_past (fst (rounds ! k)) (sh_expires_at e') (now_rfc3339 (fst (rounds ! k)))" by auto
    then show ?thesis by (intro exI [of _ "Suc k"]) (auto simp: after_rounds_def r)
  next
    case False
    then have "v = sh_verdict e" using Cons.prems step e by (simp add: ret_def)
    then show ?thesis using e False by (intro exI [of _ 0]) (auto simp: after_rounds_def r)
  qed
qed (simp add: throw_def)

section \<open>Acceptance\<close>

lemma actions_accept [simp]: "sa_accept accept_action" "\<not> sa_accept (reject_action m)" "\<not> sa_accept ssh_action_default"
  by (simp_all add: accept_action_def reject_action_def ssh_action_default_def)

lemma verdict_action_accept: "verdict_action v p = Some (Inr action, q) \<Longrightarrow> sa_accept action \<Longrightarrow> is_accepted v"
  by (cases v) (auto simp: verdict_action_def ret_def throw_def)

definition policy_rule :: "plane \<Rightarrow> nat \<Rightarrow> nat \<Rightarrow> string \<Rightarrow> compiled_ssh_rule option" where
  "policy_rule p src dst su =
     first_matching_ssh_rule (compile_ssh_policy (cc_policy (pl_config p)) (policy_nodes (pl_db p))) src dst su"

lemma initial_accept:
  assumes "respond_ssh_initial w mk src dst su lu p = Some (Inr action, q)" "sa_accept action"
  shows "\<exists>rule. policy_rule p src dst su = Some rule \<and>
     (csr_action rule = SshAccept \<or>
      (\<exists>period e at. csr_action rule = SshCheck period \<and> e \<in> set (db_ssh_auths (pl_db p))
         \<and> approval_at w src dst su lu e at \<and> now_unix w - as_i64 period \<le> at))"
proof (cases "policy_rule p src dst su")
  case None
  then show ?thesis using assms
    by (auto simp: respond_ssh_initial_def compile_nodes_def policy_nodes_def bind_reads bind_reads_db policy_rule_def ret_def)
next
  case (Some rule)
  show ?thesis
  proof (cases "csr_action rule")
    case (SshCheck period)
    let ?rest = "\<lambda>recent. if recent then ret accept_action else bind_op (prune_ssh_auths w DEFAULT_SSH_AUTH_LIMIT) (\<lambda>_.
        let auth_id = generate_secret w in
        bind_op (updates_db (db_save_ssh_auth
          \<lparr>sh_auth_id = auth_id, sh_src_node_id = src, sh_dst_node_id = dst, sh_ssh_user = su,
           sh_local_user = lu, sh_machine_key = mk, sh_created_at = now_rfc3339 w,
           sh_expires_at = now_plus_seconds w DEFAULT_SSH_AUTH_TTL_SECONDS, sh_verdict = SshPending\<rparr>)) (\<lambda>_.
        ret (ssh_action_default\<lparr>sa_message := ''approval required'',
          sa_hold_and_delegate := build_ssh_action_url (cc_server_url (pl_config p)) src dst auth_id su lu,
          sa_allow_agent_forwarding := True, sa_allow_local_port_forwarding := True,
          sa_allow_remote_port_forwarding := True\<rparr>)))"
    have eq: "respond_ssh_initial w mk src dst su lu p = bind_op (recent_ssh_acceptance w src dst su lu period) ?rest p"
      using Some SshCheck
      by (simp add: respond_ssh_initial_def compile_nodes_def policy_nodes_def bind_reads bind_reads_db policy_rule_def)
    obtain recent p1 where r: "recent_ssh_acceptance w src dst su lu period p = Some (Inr recent, p1)"
        and rest: "?rest recent p1 = Some (Inr action, q)"
      using assms(1) [unfolded eq bind_op_Some [of "recent_ssh_acceptance w src dst su lu period"]] by blast
    have recent
      using rest assms(2) by (auto simp: bind_op_Some ret_def Let_def ssh_action_default_def split: if_splits)
    with r have "recent_ssh_acceptance w src dst su lu period p = Some (Inr True, p1)" by simp
    from recent_ssh_acceptance_True [OF this] show ?thesis using Some SshCheck by blast
  qed (use Some in simp)
qed

lemma followup_accept:
  assumes "respond_ssh_followup w mk src dst i su lu rounds p = Some (Inr action, q)" "sa_accept action"
  shows "\<exists>e. db_get_ssh_auth (pl_db p) i = Some e \<and> \<not> is_past w (sh_expires_at e) (now_rfc3339 w)
     \<and> same_binding src dst su lu e \<and> sh_machine_key e = mk
     \<and> (is_accepted (sh_verdict e) \<or>
        (\<exists>k < length rounds. \<exists>e'. db_get_ssh_auth (after_rounds rounds (Suc k) (pl_db p)) i = Some e' \<and> is_accepted (sh_verdict e')
           \<and> \<not> is_past (fst (rounds ! k)) (sh_expires_at e') (now_rfc3339 (fst (rounds ! k)))))"
proof -
  obtain e where e: "db_get_ssh_auth (pl_db p) i = Some e" "\<not> is_past w (sh_expires_at e) (now_rfc3339 w)"
      "same_binding src dst su lu e" "sh_machine_key e = mk"
    using assms(1)
    by (auto simp: respond_ssh_followup_def bind_reads_db throw_def bind_updates_db split: option.splits if_splits)
  show ?thesis
  proof (cases "sh_verdict e = SshPending")
    case True
    have "bind_op (wait_ssh_verdict i rounds) verdict_action p = Some (Inr action, q)"
      using assms(1) e True by (simp add: respond_ssh_followup_def bind_reads_db)
    then obtain v p1 where v: "wait_ssh_verdict i rounds p = Some (Inr v, p1)" "verdict_action v p1 = Some (Inr action, q)"
      unfolding bind_op_Some by blast
    have "is_accepted v" using verdict_action_accept [OF v(2) assms(2)] .
    then show ?thesis using wait_ssh_verdict_seen [OF v(1)] e by blast
  next
    case False
    then have "verdict_action (sh_verdict e) p = Some (Inr action, q)"
      using assms(1) e by (cases "sh_verdict e") (simp_all add: respond_ssh_followup_def bind_reads_db)
    then show ?thesis using verdict_action_accept assms(2) e by blast
  qed
qed

text \<open>
  C12. No SSH connection is accepted without a reason. When the plane tells a node to accept a connection, the request
  came from the machine of the destination node, and either it was a first request and the policy's first matching
  rule accepts it, or asks for a check and an approval of exactly this connection lies within the check period; or
  it was a followup that names a stored, unexpired check of exactly this connection, made by the same machine, that
  was approved before or while waiting.
\<close>

theorem ssh_accept_has_reason:
  assumes "handle_ssh_action w mk src dst auth su lu rounds p = Some (Inr action, q)" "sa_accept action"
  shows "(\<exists>n. db_get_node_by_id (pl_db p) (as_i64 dst) = Some n \<and> n_machine_key n = mk)
   \<and> (case auth of
       None \<Rightarrow> (\<exists>rule. policy_rule p src dst su = Some rule \<and>
          (csr_action rule = SshAccept \<or>
           (\<exists>period e at. csr_action rule = SshCheck period \<and> e \<in> set (db_ssh_auths (pl_db p))
              \<and> approval_at w src dst su lu e at \<and> now_unix w - as_i64 period \<le> at)))
     | Some i \<Rightarrow> (\<exists>e. db_get_ssh_auth (pl_db p) i = Some e \<and> \<not> is_past w (sh_expires_at e) (now_rfc3339 w)
          \<and> same_binding src dst su lu e \<and> sh_machine_key e = mk
          \<and> (is_accepted (sh_verdict e) \<or>
             (\<exists>k < length rounds. \<exists>e'. db_get_ssh_auth (after_rounds rounds (Suc k) (pl_db p)) i = Some e'
                \<and> is_accepted (sh_verdict e')
                \<and> \<not> is_past (fst (rounds ! k)) (sh_expires_at e') (now_rfc3339 (fst (rounds ! k)))))))"
proof -
  obtain n where n: "db_get_node_by_id (pl_db p) (as_i64 dst) = Some n" "n_machine_key n = mk"
    using assms(1) by (auto simp: handle_ssh_action_def bind_reads_db throw_def split: option.splits if_splits)
  then have "(case auth of Some i \<Rightarrow> respond_ssh_followup w mk src dst i su lu rounds
      | None \<Rightarrow> respond_ssh_initial w mk src dst su lu) p = Some (Inr action, q)"
    using assms(1) by (auto simp: handle_ssh_action_def bind_reads_db throw_def split: option.splits)
  then show ?thesis
    using n initial_accept [OF _ assms(2), of w mk src dst su lu p q] followup_accept [OF _ assms(2), of w mk src dst _ su lu rounds p q]
    by (cases auth) auto
qed

definition sample_check :: ssh_auth where
  "sample_check = \<lparr>sh_auth_id = ''a'', sh_src_node_id = 1, sh_dst_node_id = 2, sh_ssh_user = ''root'', sh_local_user = ''root'',
     sh_machine_key = [2], sh_created_at = ''2026-01-01T00:00:00Z'', sh_expires_at = ''2026-01-01T00:15:00.000Z'',
     sh_verdict = SshPending\<rparr>"

definition approve_it :: "db \<Rightarrow> db" where
  "approve_it = db_save_ssh_auth (sample_check\<lparr>sh_verdict := SshAccepted ''2026-01-01T00:00:00Z''\<rparr>)"

theorem ssh_accept_has_reason_witness:
  "let p = sample_pair_plane\<lparr>pl_db := db_save_ssh_auth sample_check (pl_db sample_pair_plane)\<rparr> in
   \<exists>e. db_get_ssh_auth (pl_db p) ''a'' = Some e \<and> sh_machine_key e = [2] \<and> same_binding 1 2 ''root'' ''root'' e"
proof -
  let ?p = "sample_pair_plane\<lparr>pl_db := db_save_ssh_auth sample_check (pl_db sample_pair_plane)\<rparr>"
  have time: "\<not> is_past sample_world ''2026-01-01T00:15:00.000Z'' (now_rfc3339 sample_world)" by code_simp
  have fields: "sh_expires_at sample_check = ''2026-01-01T00:15:00.000Z''" "sh_verdict sample_check = SshPending"
    "sh_machine_key sample_check = [2]" "same_binding 1 2 ''root'' ''root'' sample_check"
    by (simp_all add: sample_check_def same_binding_def)
  have get: "db_get_ssh_auth (pl_db ?p) ''a'' = Some sample_check"
    using ssha.get_put [of sample_check "pl_db sample_pair_plane" "''a''"] by (simp add: sample_check_def)
  have nodes: "db_get_node_by_id (pl_db ?p) (as_i64 2) = Some (sample_node 2 [2] [''100.64.0.2/32''])"
    "db_get_node_by_id (pl_db ?p) (as_i64 1) = Some (sample_node 1 [1] [''100.64.0.1/32''])"
    by (simp_all add: db_get_node_by_id_def sample_pair_plane_def sample_pair_def sample_node_def as_i64_def)
  have get': "db_get_ssh_auth (approve_it (pl_db ?p)) ''a'' = Some (sample_check\<lparr>sh_verdict := SshAccepted ''2026-01-01T00:00:00Z''\<rparr>)"
    using ssha.get_put [of "sample_check\<lparr>sh_verdict := SshAccepted ''2026-01-01T00:00:00Z''\<rparr>" "pl_db ?p" "''a''"]
    by (simp add: approve_it_def sample_check_def)
  have "wait_ssh_verdict ''a'' [(sample_world, approve_it)] ?p
      = Some (Inr (SshAccepted ''2026-01-01T00:00:00Z''), ?p\<lparr>pl_db := approve_it (pl_db ?p)\<rparr>)"
    using get' time by (simp add: bind_updates_db bind_reads_db ret_def sample_check_def)
  then have "respond_ssh_followup sample_world [2] 1 2 ''a'' ''root'' ''root'' [(sample_world, approve_it)] ?p
      = Some (Inr accept_action, ?p\<lparr>pl_db := approve_it (pl_db ?p)\<rparr>)"
    using get time fields
    by (simp add: respond_ssh_followup_def bind_reads_db bind_op_def [of "wait_ssh_verdict _ _"] verdict_action_def ret_def
        del: wait_ssh_verdict.simps)
  then have "handle_ssh_action sample_world [2] 1 2 (Some ''a'') ''root'' ''root'' [(sample_world, approve_it)] ?p
      = Some (Inr accept_action, ?p\<lparr>pl_db := approve_it (pl_db ?p)\<rparr>)"
    using nodes by (simp add: handle_ssh_action_def bind_reads_db sample_node_def)
  from ssh_accept_has_reason [OF this] show ?thesis by (auto simp: Let_def)
qed

end
