(* ===== verification/Server_Proxy.thy ===== *)
theory Server_Proxy
  imports Rust_Net
begin

text \<open>
  Model of \<^verbatim>\<open>crabscale-server/src/proxy.rs\<close>: which address counts as the client's behind a trusted reverse
  proxy. The networks are those of the \<^verbatim>\<open>ipnet\<close> crate, given by their parser and their containment test.
  A header map is the list of its entries in order, by lower-case name, with the text of the value when it
  is visible ASCII.
\<close>

section \<open>Headers\<close>

type_synonym headers = "(string \<times> string option) list"

definition get_all :: "headers \<Rightarrow> string \<Rightarrow> string option list" where
  "get_all hs name = map snd (filter (\<lambda>h. fst h = name) hs)"

definition header_str :: "headers \<Rightarrow> string \<Rightarrow> string option" where
  "header_str hs name = (case get_all hs name of [] \<Rightarrow> None | v # _ \<Rightarrow> v)"

definition X_FORWARDED_FOR :: string where "X_FORWARDED_FOR = ''x-forwarded-for''"
definition X_REAL_IP :: string where "X_REAL_IP = ''x-real-ip''"

definition parse_parts :: "string \<Rightarrow> ip_addr list" where
  "parse_parts value = List.map_filter (\<lambda>part. parse_ip (trim part)) (split_char CHR '','' value)"

definition forwarded_chain :: "headers \<Rightarrow> ip_addr list" where
  "forwarded_chain hs = concat (map (\<lambda>v. case v of None \<Rightarrow> [] | Some value \<Rightarrow> parse_parts value) (get_all hs X_FORWARDED_FOR))"

definition real_ip :: "headers \<Rightarrow> ip_addr option" where
  "real_ip hs = Option.bind (header_str hs X_REAL_IP) (\<lambda>v. parse_ip (trim v))"

section \<open>Trusted proxies\<close>

record 'n ipnet =
  net_parse :: "string \<Rightarrow> 'n option"
  net_contains :: "'n \<Rightarrow> ip_addr \<Rightarrow> bool"

text \<open>The error of a network that does not parse names it.\<close>

datatype proxy_error = InvalidTrustedProxy string

fun from_cidrs :: "'n ipnet \<Rightarrow> string list \<Rightarrow> (proxy_error, 'n list) result" where
  "from_cidrs nt [] = Ok []"
| "from_cidrs nt (c # cs) =
     (let cidr = trim c in
      if cidr = [] then from_cidrs nt cs
      else case net_parse nt cidr of
        None \<Rightarrow> Err (InvalidTrustedProxy cidr)
      | Some net \<Rightarrow> bind_res (from_cidrs nt cs) (\<lambda>nets. Ok (net # nets)))"

definition trusts :: "'n ipnet \<Rightarrow> 'n list \<Rightarrow> ip_addr \<Rightarrow> bool" where
  "trusts nt networks ip \<longleftrightarrow> list_ex (\<lambda>net. net_contains nt net ip) networks"

definition resolve_client_ip :: "'n ipnet \<Rightarrow> 'n list \<Rightarrow> ip_addr \<Rightarrow> headers \<Rightarrow> ip_addr" where
  "resolve_client_ip nt networks peer hs =
     (if networks = [] \<or> \<not> trusts nt networks peer then peer
      else let chain = forwarded_chain hs in
        case find (\<lambda>ip. \<not> trusts nt networks ip) (rev chain) of
          Some found \<Rightarrow> found
        | None \<Rightarrow>
            (case chain of
               first # _ \<Rightarrow> first
             | [] \<Rightarrow> (case real_ip hs of Some ip \<Rightarrow> ip | None \<Rightarrow> peer)))"

section \<open>Reading a header that proxies appended to\<close>

text \<open>Printable ASCII without the space: text that trimming leaves alone.\<close>

definition graphic :: "char \<Rightarrow> bool" where
  "graphic c \<longleftrightarrow> 33 \<le> (of_char c :: nat) \<and> of_char c \<le> (126 :: nat)"

lemma graphic_not_ws: "graphic c \<Longrightarrow> ws_head (c # r) = None"
proof -
  assume g: "graphic c"
  have "\<not> is_ws1 c" "c \<noteq> CHR 0xC2" using g by (auto simp: is_ws1_def graphic_def)
  moreover have "\<not> is_ws3 (byte_of_char c) b d" for b d
  proof -
    have "unat (byte_of_char c) \<le> 126"
      using g by (simp add: graphic_def byte_of_char_def unat_of_nat take_bit_nat_eq_self)
    then show ?thesis by (auto simp: is_ws3_def)
  qed
  ultimately show ?thesis by (auto split: list.splits)
qed

lemma graphic_no_ws: "list_all graphic s \<Longrightarrow> ws_head s = None"
  by (cases s) (simp_all add: graphic_not_ws del: ws_head.simps(2))

lemma trim_start_graphic: "list_all graphic s \<Longrightarrow> trim_start s = s"
  by (simp add: trim_start.simps [of s] graphic_no_ws)

lemma trim_end_graphic:
  assumes "list_all graphic s"
  shows "trim_end s = s"
proof -
  have "list_all graphic (drop k s)" for k using assms by (auto simp: list_all_iff dest: in_set_dropD)
  then have "ws_head (drop k s) = None" for k by (rule graphic_no_ws)
  then show ?thesis by (simp add: trim_end.simps [of s] ws_last_def)
qed

lemma trim_graphic [simp]: "list_all graphic s \<Longrightarrow> trim s = s"
  by (simp add: trim_def trim_start_graphic trim_end_graphic)

lemma trim_space_graphic [simp]:
  assumes "list_all graphic s"
  shows "trim (CHR '' '' # s) = s"
proof -
  have "trim_start (CHR '' '' # s) = trim_start s"
    by (subst trim_start.simps) (simp add: is_ws1_def)
  then show ?thesis using assms by (simp add: trim_def trim_start_graphic trim_end_graphic)
qed

definition addr_char :: "char \<Rightarrow> bool" where
  "addr_char c \<longleftrightarrow> is_digit 16 c \<or> c = CHR ''.'' \<or> c = CHR '':''"

lemma is_digit_16: "is_digit radix c \<Longrightarrow> radix \<le> 16 \<Longrightarrow> is_digit 16 c"
  unfolding is_digit_def to_digit_def Let_def by (simp split: if_split_asm)

lemma addr_char_digits: "2 \<le> radix \<Longrightarrow> radix \<le> 16 \<Longrightarrow> list_all addr_char (num_str radix n)"
  by (rule list.pred_mono_strong [OF num_str_digits]) (auto simp: addr_char_def intro: is_digit_16)

lemma addr_char_join: "list_all addr_char sep \<Longrightarrow> \<forall>x\<in>set xs. list_all addr_char x \<Longrightarrow> list_all addr_char (join sep xs)"
  by (induction sep xs rule: join.induct) auto

lemma show_ip_chars: "list_all addr_char (show_ip ip)"
proof -
  have v4: "list_all addr_char (show_ipv4 a)" for a
    unfolding show_ipv4_def by (rule addr_char_join) (auto simp: addr_char_digits, simp add: addr_char_def)
  have "list_all addr_char (fmt_subslice gs)" for gs
    unfolding fmt_subslice_def by (rule addr_char_join) (auto simp: addr_char_digits, simp add: addr_char_def)
  moreover have "list_all addr_char ''::ffff:''" "list_all addr_char ''::''" by (simp_all add: addr_char_def is_digit_def to_digit_def)
  ultimately show ?thesis using v4 by (cases ip) (auto simp: show_ipv6_def Let_def split: prod.splits)
qed

lemma digit_graphic: "is_digit 16 c \<Longrightarrow> graphic c \<and> c \<noteq> CHR '',''"
  unfolding is_digit_def to_digit_def Let_def graphic_def by (auto split: if_split_asm)

lemma addr_char_graphic: "addr_char c \<Longrightarrow> graphic c" "addr_char c \<Longrightarrow> c \<noteq> CHR '',''"
  using digit_graphic [of c] by (auto simp: addr_char_def graphic_def)

lemma show_ip_graphic [simp]: "list_all graphic (show_ip ip)" "CHR '','' \<notin> set (show_ip ip)"
  using show_ip_chars [of ip] addr_char_graphic by (auto simp: list_all_iff)

lemma split_char_append: "split_char c (a @ c # b) = split_char c a @ split_char c b"
  by (induction a) (auto split: list.splits)

lemma split_char_none: "c \<notin> set a \<Longrightarrow> split_char c a = [a]"
  by (induction a) auto

text \<open>
  What a proxy appends is read back as the last entry, whatever was written before: a spelling of an address the parser
  accepts, made of printable characters other than the comma.
\<close>

definition spells :: "string \<Rightarrow> ip_addr \<Rightarrow> bool" where
  "spells t ip \<longleftrightarrow> list_all graphic t \<and> CHR '','' \<notin> set t \<and> parse_ip t = Some ip"

lemma show_ip_spells [simp]: "spells (show_ip ip) ip"
  by (simp add: spells_def)

lemma parse_parts_spelled: "spells t ip \<Longrightarrow> parse_parts t = [ip]"
  by (simp add: spells_def parse_parts_def split_char_none map_filter_def)

lemma parse_parts_appended:
  assumes "spells t ip"
  shows "parse_parts (v @ '', '' @ t) = parse_parts v @ [ip]"
proof -
  have "split_char CHR '','' (v @ '', '' @ t) = split_char CHR '','' v @ [CHR '' '' # t]"
    using split_char_append [of "CHR '',''" v "CHR '' '' # t"] assms by (simp add: spells_def split_char_none)
  then show ?thesis using assms by (simp add: spells_def parse_parts_def map_filter_def)
qed

text \<open>
  How the values of \<^verbatim>\<open>X-Forwarded-For\<close> evolve on the way from a client, which sends any values or none, through proxies that
  each record the address they saw: as a value of its own, or at the end of the last value, when that is text.
\<close>

inductive forwards :: "string option list \<Rightarrow> ip_addr list \<Rightarrow> string option list \<Rightarrow> bool" for sent where
  sent: "forwards sent [] sent"
| add_value: "forwards sent ips vs \<Longrightarrow> spells t ip \<Longrightarrow> forwards sent (ips @ [ip]) (vs @ [Some t])"
| extend_value: "forwards sent ips (vs @ [Some v]) \<Longrightarrow> spells t ip \<Longrightarrow> forwards sent (ips @ [ip]) (vs @ [Some (v @ '', '' @ t)])"

definition chain_of :: "string option list \<Rightarrow> ip_addr list" where
  "chain_of vs = concat (map (\<lambda>v. case v of None \<Rightarrow> [] | Some value \<Rightarrow> parse_parts value) vs)"

lemma forwards_chain: "forwards sent ips vs \<Longrightarrow> chain_of vs = chain_of sent @ ips"
proof (induction rule: forwards.induct)
  case (extend_value ips vs v t ip)
  then have "chain_of vs @ parse_parts v = chain_of sent @ ips" by (simp add: chain_of_def)
  then show ?case using parse_parts_appended [OF extend_value(2), of v] by (simp add: chain_of_def)
qed (simp_all add: chain_of_def parse_parts_spelled)

lemma find_rev_append:
  "\<not> P x \<Longrightarrow> list_all P ys \<Longrightarrow> find (\<lambda>z. \<not> P z) (rev (xs @ x # ys)) = Some x"
  by (induction ys rule: rev_induct) auto

text \<open>
  C39. The address of a client cannot be forged. A peer that is not a trusted proxy is always its own client,
  whatever headers it sends. Behind trusted proxies, each of which records the address it saw in \<^verbatim>\<open>X-Forwarded-For\<close>, as a
  new value or at the end of the last value when that is text, the address resolved is the one the outermost trusted proxy
  saw, provided it is not itself a trusted address, whatever values of \<^verbatim>\<open>X-Forwarded-For\<close> the client itself sent, if
  any, and whatever other headers it sent.
\<close>

theorem client_ip_unforgeable:
  "(\<not> trusts nt networks peer \<longrightarrow> resolve_client_ip nt networks peer hs = peer) \<and>
   (trusts nt networks peer \<and> forwards sent (client # hops) (get_all hs X_FORWARDED_FOR) \<and>
    \<not> trusts nt networks client \<and> list_all (trusts nt networks) hops \<longrightarrow>
      resolve_client_ip nt networks peer hs = client)"
proof (intro conjI impI)
  assume h: "trusts nt networks peer \<and> forwards sent (client # hops) (get_all hs X_FORWARDED_FOR) \<and>
    \<not> trusts nt networks client \<and> list_all (trusts nt networks) hops"
  then have "forwarded_chain hs = chain_of sent @ client # hops"
    using forwards_chain [of sent "client # hops"] by (simp add: forwarded_chain_def chain_of_def)
  with h find_rev_append [of "trusts nt networks" client hops "chain_of sent"]
  show "resolve_client_ip nt networks peer hs = client"
    by (auto simp: resolve_client_ip_def Let_def trusts_def)
qed (simp add: resolve_client_ip_def)

definition single_hosts :: "ip_addr ipnet" where
  "single_hosts = \<lparr>net_parse = parse_ip, net_contains = (=)\<rparr>"

theorem client_ip_unforgeable_witness:
  "resolve_client_ip single_hosts [V4 0x7F000001] (V4 0x7F000001)
     [(X_FORWARDED_FOR, Some (show_ip (V4 0xC6336407)))] = V4 0xC6336407
   \<and> resolve_client_ip single_hosts [V4 0x7F000001] (V4 0x7F000001)
     [(X_FORWARDED_FOR, Some (''198.51.100.9'' @ '', '' @ show_ip (V4 0xC6336407)))] = V4 0xC6336407"
proof -
  let ?hs = "\<lambda>v. [(X_FORWARDED_FOR, Some v)]" and ?c = "V4 0xC6336407"
  have "forwards [] ([] @ [?c]) ([] @ [Some (show_ip ?c)])"
    by (rule forwards.add_value [OF forwards.sent show_ip_spells])
  moreover have "forwards [Some ''198.51.100.9''] ([] @ [?c]) ([] @ [Some (''198.51.100.9'' @ '', '' @ show_ip ?c)])"
    by (rule forwards.extend_value [OF _ show_ip_spells]) (use forwards.sent [of "[Some ''198.51.100.9'']"] in simp)
  ultimately show ?thesis
    using client_ip_unforgeable [of single_hosts "[V4 0x7F000001]" "V4 0x7F000001" "?hs (show_ip ?c)" "[]" ?c "[]"]
      client_ip_unforgeable [of single_hosts "[V4 0x7F000001]" "V4 0x7F000001"
        "?hs (''198.51.100.9'' @ '', '' @ show_ip ?c)" "[Some ''198.51.100.9'']" ?c "[]"]
    by (simp add: trusts_def single_hosts_def get_all_def del: show_ip.simps)
qed

text \<open>
  A value that is not text is skipped as a whole. A proxy that extends such a value, sent by the client, is not heard, and
  when it passes \<^verbatim>\<open>X-Real-IP\<close> on unchanged, the client chooses the address that counts as its own.
\<close>

lemma opaque_value_hides_proxy:
  assumes "trusts nt networks peer" "get_all hs X_FORWARDED_FOR = [None]"
    "get_all hs X_REAL_IP = [Some (show_ip forged)]"
  shows "resolve_client_ip nt networks peer hs = forged"
proof -
  have "forwarded_chain hs = []" by (simp add: forwarded_chain_def assms(2))
  moreover have "real_ip hs = Some forged" by (simp add: real_ip_def header_str_def assms(3))
  ultimately show ?thesis using assms(1) by (auto simp: resolve_client_ip_def Let_def trusts_def)
qed

end
