(* ===== verification/Server_Query.thy ===== *)
theory Server_Query
  imports Control_Ssh Proto_Key Server_Proxy
begin

text \<open>
  The text the server reads from and writes into URLs and pages: paths, query strings and their percent
  encoding, and HTML escaping, of \<^verbatim>\<open>crabscale-server/src/router.rs\<close> and \<^verbatim>\<open>http.rs\<close>.
\<close>

section \<open>Lossy decoding\<close>

text \<open>
  \<^verbatim>\<open>String::from_utf8_lossy\<close>: the length of the sequence at the front and whether it is well formed; an
  ill-formed sequence is the longest prefix of a well-formed one and becomes one replacement character.
\<close>

definition utf8_second :: "byte \<Rightarrow> byte \<Rightarrow> bool" where
  "utf8_second a b \<longleftrightarrow>
     (if a = 0xE0 then in_range 0xA0 0xBF b
      else if a = 0xED then in_range 0x80 0x9F b
      else if a = 0xF0 then in_range 0x90 0xBF b
      else if a = 0xF4 then in_range 0x80 0x8F b
      else utf8_cont b)"

fun utf8_chunk :: "bytes \<Rightarrow> nat \<times> bool" where
  "utf8_chunk [] = (0, True)"
| "utf8_chunk (a # r) =
     (if a < 0x80 then (1, True)
      else if in_range 0xC2 0xDF a then (case r of b # _ \<Rightarrow> if utf8_cont b then (2, True) else (1, False) | [] \<Rightarrow> (1, False))
      else if in_range 0xE0 0xEF a then
        (case r of
           b # r1 \<Rightarrow> if utf8_second a b
             then (case r1 of c # _ \<Rightarrow> if utf8_cont c then (3, True) else (2, False) | [] \<Rightarrow> (2, False))
             else (1, False)
         | [] \<Rightarrow> (1, False))
      else if in_range 0xF0 0xF4 a then
        (case r of
           b # r1 \<Rightarrow> if utf8_second a b
             then (case r1 of
                c # r2 \<Rightarrow> if utf8_cont c
                  then (case r2 of d # _ \<Rightarrow> if utf8_cont d then (4, True) else (3, False) | [] \<Rightarrow> (3, False))
                  else (2, False)
              | [] \<Rightarrow> (2, False))
             else (1, False)
         | [] \<Rightarrow> (1, False))
      else (1, False))"

lemma utf8_chunk_pos: "fst (utf8_chunk (a # r)) > 0"
  by (auto split: list.splits)

function utf8_lossy :: "bytes \<Rightarrow> bytes" where
  "utf8_lossy [] = []"
| "utf8_lossy (a # r) =
     (let (n, ok) = utf8_chunk (a # r) in
      (if ok then take n (a # r) else [0xEF, 0xBF, 0xBD]) @ utf8_lossy (drop n (a # r)))"
  by pat_completeness auto
termination
proof (relation "measure length")
  fix a r and x :: "nat \<times> bool" and n ok
  assume "x = utf8_chunk (a # r)" "(n, ok) = x"
  then have "0 < n" using utf8_chunk_pos [of a r] by (metis fst_conv)
  then show "(drop n (a # r), a # r) \<in> measure length" by simp
qed simp

lemma utf8_second_3: "in_range 0xE0 0xEF a \<Longrightarrow>
    utf8_second a b \<longleftrightarrow> (if a = 0xE0 then in_range 0xA0 0xBF b else if a = 0xED then in_range 0x80 0x9F b else utf8_cont b)"
  by (auto simp: utf8_second_def in_range_def word_le_nat_alt)

lemma utf8_second_4: "in_range 0xF0 0xF4 a \<Longrightarrow>
    utf8_second a b \<longleftrightarrow> (if a = 0xF0 then in_range 0x90 0xBF b else if a = 0xF4 then in_range 0x80 0x8F b else utf8_cont b)"
  by (auto simp: utf8_second_def in_range_def word_le_nat_alt)

lemma utf8_chunk_valid:
  assumes "utf8_valid (a # r)"
  shows "\<exists>n. utf8_chunk (a # r) = (n, True) \<and> utf8_valid (drop n (a # r))"
proof -
  consider (one) "a < 0x80" | (two) "\<not> a < 0x80" "in_range 0xC2 0xDF a"
    | (three) "\<not> a < 0x80" "\<not> in_range 0xC2 0xDF a" "in_range 0xE0 0xEF a"
    | (four) "\<not> a < 0x80" "\<not> in_range 0xC2 0xDF a" "\<not> in_range 0xE0 0xEF a" by blast
  then show ?thesis
  proof cases
    case one
    then show ?thesis using assms by simp
  next
    case two
    then show ?thesis using assms by (cases r) simp_all
  next
    case three
    from assms three obtain b c r2 where "r = b # c # r2" by (cases r; cases "tl r") auto
    then show ?thesis using assms three by (simp add: utf8_second_3)
  next
    case four
    from assms four obtain b c d r3 where "r = b # c # d # r3" by (cases r; cases "tl r"; cases "tl (tl r)") auto
    then show ?thesis using assms four by (simp add: utf8_second_4)
  qed
qed

lemma utf8_lossy_valid: "utf8_valid bs \<Longrightarrow> utf8_lossy bs = bs"
proof (induction bs rule: utf8_lossy.induct)
  case (2 a r)
  from utf8_chunk_valid [OF "2.prems"] obtain n where n: "utf8_chunk (a # r) = (n, True)" "utf8_valid (drop n (a # r))" by blast
  have "utf8_lossy (drop n (a # r)) = drop n (a # r)" using "2.IH" [OF refl] n by auto
  then show ?case by (simp add: n(1) del: utf8_chunk.simps)
qed simp

section \<open>Queries\<close>

definition hex_value :: "byte \<Rightarrow> byte option" where
  "hex_value b =
     (if 0x30 \<le> b \<and> b \<le> 0x39 then Some (b - 0x30)
      else if 0x61 \<le> b \<and> b \<le> 0x66 then Some (b - 0x61 + 10)
      else if 0x41 \<le> b \<and> b \<le> 0x46 then Some (b - 0x41 + 10)
      else None)"

fun percent_bytes :: "bytes \<Rightarrow> bytes" where
  "percent_bytes (p # h # l # r) =
     (if p = 0x25 then
        (case (hex_value h, hex_value l) of
           (Some hi, Some lo) \<Rightarrow> (push_bit 4 hi OR lo) # percent_bytes r
         | _ \<Rightarrow> p # percent_bytes (h # l # r))
      else (if p = 0x2B then 0x20 else p) # percent_bytes (h # l # r))"
| "percent_bytes r = map (\<lambda>p. if p = 0x2B then 0x20 else p) r"

definition percent_decode :: "string \<Rightarrow> string" where
  "percent_decode input = of_bytes (utf8_lossy (percent_bytes (as_bytes input)))"

fun parse_pairs :: "string list \<Rightarrow> (string, string) btree \<Rightarrow> (string, string) btree" where
  "parse_pairs [] m = m"
| "parse_pairs (pair # pairs) m =
     (if pair = [] then parse_pairs pairs m
      else let (key, value) = (case split_once CHR ''='' pair of Some kv \<Rightarrow> kv | None \<Rightarrow> (pair, [])) in
        parse_pairs pairs (bt_insert (percent_decode key) (percent_decode value) m))"

definition parse_query :: "string \<Rightarrow> (string, string) btree" where
  "parse_query query = parse_pairs (split_char CHR ''&'' query) []"

text \<open>\<^verbatim>\<open>query_param\<close> gives up at the first pair without an equals sign.\<close>

fun find_param :: "string list \<Rightarrow> string \<Rightarrow> string option" where
  "find_param [] name = None"
| "find_param (pair # pairs) name =
     (case split_once CHR ''='' pair of
        None \<Rightarrow> None
      | Some (k, v) \<Rightarrow> if k = name then Some v else find_param pairs name)"

definition query_param :: "string option \<Rightarrow> string \<Rightarrow> string option" where
  "query_param query name = Option.bind query (\<lambda>q. find_param (split_char CHR ''&'' q) name)"

lemma query_param_stops: "query_param (Some ''debug&v=130'') ''v'' = None"
  by code_simp

section \<open>Paths\<close>

definition parse_u64 :: "string \<Rightarrow> nat option" where
  "parse_u64 s = parse_unsigned (2 ^ 64 - 1) s"

definition parse_ssh_action_path :: "string \<Rightarrow> (nat \<times> nat) option" where
  "parse_ssh_action_path path =
     (let path = hd (split_char CHR ''?'' path) in
      Option.bind (strip_prefix path ''/machine/ssh/action/'') (\<lambda>rest.
      Option.bind (split_once_str ''/to/'' rest) (\<lambda>(src, to).
      Option.bind (parse_u64 src) (\<lambda>src.
      Option.bind (parse_u64 to) (\<lambda>dst. Some (src, dst))))))"

definition register_auth_id :: "string \<Rightarrow> string option" where
  "register_auth_id path =
     Option.bind (strip_prefix path ''/register/'') (\<lambda>rest.
       if rest = [] \<or> CHR ''/'' \<in> set rest then None else Some rest)"

section \<open>Pages\<close>

definition escape_char :: "char \<Rightarrow> string" where
  "escape_char c =
     (if c = CHR ''&'' then ''&amp;''
      else if c = CHR ''<'' then ''&lt;''
      else if c = CHR ''>'' then ''&gt;''
      else if c = CHR 0x22 then ''&quot;''
      else if c = CHR 0x27 then ''&#39;''
      else [c])"

definition escape_html :: "string \<Rightarrow> string" where
  "escape_html text = concat (map escape_char text)"

text \<open>Escaped text opens no tag and closes no attribute, and nothing of it is lost.\<close>

lemma escape_html_inert: "set (escape_html s) \<inter> {CHR ''<'', CHR ''>'', CHR 0x22, CHR 0x27} = {}"
  by (auto simp: escape_html_def escape_char_def split: if_splits)

lemma escape_html_inj: "escape_html s = escape_html t \<Longrightarrow> s = t"
proof (induction s arbitrary: t)
  case Nil
  then show ?case by (cases t) (auto simp: escape_html_def escape_char_def split: if_splits)
next
  case (Cons c s)
  show ?case
  proof (cases t)
    case Nil
    then show ?thesis using Cons.prems by (auto simp: escape_html_def escape_char_def split: if_splits)
  next
    case (Cons d u)
    then have "escape_char c @ escape_html s = escape_char d @ escape_html u"
      using Cons.prems by (simp add: escape_html_def)
    then have "c = d \<and> escape_html s = escape_html u"
      by (simp add: escape_char_def split: if_splits)
    then show ?thesis using Cons Cons.IH [of u] by simp
  qed
qed

section \<open>The SSH followup is read back\<close>

lemma hex_value_nibble: "hex_value b = hex_nibble b"
  by (simp add: hex_value_def hex_nibble_def)

lemma upper_hex_value: "n < 16 \<Longrightarrow> hex_value (byte_of_char (upper_hex n)) = Some (of_nat n)"
proof -
  assume n: "n < 16"
  have "to_digit 16 (upper_hex n) = Some n" using n by (auto simp: upper_hex_def to_digit_def)
  then show ?thesis by (simp add: hex_value_nibble hex_nibble_to_digit)
qed

lemma nibbles_split: "push_bit 4 (word_of_nat (unat b div 16)) OR word_of_nat (unat b mod 16) = (b :: byte)"
proof -
  have "unat b div 16 = unat (drop_bit 4 b)" by (simp add: drop_bit_eq_div unat_div)
  moreover have "unat b mod 16 = unat (b AND 0x0F)"
  proof -
    have "b AND 0x0F = take_bit 4 b" by (simp add: take_bit_eq_mask mask_eq_exp_minus_1 and.commute)
    then show ?thesis by (simp add: take_bit_eq_mod unat_mod)
  qed
  ultimately show ?thesis by (simp add: nibbles_join)
qed

lemma as_bytes_append: "as_bytes (a @ b) = as_bytes a @ as_bytes b"
  by (simp add: as_bytes_def)

lemma percent_bytes_plain: "p \<noteq> 0x25 \<Longrightarrow> percent_bytes (p # r) = (if p = 0x2B then 0x20 else p) # percent_bytes r"
  by (cases r; cases "tl r") auto

lemma percent_bytes_escape: "percent_bytes (as_bytes (escape_byte b) @ r) = b # percent_bytes r"
proof -
  consider (space) "b = 0x20" | (plain) "b \<noteq> 0x20" "is_unreserved b" | (coded) "b \<noteq> 0x20" "\<not> is_unreserved b" by blast
  then show ?thesis
  proof cases
    case space
    then show ?thesis by (simp add: escape_byte_def as_bytes_def byte_of_char_def percent_bytes_plain)
  next
    case plain
    moreover have "\<not> is_unreserved 0x25" "\<not> is_unreserved 0x2B" by code_simp+
    ultimately have "b \<noteq> 0x25" "b \<noteq> 0x2B" by auto
    then show ?thesis using plain by (simp add: escape_byte_def as_bytes_def byte_of_char_def [of "CHR '' ''"] percent_bytes_plain)
  next
    case coded
    have "unat b div 16 < 16" "unat b mod 16 < 16" using unsigned_less [of b, where ?'a = nat] by auto
    then show ?thesis using coded
      by (simp add: escape_byte_def as_bytes_def byte_of_char_def [of "CHR '' ''"] byte_of_char_def [of "CHR ''%''"] upper_hex_value nibbles_split)
  qed
qed

lemma percent_bytes_url: "percent_bytes (as_bytes (url_query_escape s)) = as_bytes s"
proof -
  have "percent_bytes (as_bytes (concat (map escape_byte bs))) = bs" for bs
    by (induction bs) (simp_all add: as_bytes_append percent_bytes_escape, simp add: as_bytes_def)
  then show ?thesis by (simp add: url_query_escape_def)
qed

lemma percent_decode_url [simp]: "valid_str s \<Longrightarrow> percent_decode (url_query_escape s) = s"
  by (simp add: percent_decode_def percent_bytes_url utf8_lossy_valid valid_str_def)

text \<open>Text that needs no escaping, such as the identifiers the server draws.\<close>

definition plain_text :: "string \<Rightarrow> bool" where
  "plain_text s \<longleftrightarrow> list_all (\<lambda>c. is_unreserved (byte_of_char c) \<and> c \<noteq> CHR '' '' \<and> byte_of_char c < 0x80) s"

lemma plain_text_escape: "plain_text s \<Longrightarrow> url_query_escape s = s \<and> valid_str s"
proof -
  assume p: "plain_text s"
  have "byte_of_char c \<noteq> byte_of_char CHR '' ''" if "c \<noteq> CHR '' ''" for c
    using that by (metis char_of_byte_of_char)
  then have "url_query_escape s = s" using p
    by (induction s) (auto simp: url_query_escape_def plain_text_def escape_byte_def as_bytes_def)
  moreover have "valid_str s" unfolding valid_str_def as_bytes_def
    using p by (intro utf8_valid_ascii) (auto simp: plain_text_def list_all_iff)
  ultimately show ?thesis ..
qed

lemma percent_decode_plain: "plain_text s \<Longrightarrow> percent_decode s = s"
  using percent_decode_url [of s] plain_text_escape [of s] by simp

lemma escape_no_amp: "CHR ''&'' \<notin> set (url_query_escape s)"
proof -
  have "\<not> is_unreserved (byte_of_char CHR ''&'')" by code_simp
  moreover have "CHR ''&'' \<noteq> upper_hex n" if "n < 16" for n
  proof
    assume "CHR ''&'' = upper_hex n"
    with upper_hex_value [OF that] have "hex_value (byte_of_char CHR ''&'') = Some (of_nat n)" by simp
    moreover have "hex_value (byte_of_char CHR ''&'') = None" by code_simp
    ultimately show False by simp
  qed
  moreover have "unat b div 16 < 16" for b :: byte using unsigned_less [of b, where ?'a = nat] by simp
  ultimately have "CHR ''&'' \<notin> set (escape_byte b)" for b
    by (auto simp: escape_byte_def)
  then show ?thesis by (simp add: url_query_escape_def)
qed

lemma split_once_str_slash: "CHR ''/'' \<notin> set a \<Longrightarrow> split_once_str ''/to/'' (a @ ''/to/'' @ b) = Some (a, b)"
  by (induction a) (simp_all add: split_once_str.simps)

lemma dec_str_no: "\<not> is_digit 10 c \<Longrightarrow> c \<notin> set (dec_str n)"
  using num_str_digits [of 10 n] by (auto simp: list_all_iff)

lemma split_char_three:
  "c \<notin> set x \<Longrightarrow> c \<notin> set y \<Longrightarrow> c \<notin> set z \<Longrightarrow> split_char c (x @ c # y @ c # z) = [x, y, z]"
  by (simp add: split_char_append split_char_none)

definition followup_path :: "nat \<Rightarrow> nat \<Rightarrow> string" where
  "followup_path src dst = ''/machine/ssh/action/'' @ dec_str src @ ''/to/'' @ dec_str dst"

definition followup_query :: "string \<Rightarrow> string \<Rightarrow> string \<Rightarrow> string" where
  "followup_query auth_id ssh_user local_user =
     ''auth_id='' @ auth_id @ ''&ssh_user='' @ url_query_escape ssh_user @ ''&local_user='' @ url_query_escape local_user"

lemma parse_followup_path:
  assumes "src < 2 ^ 64" "dst < 2 ^ 64"
  shows "parse_ssh_action_path (followup_path src dst) = Some (src, dst)"
proof -
  have "CHR ''?'' \<notin> set (followup_path src dst)" unfolding followup_path_def using dec_str_no [of "CHR ''?''"]
    by (auto simp: is_digit_def to_digit_def)
  then have "hd (split_char CHR ''?'' (followup_path src dst)) = followup_path src dst" by (simp add: split_char_none)
  moreover have "CHR ''/'' \<notin> set (dec_str src)" by (rule dec_str_no) (simp add: is_digit_def to_digit_def)
  ultimately show ?thesis
    using assms split_once_str_slash [of "dec_str src" "dec_str dst"] strip_prefix_append [of "''/machine/ssh/action/''"]
    by (simp add: parse_ssh_action_path_def followup_path_def parse_u64_def)
qed

lemma split_followup_query:
  assumes "plain_text auth_id"
  shows "split_char CHR ''&'' (followup_query auth_id ssh_user local_user) =
    [''auth_id='' @ auth_id, ''ssh_user='' @ url_query_escape ssh_user, ''local_user='' @ url_query_escape local_user]"
proof -
  have na: "CHR ''&'' \<notin> set auth_id"
    using escape_no_amp [of auth_id] plain_text_escape [OF assms] by simp
  have q: "followup_query auth_id ssh_user local_user
      = (''auth_id='' @ auth_id) @ CHR ''&'' # (''ssh_user='' @ url_query_escape ssh_user) @ CHR ''&'' # (''local_user='' @ url_query_escape local_user)"
    by (simp add: followup_query_def)
  show ?thesis unfolding q by (rule split_char_three) (use na escape_no_amp in auto)
qed

lemma parse_followup_query:
  assumes "plain_text auth_id" "valid_str ssh_user" "valid_str local_user"
  shows "parse_query (followup_query auth_id ssh_user local_user)
    = [(''auth_id'', auth_id), (''local_user'', local_user), (''ssh_user'', ssh_user)]"
proof -
  have "split_once CHR ''='' (k @ CHR ''='' # v) = Some (k, v)" if "CHR ''='' \<notin> set k" for k v
    using that by simp
  then have "split_once CHR ''='' (''auth_id='' @ v) = Some (''auth_id'', v)"
    "split_once CHR ''='' (''ssh_user='' @ v) = Some (''ssh_user'', v)"
    "split_once CHR ''='' (''local_user='' @ v) = Some (''local_user'', v)" for v by simp_all
  moreover have "percent_decode ''auth_id'' = ''auth_id''" "percent_decode ''ssh_user'' = ''ssh_user''"
    "percent_decode ''local_user'' = ''local_user''" by code_simp+
  ultimately show ?thesis
    using assms percent_decode_plain [OF assms(1)] by (simp add: parse_query_def bt_insert_def split_followup_query)
qed

text \<open>The auth ids the server draws are lowercase hexadecimal and need no escaping.\<close>

lemma secret_plain:
  assumes "hex_law w"
  shows "plain_text (generate_secret w)"
proof -
  define S where "S = set ''0123456789abcdef''"
  have "\<forall>c \<in> S. is_ascii_alphanumeric c \<and> c \<noteq> CHR '' ''" unfolding S_def
    by (simp add: is_ascii_alphanumeric_def is_ascii_digit_def is_ascii_uppercase_def is_ascii_lowercase_def)
  moreover have "\<forall>c \<in> S. byte_of_char c < 0x80" unfolding S_def by (simp add: byte_of_char_def)
  moreover have "set (generate_secret w) \<subseteq> S" using assms unfolding hex_law_def generate_secret_def S_def by simp
  ultimately show ?thesis unfolding plain_text_def list_all_iff is_unreserved_def char_of_byte_of_char by auto
qed

text \<open>
  The followup URL the server hands out for an SSH check is read back by its own router: the path gives
  the two node ids, and the query gives the auth id it drew and both user names, whatever characters they contain.
\<close>

theorem ssh_followup_reads_back:
  assumes "src < 2 ^ 64" "dst < 2 ^ 64" "hex_law w" "valid_str ssh_user" "valid_str local_user"
  shows "build_ssh_action_url server_url src dst (generate_secret w) ssh_user local_user
      = trim_end_slashes server_url @ followup_path src dst @ ''?'' @ followup_query (generate_secret w) ssh_user local_user
    \<and> parse_ssh_action_path (followup_path src dst) = Some (src, dst)
    \<and> parse_query (followup_query (generate_secret w) ssh_user local_user)
        = [(''auth_id'', generate_secret w), (''local_user'', local_user), (''ssh_user'', ssh_user)]"
  using parse_followup_path [OF assms(1,2)] parse_followup_query [OF secret_plain [OF assms(3)] assms(4,5)]
  by (simp add: build_ssh_action_url_def followup_path_def followup_query_def)

end
