(* ===== verification/Rust_F64.thy ===== *)
theory Rust_F64
  imports Complex_Main "HOL-Library.Log_Nat"
begin

text \<open>
  The \<^verbatim>\<open>f64\<close> arithmetic the sources use, on its nonnegative finite values: every operation is
  the exact rational result rounded to 53 significant bits, ties to even. The values the program
  computes stay far inside the exponent range of the format (they lie between one nanosecond
  divided by sixty and two to the 128), so neither subnormal numbers nor infinities occur.
\<close>

section \<open>Rounding\<close>

definition round_half_even :: "rat \<Rightarrow> int" where
  "round_half_even x = (let f = \<lfloor>x\<rfloor>; d = x - of_int f in
     if d < 1 / 2 \<or> (d = 1 / 2 \<and> even f) then f else f + 1)"

text \<open>The largest power of two that is at most a positive value.\<close>

definition f64_exponent :: "rat \<Rightarrow> int" where
  "f64_exponent x = (let (p, q) = quotient_of x; e = bitlen p - bitlen q in
     if 2 powi e \<le> x then e else e - 1)"

definition f64_round :: "rat \<Rightarrow> rat" where
  "f64_round x = (if x \<le> 0 then 0 else
     let s = 2 powi (f64_exponent x - 52) in of_int (round_half_even (x / s)) * s)"

text \<open>The relative error of one operation.\<close>

definition f64_eps :: rat where "f64_eps = 1 / 2 ^ 53"

lemma f64_eps_pos [simp]: "0 < f64_eps" "0 \<le> f64_eps"
  by (simp_all add: f64_eps_def)

lemma round_half_even_int [simp]: "round_half_even (of_int n) = n"
  by (simp add: round_half_even_def)

lemma round_half_even_close: "\<bar>of_int (round_half_even x) - x\<bar> \<le> 1 / 2"
  unfolding round_half_even_def Let_def
  by (auto simp: abs_if) (linarith | simp)+

lemma round_half_even_nonneg: "0 \<le> x \<Longrightarrow> 0 \<le> round_half_even x"
  by (simp add: round_half_even_def Let_def)

lemma f64_exponent_le:
  assumes "0 < x"
  shows "2 powi f64_exponent x \<le> x"
proof -
  obtain p q where pq: "quotient_of x = (p, q)" by (cases "quotient_of x")
  then have q: "0 < q" and x: "x = of_int p / of_int q"
    using quotient_of_denom_pos quotient_of_div by auto
  with assms have p: "0 < p" by (simp add: zero_less_divide_iff)
  let ?a = "bitlen p" and ?b = "bitlen q"
  have a: "0 < ?a" "0 < ?b" using p q using bitlen_nonneg [of p] bitlen_nonneg [of q] by (simp_all add: less_le bitlen_eq_zero_iff)
  have "(of_int (2 ^ nat (?a - 1)) :: rat) \<le> of_int p"
    using bitlen_bounds [OF p] by (simp only: of_int_le_iff)
  then have p2: "2 powi (?a - 1) \<le> (of_int p :: rat)" using a by (simp add: power_int_def)
  have "(of_int q :: rat) \<le> of_int (2 ^ nat ?b)"
    using bitlen_bounds [OF q] by (simp only: of_int_le_iff less_imp_le)
  then have q2: "(of_int q :: rat) \<le> 2 powi ?b" using a by (simp add: power_int_def)
  have "2 powi (?a - ?b - 1) = 2 powi (?a - 1) / (2 powi ?b :: rat)"
    by (simp add: power_int_diff [symmetric] algebra_simps)
  also have "\<dots> \<le> of_int p / of_int q"
    by (rule frac_le) (use p2 q2 p q in auto)
  finally have "2 powi (?a - ?b - 1) \<le> x" by (simp only: x)
  then show ?thesis by (simp add: f64_exponent_def pq Let_def)
qed

lemma f64_round_nonneg [simp]: "0 \<le> f64_round x"
  by (auto simp: f64_round_def Let_def intro!: mult_nonneg_nonneg round_half_even_nonneg)

lemma f64_round_0 [simp]: "f64_round 0 = 0"
  by (simp add: f64_round_def)

lemma f64_round_error:
  assumes "0 \<le> x"
  shows "\<bar>f64_round x - x\<bar> \<le> x * f64_eps"
proof (cases "x = 0")
  case False
  with assms have x: "0 < x" by simp
  let ?e = "f64_exponent x" and ?s = "2 powi (f64_exponent x - 52) :: rat"
  have s: "0 < ?s" by simp
  have "f64_round x - x = (of_int (round_half_even (x / ?s)) - x / ?s) * ?s"
    using x by (simp add: f64_round_def Let_def algebra_simps)
  then have "\<bar>f64_round x - x\<bar> = \<bar>of_int (round_half_even (x / ?s)) - x / ?s\<bar> * ?s"
    using s by (simp add: abs_mult)
  also have "\<dots> \<le> 1 / 2 * ?s"
    using round_half_even_close s by (intro mult_right_mono) auto
  also have "\<dots> = 2 powi ?e * f64_eps"
    by (simp add: power_int_diff f64_eps_def field_simps)
  also have "\<dots> \<le> x * f64_eps"
    using f64_exponent_le [OF x] by (intro mult_right_mono) auto
  finally show ?thesis .
qed simp

lemma f64_round_le: "0 \<le> x \<Longrightarrow> f64_round x \<le> x * (1 + f64_eps)"
  using f64_round_error [of x] by (simp add: algebra_simps abs_le_iff)

lemma f64_round_le': "0 \<le> x \<Longrightarrow> x \<le> y \<Longrightarrow> f64_round x \<le> y * (1 + f64_eps)"
  by (rule order_trans [OF f64_round_le]) (auto intro: mult_right_mono)

lemma f64_round_add_le:
  "0 \<le> x \<Longrightarrow> 0 \<le> y \<Longrightarrow> f64_round x + f64_round y \<le> (x + y) * (1 + f64_eps)"
  using f64_round_le [of x] f64_round_le [of y] by (simp add: algebra_simps)

lemma f64_round_pos:
  assumes "0 < x"
  shows "0 < f64_round x"
proof -
  have "x * f64_eps < x" using assms by (simp add: f64_eps_def)
  then show ?thesis using f64_round_error [of x] assms unfolding abs_le_iff by linarith
qed

text \<open>Integers of up to 53 bits are represented exactly.\<close>

lemma f64_round_nat:
  assumes "n < 2 ^ 53"
  shows "f64_round (of_nat n) = of_nat n"
proof (cases "n = 0")
  case False
  let ?x = "of_nat n :: rat"
  let ?e = "f64_exponent ?x"
  have x: "0 < ?x" using False by simp
  have "?x < of_nat (2 ^ 53)" using assms by (simp only: of_nat_less_iff)
  then have "?x < 2 powi 53" by simp
  with f64_exponent_le [OF x] have "2 powi ?e < (2 powi 53 :: rat)" by (rule le_less_trans)
  then have e: "?e < 53" using power_int_increasing [of 53 ?e "2::rat"] by (cases "?e < 53") auto
  let ?m = "int n * 2 ^ nat (52 - ?e)"
  have m: "of_int ?m = ?x * 2 powi (52 - ?e)"
    using e by (simp add: power_int_def)
  have neg: "2 powi (52 - ?e) = inverse (2 powi (?e - 52) :: rat)"
    using power_int_minus [of "2::rat" "?e - 52"] by simp
  have "?x / 2 powi (?e - 52) = of_int ?m"
    unfolding m neg by (rule divide_inverse)
  then have "f64_round ?x = of_int ?m * 2 powi (?e - 52)"
    using x [folded not_le] by (simp only: f64_round_def Let_def round_half_even_int if_False)
  also have "\<dots> = ?x" unfolding m neg by simp
  finally show ?thesis .
qed simp

section \<open>Durations\<close>

text \<open>\<^verbatim>\<open>Duration::as_secs_f64\<close> of a duration given in nanoseconds.\<close>

definition as_secs_f64 :: "nat \<Rightarrow> rat" where
  "as_secs_f64 ns = f64_round (f64_round (of_nat (ns div 10 ^ 9)) + f64_round (of_nat (ns mod 10 ^ 9) / 10 ^ 9))"

lemma as_secs_f64_nonneg [simp]: "0 \<le> as_secs_f64 ns"
  by (simp add: as_secs_f64_def)

lemma as_secs_f64_0 [simp]: "as_secs_f64 0 = 0"
  by (simp add: as_secs_f64_def)

lemma as_secs_f64_le: "as_secs_f64 ns \<le> of_nat ns / 10 ^ 9 * (1 + f64_eps) ^ 2"
proof -
  let ?s = "of_nat (ns div 10 ^ 9) :: rat" and ?n = "of_nat (ns mod 10 ^ 9) / 10 ^ 9 :: rat"
  have split: "of_nat ns / 10 ^ 9 = ?s + ?n"
  proof -
    have "of_nat ns = (of_nat (ns div 10 ^ 9 * 10 ^ 9 + ns mod 10 ^ 9) :: rat)" by (simp only: div_mult_mod_eq)
    then show ?thesis by (simp only: of_nat_add of_nat_mult of_nat_power of_nat_numeral add_divide_distrib) simp
  qed
  have "f64_round ?s + f64_round ?n \<le> (?s + ?n) * (1 + f64_eps)"
    by (rule f64_round_add_le) simp_all
  then have "as_secs_f64 ns \<le> (?s + ?n) * (1 + f64_eps) * (1 + f64_eps)"
    unfolding as_secs_f64_def by (intro f64_round_le') auto
  then show ?thesis by (simp only: split power2_eq_square mult.assoc)
qed

end
