(* ===== verification/Server_Rate.thy ===== *)
theory Server_Rate
  imports Rust_Str Rust_F64 "HOL-Library.AList_Mapping"
begin

text \<open>
  Model of \<^verbatim>\<open>crabscale-server/src/rate_limit.rs\<close>: the token buckets behind \<^verbatim>\<open>/ts2021\<close> and
  \<^verbatim>\<open>/machine/register\<close>. Instants are nanoseconds since the start of the process.
\<close>

section \<open>Limits and state\<close>

definition DEFAULT_TS2021_RATE_PER_MIN :: nat where "DEFAULT_TS2021_RATE_PER_MIN = 60"
definition DEFAULT_TS2021_BURST :: nat where "DEFAULT_TS2021_BURST = 10"
definition DEFAULT_REGISTER_RATE_PER_MIN :: nat where "DEFAULT_REGISTER_RATE_PER_MIN = 30"
definition DEFAULT_REGISTER_BURST :: nat where "DEFAULT_REGISTER_BURST = 5"
definition DEFAULT_MAX_RATE_KEYS :: nat where "DEFAULT_MAX_RATE_KEYS = 4096"
definition IDLE_TTL :: nat where "IDLE_TTL = 10 * 60 * 10 ^ 9"

record rate_limit_config =
  ts2021_per_min :: nat
  ts2021_burst :: nat
  register_per_min :: nat
  register_burst :: nat
  max_entries :: nat

definition rate_limit_config_default :: rate_limit_config where
  "rate_limit_config_default = \<lparr>ts2021_per_min = DEFAULT_TS2021_RATE_PER_MIN, ts2021_burst = DEFAULT_TS2021_BURST,
     register_per_min = DEFAULT_REGISTER_RATE_PER_MIN, register_burst = DEFAULT_REGISTER_BURST,
     max_entries = DEFAULT_MAX_RATE_KEYS\<rparr>"

record bucket =
  b_tokens :: rat
  b_updated :: nat

record rate_limiter =
  rl_buckets :: "(string, bucket) mapping"
  rl_rate :: rat
  rl_burst :: rat
  rl_max :: nat

definition rate_limiter_new :: "nat \<Rightarrow> nat \<Rightarrow> nat \<Rightarrow> rate_limiter" where
  "rate_limiter_new per_min burst entries = \<lparr>rl_buckets = Mapping.empty, rl_rate = f64_round (f64_round (of_nat per_min) / 60),
     rl_burst = f64_round (of_nat burst), rl_max = entries\<rparr>"

definition buckets_len :: "rate_limiter \<Rightarrow> nat" where
  "buckets_len l = Mapping.size (rl_buckets l)"

section \<open>Operations\<close>

definition refill :: "bucket \<Rightarrow> rat \<Rightarrow> rat \<Rightarrow> nat \<Rightarrow> bucket" where
  "refill b rate burst now = (let elapsed = as_secs_f64 (now - b_updated b) in
     \<lparr>b_tokens = (if elapsed > 0 then min (f64_round (b_tokens b + f64_round (elapsed * rate))) burst else b_tokens b),
      b_updated = now\<rparr>)"

text \<open>\<^verbatim>\<open>prune\<close> keeps every bucket that is not both idle and full.\<close>

definition keeps_bucket :: "nat \<Rightarrow> rat \<Rightarrow> bucket \<Rightarrow> bool" where
  "keeps_bucket now burst b \<longleftrightarrow> \<not> (IDLE_TTL \<le> now - b_updated b \<and> burst \<le> b_tokens b)"

definition prune :: "nat \<Rightarrow> rate_limiter \<Rightarrow> rate_limiter" where
  "prune now l = (if buckets_len l < rl_max l then l
     else l\<lparr>rl_buckets := Mapping.filter (\<lambda>_ b. keeps_bucket now (rl_burst l) b) (rl_buckets l)\<rparr>)"

text \<open>
  \<^verbatim>\<open>min_by_key\<close> over the entries in the order in which the hash map yields them, which the standard library
  leaves open: it is an argument.
\<close>

fun min_updated :: "(string \<times> bucket) list \<Rightarrow> string option" where
  "min_updated [] = None"
| "min_updated [(k, b)] = Some k"
| "min_updated ((k, b) # (k', b') # es) =
     (if b_updated b \<le> b_updated b' then min_updated ((k, b) # es) else min_updated ((k', b') # es))"

definition entries_in :: "string list \<Rightarrow> (string, bucket) mapping \<Rightarrow> (string \<times> bucket) list" where
  "entries_in ord m = List.map_filter (\<lambda>k. map_option (Pair k) (Mapping.lookup m k)) ord"

definition evict_oldest :: "string list \<Rightarrow> rate_limiter \<Rightarrow> rate_limiter" where
  "evict_oldest ord l = (case min_updated (entries_in ord (rl_buckets l)) of
     Some k \<Rightarrow> l\<lparr>rl_buckets := Mapping.delete k (rl_buckets l)\<rparr> | None \<Rightarrow> l)"

definition make_room :: "nat \<Rightarrow> string list \<Rightarrow> rate_limiter \<Rightarrow> rate_limiter" where
  "make_room now ord l = (let l = (if rl_max l \<le> buckets_len l then prune now l else l) in
     if rl_max l \<le> buckets_len l then evict_oldest ord l else l)"

text \<open>The bucket of the key, refilled or new, before a token is taken.\<close>

definition touch_bucket :: "nat \<Rightarrow> string list \<Rightarrow> string \<Rightarrow> rate_limiter \<Rightarrow> bucket \<times> rate_limiter" where
  "touch_bucket now ord key l = (case Mapping.lookup (rl_buckets l) key of
     Some b \<Rightarrow> (refill b (rl_rate l) (rl_burst l) now, l)
   | None \<Rightarrow> (\<lparr>b_tokens = rl_burst l, b_updated = now\<rparr>, make_room now ord l))"

text \<open>\<^verbatim>\<open>as u64\<close> of a float saturates.\<close>

definition retry_after :: "rat \<Rightarrow> rat \<Rightarrow> nat" where
  "retry_after tokens rate = max (min (nat \<lceil>f64_round (f64_round (1 - tokens) / rate)\<rceil>) (2 ^ 64 - 1)) 1"

definition rate_check :: "nat \<Rightarrow> string list \<Rightarrow> string \<Rightarrow> rate_limiter \<Rightarrow> rate_limiter \<times> nat option" where
  "rate_check now ord key l = (
     if rl_rate l \<le> 0 \<or> rl_burst l \<le> 0 then (l, None)
     else let (b, l) = touch_bucket now ord key l in
       if 1 \<le> b_tokens b
       then (l\<lparr>rl_buckets := Mapping.update key (b\<lparr>b_tokens := f64_round (b_tokens b - 1)\<rparr>) (rl_buckets l)\<rparr>, None)
       else (l\<lparr>rl_buckets := Mapping.update key b (rl_buckets l)\<rparr>, Some (retry_after (b_tokens b) (rl_rate l))))"

text \<open>A run of checks, each with its instant, the iteration order met and its key.\<close>

type_synonym rate_event = "nat \<times> string list \<times> string"

fun rate_run :: "rate_event list \<Rightarrow> rate_limiter \<Rightarrow> rate_limiter" where
  "rate_run [] l = l"
| "rate_run ((now, ord, key) # es) l = rate_run es (fst (rate_check now ord key l))"

text \<open>How many checks of a key a run admits.\<close>

fun rate_admitted :: "string \<Rightarrow> rate_event list \<Rightarrow> rate_limiter \<Rightarrow> nat" where
  "rate_admitted k [] l = 0"
| "rate_admitted k ((now, ord, key) # es) l = (let (l', r) = rate_check now ord key l in
     (if key = k \<and> r = None then 1 else 0) + rate_admitted k es l')"

section \<open>The table\<close>

text \<open>The table as a function, for the proofs.\<close>

abbreviation bucket_map :: "rate_limiter \<Rightarrow> string \<Rightarrow> bucket option" where
  "bucket_map l \<equiv> Mapping.lookup (rl_buckets l)"

lemma lookup_updated [simp]: "Mapping.lookup (Mapping.update k v m) = (Mapping.lookup m)(k \<mapsto> v)"
  "Mapping.lookup (Mapping.delete k m) = (Mapping.lookup m)(k := None)" "Mapping.lookup Mapping.empty = Map.empty"
  by (transfer; simp)+

lemma buckets_len_card: "buckets_len l = card (dom (bucket_map l))"
  by (simp add: buckets_len_def Mapping.size_def keys_dom_lookup)

text \<open>
  Bursts that the configuration can express (\<^verbatim>\<open>u32\<close>) are exact, and taking a token from a full bucket
  is visible in spite of the rounding.
\<close>

definition burst_ok :: "rat \<Rightarrow> bool" where
  "burst_ok burst \<longleftrightarrow> 1 \<le> burst \<and> burst * f64_eps \<le> 1"

definition bucket_ok :: "rat \<Rightarrow> bucket \<Rightarrow> bool" where
  "bucket_ok burst b \<longleftrightarrow> 0 \<le> b_tokens b \<and> b_tokens b < burst"

definition limiter_ok :: "rate_limiter \<Rightarrow> bool" where
  "limiter_ok l \<longleftrightarrow> finite (dom (bucket_map l)) \<and> buckets_len l \<le> max 1 (rl_max l) \<and>
     (\<forall>k b. bucket_map l k = Some b \<longrightarrow> bucket_ok (rl_burst l) b)"

lemma burst_ok_nat:
  assumes "0 < burst" "burst < 2 ^ 32"
  shows "f64_round (of_nat burst) = of_nat burst" "burst_ok (of_nat burst)"
proof -
  show "f64_round (of_nat burst) = of_nat burst" using assms by (intro f64_round_nat) simp
  have "(of_nat burst :: rat) \<le> of_nat (2 ^ 53)" unfolding of_nat_le_iff using assms(2) by simp
  then show "burst_ok (of_nat burst)" using assms(1) by (simp add: burst_ok_def f64_eps_def)
qed

lemma taken_below:
  assumes "burst_ok burst" "1 \<le> t" "t \<le> burst"
  shows "0 \<le> f64_round (t - 1)" "f64_round (t - 1) < burst" "f64_round (t - 1) \<le> t - 1 + burst * f64_eps"
proof -
  have "f64_round (t - 1) \<le> (t - 1) * (1 + f64_eps)" using assms(2) by (intro f64_round_le) simp
  also have "\<dots> = t - 1 + t * f64_eps - f64_eps" by (simp add: algebra_simps)
  finally have l: "f64_round (t - 1) \<le> t - 1 + t * f64_eps - f64_eps" .
  have "t * f64_eps \<le> burst * f64_eps" using assms(3) by (intro mult_right_mono) auto
  with l show "f64_round (t - 1) \<le> t - 1 + burst * f64_eps" using f64_eps_pos by linarith
  from l show "f64_round (t - 1) < burst"
    using assms f64_eps_pos \<open>t * f64_eps \<le> burst * f64_eps\<close> unfolding burst_ok_def by linarith
qed simp

lemma refill_range:
  assumes "0 \<le> b_tokens b" "b_tokens b \<le> burst" "0 \<le> rate" "0 \<le> burst"
  shows "0 \<le> b_tokens (refill b rate burst now)" "b_tokens (refill b rate burst now) \<le> burst"
  using assms by (auto simp: refill_def Let_def)

text \<open>Pruning never finds a bucket to drop: a bucket in the table has given a token since it was full.\<close>

lemma prune_keeps:
  assumes "\<And>k b. bucket_map l k = Some b \<Longrightarrow> bucket_ok (rl_burst l) b"
  shows "prune now l = l"
proof -
  have "Mapping.filter (\<lambda>_ b. keeps_bucket now (rl_burst l) b) (rl_buckets l) = rl_buckets l"
    using assms by (intro mapping_eqI) (auto simp: lookup_filter keeps_bucket_def bucket_ok_def not_le split: option.split)
  then show ?thesis by (simp add: prune_def)
qed

lemma min_updated_mem: "es \<noteq> [] \<Longrightarrow> \<exists>k\<in>fst ` set es. min_updated es = Some k"
  by (induction es rule: min_updated.induct) auto

lemma set_entries_in: "fst ` set (entries_in ord m) = set ord \<inter> dom (Mapping.lookup m)"
  by (force simp: entries_in_def map_filter_def)

lemma evict_oldest_buckets:
  "\<exists>d. bucket_map (evict_oldest ord l) = (bucket_map l) |` (- d) \<and> d \<subseteq> dom (bucket_map l) \<and>
     (set ord \<inter> dom (bucket_map l) \<noteq> {} \<longrightarrow> card d = 1)"
proof (cases "set ord \<inter> dom (bucket_map l) = {}")
  case True
  then have "entries_in ord (rl_buckets l) = []" using set_entries_in [of ord "rl_buckets l"] by auto
  then show ?thesis using True by (intro exI [of _ "{}"]) (simp add: evict_oldest_def restrict_map_def)
next
  case False
  then have "entries_in ord (rl_buckets l) \<noteq> []" using set_entries_in [of ord "rl_buckets l"] by auto
  from min_updated_mem [OF this] obtain k
    where "k \<in> dom (bucket_map l)" "min_updated (entries_in ord (rl_buckets l)) = Some k"
    by (auto simp: set_entries_in)
  then show ?thesis
    by (intro exI [of _ "{k}"]) (auto simp: evict_oldest_def restrict_map_def fun_eq_iff)
qed

lemma evict_oldest_fields [simp]:
  "rl_rate (evict_oldest ord l) = rl_rate l" "rl_burst (evict_oldest ord l) = rl_burst l" "rl_max (evict_oldest ord l) = rl_max l"
  by (simp_all add: evict_oldest_def split: option.split)

text \<open>The iteration order met by a check lists the keys of the table.\<close>

fun hash_orders :: "rate_event list \<Rightarrow> rate_limiter \<Rightarrow> bool" where
  "hash_orders [] l = True"
| "hash_orders ((now, ord, key) # es) l \<longleftrightarrow>
     set ord = dom (bucket_map l) \<and> hash_orders es (fst (rate_check now ord key l))"

lemma make_room_ok:
  assumes "limiter_ok l" "set ord = dom (bucket_map l)"
  shows "finite (dom (bucket_map (make_room now ord l)))" "buckets_len (make_room now ord l) < max 1 (rl_max l)"
    "bucket_map (make_room now ord l) k = Some b \<Longrightarrow> bucket_ok (rl_burst l) b"
    "rl_burst (make_room now ord l) = rl_burst l" "rl_rate (make_room now ord l) = rl_rate l"
    "rl_max (make_room now ord l) = rl_max l"
proof -
  have p: "prune now l = l" using assms(1) by (intro prune_keeps) (simp add: limiter_ok_def)
  then have m: "make_room now ord l = (if rl_max l \<le> buckets_len l then evict_oldest ord l else l)"
    by (simp add: make_room_def)
  obtain d where d: "bucket_map (evict_oldest ord l) = (bucket_map l) |` (- d)" "d \<subseteq> dom (bucket_map l)"
    "dom (bucket_map l) \<noteq> {} \<longrightarrow> card d = 1"
    using evict_oldest_buckets [of ord l] assms(2) by auto
  have f: "finite (dom (bucket_map l))" "buckets_len l \<le> max 1 (rl_max l)"
    using assms(1) by (simp_all add: limiter_ok_def)
  show "finite (dom (bucket_map (make_room now ord l)))" using f d(1) by (simp add: m)
  have "dom (bucket_map l) \<inter> - d = dom (bucket_map l) - d" by blast
  then have "card (dom (bucket_map l) \<inter> - d) = card (dom (bucket_map l)) - card d"
    using d(2) f(1) by (simp add: card_Diff_subset finite_subset)
  then show "buckets_len (make_room now ord l) < max 1 (rl_max l)"
    using f d(1,3) by (cases "dom (bucket_map l) = {}") (auto simp: m buckets_len_card)
  show "bucket_ok (rl_burst l) b" if "bucket_map (make_room now ord l) k = Some b"
    using that assms(1) d(1) by (auto simp: m limiter_ok_def restrict_map_def split: if_splits)
qed (simp_all add: make_room_def prune_def Let_def)

lemma rate_check_fields [simp]:
  "rl_rate (fst (rate_check now ord key l)) = rl_rate l" "rl_burst (fst (rate_check now ord key l)) = rl_burst l"
  "rl_max (fst (rate_check now ord key l)) = rl_max l"
  by (auto simp: rate_check_def touch_bucket_def make_room_def prune_def Let_def split: option.splits)

lemma refill_updated [simp]: "b_updated (refill b rate burst now) = now"
  by (simp add: refill_def Let_def)

lemma touch_bucket_range:
  assumes "\<forall>k b. bucket_map l k = Some b \<longrightarrow> bucket_ok (rl_burst l) b" "0 < rl_rate l" "burst_ok (rl_burst l)"
    "touch_bucket now ord key l = (b, l')"
  shows "0 \<le> b_tokens b" "b_tokens b \<le> rl_burst l" "b_updated b = now"
proof -
  have "0 \<le> b_tokens b \<and> b_tokens b \<le> rl_burst l \<and> b_updated b = now"
  proof (cases "bucket_map l key")
    case (Some b0)
    with assms(1) have "bucket_ok (rl_burst l) b0" by blast
    then have "0 \<le> b_tokens b0" "b_tokens b0 \<le> rl_burst l" by (simp_all add: bucket_ok_def)
    from refill_range [OF this, of "rl_rate l" now] show ?thesis
      using Some assms(2-4) by (auto simp: touch_bucket_def burst_ok_def)
  qed (use assms(3,4) in \<open>auto simp: touch_bucket_def burst_ok_def\<close>)
  then show "0 \<le> b_tokens b" "b_tokens b \<le> rl_burst l" "b_updated b = now" by auto
qed

lemma rate_check_ok:
  assumes "limiter_ok l" "rl_rate l \<le> 0 \<or> rl_burst l \<le> 0 \<or> burst_ok (rl_burst l)" "set ord = dom (bucket_map l)"
  shows "limiter_ok (fst (rate_check now ord key l))"
proof (cases "rl_rate l \<le> 0 \<or> rl_burst l \<le> 0")
  case False
  then have on: "0 < rl_rate l" "burst_ok (rl_burst l)" using assms(2) by auto
  obtain b l' where t: "touch_bucket now ord key l = (b, l')" by (cases "touch_bucket now ord key l")
  have bs: "\<forall>k b. bucket_map l k = Some b \<longrightarrow> bucket_ok (rl_burst l) b" using assms(1) by (simp add: limiter_ok_def)
  note range = touch_bucket_range [OF bs on t]
  have l': "limiter_ok (l'\<lparr>rl_buckets := Mapping.update key b' (rl_buckets l')\<rparr>)" if "bucket_ok (rl_burst l) b'" for b'
  proof (cases "bucket_map l key")
    case None
    then have "l' = make_room now ord l" using t by (simp add: touch_bucket_def)
    then show ?thesis using make_room_ok [OF assms(1,3), of now] that card_insert_le_m1
      by (auto simp: limiter_ok_def buckets_len_card card_insert_if)
  next
    case (Some b0)
    then have "l' = l" using t by (simp add: touch_bucket_def)
    then show ?thesis using Some assms(1) that
      by (auto simp: limiter_ok_def buckets_len_card insert_absorb domI)
  qed
  have "bucket_ok (rl_burst l) (b\<lparr>b_tokens := f64_round (b_tokens b - 1)\<rparr>)" if "1 \<le> b_tokens b"
    using taken_below [OF on(2) that range(2)] by (simp add: bucket_ok_def)
  moreover have "bucket_ok (rl_burst l) b" if "\<not> 1 \<le> b_tokens b"
    using that range on(2) by (simp add: bucket_ok_def burst_ok_def)
  ultimately show ?thesis using False l' by (auto simp: rate_check_def t)
qed (simp add: rate_check_def assms(1))

lemma rate_run_fields [simp]:
  "rl_rate (rate_run es l) = rl_rate l" "rl_burst (rate_run es l) = rl_burst l" "rl_max (rate_run es l) = rl_max l"
  by (induction es l rule: rate_run.induct) auto

lemma rate_run_ok:
  "limiter_ok l \<Longrightarrow> rl_rate l \<le> 0 \<or> rl_burst l \<le> 0 \<or> burst_ok (rl_burst l) \<Longrightarrow> hash_orders es l \<Longrightarrow> limiter_ok (rate_run es l)"
  by (induction es l rule: rate_run.induct) (auto simp: rate_check_ok)

lemma new_burst: "burst < 2 ^ 32 \<Longrightarrow> rl_burst (rate_limiter_new per_min burst entries) \<le> 0 \<or>
    burst_ok (rl_burst (rate_limiter_new per_min burst entries))"
  using burst_ok_nat [of burst] by (cases "burst = 0") (simp_all add: rate_limiter_new_def)

lemma new_limiter_ok: "limiter_ok (rate_limiter_new per_min burst entries)"
  by (simp add: rate_limiter_new_def limiter_ok_def buckets_len_card)

text \<open>
  C38. In every run the table of a limiter stays bounded by its configured size (a limiter of size zero
  holds one bucket), every bucket holds between zero and strictly less than \<^verbatim>\<open>burst\<close> tokens, and therefore
  pruning, which looks for full buckets, never drops one: only the eviction of the oldest bucket makes room.
\<close>

theorem limiter_table_bounded:
  assumes "burst < 2 ^ 32" "hash_orders es (rate_limiter_new per_min burst entries)"
  shows "let l = rate_run es (rate_limiter_new per_min burst entries) in
    buckets_len l \<le> max 1 entries \<and>
    (\<forall>k b. bucket_map l k = Some b \<longrightarrow> 0 \<le> b_tokens b \<and> b_tokens b < of_nat burst) \<and>
    prune now l = l"
proof -
  define l where "l = rate_run es (rate_limiter_new per_min burst entries)"
  have "rl_rate (rate_limiter_new per_min burst entries) \<le> 0 \<or> rl_burst (rate_limiter_new per_min burst entries) \<le> 0 \<or>
      burst_ok (rl_burst (rate_limiter_new per_min burst entries))"
    using new_burst [OF assms(1)] by blast
  from rate_run_ok [OF new_limiter_ok this assms(2)] have ok: "limiter_ok l" by (simp add: l_def)
  have "f64_round (of_nat burst) = of_nat burst" using assms(1) by (intro f64_round_nat) simp
  then have f: "rl_max l = entries" "rl_burst l = of_nat burst" by (simp_all add: l_def rate_limiter_new_def)
  have "prune now l = l" using ok by (intro prune_keeps) (simp add: limiter_ok_def)
  with ok show ?thesis unfolding Let_def l_def [symmetric] by (simp add: limiter_ok_def bucket_ok_def f)
qed

theorem limiter_table_bounded_witness:
  "buckets_len (rate_run [(0, [], ''a''), (7, [''a''], ''b'')] (rate_limiter_new 60 3 1)) \<le> max 1 1"
proof -
  let ?l = "rate_limiter_new 60 3 1"
  have b: "f64_round (of_nat 3) = 3" using f64_round_nat [of 3] by simp
  have r: "0 < f64_round (f64_round (of_nat 60) / 60)" by (intro f64_round_pos divide_pos_pos) simp_all
  have "dom (bucket_map (fst (rate_check 0 [] ''a'' ?l))) = {''a''}"
    using r b by (simp add: rate_check_def rate_limiter_new_def touch_bucket_def make_room_def buckets_len_card)
  then have "hash_orders [(0, [], ''a''), (7, [''a''], ''b'')] ?l"
    by (simp add: rate_limiter_new_def)
  from limiter_table_bounded [OF _ this] show ?thesis by (simp add: Let_def)
qed

section \<open>The rate\<close>

text \<open>What a refill adds, with the rounding of the four operations it performs.\<close>

definition per_ns :: "rat \<Rightarrow> rat" where
  "per_ns rate = rate * (1 + f64_eps) ^ 4 / 10 ^ 9"

lemma refill_gain:
  assumes "0 \<le> b_tokens b" "b_tokens b \<le> burst" "0 \<le> rate"
  shows "b_tokens (refill b rate burst now) \<le> b_tokens b + burst * f64_eps + per_ns rate * of_nat (now - b_updated b)"
proof -
  let ?u = "1 + f64_eps" and ?e = "of_nat (now - b_updated b) / 10 ^ 9 :: rat"
  let ?el = "as_secs_f64 (now - b_updated b)"
  have "f64_round (?el * rate) \<le> ?e * ?u ^ 2 * rate * ?u"
    using mult_right_mono [OF as_secs_f64_le assms(3)] assms(3) by (intro f64_round_le') auto
  then have "f64_round (b_tokens b + f64_round (?el * rate)) \<le> (b_tokens b + ?e * ?u ^ 2 * rate * ?u) * ?u"
    using assms by (intro f64_round_le') auto
  also have "\<dots> = b_tokens b + b_tokens b * f64_eps + per_ns rate * of_nat (now - b_updated b)"
    by (simp add: per_ns_def algebra_simps power2_eq_square power4_eq_xxxx)
  also have "\<dots> \<le> b_tokens b + burst * f64_eps + per_ns rate * of_nat (now - b_updated b)"
    using assms by (intro add_right_mono add_left_mono mult_right_mono) auto
  finally have g: "f64_round (b_tokens b + f64_round (?el * rate)) \<le> \<dots>" .
  have "0 \<le> burst * f64_eps + per_ns rate * of_nat (now - b_updated b)"
    using assms by (auto simp: per_ns_def intro!: add_nonneg_nonneg mult_nonneg_nonneg divide_nonneg_nonneg)
  with g show ?thesis by (auto simp: refill_def Let_def)
qed

text \<open>Runs in which no bucket is evicted: the keys met fit into the table.\<close>

definition fits_table :: "string set \<Rightarrow> rate_limiter \<Rightarrow> bool" where
  "fits_table K l \<longleftrightarrow> finite K \<and> card K \<le> rl_max l \<and> dom (bucket_map l) \<subseteq> K \<and> 0 < rl_rate l \<and> burst_ok (rl_burst l) \<and>
     (\<forall>k b. bucket_map l k = Some b \<longrightarrow> bucket_ok (rl_burst l) b)"

lemma fits_no_eviction:
  assumes "fits_table K l" "key \<in> K"
  shows "snd (touch_bucket now ord key l) = l"
proof (cases "bucket_map l key")
  case None
  then have "dom (bucket_map l) \<subset> K" using assms by (auto simp: fits_table_def)
  then have "buckets_len l < rl_max l"
    using assms(1) psubset_card_mono [of K "dom (bucket_map l)"] by (auto simp: fits_table_def buckets_len_card)
  then show ?thesis using None by (simp add: touch_bucket_def make_room_def)
qed (simp add: touch_bucket_def)

text \<open>One check: the bucket after it, and what was spent against what the bucket held.\<close>

lemma fits_check:
  assumes "fits_table K l" "key \<in> K" "rate_check now ord key l = (l', r)"
  obtains b where "l' = l\<lparr>rl_buckets := Mapping.update key b (rl_buckets l)\<rparr>" "fits_table K l'" "b_updated b = now"
    "(if r = None then 1 else 0) + b_tokens b \<le> b_tokens (fst (touch_bucket now ord key l)) + rl_burst l * f64_eps"
    "b_tokens (fst (touch_bucket now ord key l)) \<le> rl_burst l"
proof -
  obtain b where t: "touch_bucket now ord key l = (b, l)"
    using fits_no_eviction [OF assms(1,2)] by (metis prod.collapse)
  have on: "0 < rl_rate l" "burst_ok (rl_burst l)" "\<forall>k b. bucket_map l k = Some b \<longrightarrow> bucket_ok (rl_burst l) b"
    using assms(1) by (auto simp: fits_table_def)
  note range = touch_bucket_range [OF on(3,1,2) t]
  have fit: "fits_table K (l\<lparr>rl_buckets := Mapping.update key b' (rl_buckets l)\<rparr>)" if "bucket_ok (rl_burst l) b'" for b'
    using that assms(1,2) by (auto simp: fits_table_def)
  have e: "0 \<le> rl_burst l * f64_eps" using on(2) by (simp add: burst_ok_def)
  have off: "\<not> (rl_rate l \<le> 0 \<or> rl_burst l \<le> 0)" using on(1,2) by (auto simp: burst_ok_def)
  show ?thesis
  proof (cases "1 \<le> b_tokens b")
    case True
    let ?b = "b\<lparr>b_tokens := f64_round (b_tokens b - 1)\<rparr>"
    note below = taken_below [OF on(2) True range(2)]
    have "l' = l\<lparr>rl_buckets := Mapping.update key ?b (rl_buckets l)\<rparr>" "r = None"
      using assms(3) off True by (auto simp: rate_check_def t)
    then show ?thesis using below range fit [of ?b] that [of ?b] by (simp add: t bucket_ok_def)
  next
    case False
    then have "l' = l\<lparr>rl_buckets := Mapping.update key b (rl_buckets l)\<rparr>" "r = Some (retry_after (b_tokens b) (rl_rate l))"
      using assms(3) off by (auto simp: rate_check_def t)
    then show ?thesis using False range on(2) e fit [of b] that [of b] by (simp add: t bucket_ok_def burst_ok_def)
  qed
qed

text \<open>How often a run checks a key.\<close>

definition rate_checks :: "string \<Rightarrow> rate_event list \<Rightarrow> nat" where
  "rate_checks k es = length (filter (\<lambda>e. snd (snd e) = k) es)"

lemma rate_checks_simps [simp]:
  "rate_checks k [] = 0" "rate_checks k ((now, ord, key) # es) = (if key = k then 1 else 0) + rate_checks k es"
  by (simp_all add: rate_checks_def)

lemma admitted_from_bucket:
  assumes "fits_table K l" "\<forall>e\<in>set es. snd (snd e) \<in> K" "k \<in> K" "bucket_map l k = Some b"
    "sorted (b_updated b # map fst es)" "\<forall>e\<in>set es. fst e \<le> t1" "b_updated b \<le> t1"
  shows "of_nat (rate_admitted k es l) \<le> b_tokens b + per_ns (rl_rate l) * of_nat (t1 - b_updated b)
    + 2 * of_nat (rate_checks k es) * (rl_burst l * f64_eps)"
  using assms
proof (induction es arbitrary: l b)
  case Nil
  then show ?case
    by (auto simp: fits_table_def bucket_ok_def per_ns_def intro!: add_nonneg_nonneg mult_nonneg_nonneg divide_nonneg_nonneg)
next
  case (Cons e es)
  obtain now ord key where e: "e = (now, ord, key)" by (cases e)
  obtain l' r where c: "rate_check now ord key l = (l', r)" by (cases "rate_check now ord key l")
  have key: "key \<in> K" using Cons.prems(2) e by simp
  obtain b' where b': "l' = l\<lparr>rl_buckets := Mapping.update key b' (rl_buckets l)\<rparr>" "fits_table K l'" "b_updated b' = now"
    "(if r = None then 1 else 0) + b_tokens b' \<le> b_tokens (fst (touch_bucket now ord key l)) + rl_burst l * f64_eps"
    by (rule fits_check [OF Cons.prems(1) key c]) blast
  have times: "b_updated b \<le> now" "now \<le> t1" "sorted (now # map fst es)" using Cons.prems(5,6) e by auto
  show ?case
  proof (cases "key = k")
    case False
    then have "bucket_map l' k = Some b" "rl_rate l' = rl_rate l" "rl_burst l' = rl_burst l"
      using b'(1) Cons.prems(4) by simp_all
    with Cons.IH [OF b'(2) _ Cons.prems(3), of b] Cons.prems(2,5-7) show ?thesis
      using False by (simp add: e c)
  next
    case True
    have bk: "0 \<le> b_tokens b" "b_tokens b \<le> rl_burst l" "0 \<le> rl_rate l"
      using Cons.prems(1,4) by (auto simp: fits_table_def bucket_ok_def less_imp_le)
    have "fst (touch_bucket now ord key l) = refill b (rl_rate l) (rl_burst l) now"
      using True Cons.prems(4) by (simp add: touch_bucket_def)
    with b'(4) refill_gain [OF bk, of now]
    have step: "(if r = None then 1 else 0) + b_tokens b' \<le> b_tokens b + 2 * (rl_burst l * f64_eps) +
        per_ns (rl_rate l) * of_nat (now - b_updated b)" by (simp add: algebra_simps)
    have "bucket_map l' k = Some b'" "rl_rate l' = rl_rate l" "rl_burst l' = rl_burst l" using b'(1) True by simp_all
    with Cons.IH [OF b'(2) _ Cons.prems(3), of b'] Cons.prems(2,6) times b'(3)
    have rest: "of_nat (rate_admitted k es l') \<le> b_tokens b' + per_ns (rl_rate l) * of_nat (t1 - now)
      + 2 * of_nat (rate_checks k es) * (rl_burst l * f64_eps)" by simp
    have "per_ns (rl_rate l) * of_nat (t1 - b_updated b) =
        per_ns (rl_rate l) * of_nat (t1 - now) + per_ns (rl_rate l) * of_nat (now - b_updated b)"
      using times by (simp add: distrib_left [symmetric] of_nat_add [symmetric] del: of_nat_add)
    with step rest True show ?thesis using c by (cases r) (simp_all add: e algebra_simps)
  qed
qed

lemma rate_checks_nonneg [simp]: "burst_ok burst \<Longrightarrow> 0 \<le> 2 * of_nat n * (burst * f64_eps)"
  by (simp add: burst_ok_def)

lemma admitted_window:
  assumes "fits_table K l" "\<forall>e\<in>set es. snd (snd e) \<in> K" "k \<in> K" "sorted (map fst es)"
    "\<forall>e\<in>set es. t0 \<le> fst e \<and> fst e \<le> t1"
  shows "of_nat (rate_admitted k es l) \<le> rl_burst l + per_ns (rl_rate l) * of_nat (t1 - t0)
    + 2 * of_nat (rate_checks k es) * (rl_burst l * f64_eps)"
  using assms
proof (induction es arbitrary: l)
  case Nil
  then show ?case
    by (auto simp: fits_table_def burst_ok_def per_ns_def intro!: add_nonneg_nonneg mult_nonneg_nonneg divide_nonneg_nonneg)
next
  case (Cons e es)
  obtain now ord key where e: "e = (now, ord, key)" by (cases e)
  obtain l' r where c: "rate_check now ord key l = (l', r)" by (cases "rate_check now ord key l")
  have key: "key \<in> K" using Cons.prems(2) e by simp
  obtain b' where b': "l' = l\<lparr>rl_buckets := Mapping.update key b' (rl_buckets l)\<rparr>" "fits_table K l'" "b_updated b' = now"
    "(if r = None then 1 else 0) + b_tokens b' \<le> b_tokens (fst (touch_bucket now ord key l)) + rl_burst l * f64_eps"
    "b_tokens (fst (touch_bucket now ord key l)) \<le> rl_burst l"
    by (rule fits_check [OF Cons.prems(1) key c]) blast
  have f: "rl_rate l' = rl_rate l" "rl_burst l' = rl_burst l" using b'(1) by simp_all
  show ?case
  proof (cases "key = k")
    case False
    with Cons.IH [OF b'(2) _ Cons.prems(3)] Cons.prems(2,4,5) show ?thesis using c by (simp add: e f)
  next
    case True
    then have "bucket_map l' k = Some b'" using b'(1) by simp
    from admitted_from_bucket [OF b'(2) _ Cons.prems(3) this, of es t1] Cons.prems(2,4,5)
    have rest: "of_nat (rate_admitted k es l') \<le> b_tokens b' + per_ns (rl_rate l) * of_nat (t1 - now)
      + 2 * of_nat (rate_checks k es) * (rl_burst l * f64_eps)" by (simp add: e b'(3) f)
    have "per_ns (rl_rate l) * of_nat (t1 - now) \<le> per_ns (rl_rate l) * of_nat (t1 - t0)"
      using Cons.prems(1,5) by (intro mult_left_mono) (auto simp: e fits_table_def per_ns_def less_imp_le)
    moreover have "0 \<le> rl_burst l * f64_eps" using Cons.prems(1) by (simp add: fits_table_def burst_ok_def)
    ultimately show ?thesis using b'(4,5) rest c True by (cases r) (simp_all add: e algebra_simps)
  qed
qed

lemma fits_run:
  "fits_table K l \<Longrightarrow> \<forall>e\<in>set es. snd (snd e) \<in> K \<Longrightarrow> fits_table K (rate_run es l)"
proof (induction es l rule: rate_run.induct)
  case (2 now ord key es l)
  have "fits_table K (fst (rate_check now ord key l))"
    by (rule fits_check [OF "2.prems"(1), of key now ord "fst (rate_check now ord key l)" "snd (rate_check now ord key l)"])
      (use "2.prems" in auto)
  with "2.IH" "2.prems" show ?case by simp
qed simp

lemma fits_new:
  assumes "0 < per_min" "0 < burst" "burst < 2 ^ 32" "finite K" "card K \<le> entries"
  shows "fits_table K (rate_limiter_new per_min burst entries)"
  using burst_ok_nat [OF assms(2,3)] assms by (auto simp: fits_table_def rate_limiter_new_def intro!: f64_round_pos divide_pos_pos)

lemma per_ns_new: "per_ns (rl_rate (rate_limiter_new per_min burst entries)) \<le> of_nat per_min / 60 * (1 + f64_eps) ^ 6 / 10 ^ 9"
proof -
  have "f64_round (f64_round (of_nat per_min) / 60) \<le> of_nat per_min * (1 + f64_eps) / 60 * (1 + f64_eps)"
    using f64_round_le [of "of_nat per_min"] by (intro f64_round_le') auto
  then have "f64_round (f64_round (of_nat per_min) / 60) * (1 + f64_eps) ^ 4 / 10 ^ 9
      \<le> of_nat per_min * (1 + f64_eps) / 60 * (1 + f64_eps) * (1 + f64_eps) ^ 4 / 10 ^ 9"
    by (intro divide_right_mono mult_right_mono) auto
  also have "\<dots> = of_nat per_min / 60 * (1 + f64_eps) ^ 6 / 10 ^ 9"
    by (simp add: power_add [symmetric] numeral_eq_Suc)
  finally show ?thesis by (simp add: per_ns_def rate_limiter_new_def)
qed

text \<open>
  C37. For a limiter with a configured rate and burst above zero, while the keys met fit into the table and the checks of
  the window take the lock in the order of the instants they read, the checks of one key that are admitted in a time
  window are at most the burst plus the configured rate over the window, whatever checks were made before it and
  whatever other keys are checked in between; the effect of the \<^verbatim>\<open>f64\<close> rounding on the bound is included. (A rate or burst
  of zero disables the limiter, and \<open>stale_checks_refill_again\<close> shows that the order of the instants is needed.)
\<close>

theorem rate_limit_bound:
  assumes "0 < per_min" "0 < burst" "burst < 2 ^ 32"
    "card ((\<lambda>e. snd (snd e)) ` set (before @ es)) \<le> entries"
    "sorted (map fst es)" "\<forall>e\<in>set es. t0 \<le> fst e \<and> fst e \<le> t1"
  shows "of_nat (rate_admitted k es (rate_run before (rate_limiter_new per_min burst entries)))
    \<le> of_nat burst + of_nat per_min / 60 * (1 + f64_eps) ^ 6 * (of_nat (t1 - t0) / 10 ^ 9)
      + 2 * of_nat (rate_checks k es) * (of_nat burst * f64_eps)"
proof (cases "k \<in> (\<lambda>e. snd (snd e)) ` set es")
  case True
  let ?K = "(\<lambda>e. snd (snd e)) ` set (before @ es)" and ?n = "rate_limiter_new per_min burst entries"
  have "fits_table ?K ?n" using assms by (intro fits_new) auto
  then have "fits_table ?K (rate_run before ?n)" by (rule fits_run) auto
  from admitted_window [OF this _ _ assms(5,6), of k]
  have "of_nat (rate_admitted k es (rate_run before ?n)) \<le> rl_burst ?n + per_ns (rl_rate ?n) * of_nat (t1 - t0)
      + 2 * of_nat (rate_checks k es) * (rl_burst ?n * f64_eps)" using True by (simp add: image_iff) blast
  moreover have "rl_burst ?n = of_nat burst" using burst_ok_nat(1) [OF assms(2,3)] by (simp add: rate_limiter_new_def)
  moreover have "per_ns (rl_rate ?n) * of_nat (t1 - t0) \<le> of_nat per_min / 60 * (1 + f64_eps) ^ 6 / 10 ^ 9 * of_nat (t1 - t0)"
    by (rule mult_right_mono [OF per_ns_new]) simp
  ultimately show ?thesis by (simp add: algebra_simps)
next
  case False
  then have "rate_admitted k es l = 0" for l
    by (induction es arbitrary: l) (auto split: prod.splits)
  then show ?thesis by (auto intro!: add_nonneg_nonneg mult_nonneg_nonneg)
qed

theorem rate_limit_bound_witness:
  "of_nat (rate_admitted ''a'' [(5, [], ''a''), (6, [], ''b''), (10 ^ 9 + 5, [], ''a'')] (rate_run [] (rate_limiter_new 60 1 16)))
    \<le> of_nat 1 + of_nat 60 / 60 * (1 + f64_eps) ^ 6 * (of_nat (10 ^ 9 + 5 - 5) / 10 ^ 9)
      + 2 * of_nat (rate_checks ''a'' [(5, [], ''a''), (6, [], ''b''), (10 ^ 9 + 5, [], ''a'')]) * (of_nat 1 * f64_eps)"
  by (rule rate_limit_bound) (simp_all add: insert_commute)

section \<open>Checks out of order\<close>

text \<open>
  A check reads the clock before it takes the lock, and the refill sets the time of the bucket to the instant of the check
  even when that instant is older. A check that was overtaken therefore moves the bucket back in time, and the next one is
  credited with the same interval again: with one token per second and a burst of one, checks whose instants all lie within
  one second are admitted without limit.
\<close>

lemma stale_checks_refill_again:
  "rate_admitted ''a'' ((10 ^ 9, [], ''a'') # concat (replicate n [(0, [], ''a''), (10 ^ 9, [], ''a'')])) (rate_limiter_new 60 1 16) = Suc n"
proof -
  define l where "l = rate_limiter_new 60 1 16"
  define used where "used = l\<lparr>rl_buckets := Mapping.update ''a'' \<lparr>b_tokens = 0, b_updated = 10 ^ 9\<rparr> Mapping.empty\<rparr>"
  define stale where "stale = l\<lparr>rl_buckets := Mapping.update ''a'' \<lparr>b_tokens = 0, b_updated = 0\<rparr> Mapping.empty\<rparr>"
  have one: "f64_round 1 = 1" "f64_round 60 = 60" using f64_round_nat [of 1] f64_round_nat [of 60] by simp_all
  have second: "as_secs_f64 (10 ^ 9) = 1" by (simp add: as_secs_f64_def one)
  have l: "rl_rate l = 1" "rl_burst l = 1" "rl_buckets l = Mapping.empty" "rl_max l = 16"
    by (simp_all add: l_def rate_limiter_new_def one)
  have again: "Mapping.update k v (Mapping.update k v' m) = Mapping.update k v m" for k :: string and v v' :: bucket and m
    by transfer simp
  have "rate_check (10 ^ 9) [] ''a'' l = (used, None)"
    by (simp add: used_def rate_check_def touch_bucket_def make_room_def buckets_len_def l one Mapping.size_empty)
  moreover have "rate_check 0 [] ''a'' used = (stale, Some 1)"
    by (simp add: used_def stale_def rate_check_def touch_bucket_def refill_def retry_after_def l one again)
  moreover have "rate_check (10 ^ 9) [] ''a'' stale = (used, None)"
    using second by (simp add: used_def stale_def rate_check_def touch_bucket_def refill_def l one again)
  moreover from calculation have "rate_admitted ''a'' (concat (replicate n [(0, [], ''a''), (10 ^ 9, [], ''a'')])) used = n"
    by (induction n) simp_all
  ultimately show ?thesis by (simp add: l_def)
qed

end
