(* ===== verification/Transport_Record.thy ===== *)
theory Transport_Record
  imports Rust_Str
begin

text \<open>
  The TS2021 wire layouts of \<^verbatim>\<open>crabscale-transport\<close>: handshake messages (\<^verbatim>\<open>messages.rs\<close>), upgrade requests (\<^verbatim>\<open>upgrade.rs\<close>),
  the early payload (\<^verbatim>\<open>early.rs\<close>) and the encrypted records (\<^verbatim>\<open>record.rs\<close>). The AEAD, base64 and JSON are third-party
  code and arguments of the operations. A panic is the value \<^verbatim>\<open>None\<close>.
\<close>

section \<open>Errors and layout\<close>

datatype transport_error =
    InvalidInitMessage | InvalidResponseMessage | InvalidRecord | UnsupportedCapabilityVersion u16
  | UnexpectedMessageType byte | TransportOversized | TransportTruncated | HandshakeFailed | EarlyPayloadTooLarge
  | InvalidEarlyPayload | InvalidUpgradeRequest | UnsupportedSubprotocol | Http2 string | BodyTooLarge

definition show_transport_error :: "transport_error \<Rightarrow> string" where
  "show_transport_error e =
     (case e of
        InvalidInitMessage \<Rightarrow> ''invalid TS2021 init message''
      | InvalidResponseMessage \<Rightarrow> ''invalid TS2021 response message''
      | InvalidRecord \<Rightarrow> ''invalid Noise record frame''
      | UnsupportedCapabilityVersion v \<Rightarrow> ''unsupported capability version '' @ num_str 10 (unat v)
      | UnexpectedMessageType t \<Rightarrow> ''unexpected message type 0x'' @ [from_digit (unat t div 16), from_digit (unat t mod 16)]
      | TransportOversized \<Rightarrow> ''message exceeds the protocol size limit''
      | TransportTruncated \<Rightarrow> ''message is truncated''
      | HandshakeFailed \<Rightarrow> ''Noise handshake failed''
      | EarlyPayloadTooLarge \<Rightarrow> ''early payload is too large''
      | InvalidEarlyPayload \<Rightarrow> ''early payload is not valid JSON''
      | InvalidUpgradeRequest \<Rightarrow> ''invalid TS2021 upgrade request''
      | UnsupportedSubprotocol \<Rightarrow> ''unsupported WebSocket subprotocol''
      | Http2 e \<Rightarrow> ''HTTP/2 error: '' @ e
      | BodyTooLarge \<Rightarrow> ''request body exceeds the 1 MiB limit'')"

definition INIT_MESSAGE_LEN :: nat where [simp]: "INIT_MESSAGE_LEN = 101"
definition RESPONSE_MESSAGE_LEN :: nat where [simp]: "RESPONSE_MESSAGE_LEN = 51"
definition MAX_RECORD_FRAME_SIZE :: nat where [simp]: "MAX_RECORD_FRAME_SIZE = 4096"
definition RECORD_HEADER_LEN :: nat where [simp]: "RECORD_HEADER_LEN = 3"
definition AEAD_TAG_LEN :: nat where [simp]: "AEAD_TAG_LEN = 16"
definition MAX_RECORD_PLAINTEXT :: nat where
  [simp]: "MAX_RECORD_PLAINTEXT = MAX_RECORD_FRAME_SIZE - RECORD_HEADER_LEN - AEAD_TAG_LEN"
definition MAX_EARLY_PAYLOAD_LEN :: nat where "MAX_EARLY_PAYLOAD_LEN = 1024 * 1024"
definition MSG_TYPE_INIT :: byte where "MSG_TYPE_INIT = 0x01"
definition MSG_TYPE_RESPONSE :: byte where "MSG_TYPE_RESPONSE = 0x02"
definition MSG_TYPE_ERROR :: byte where "MSG_TYPE_ERROR = 0x03"
definition MSG_TYPE_RECORD :: byte where "MSG_TYPE_RECORD = 0x04"

section \<open>Handshake messages\<close>

record init_message =
  im_version :: u16
  im_client_ephemeral :: bytes
  im_client_static_ciphertext :: bytes
  im_payload_tag :: bytes

record response_message =
  rm_server_ephemeral :: bytes
  rm_auth_tag :: bytes

definition slice :: "nat \<Rightarrow> nat \<Rightarrow> bytes \<Rightarrow> bytes" where
  "slice a b xs = take (b - a) (drop a xs)"

definition parse_init_message :: "bytes \<Rightarrow> (transport_error, init_message) result" where
  "parse_init_message buf =
     (if length buf \<noteq> INIT_MESSAGE_LEN then Err InvalidInitMessage
      else if buf ! 2 \<noteq> MSG_TYPE_INIT then Err (UnexpectedMessageType (buf ! 2))
      else if un_be16 (buf ! 3) (buf ! 4) \<noteq> 96 then Err InvalidInitMessage
      else Ok \<lparr>im_version = un_be16 (buf ! 0) (buf ! 1), im_client_ephemeral = slice 5 37 buf,
               im_client_static_ciphertext = slice 37 85 buf, im_payload_tag = slice 85 101 buf\<rparr>)"

definition write_response_message :: "bytes \<Rightarrow> bytes \<Rightarrow> bytes" where
  "write_response_message server_ephemeral auth_tag = [MSG_TYPE_RESPONSE] @ be16 48 @ server_ephemeral @ auth_tag"

definition parse_response_message :: "bytes \<Rightarrow> (transport_error, response_message) result" where
  "parse_response_message buf =
     (if length buf \<noteq> RESPONSE_MESSAGE_LEN then Err InvalidResponseMessage
      else if buf ! 0 \<noteq> MSG_TYPE_RESPONSE then Err (UnexpectedMessageType (buf ! 0))
      else if un_be16 (buf ! 1) (buf ! 2) \<noteq> 48 then Err InvalidResponseMessage
      else Ok \<lparr>rm_server_ephemeral = slice 3 35 buf, rm_auth_tag = slice 35 51 buf\<rparr>)"

lemma parse_write_response:
  "length e = 32 \<Longrightarrow> length t = 16 \<Longrightarrow>
     parse_response_message (write_response_message e t) = Ok \<lparr>rm_server_ephemeral = e, rm_auth_tag = t\<rparr>"
  by (simp add: parse_response_message_def write_response_message_def slice_def be16_def un_be16_def)

section \<open>Upgrade requests\<close>

definition UPGRADE_HEADER_VALUE :: string where "UPGRADE_HEADER_VALUE = ''tailscale-control-protocol''"
definition HANDSHAKE_HEADER :: string where "HANDSHAKE_HEADER = ''X-Tailscale-Handshake''"

definition decode_handshake :: "(string \<Rightarrow> bytes option) \<Rightarrow> string \<Rightarrow> (transport_error, bytes) result" where
  "decode_handshake b64 encoded =
     (case b64 (trim encoded) of
        None \<Rightarrow> Err InvalidUpgradeRequest
      | Some bytes \<Rightarrow> if length bytes \<noteq> INIT_MESSAGE_LEN then Err InvalidInitMessage else Ok bytes)"

definition connection_upgrades :: "string option \<Rightarrow> bool" where
  "connection_upgrades connection =
     (case connection of
        None \<Rightarrow> False
      | Some v \<Rightarrow> list_ex (\<lambda>part. eq_ignore_ascii_case (trim part) ''upgrade'') (split_char CHR '','' v))"

definition validate_native_upgrade ::
  "(string \<Rightarrow> bytes option) \<Rightarrow> string \<Rightarrow> string option \<Rightarrow> string option \<Rightarrow> string option \<Rightarrow> (transport_error, bytes) result" where
  "validate_native_upgrade b64 meth upgrade connection handshake =
     (if meth \<noteq> ''POST'' then Err InvalidUpgradeRequest
      else if map_option to_ascii_lowercase upgrade \<noteq> Some UPGRADE_HEADER_VALUE then Err InvalidUpgradeRequest
      else if \<not> connection_upgrades connection then Err InvalidUpgradeRequest
      else case handshake of
        None \<Rightarrow> Err InvalidUpgradeRequest
      | Some h \<Rightarrow> decode_handshake b64 h)"

definition validate_websocket_upgrade ::
  "(string \<Rightarrow> bytes option) \<Rightarrow> string option \<Rightarrow> string option \<Rightarrow> (transport_error, bytes) result" where
  "validate_websocket_upgrade b64 subprotocol handshake =
     (if subprotocol \<noteq> Some UPGRADE_HEADER_VALUE then Err UnsupportedSubprotocol
      else case handshake of
        None \<Rightarrow> Err InvalidUpgradeRequest
      | Some h \<Rightarrow> decode_handshake b64 h)"

lemma validated_init_length:
  "validate_native_upgrade b64 meth upgrade connection handshake = Ok b \<Longrightarrow> length b = 101"
  "validate_websocket_upgrade b64 sub handshake = Ok b \<Longrightarrow> length b = 101"
  by (auto simp: validate_native_upgrade_def validate_websocket_upgrade_def decode_handshake_def
      split: if_splits option.splits)

section \<open>The early payload\<close>

definition EARLY_PAYLOAD_MAGIC :: bytes where
  "EARLY_PAYLOAD_MAGIC = [0xFF, 0xFF, 0xFF, byte_of_char CHR ''T'', byte_of_char CHR ''S'']"

definition encode_early_payload :: "(bytes \<Rightarrow> bytes option) \<Rightarrow> bytes \<Rightarrow> (transport_error, bytes) result" where
  "encode_early_payload to_json challenge =
     (case to_json challenge of
        None \<Rightarrow> Err InvalidEarlyPayload
      | Some json \<Rightarrow>
          if length json > MAX_EARLY_PAYLOAD_LEN then Err EarlyPayloadTooLarge
          else Ok (EARLY_PAYLOAD_MAGIC @ be32 (word_of_nat (length json)) @ json))"

definition decode_early_payload :: "(bytes \<Rightarrow> bytes option) \<Rightarrow> bytes \<Rightarrow> (transport_error, bytes) result" where
  "decode_early_payload of_json buf =
     (if length buf < length EARLY_PAYLOAD_MAGIC + 4 then Err TransportTruncated
      else if take (length EARLY_PAYLOAD_MAGIC) buf \<noteq> EARLY_PAYLOAD_MAGIC then Err InvalidEarlyPayload
      else
        let len = unat (un_be32 (buf ! 5) (buf ! 6) (buf ! 7) (buf ! 8)); start = length EARLY_PAYLOAD_MAGIC + 4 in
        if len > MAX_EARLY_PAYLOAD_LEN then Err EarlyPayloadTooLarge
        else if length buf < start + len then Err TransportTruncated
        else case of_json (slice start (start + len) buf) of
          None \<Rightarrow> Err InvalidEarlyPayload
        | Some challenge \<Rightarrow> Ok challenge)"

lemma decode_encode_early:
  assumes "to_json c = Some j" "of_json j = Some c" "length j \<le> MAX_EARLY_PAYLOAD_LEN"
  obtains b where "encode_early_payload to_json c = Ok b" "decode_early_payload of_json (b @ rest) = Ok c"
proof -
  have "unat (word_of_nat (length j) :: u32) = length j"
    using assms(3) by (simp add: unat_of_nat MAX_EARLY_PAYLOAD_LEN_def)
  then show thesis
    using assms that [of "EARLY_PAYLOAD_MAGIC @ be32 (word_of_nat (length j)) @ j"]
    by (simp add: encode_early_payload_def decode_early_payload_def EARLY_PAYLOAD_MAGIC_def Let_def be32_def slice_def)
qed

section \<open>Records\<close>

text \<open>ChaCha20-Poly1305 with a detached tag: key, nonce, associated data, text.\<close>

record aead =
  ae_seal :: "bytes \<Rightarrow> bytes \<Rightarrow> bytes \<Rightarrow> bytes \<Rightarrow> bytes \<times> bytes"
  ae_open :: "bytes \<Rightarrow> bytes \<Rightarrow> bytes \<Rightarrow> bytes \<Rightarrow> bytes \<Rightarrow> bytes option"

record record_cipher =
  rc_key :: bytes
  rc_nonce :: u64

definition record_cipher_new :: "bytes \<Rightarrow> record_cipher" where
  "record_cipher_new key = \<lparr>rc_key = key, rc_nonce = 0\<rparr>"

definition next_nonce :: "record_cipher \<Rightarrow> (bytes \<times> record_cipher) option" where
  "next_nonce c =
     (if rc_nonce c = - 1 then None
      else Some (replicate 4 0 @ be64 (rc_nonce c), c\<lparr>rc_nonce := rc_nonce c + 1\<rparr>))"

function chunks :: "nat \<Rightarrow> 'a list \<Rightarrow> 'a list list" where
  "chunks n xs = (if xs = [] \<or> n = 0 then [] else take n xs # chunks n (drop n xs))"
  by pat_completeness auto
termination by (relation "measure (\<lambda>(_, xs). length xs)") auto

declare chunks.simps [simp del]

definition seal_record :: "aead \<Rightarrow> bytes \<Rightarrow> bytes \<Rightarrow> bytes \<Rightarrow> bytes" where
  "seal_record a key nonce chunk =
     (let (body, tag) = ae_seal a key nonce [] chunk in
      [MSG_TYPE_RECORD] @ be16 (word_of_nat (length body + AEAD_TAG_LEN)) @ body @ tag)"

fun encode_chunks :: "aead \<Rightarrow> record_cipher \<Rightarrow> bytes list \<Rightarrow> bytes \<Rightarrow> (bytes \<times> record_cipher) option" where
  "encode_chunks a c [] out = Some (out, c)"
| "encode_chunks a c (chunk # rest) out =
     (case next_nonce c of
        None \<Rightarrow> None
      | Some (nonce, c') \<Rightarrow> encode_chunks a c' rest (out @ seal_record a (rc_key c) nonce chunk))"

definition record_encode :: "aead \<Rightarrow> record_cipher \<Rightarrow> bytes \<Rightarrow> (bytes \<times> record_cipher) option" where
  "record_encode a c plaintext = encode_chunks a c (chunks MAX_RECORD_PLAINTEXT plaintext) []"

definition decode_one ::
  "aead \<Rightarrow> record_cipher \<Rightarrow> bytes \<Rightarrow> (record_cipher \<times> (transport_error, (bytes \<times> nat) option) result) option" where
  "decode_one a c buf =
     (if length buf < RECORD_HEADER_LEN then Some (c, Ok None)
      else
        let msg_type = buf ! 0;
            len = unat (un_be16 (buf ! 1) (buf ! 2));
            total = RECORD_HEADER_LEN + len in
        if total > MAX_RECORD_FRAME_SIZE then Some (c, Err TransportOversized)
        else if length buf < total then Some (c, Ok None)
        else if msg_type = MSG_TYPE_RECORD then
          if len < AEAD_TAG_LEN then Some (c, Err InvalidRecord)
          else
            let full = slice RECORD_HEADER_LEN total buf;
                body = take (length full - AEAD_TAG_LEN) full;
                tag = drop (length full - AEAD_TAG_LEN) full in
            (case next_nonce c of
               None \<Rightarrow> None
             | Some (nonce, c') \<Rightarrow>
                 (case ae_open a (rc_key c) nonce [] body tag of
                    None \<Rightarrow> Some (c', Err HandshakeFailed)
                  | Some plain \<Rightarrow> Some (c', Ok (Some (plain, total)))))
        else if msg_type = MSG_TYPE_ERROR then Some (c, Err HandshakeFailed)
        else Some (c, Err (UnexpectedMessageType msg_type)))"

record record_decoder =
  rd_cipher :: record_cipher
  rd_buf :: bytes

definition record_decoder_new :: "bytes \<Rightarrow> record_decoder" where
  "record_decoder_new key = \<lparr>rd_cipher = record_cipher_new key, rd_buf = []\<rparr>"

lemma decode_one_total:
  "decode_one a c buf = Some (c', Inr (Some (p, n))) \<Longrightarrow> 3 \<le> n \<and> n \<le> length buf"
  by (auto simp: decode_one_def Let_def split: if_splits option.splits)

function decode_loop ::
  "aead \<Rightarrow> record_cipher \<Rightarrow> bytes \<Rightarrow> bytes \<Rightarrow> (record_decoder \<times> (transport_error, bytes) result) option" where
  "decode_loop a c buf out =
     (case decode_one a c buf of
        None \<Rightarrow> None
      | Some (c', Inl e) \<Rightarrow> Some (\<lparr>rd_cipher = c', rd_buf = buf\<rparr>, Err e)
      | Some (c', Inr None) \<Rightarrow> Some (\<lparr>rd_cipher = c', rd_buf = buf\<rparr>, Ok out)
      | Some (c', Inr (Some (plaintext, consumed))) \<Rightarrow> decode_loop a c' (drop consumed buf) (out @ plaintext))"
  by pat_completeness auto
termination by (relation "measure (\<lambda>(_, _, buf, _). length buf)") (auto dest!: decode_one_total)

declare decode_loop.simps [simp del]

definition record_feed :: "aead \<Rightarrow> record_decoder \<Rightarrow> bytes \<Rightarrow> (record_decoder \<times> (transport_error, bytes) result) option" where
  "record_feed a d data = decode_loop a (rd_cipher d) (rd_buf d @ data) []"

section \<open>Decoding does not depend on how the bytes arrive\<close>

lemma slice_append [simp]: "b \<le> length xs \<Longrightarrow> slice a b (xs @ ys) = slice a b xs"
  by (cases "a \<le> b") (simp_all add: slice_def)

lemma decode_one_more: "decode_one a c b = Some (c', Inr None) \<Longrightarrow> c' = c"
  by (auto simp: decode_one_def Let_def split: if_splits option.splits)

lemma decode_one_append:
  assumes "\<And>c'. decode_one a c b \<noteq> Some (c', Inr None)"
  shows "decode_one a c (b @ x) = decode_one a c b"
proof -
  have "3 \<le> length b" using assms [of c] by (cases "length b < 3") (auto simp: decode_one_def)
  moreover have "\<not> length b < 3 + unat (un_be16 (b ! 1) (b ! 2)) \<or> 3 + unat (un_be16 (b ! 1) (b ! 2)) > 4096"
    using assms [of c] by (auto simp: decode_one_def Let_def split: if_splits)
  ultimately show ?thesis by (auto simp: decode_one_def Let_def nth_append)
qed

lemma decode_loop_append:
  assumes "decode_loop a c b out = Some (d, Inr out')"
  shows "decode_loop a c (b @ x) out = decode_loop a (rd_cipher d) (rd_buf d @ x) out'"
  using assms
proof (induction a c b out rule: decode_loop.induct)
  case (1 a c b out)
  show ?case
  proof (cases "\<exists>c'. decode_one a c b = Some (c', Inr None)")
    case True
    then have "decode_one a c b = Some (c, Inr None)" using decode_one_more by blast
    then show ?thesis using "1.prems" by (auto simp: decode_loop.simps [of a c b])
  next
    case False
    then have same: "decode_one a c (b @ x) = decode_one a c b" by (intro decode_one_append) auto
    obtain c' p n where one: "decode_one a c b = Some (c', Inr (Some (p, n)))"
      using "1.prems" False by (subst (asm) decode_loop.simps) (auto split: option.splits sum.splits prod.splits)
    then have "n \<le> length b" using decode_one_total by blast
    then have "decode_loop a c (b @ x) out = decode_loop a c' (drop n b @ x) (out @ p)"
      using one same by (subst decode_loop.simps) simp
    also have "\<dots> = decode_loop a (rd_cipher d) (rd_buf d @ x) out'"
    proof -
      have "decode_loop a c' (drop n b) (out @ p) = Some (d, Inr out')"
        using "1.prems" one by (subst (asm) decode_loop.simps) simp
      then show ?thesis using "1.IH" one by blast
    qed
    finally show ?thesis .
  qed
qed

lemma decode_loop_stuck:
  assumes "decode_loop a c b out = None \<or> decode_loop a c b out = Some (d, Inl e)"
  shows "decode_loop a c (b @ x) out = None \<or> (\<exists>d'. decode_loop a c (b @ x) out = Some (d', Inl e))"
  using assms
proof (induction a c b out rule: decode_loop.induct)
  case (1 a c b out)
  have "decode_one a c b \<noteq> Some (c', Inr None)" for c'
    using "1.prems" by (auto simp: decode_loop.simps [of a c b])
  then have same: "decode_one a c (b @ x) = decode_one a c b" by (rule decode_one_append)
  show ?case
  proof (cases "\<exists>c' p n. decode_one a c b = Some (c', Inr (Some (p, n)))")
    case False
    then show ?thesis
      using "1.prems" same
      by (auto simp: decode_loop.simps [of a c b] decode_loop.simps [of a c "b @ x"] split: option.splits sum.splits prod.splits)
  next
    case True
    then obtain c' p n where one: "decode_one a c b = Some (c', Inr (Some (p, n)))" by blast
    then have "n \<le> length b" using decode_one_total by blast
    then have "decode_loop a c (b @ x) out = decode_loop a c' (drop n b @ x) (out @ p)"
      using one same by (subst decode_loop.simps) simp
    moreover have "decode_loop a c b out = decode_loop a c' (drop n b) (out @ p)" using one by (subst decode_loop.simps) simp
    ultimately show ?thesis using "1.IH" [OF one refl refl refl refl] "1.prems" by auto
  qed
qed

lemma decode_loop_out:
  "decode_loop a c b out = (case decode_loop a c b [] of
     Some (d, Inr o2) \<Rightarrow> Some (d, Inr (out @ o2)) | r \<Rightarrow> r)"
proof (induction "length b" arbitrary: c b out rule: less_induct)
  case less
  show ?case
  proof (cases "\<exists>c' p n. decode_one a c b = Some (c', Inr (Some (p, n)))")
    case False
    then show ?thesis
      by (auto simp: decode_loop.simps [of a c b] split: option.splits sum.splits prod.splits)
  next
    case True
    then obtain c' p n where one: "decode_one a c b = Some (c', Inr (Some (p, n)))" by blast
    then have n: "length (drop n b) < length b" using decode_one_total [OF one] by auto
    have "decode_loop a c b o1 = decode_loop a c' (drop n b) (o1 @ p)" for o1 using one by (subst decode_loop.simps) simp
    then show ?thesis using less [OF n, of c' "out @ p"] less [OF n, of c' p] by (auto split: option.splits sum.splits)
  qed
qed

text \<open>The reads of a connection, each passed to \<^verbatim>\<open>feed\<close>, up to the first error.\<close>

fun record_feeds :: "aead \<Rightarrow> record_decoder \<Rightarrow> bytes list \<Rightarrow> (record_decoder \<times> (transport_error, bytes) result) option" where
  "record_feeds a d [] = Some (d, Ok [])"
| "record_feeds a d (x # xs) =
     (case record_feed a d x of
        None \<Rightarrow> None
      | Some (d', Inl e) \<Rightarrow> Some (d', Err e)
      | Some (d', Inr out) \<Rightarrow>
          (case record_feeds a d' xs of
             Some (d'', Inr out') \<Rightarrow> Some (d'', Ok (out @ out'))
           | r \<Rightarrow> r))"

lemma decode_loop_idle: "decode_loop a c b out = Some (d, Inr out') \<Longrightarrow> decode_one a (rd_cipher d) (rd_buf d) = Some (rd_cipher d, Inr None)"
proof (induction a c b out rule: decode_loop.induct)
  case (1 a c b out)
  show ?case
  proof (cases "\<exists>c' p n. decode_one a c b = Some (c', Inr (Some (p, n)))")
    case True
    then obtain c' p n where one: "decode_one a c b = Some (c', Inr (Some (p, n)))" by blast
    then have "decode_loop a c' (drop n b) (out @ p) = Some (d, Inr out')" using "1.prems" by (subst (asm) decode_loop.simps) simp
    then show ?thesis using "1.IH" [OF one refl refl refl refl] by blast
  next
    case False
    then show ?thesis
      using "1.prems" decode_one_more [of a c b]
      by (auto simp: decode_loop.simps [of a c b] split: option.splits sum.splits prod.splits)
  qed
qed

lemma record_feeds_concat:
  assumes "decode_one a (rd_cipher d) (rd_buf d) = Some (rd_cipher d, Inr None)" "record_feed a d (concat xs) = Some (d', Inr out)"
  shows "record_feeds a d xs = Some (d', Inr out)"
  using assms
proof (induction xs arbitrary: d out)
  case Nil
  then have "decode_loop a (rd_cipher d) (rd_buf d) [] = Some (d, Ok [])"
    by (subst decode_loop.simps) simp
  then show ?case using Nil by (simp add: record_feed_def)
next
  case (Cons x xs)
  have whole: "decode_loop a (rd_cipher d) ((rd_buf d @ x) @ concat xs) [] = Some (d', Inr out)"
    using Cons.prems(2) by (simp add: record_feed_def)
  then obtain d1 o1 where one: "decode_loop a (rd_cipher d) (rd_buf d @ x) [] = Some (d1, Inr o1)"
    using decode_loop_stuck [of a "rd_cipher d" "rd_buf d @ x" "[]" _ _ "concat xs"]
    by (cases "decode_loop a (rd_cipher d) (rd_buf d @ x) []"; cases "snd (the (decode_loop a (rd_cipher d) (rd_buf d @ x) []))") auto
  from decode_loop_append [OF one] whole have
    "decode_loop a (rd_cipher d1) (rd_buf d1 @ concat xs) o1 = Some (d', Inr out)" by simp
  then obtain o2 where "record_feed a d1 (concat xs) = Some (d', Inr o2)" "out = o1 @ o2"
    by (subst (asm) decode_loop_out) (auto simp: record_feed_def split: option.splits sum.splits)
  then show ?case using Cons.IH [OF decode_loop_idle [OF one]] one by (simp add: record_feed_def)
qed

section \<open>Round trip\<close>

text \<open>What the AEAD promises: ciphertext is as long as its text, tags have 16 bytes, and opening gives back the text.\<close>

definition aead_opens :: "aead \<Rightarrow> bool" where
  "aead_opens a \<longleftrightarrow> (\<forall>k n ad m. case ae_seal a k n ad m of
     (x, t) \<Rightarrow> length x = length m \<and> length t = AEAD_TAG_LEN \<and> ae_open a k n ad x t = Some m)"

lemma aead_opensD:
  assumes "aead_opens a"
  obtains x t where "ae_seal a k n ad m = (x, t)" "length x = length m" "length t = 16" "ae_open a k n ad x t = Some m"
proof -
  obtain x t where xt: "ae_seal a k n ad m = (x, t)" by (cases "ae_seal a k n ad m")
  then show thesis using assms that [OF xt] unfolding aead_opens_def by (auto split: prod.splits)
qed

lemma concat_chunks: "0 < n \<Longrightarrow> concat (chunks n xs) = xs"
  by (induction n xs rule: chunks.induct) (subst chunks.simps, auto)

lemma chunks_bounds: "c \<in> set (chunks n xs) \<Longrightarrow> length c \<le> n"
  by (induction n xs rule: chunks.induct) (subst (asm) (2) chunks.simps, auto split: if_splits)

lemma length_chunks: "0 < n \<Longrightarrow> length (chunks n xs) \<le> length xs"
proof (induction n xs rule: chunks.induct)
  case (1 n xs)
  show ?case
  proof (cases "xs = []")
    case False
    then have "length (chunks n (drop n xs)) \<le> length xs - n" using 1 by simp
    moreover have "0 < length xs" using False by simp
    ultimately have "Suc (length (chunks n (drop n xs))) \<le> length xs" using 1(2) by linarith
    then show ?thesis using 1(2) False by (subst chunks.simps) simp
  qed (simp add: chunks.simps)
qed

lemma next_nonce_Some:
  assumes "unat (rc_nonce c) + 1 < 2 ^ 64"
  obtains nonce where "next_nonce c = Some (nonce, c\<lparr>rc_nonce := rc_nonce c + 1\<rparr>)" "unat (rc_nonce c + 1) = unat (rc_nonce c) + 1"
proof -
  have u: "unat (rc_nonce c + 1) = unat (rc_nonce c) + 1" using assms by (simp add: unat_word_ariths)
  then have "rc_nonce c \<noteq> - 1" by auto
  then show thesis using u that by (simp add: next_nonce_def)
qed

lemma decode_one_sealed:
  assumes a: "aead_opens a" and n: "next_nonce c = Some (nonce, c')" and l: "length chunk \<le> 4077"
  shows "decode_one a c (seal_record a (rc_key c) nonce chunk @ rest)
      = Some (c', Ok (Some (chunk, length (seal_record a (rc_key c) nonce chunk))))"
proof -
  obtain x t where x: "ae_seal a (rc_key c) nonce [] chunk = (x, t)" "length x = length chunk" "length t = 16"
    "ae_open a (rc_key c) nonce [] x t = Some chunk"
    using a by (rule aead_opensD)
  have u: "unat (word_of_nat (length chunk + 16) :: u16) = length chunk + 16" using l by (simp add: unat_of_nat del: of_nat_add)
  define w where "w = (word_of_nat (length chunk + 16) :: u16)"
  have uw: "unat w = length chunk + 16" unfolding w_def by (rule u)
  have r: "seal_record a (rc_key c) nonce chunk = [MSG_TYPE_RECORD] @ be16 w @ x @ t"
    by (simp add: seal_record_def x w_def del: of_nat_add)
  have hd: "([MSG_TYPE_RECORD] @ be16 w @ x @ t @ rest) ! 0 = MSG_TYPE_RECORD"
    "un_be16 (([MSG_TYPE_RECORD] @ be16 w @ x @ t @ rest) ! 1) (([MSG_TYPE_RECORD] @ be16 w @ x @ t @ rest) ! 2) = w"
    by (simp_all add: be16_def)
  have sl: "Transport_Record.slice 3 (3 + (length chunk + 16)) ([MSG_TYPE_RECORD] @ be16 w @ x @ t @ rest) = x @ t"
    using x by (simp add: Transport_Record.slice_def)
  show ?thesis
    unfolding decode_one_def Let_def r append_assoc hd uw
    using l sl x n by (simp add: MSG_TYPE_RECORD_def)
qed

lemma encode_chunks_decodes:
  assumes a: "aead_opens a" and "\<forall>chunk \<in> set cs. length chunk \<le> 4077" "unat (rc_nonce c) + length cs < 2 ^ 64"
  shows "\<exists>w c'. encode_chunks a c cs out = Some (out @ w, c') \<and> unat (rc_nonce c') = unat (rc_nonce c) + length cs
    \<and> (\<forall>rest o1. decode_loop a c (w @ rest) o1 = decode_loop a c' rest (o1 @ concat cs))"
  using assms(2,3)
proof (induction cs arbitrary: c out)
  case (Cons chunk cs)
  then have "unat (rc_nonce c) + 1 < 2 ^ 64" by simp
  then obtain nonce where nonce: "next_nonce c = Some (nonce, c\<lparr>rc_nonce := rc_nonce c + 1\<rparr>)"
    and u: "unat (rc_nonce c + 1) = unat (rc_nonce c) + 1"
    by (rule next_nonce_Some)
  let ?c = "c\<lparr>rc_nonce := rc_nonce c + 1\<rparr>" and ?r = "seal_record a (rc_key c) nonce chunk"
  obtain w c' where ih: "encode_chunks a ?c cs (out @ ?r) = Some ((out @ ?r) @ w, c')" "unat (rc_nonce c') = unat (rc_nonce ?c) + length cs"
    "\<forall>rest o1. decode_loop a ?c (w @ rest) o1 = decode_loop a c' rest (o1 @ concat cs)"
    using Cons.IH [of ?c "out @ ?r"] Cons.prems u by auto
  have "decode_loop a c ((?r @ w) @ rest) o1 = decode_loop a c' rest (o1 @ concat (chunk # cs))" for rest o1
    using decode_one_sealed [OF a nonce, of chunk "w @ rest"] Cons.prems ih(3) by (subst decode_loop.simps) simp
  then show ?case using ih(1,2) nonce u by (intro exI [of _ "?r @ w"] exI [of _ c']) simp
qed simp

text \<open>Successive writes with one cipher.\<close>

fun record_writes :: "aead \<Rightarrow> record_cipher \<Rightarrow> bytes list \<Rightarrow> (bytes \<times> record_cipher) option" where
  "record_writes a c [] = Some ([], c)"
| "record_writes a c (m # ms) =
     (case record_encode a c m of
        None \<Rightarrow> None
      | Some (w, c') \<Rightarrow> (case record_writes a c' ms of None \<Rightarrow> None | Some (ws, c'') \<Rightarrow> Some (w @ ws, c'')))"

lemma record_writes_decode:
  assumes a: "aead_opens a" and "unat (rc_nonce c) + length (concat ms) < 2 ^ 64"
  shows "\<exists>w c'. record_writes a c ms = Some (w, c')
    \<and> (\<forall>rest o1. decode_loop a c (w @ rest) o1 = decode_loop a c' rest (o1 @ concat ms))"
  using assms(2)
proof (induction ms arbitrary: c)
  case (Cons m ms)
  let ?cs = "chunks MAX_RECORD_PLAINTEXT m"
  have cs: "\<forall>chunk \<in> set ?cs. length chunk \<le> 4077" "length ?cs \<le> length m" "concat ?cs = m"
    using chunks_bounds [of _ MAX_RECORD_PLAINTEXT m] length_chunks [of MAX_RECORD_PLAINTEXT m] concat_chunks [of MAX_RECORD_PLAINTEXT m]
    by auto
  then have "unat (rc_nonce c) + length ?cs < 2 ^ 64" using Cons.prems by simp
  then obtain w c' where w: "record_encode a c m = Some (w, c')" "unat (rc_nonce c') = unat (rc_nonce c) + length ?cs"
    "\<forall>rest o1. decode_loop a c (w @ rest) o1 = decode_loop a c' rest (o1 @ m)"
    using encode_chunks_decodes [OF a cs(1), of c "[]"] cs(3) unfolding record_encode_def by auto
  moreover have "unat (rc_nonce c') + length (concat ms) < 2 ^ 64" using w(2) cs(2) Cons.prems by simp
  ultimately show ?case using Cons.IH [of c'] by fastforce
qed simp

lemma record_idle: "decode_one a c [] = Some (c, Ok None)"
  by (simp add: decode_one_def)

lemma record_writes_feed:
  assumes "aead_opens a" "unat (rc_nonce c) + length (concat ms) < 2 ^ 64"
  obtains w c' where "record_writes a c ms = Some (w, c')"
    "record_feed a \<lparr>rd_cipher = c, rd_buf = []\<rparr> w = Some (\<lparr>rd_cipher = c', rd_buf = []\<rparr>, Ok (concat ms))"
proof -
  obtain w c' where w: "record_writes a c ms = Some (w, c')"
    "\<forall>rest o1. decode_loop a c (w @ rest) o1 = decode_loop a c' rest (o1 @ concat ms)"
    using record_writes_decode [OF assms] by blast
  have "decode_loop a c' [] (concat ms) = Some (\<lparr>rd_cipher = c', rd_buf = []\<rparr>, Ok (concat ms))"
    by (subst decode_loop.simps) (simp add: record_idle)
  then have "decode_loop a c w [] = Some (\<lparr>rd_cipher = c', rd_buf = []\<rparr>, Ok (concat ms))"
    using w(2) [rule_format, of "[]" "[]"] by simp
  with w(1) show thesis by (intro that) (simp_all add: record_feed_def)
qed

text \<open>A record as the protocol bounds it: type byte 4, a length field that counts the rest, at most 4096 bytes in all.\<close>

definition wire_record :: "bytes \<Rightarrow> bool" where
  "wire_record b \<longleftrightarrow> 3 \<le> length b \<and> length b \<le> 4096 \<and> b ! 0 = 0x04 \<and> unat (un_be16 (b ! 1) (b ! 2)) = length b - 3"

lemma wire_record_sealed:
  assumes "aead_opens a" "length chunk \<le> 4077"
  shows "wire_record (seal_record a key nonce chunk)"
proof -
  obtain x t where x: "ae_seal a key nonce [] chunk = (x, t)" "length x = length chunk" "length t = 16"
    using assms(1) by (rule aead_opensD)
  have "unat (word_of_nat (length chunk + 16) :: u16) = length chunk + 16" using assms(2) by (simp add: unat_of_nat del: of_nat_add)
  moreover have "un_be16 (be16 w ! 0) (be16 w ! 1) = w" for w by (simp add: be16_def)
  ultimately show ?thesis
    using assms(2) x by (simp add: wire_record_def seal_record_def MSG_TYPE_RECORD_def nth_append del: of_nat_add)
qed

lemma encode_chunks_records:
  "aead_opens a \<Longrightarrow> \<forall>chunk \<in> set cs. length chunk \<le> 4077 \<Longrightarrow> encode_chunks a c cs out = Some (w, c') \<Longrightarrow>
     \<exists>rs. w = out @ concat rs \<and> list_all wire_record rs"
proof (induction cs arbitrary: c out)
  case Nil
  then show ?case by (intro exI [of _ "[]"]) simp
next
  case (Cons chunk cs)
  obtain nonce c1 where n: "next_nonce c = Some (nonce, c1)" using Cons.prems(3) by (auto split: option.splits)
  let ?r = "seal_record a (rc_key c) nonce chunk"
  obtain rs where "w = (out @ ?r) @ concat rs" "list_all wire_record rs"
    using Cons.IH [of c1 "out @ ?r"] Cons.prems n by auto
  then show ?case using wire_record_sealed [OF Cons.prems(1), of chunk] Cons.prems(2) by (intro exI [of _ "?r # rs"]) simp
qed

lemma record_writes_records:
  "aead_opens a \<Longrightarrow> record_writes a c ms = Some (w, c') \<Longrightarrow> \<exists>rs. w = concat rs \<and> list_all wire_record rs"
proof (induction ms arbitrary: c w)
  case Nil
  then show ?case by (intro exI [of _ "[]"]) simp
next
  case (Cons m ms)
  obtain w1 c1 w2 where w: "record_encode a c m = Some (w1, c1)" "record_writes a c1 ms = Some (w2, c')" "w = w1 @ w2"
    using Cons.prems(2) by (auto split: option.splits)
  have "\<forall>chunk \<in> set (chunks MAX_RECORD_PLAINTEXT m). length chunk \<le> 4077"
    using chunks_bounds [of _ MAX_RECORD_PLAINTEXT m] by auto
  then obtain rs1 where "w1 = concat rs1" "list_all wire_record rs1"
    using encode_chunks_records [OF Cons.prems(1) _ w(1) [unfolded record_encode_def]] by auto
  moreover obtain rs2 where "w2 = concat rs2" "list_all wire_record rs2" using Cons.IH [OF Cons.prems(1) w(2)] by blast
  ultimately show ?case using w(3) by (intro exI [of _ "rs1 @ rs2"]) simp
qed

text \<open>
  C11. The encrypted stream is the plaintext stream. Whatever is written with one cipher, in writes of any size, goes out as
  a sequence of records of at most 4096 bytes each, and however
  the resulting bytes are cut on their way, the decoder that starts with the same key and counter hands out exactly the
  written bytes, in order, with nothing left over and its counter equal to the writer's. The writer does not run out
  of nonces before 2 to the 64 bytes. That the AEAD opens what it sealed is a hypothesis.
\<close>

theorem record_stream_roundtrip:
  assumes "aead_opens a" "unat (rc_nonce c) + length (concat ms) < 2 ^ 64"
  shows "\<exists>w c'. record_writes a c ms = Some (w, c')
    \<and> (\<exists>rs. w = concat rs \<and> list_all wire_record rs)
    \<and> (\<forall>ds. concat ds = w \<longrightarrow> record_feeds a \<lparr>rd_cipher = c, rd_buf = []\<rparr> ds = Some (\<lparr>rd_cipher = c', rd_buf = []\<rparr>, Ok (concat ms)))"
proof -
  obtain w c' where w: "record_writes a c ms = Some (w, c')"
    "record_feed a \<lparr>rd_cipher = c, rd_buf = []\<rparr> w = Some (\<lparr>rd_cipher = c', rd_buf = []\<rparr>, Ok (concat ms))"
    using assms by (rule record_writes_feed)
  then have "record_feeds a \<lparr>rd_cipher = c, rd_buf = []\<rparr> ds = Some (\<lparr>rd_cipher = c', rd_buf = []\<rparr>, Ok (concat ms))"
    if "concat ds = w" for ds
    using that by (intro record_feeds_concat) (simp_all add: record_idle)
  with w(1) record_writes_records [OF assms(1) w(1)] show ?thesis by blast
qed

definition plain_aead :: aead where
  "plain_aead = \<lparr>ae_seal = (\<lambda>_ _ _ m. (m, replicate 16 0)), ae_open = (\<lambda>_ _ _ x _. Some x)\<rparr>"

lemma plain_aead_opens: "aead_opens plain_aead"
  by (simp add: aead_opens_def plain_aead_def)

theorem record_stream_roundtrip_witness:
  "\<exists>w c'. record_writes plain_aead (record_cipher_new [1]) [[2, 3], [4]] = Some (w, c')
    \<and> record_feeds plain_aead (record_decoder_new [1]) [take 5 w, drop 5 w]
       = Some (\<lparr>rd_cipher = c', rd_buf = []\<rparr>, Ok [2, 3, 4])"
proof -
  obtain w c' where w: "record_writes plain_aead (record_cipher_new [1]) [[2, 3], [4]] = Some (w, c')"
    and ds: "\<forall>ds. concat ds = w \<longrightarrow> record_feeds plain_aead \<lparr>rd_cipher = record_cipher_new [1], rd_buf = []\<rparr> ds
        = Some (\<lparr>rd_cipher = c', rd_buf = []\<rparr>, Ok (concat [[2, 3], [4]]))"
    using record_stream_roundtrip [OF plain_aead_opens, of "record_cipher_new [1]" "[[2, 3], [4]]"]
    by (auto simp: record_cipher_new_def)
  have "record_feeds plain_aead (record_decoder_new [1]) [take 5 w, drop 5 w]
       = Some (\<lparr>rd_cipher = c', rd_buf = []\<rparr>, Ok [2, 3, 4])"
    using ds [rule_format, of "[take 5 w, drop 5 w]"] by (simp add: record_decoder_new_def del: record_feeds.simps)
  with w show ?thesis by blast
qed

end
