(* ===== verification/Transport_Noise.thy ===== *)
theory Transport_Noise
  imports Transport_Record Proto_Types
begin

text \<open>
  The Noise IK handshake of the TS2021 transport, \<^verbatim>\<open>crabscale-transport/src/noise.rs\<close>: the symmetric state, the responder and
  the initiator. BLAKE2s, HKDF, X25519 and the AEAD are third-party code, the fields of \<^verbatim>\<open>noise_crypto\<close>; ephemeral secrets are
  arguments, as in the \<^verbatim>\<open>_with_ephemeral\<close> functions of the code.
\<close>

definition PROTOCOL_NAME :: bytes where
  "PROTOCOL_NAME = as_bytes ''Noise_IK_25519_ChaChaPoly_BLAKE2s''"

record noise_crypto =
  nc_hash :: "bytes \<Rightarrow> bytes"
  nc_hkdf :: "bytes \<Rightarrow> bytes \<Rightarrow> bytes \<times> bytes"
  nc_public :: "bytes \<Rightarrow> bytes"
  nc_dh :: "bytes \<Rightarrow> bytes \<Rightarrow> bytes"
  nc_aead :: aead

datatype role = Initiator | Responder

record session =
  se_initiator_to_responder :: bytes
  se_responder_to_initiator :: bytes
  se_role :: role

record responder_output =
  ro_response :: bytes
  ro_session :: session
  ro_peer_static_public :: bytes

section \<open>The symmetric state\<close>

record noise_state =
  ss_hash :: bytes
  ss_chaining_key :: bytes

record state_with_aead =
  sa_state :: noise_state
  sa_key :: bytes

definition state_new :: "noise_crypto \<Rightarrow> bytes \<Rightarrow> noise_state" where
  "state_new c protocol_name = (let digest = nc_hash c protocol_name in \<lparr>ss_hash = digest, ss_chaining_key = digest\<rparr>)"

definition mix_hash :: "noise_crypto \<Rightarrow> bytes \<Rightarrow> noise_state \<Rightarrow> noise_state" where
  "mix_hash c data s = s\<lparr>ss_hash := nc_hash c (ss_hash s @ data)\<rparr>"

definition mix_hash_gather :: "noise_crypto \<Rightarrow> bytes list \<Rightarrow> noise_state \<Rightarrow> noise_state" where
  "mix_hash_gather c data s = s\<lparr>ss_hash := nc_hash c (ss_hash s @ concat data)\<rparr>"

definition mix_dh :: "noise_crypto \<Rightarrow> bytes \<Rightarrow> bytes \<Rightarrow> noise_state \<Rightarrow> state_with_aead" where
  "mix_dh c private public s =
     (let shared = nc_dh c private public;
          (ck, k) = nc_hkdf c (ss_chaining_key s) shared in
      \<lparr>sa_state = \<lparr>ss_hash = ss_hash s, ss_chaining_key = ck\<rparr>, sa_key = k\<rparr>)"

definition finish_state :: "noise_crypto \<Rightarrow> role \<Rightarrow> noise_state \<Rightarrow> session" where
  "finish_state c role s =
     (let (i2r, r2i) = nc_hkdf c (ss_chaining_key s) [] in
      \<lparr>se_initiator_to_responder = i2r, se_responder_to_initiator = r2i, se_role = role\<rparr>)"

definition aead_mix_dh :: "noise_crypto \<Rightarrow> bytes \<Rightarrow> bytes \<Rightarrow> state_with_aead \<Rightarrow> state_with_aead" where
  "aead_mix_dh c private public s = mix_dh c private public (sa_state s)"

definition zero_nonce :: bytes where
  "zero_nonce = replicate 12 0"

text \<open>The ciphertext, the tag and the state after them.\<close>

definition state_seal :: "noise_crypto \<Rightarrow> bytes \<Rightarrow> state_with_aead \<Rightarrow> bytes \<times> bytes \<times> noise_state" where
  "state_seal c cleartext s =
     (let (ciphertext, tag) = ae_seal (nc_aead c) (sa_key s) zero_nonce (ss_hash (sa_state s)) cleartext in
      (ciphertext, tag, mix_hash_gather c [ciphertext, tag] (sa_state s)))"

definition state_open :: "noise_crypto \<Rightarrow> bytes \<Rightarrow> bytes \<Rightarrow> state_with_aead \<Rightarrow> (bytes \<times> noise_state) option" where
  "state_open c ciphertext tag s =
     (case ae_open (nc_aead c) (sa_key s) zero_nonce (ss_hash (sa_state s)) ciphertext tag of
        None \<Rightarrow> None
      | Some cleartext \<Rightarrow> Some (cleartext, mix_hash_gather c [ciphertext, tag] (sa_state s)))"

section \<open>The responder\<close>

record noise_responder =
  nr_static_private :: bytes
  nr_static_public :: bytes

definition responder_from_bytes :: "noise_crypto \<Rightarrow> bytes \<Rightarrow> noise_responder" where
  "responder_from_bytes c secret = \<lparr>nr_static_private = secret, nr_static_public = nc_public c secret\<rparr>"

definition respond_with_ephemeral ::
  "noise_crypto \<Rightarrow> noise_responder \<Rightarrow> init_message \<Rightarrow> bytes \<Rightarrow> bytes \<Rightarrow> (transport_error, responder_output) result" where
  "respond_with_ephemeral c r init prologue server_ephemeral =
     (if im_version init < word_of_nat MIN_SUPPORTED_CAPVER then Err (UnsupportedCapabilityVersion (im_version init))
      else
        let client_ephemeral = im_client_ephemeral init;
            state = mix_dh c (nr_static_private r) client_ephemeral
              (mix_hash c client_ephemeral (mix_hash c (nr_static_public r) (mix_hash c prologue (state_new c PROTOCOL_NAME)))) in
        case state_open c (take 32 (im_client_static_ciphertext init)) (slice 32 48 (im_client_static_ciphertext init)) state of
          None \<Rightarrow> Err HandshakeFailed
        | Some (client_static, state) \<Rightarrow>
            (case state_open c [] (im_payload_tag init) (mix_dh c (nr_static_private r) client_static state) of
               None \<Rightarrow> Err HandshakeFailed
             | Some (_, state) \<Rightarrow>
                 let server_ephemeral_public = nc_public c server_ephemeral;
                     (_, auth_tag, state) = state_seal c []
                       (aead_mix_dh c server_ephemeral client_static
                         (mix_dh c server_ephemeral client_ephemeral (mix_hash c server_ephemeral_public state))) in
                 Ok \<lparr>ro_response = write_response_message server_ephemeral_public auth_tag,
                      ro_session = finish_state c Responder state, ro_peer_static_public = client_static\<rparr>))"

section \<open>The initiator\<close>

record noise_initiator =
  ni_static_private :: bytes
  ni_state :: noise_state
  ni_ephemeral_private :: bytes

definition initialize_with_ephemeral ::
  "noise_crypto \<Rightarrow> bytes \<Rightarrow> bytes \<Rightarrow> bytes \<Rightarrow> bytes \<Rightarrow> u16 \<Rightarrow> noise_initiator \<times> bytes" where
  "initialize_with_ephemeral c client_static ephemeral server_public prologue version =
     (let ephemeral_public = nc_public c ephemeral;
          (static_ciphertext, static_tag, state) = state_seal c (nc_public c client_static)
            (mix_dh c ephemeral server_public
              (mix_hash c ephemeral_public (mix_hash c server_public (mix_hash c prologue (state_new c PROTOCOL_NAME)))));
          (_, payload_tag, state) = state_seal c [] (mix_dh c client_static server_public state) in
      (\<lparr>ni_static_private = client_static, ni_state = state, ni_ephemeral_private = ephemeral\<rparr>,
       be16 version @ [MSG_TYPE_INIT] @ be16 96 @ ephemeral_public @ static_ciphertext @ static_tag @ payload_tag))"

definition initiator_finish :: "noise_crypto \<Rightarrow> noise_initiator \<Rightarrow> bytes \<Rightarrow> (transport_error, session) result" where
  "initiator_finish c i response =
     bind_res (parse_response_message response) (\<lambda>parsed.
       let server_ephemeral = rm_server_ephemeral parsed in
       case state_open c [] (rm_auth_tag parsed)
         (aead_mix_dh c (ni_static_private i) server_ephemeral
           (mix_dh c (ni_ephemeral_private i) server_ephemeral (mix_hash c server_ephemeral (ni_state i)))) of
         None \<Rightarrow> Err HandshakeFailed
       | Some (_, state) \<Rightarrow> Ok (finish_state c Initiator state))"

section \<open>Agreement\<close>

text \<open>What the primitives promise: the Diffie-Hellman function commutes, public keys have 32 bytes, and the AEAD opens what
  it sealed.\<close>

definition noise_sound :: "noise_crypto \<Rightarrow> bool" where
  "noise_sound c \<longleftrightarrow> aead_opens (nc_aead c)
     \<and> (\<forall>a b. length a = 32 \<and> length b = 32 \<longrightarrow> nc_dh c a (nc_public c b) = nc_dh c b (nc_public c a))
     \<and> (\<forall>a. length a = 32 \<longrightarrow> length (nc_public c a) = 32)"

lemma state_seal_open:
  assumes "noise_sound c"
  obtains x t where "state_seal c m s = (x, t, mix_hash_gather c [x, t] (sa_state s))" "length x = length m" "length t = 16"
    "state_open c x t s = Some (m, mix_hash_gather c [x, t] (sa_state s))"
proof -
  have "aead_opens (nc_aead c)" using assms by (simp add: noise_sound_def)
  then obtain x t where "ae_seal (nc_aead c) (sa_key s) zero_nonce (ss_hash (sa_state s)) m = (x, t)" "length x = length m"
    "length t = 16" "ae_open (nc_aead c) (sa_key s) zero_nonce (ss_hash (sa_state s)) x t = Some m"
    by (rule aead_opensD)
  then show thesis by (intro that [of x t]) (simp_all add: state_seal_def state_open_def)
qed

lemma parse_init_built:
  assumes "length e = 32" "length x = 32" "length t = 16" "length p = 16"
  shows "parse_init_message (be16 v @ [MSG_TYPE_INIT] @ be16 96 @ e @ x @ t @ p)
    = Ok \<lparr>im_version = v, im_client_ephemeral = e, im_client_static_ciphertext = x @ t, im_payload_tag = p\<rparr>"
proof -
  have "un_be16 0 96 = 96" by (simp add: un_be16_def)
  then show ?thesis using assms by (simp add: parse_init_message_def slice_def be16_def)
qed

definition hello_state :: "noise_crypto \<Rightarrow> bytes \<Rightarrow> bytes \<Rightarrow> bytes \<Rightarrow> noise_state" where
  "hello_state c prologue S E = mix_hash c E (mix_hash c S (mix_hash c prologue (state_new c PROTOCOL_NAME)))"

lemma mix_dh_commutes:
  assumes "noise_sound c" "length a = 32" "length b = 32"
  shows "mix_dh c a (nc_public c b) s = mix_dh c b (nc_public c a) s"
  using assms by (simp add: noise_sound_def mix_dh_def)

lemma first_flight:
  assumes "noise_sound c" "length secret = 32" "length client_static = 32" "length ephemeral = 32"
  obtains x t u s2 s3 where
    "initialize_with_ephemeral c client_static ephemeral (nc_public c secret) prologue version
      = (\<lparr>ni_static_private = client_static, ni_state = s3, ni_ephemeral_private = ephemeral\<rparr>,
         be16 version @ [MSG_TYPE_INIT] @ be16 96 @ nc_public c ephemeral @ x @ t @ u)"
    "length x = 32" "length t = 16" "length u = 16"
    "state_open c x t (mix_dh c secret (nc_public c ephemeral) (hello_state c prologue (nc_public c secret) (nc_public c ephemeral)))
      = Some (nc_public c client_static, s2)"
    "state_open c [] u (mix_dh c secret (nc_public c client_static) s2) = Some ([], s3)"
proof -
  let ?S = "nc_public c secret" and ?C = "nc_public c client_static" and ?E = "nc_public c ephemeral"
  let ?s1 = "mix_dh c ephemeral ?S (hello_state c prologue ?S ?E)"
  obtain x t where x: "state_seal c ?C ?s1 = (x, t, mix_hash_gather c [x, t] (sa_state ?s1))" "length x = length ?C" "length t = 16"
    "state_open c x t ?s1 = Some (?C, mix_hash_gather c [x, t] (sa_state ?s1))"
    using assms(1) by (rule state_seal_open)
  define s2 where "s2 = mix_hash_gather c [x, t] (sa_state ?s1)"
  obtain y u where y: "state_seal c [] (mix_dh c client_static ?S s2) = (y, u, mix_hash_gather c [y, u] (sa_state (mix_dh c client_static ?S s2)))"
    "length y = length ([] :: bytes)" "length u = 16"
    "state_open c y u (mix_dh c client_static ?S s2) = Some ([], mix_hash_gather c [y, u] (sa_state (mix_dh c client_static ?S s2)))"
    using assms(1) by (rule state_seal_open)
  have "length x = 32" using x(2) assms(1,3) by (simp add: noise_sound_def)
  moreover have "initialize_with_ephemeral c client_static ephemeral ?S prologue version
      = (\<lparr>ni_static_private = client_static, ni_state = mix_hash_gather c [y, u] (sa_state (mix_dh c client_static ?S s2)),
          ni_ephemeral_private = ephemeral\<rparr>, be16 version @ [MSG_TYPE_INIT] @ be16 96 @ ?E @ x @ t @ u)"
    using x(1) y(1) by (simp add: initialize_with_ephemeral_def hello_state_def s2_def Let_def)
  ultimately show thesis
    using x(3,4) y(2-4) mix_dh_commutes [OF assms(1,2,4)] mix_dh_commutes [OF assms(1,2,3)]
    by (intro that [of _ x t u s2]) (simp_all add: s2_def)
qed

lemma second_flight:
  assumes "noise_sound c" "length client_static = 32" "length ephemeral = 32" "length server_ephemeral = 32"
  obtains v st where
    "state_seal c [] (aead_mix_dh c server_ephemeral (nc_public c client_static)
       (mix_dh c server_ephemeral (nc_public c ephemeral) (mix_hash c (nc_public c server_ephemeral) s))) = ([], v, st)"
    "length v = 16"
    "state_open c [] v (aead_mix_dh c client_static (nc_public c server_ephemeral)
       (mix_dh c ephemeral (nc_public c server_ephemeral) (mix_hash c (nc_public c server_ephemeral) s))) = Some ([], st)"
proof -
  let ?F = "nc_public c server_ephemeral"
  let ?s4 = "aead_mix_dh c server_ephemeral (nc_public c client_static) (mix_dh c server_ephemeral (nc_public c ephemeral) (mix_hash c ?F s))"
  obtain z v where z: "state_seal c [] ?s4 = (z, v, mix_hash_gather c [z, v] (sa_state ?s4))" "length z = length ([] :: bytes)"
    "length v = 16" "state_open c z v ?s4 = Some ([], mix_hash_gather c [z, v] (sa_state ?s4))"
    using assms(1) by (rule state_seal_open)
  moreover have "aead_mix_dh c client_static ?F (mix_dh c ephemeral ?F (mix_hash c ?F s)) = ?s4"
    using mix_dh_commutes [OF assms(1,2,4)] mix_dh_commutes [OF assms(1,3,4)] by (simp add: aead_mix_dh_def)
  ultimately show thesis by (intro that) simp_all
qed

lemma handshake_completes:
  assumes "noise_sound c" and "length secret = 32" "length client_static = 32" "length ephemeral = 32" "length server_ephemeral = 32"
    and "word_of_nat MIN_SUPPORTED_CAPVER \<le> version"
  obtains i init msg out st where
    "initialize_with_ephemeral c client_static ephemeral (nc_public c secret) prologue version = (i, init)"
    "parse_init_message init = Ok msg" "im_version msg = version"
    "respond_with_ephemeral c (responder_from_bytes c secret) msg prologue server_ephemeral = Ok out"
    "ro_peer_static_public out = nc_public c client_static" "ro_session out = finish_state c Responder st"
    "initiator_finish c i (ro_response out) = Ok (finish_state c Initiator st)"
proof -
  let ?C = "nc_public c client_static" and ?E = "nc_public c ephemeral" and ?F = "nc_public c server_ephemeral"
  obtain x t u s2 s3 where init: "initialize_with_ephemeral c client_static ephemeral (nc_public c secret) prologue version
      = (\<lparr>ni_static_private = client_static, ni_state = s3, ni_ephemeral_private = ephemeral\<rparr>,
         be16 version @ [MSG_TYPE_INIT] @ be16 96 @ ?E @ x @ t @ u)" (is "_ = (?i, ?init)")
    and len: "length x = 32" "length t = 16" "length u = 16"
    and opens: "state_open c x t (mix_dh c secret ?E (hello_state c prologue (nc_public c secret) ?E)) = Some (?C, s2)"
      "state_open c [] u (mix_dh c secret ?C s2) = Some ([], s3)"
    using assms(1-4) by (rule first_flight)
  obtain v st where second: "state_seal c [] (aead_mix_dh c server_ephemeral ?C (mix_dh c server_ephemeral ?E (mix_hash c ?F s3))) = ([], v, st)"
    "length v = 16" "state_open c [] v (aead_mix_dh c client_static ?F (mix_dh c ephemeral ?F (mix_hash c ?F s3))) = Some ([], st)"
    using assms(1,3-5) by (rule second_flight)
  have pub: "length ?E = 32" "length ?F = 32" using assms by (simp_all add: noise_sound_def)
  let ?msg = "\<lparr>im_version = version, im_client_ephemeral = ?E, im_client_static_ciphertext = x @ t, im_payload_tag = u\<rparr>"
  have "respond_with_ephemeral c (responder_from_bytes c secret) ?msg prologue server_ephemeral
      = Ok \<lparr>ro_response = write_response_message ?F v, ro_session = finish_state c Responder st, ro_peer_static_public = ?C\<rparr>"
    (is "_ = Ok ?out")
    using opens second(1) len assms(6)
    by (simp add: respond_with_ephemeral_def responder_from_bytes_def hello_state_def slice_def Let_def)
  moreover have "initiator_finish c ?i (write_response_message ?F v) = Ok (finish_state c Initiator st)"
    using parse_write_response [of ?F v] pub second(2,3) by (simp add: initiator_finish_def)
  ultimately show thesis
    using init parse_init_built [OF pub(1) len] by (intro that [of ?i ?init ?msg ?out st]) simp_all
qed

lemma finish_state_keys:
  "se_initiator_to_responder (finish_state c r st) = fst (nc_hkdf c (ss_chaining_key st) [])"
  "se_responder_to_initiator (finish_state c r st) = snd (nc_hkdf c (ss_chaining_key st) [])"
  "se_role (finish_state c r st) = r"
  by (simp_all add: finish_state_def split_beta)

text \<open>
  C10. The handshake establishes one session. For any client version that is supported, the 101-byte message the initiator
  builds is accepted by the responder, which learns exactly the client's version and long-term public key; its 51-byte response completes
  the handshake at the initiator; and both ends hold the same two directional keys. An unsupported version is refused
  before any cryptographic work. The laws of the primitives are hypotheses.
\<close>

theorem noise_handshake_agrees:
  assumes "noise_sound c" and "length secret = 32" "length client_static = 32" "length ephemeral = 32" "length server_ephemeral = 32"
    and "word_of_nat MIN_SUPPORTED_CAPVER \<le> version"
  shows "(\<exists>i init msg out session.
      initialize_with_ephemeral c client_static ephemeral (nc_public c secret) prologue version = (i, init)
      \<and> length init = 101 \<and> parse_init_message init = Ok msg \<and> im_version msg = version
      \<and> respond_with_ephemeral c (responder_from_bytes c secret) msg prologue server_ephemeral = Ok out
      \<and> length (ro_response out) = 51 \<and> initiator_finish c i (ro_response out) = Ok session
      \<and> ro_peer_static_public out = nc_public c client_static
      \<and> se_initiator_to_responder session = se_initiator_to_responder (ro_session out)
      \<and> se_responder_to_initiator session = se_responder_to_initiator (ro_session out)
      \<and> se_role session = Initiator \<and> se_role (ro_session out) = Responder)
    \<and> (\<forall>msg. im_version msg < word_of_nat MIN_SUPPORTED_CAPVER \<longrightarrow>
         respond_with_ephemeral c (responder_from_bytes c secret) msg prologue server_ephemeral
           = Err (UnsupportedCapabilityVersion (im_version msg)))"
proof -
  have "respond_with_ephemeral c (responder_from_bytes c secret) msg prologue server_ephemeral
           = Err (UnsupportedCapabilityVersion (im_version msg))" if "im_version msg < word_of_nat MIN_SUPPORTED_CAPVER" for msg
    using that by (simp add: respond_with_ephemeral_def)
  moreover obtain i init msg out st where
    "initialize_with_ephemeral c client_static ephemeral (nc_public c secret) prologue version = (i, init)"
    "parse_init_message init = Ok msg" "im_version msg = version"
    "respond_with_ephemeral c (responder_from_bytes c secret) msg prologue server_ephemeral = Ok out"
    "ro_peer_static_public out = nc_public c client_static" "ro_session out = finish_state c Responder st"
    "initiator_finish c i (ro_response out) = Ok (finish_state c Initiator st)"
    using assms by (rule handshake_completes)
  moreover from this have "length init = 101" "length (ro_response out) = 51"
    by (auto simp: parse_init_message_def initiator_finish_def parse_response_message_def split: if_splits)
  ultimately show ?thesis by (auto simp: finish_state_keys)
qed

definition plain_noise :: noise_crypto where
  "plain_noise = \<lparr>nc_hash = (\<lambda>_. replicate 32 0), nc_hkdf = (\<lambda>ck ikm. (take 32 (ck @ ikm), take 32 (ikm @ ck))), nc_public = (\<lambda>s. s),
     nc_dh = (\<lambda>a b. map2 (XOR) a b), nc_aead = plain_aead\<rparr>"

lemma plain_noise_sound: "noise_sound plain_noise"
proof -
  have "map2 (XOR) a b = map2 (XOR) b (a :: bytes)" for a b
    by (rule nth_equalityI) (simp_all add: xor.commute)
  then show ?thesis using plain_aead_opens by (simp add: noise_sound_def plain_noise_def)
qed

theorem noise_handshake_agrees_witness:
  "\<exists>i init msg out. initialize_with_ephemeral plain_noise (replicate 32 2) (replicate 32 3) (replicate 32 1) [] 113 = (i, init)
     \<and> parse_init_message init = Ok msg \<and> im_version msg = 113
     \<and> respond_with_ephemeral plain_noise (responder_from_bytes plain_noise (replicate 32 1)) msg [] (replicate 32 4) = Ok out
     \<and> ro_peer_static_public out = replicate 32 2"
proof -
  have "nc_public plain_noise x = x" for x by (simp add: plain_noise_def)
  then show ?thesis
    using noise_handshake_agrees [OF plain_noise_sound, of "replicate 32 1" "replicate 32 2" "replicate 32 3" "replicate 32 4" 113 "[]"]
    by (auto simp: MIN_SUPPORTED_CAPVER_def)
qed

end
