(* ===== verification/Server_Boot.thy ===== *)
theory Server_Boot
  imports Server_Proxy Rust_Map Transport_Noise Proto_Key "HOL-Library.List_Lexorder" "HOL-Library.Char_ord"
begin

text \<open>
  What the server loads when it starts: the machine key file (\<^verbatim>\<open>crabscale-server/src/key.rs\<close>), the
  published bootstrap names (\<^verbatim>\<open>bootstrap_dns.rs\<close>), and the metrics registry
  (\<^verbatim>\<open>crabscale-metrics/src/lib.rs\<close>).
\<close>

section \<open>The machine key\<close>

definition DEFAULT_KEY_FILE :: string where "DEFAULT_KEY_FILE = ''crabscale.key''"

record server_key =
  sk_responder :: noise_responder
  sk_public :: raw_key

text \<open>
  The file system as far as one path is concerned: its content, and how reading and writing turn out. A
  write that fails leaves the file truncated to what was written.
\<close>

datatype write_outcome = Written | OpenFailed | WriteFailed nat | SyncFailed

datatype key_error = KeyIo | KeyLength

definition write_key_file :: "write_outcome \<Rightarrow> bytes \<Rightarrow> bytes option \<Rightarrow> (key_error, unit) result \<times> bytes option" where
  "write_key_file oc key file =
     (case oc of
        OpenFailed \<Rightarrow> (Err KeyIo, file)
      | WriteFailed n \<Rightarrow> (Err KeyIo, Some (take n key))
      | SyncFailed \<Rightarrow> (Err KeyIo, Some key)
      | Written \<Rightarrow> (Ok (), Some key))"

definition persist_machine_key :: "write_outcome \<Rightarrow> bytes \<Rightarrow> bytes option \<Rightarrow> (key_error, unit) result \<times> bytes option" where
  "persist_machine_key oc key file = write_key_file oc key file"

definition server_key_of :: "noise_crypto \<Rightarrow> bytes \<Rightarrow> server_key" where
  "server_key_of c secret = (let r = responder_from_bytes c secret in \<lparr>sk_responder = r, sk_public = nr_static_public r\<rparr>)"

definition load_or_create_machine_key ::
  "noise_crypto \<Rightarrow> bytes \<Rightarrow> bool \<Rightarrow> write_outcome \<Rightarrow> bytes option \<Rightarrow> (key_error, server_key) result \<times> bytes option" where
  "load_or_create_machine_key c fresh read_ok oc file =
     (case file of
        Some content \<Rightarrow>
          if \<not> read_ok then (Err KeyIo, file)
          else if length content \<noteq> 32 then (Err KeyLength, file)
          else (Ok (server_key_of c content), file)
      | None \<Rightarrow>
          (case persist_machine_key oc fresh None of
             (Err e, file') \<Rightarrow> (Err e, file')
           | (Ok _, file') \<Rightarrow> (Ok (server_key_of c fresh), file')))"

text \<open>The key a start settled on is the key of every later start, and a start never changes a file that exists.\<close>

lemma machine_key_is_stable:
  assumes "load_or_create_machine_key c fresh r oc file = (Ok k, file')" "length fresh = 32"
  shows "load_or_create_machine_key c fresh' True oc' file' = (Ok k, file')" "file \<noteq> None \<Longrightarrow> file' = file"
  using assms
  by (auto simp: load_or_create_machine_key_def persist_machine_key_def write_key_file_def
      split: option.splits if_splits prod.splits write_outcome.splits)

text \<open>A start whose write fails after the file was opened leaves a file that no later start accepts.\<close>

lemma failed_write_is_not_accepted:
  assumes "length fresh = 32" "n < 32"
  shows "fst (load_or_create_machine_key c fresh' True oc'
      (snd (load_or_create_machine_key c fresh r (WriteFailed n) None))) = Err KeyLength"
  using assms by (simp add: load_or_create_machine_key_def persist_machine_key_def write_key_file_def)

section \<open>Bootstrap names\<close>

instantiation ip_addr :: linorder
begin

fun less_eq_ip_addr :: "ip_addr \<Rightarrow> ip_addr \<Rightarrow> bool" where
  "V4 a \<le> V4 b \<longleftrightarrow> a \<le> b"
| "V4 a \<le> V6 b \<longleftrightarrow> True"
| "V6 a \<le> V4 b \<longleftrightarrow> False"
| "V6 a \<le> V6 b \<longleftrightarrow> a \<le> b"

definition less_ip_addr :: "ip_addr \<Rightarrow> ip_addr \<Rightarrow> bool" where
  "a < b \<longleftrightarrow> a \<le> b \<and> \<not> b \<le> (a :: ip_addr)"

instance
proof
  fix x y z :: ip_addr
  show "x < y \<longleftrightarrow> x \<le> y \<and> \<not> y \<le> x" by (rule less_ip_addr_def)
  show "x \<le> x" by (cases x) auto
  show "x \<le> y \<Longrightarrow> y \<le> z \<Longrightarrow> x \<le> z" by (cases x; cases y; cases z) auto
  show "x \<le> y \<Longrightarrow> y \<le> x \<Longrightarrow> x = y" by (cases x; cases y) auto
  show "x \<le> y \<or> y \<le> x" by (cases x; cases y) auto
qed

end

type_synonym bootstrap_dns = "(string, ip_addr list) btree"

text \<open>The resolver of the host is an argument: the addresses of a name, or a failure.\<close>

fun bootstrap_resolve :: "(string \<Rightarrow> ip_addr list option) \<Rightarrow> string list \<Rightarrow> bootstrap_dns \<Rightarrow> bootstrap_dns" where
  "bootstrap_resolve lookup [] es = es"
| "bootstrap_resolve lookup (raw # names) es =
     (let name = trim raw in
      bootstrap_resolve lookup names
        (if name = [] then es
         else case lookup name of
           None \<Rightarrow> es
         | Some addrs \<Rightarrow> let ips = sort (remdups_adj addrs) in if ips = [] then es else bt_insert name ips es))"

definition bootstrap_body :: "bootstrap_dns \<Rightarrow> string option \<Rightarrow> bootstrap_dns" where
  "bootstrap_body es q =
     (case Option.bind q (\<lambda>q. if trim q = [] then None else Some (trim q)) of
        Some name \<Rightarrow> (case bt_get es name of Some ips \<Rightarrow> [(name, ips)] | None \<Rightarrow> es)
      | None \<Rightarrow> es)"

text \<open>Adjacent duplicates are removed before sorting, so an address reported twice may be published twice.\<close>

lemma bootstrap_keeps_duplicates:
  "bootstrap_resolve (\<lambda>_. Some [V4 1, V4 2, V4 1]) [''a''] [] = [(''a'', [V4 1, V4 1, V4 2])]"
  by code_simp

section \<open>Metrics\<close>

record counter =
  c_name :: string
  c_help :: string
  c_value :: u64

definition counter_inc_by :: "u64 \<Rightarrow> counter \<Rightarrow> counter" where
  "counter_inc_by n c = c\<lparr>c_value := c_value c + n\<rparr>"

definition counter_inc :: "counter \<Rightarrow> counter" where
  "counter_inc c = counter_inc_by 1 c"

definition metric_lines :: "string \<Rightarrow> string \<Rightarrow> string \<Rightarrow> u64 \<Rightarrow> string" where
  "metric_lines name help kind value = ''# HELP '' @ name @ '' '' @ help @ [CHR 0x0A] @ ''# TYPE '' @ name @ '' '' @ kind @ [CHR 0x0A]
     @ name @ '' '' @ dec_str (unat value) @ [CHR 0x0A]"

definition counter_render :: "counter \<Rightarrow> string" where
  "counter_render c = metric_lines (c_name c) (c_help c) ''counter'' (c_value c)"

definition gauge_render :: "counter \<Rightarrow> string" where
  "gauge_render c = metric_lines (c_name c) (c_help c) ''gauge'' (c_value c)"

definition gauge_set :: "u64 \<Rightarrow> counter \<Rightarrow> counter" where
  "gauge_set v g = g\<lparr>c_value := v\<rparr>"

text \<open>
  \<^verbatim>\<open>Gauge::add\<close> is a compare-and-swap loop: the list holds the values found by the attempts that failed,
  after which one succeeds.
\<close>

definition gauge_next :: "u64 \<Rightarrow> int \<Rightarrow> u64" where
  "gauge_next current delta = word_of_int (max (uint current + delta) 0)"

fun gauge_add_loop :: "u64 \<Rightarrow> u64 list \<Rightarrow> int \<Rightarrow> u64" where
  "gauge_add_loop current [] delta = gauge_next current delta"
| "gauge_add_loop current (actual # fails) delta = gauge_add_loop actual fails delta"

text \<open>Whatever interferes, the loop adds the delta to the value it replaces, never going below zero.\<close>

lemma gauge_add_clamps:
  fixes current :: u64
  assumes "uint (last (current # fails)) + delta < 2 ^ 64"
  shows "uint (gauge_add_loop current fails delta) = max (uint (last (current # fails)) + delta) 0"
  using assms by (induction fails arbitrary: current) (auto simp: gauge_next_def unsigned_of_int take_bit_int_eq_self)

record metrics =
  sessions_active :: counter
  sessions_opened_total :: counter
  sessions_closed_total :: counter
  registrations_total :: counter
  policy_compiles_total :: counter
  derp_packets_total :: counter
  derp_packets_dropped_total :: counter

definition metrics_registry :: metrics where
  "metrics_registry = \<lparr>
     sessions_active = \<lparr>c_name = ''crabscale_sessions_active'', c_help = ''Number of live control-plane map sessions.'', c_value = 0\<rparr>,
     sessions_opened_total = \<lparr>c_name = ''crabscale_sessions_opened_total'', c_help = ''Total control-plane map sessions opened.'', c_value = 0\<rparr>,
     sessions_closed_total = \<lparr>c_name = ''crabscale_sessions_closed_total'', c_help = ''Total control-plane map sessions closed.'', c_value = 0\<rparr>,
     registrations_total = \<lparr>c_name = ''crabscale_registrations_total'', c_help = ''Total registration requests processed by the control plane.'', c_value = 0\<rparr>,
     policy_compiles_total = \<lparr>c_name = ''crabscale_policy_compiles_total'', c_help = ''Total policy compilations performed by the control plane.'', c_value = 0\<rparr>,
     derp_packets_total = \<lparr>c_name = ''crabscale_derp_packets_total'', c_help = ''Total DERP packets relayed between clients.'', c_value = 0\<rparr>,
     derp_packets_dropped_total = \<lparr>c_name = ''crabscale_derp_packets_dropped_total'', c_help = ''Total DERP packets dropped by the relay (e.g. oversize payload).'', c_value = 0\<rparr>\<rparr>"

definition render_prometheus :: "metrics \<Rightarrow> string" where
  "render_prometheus m = counter_render (sessions_opened_total m) @ counter_render (sessions_closed_total m)
     @ gauge_render (sessions_active m) @ counter_render (registrations_total m) @ counter_render (policy_compiles_total m)
     @ counter_render (derp_packets_total m) @ counter_render (derp_packets_dropped_total m)"

end
