(* ===== verification/Server_Oidc.thy ===== *)
theory Server_Oidc
  imports Control_Plane Server_Rate
begin

text \<open>
  Model of \<^verbatim>\<open>crabscale-server/src/oidc.rs\<close>: the relying party of an OpenID Connect provider and the store of
  outstanding authorization flows. The HTTP agent, the JSON decoders, the URL builder and the verification of
  tokens are those of the \<^verbatim>\<open>ureq\<close>, \<^verbatim>\<open>serde_json\<close>, \<^verbatim>\<open>url\<close> and \<^verbatim>\<open>jsonwebtoken\<close> crates: they are the fields of
  the record \<^verbatim>\<open>oidc_env\<close>.
\<close>

section \<open>Types\<close>

definition DEFAULT_OIDC_FLOW_TTL_SECONDS :: int where "DEFAULT_OIDC_FLOW_TTL_SECONDS = 10 * 60"
definition DEFAULT_OIDC_FLOW_LIMIT :: nat where "DEFAULT_OIDC_FLOW_LIMIT = 512"
definition JWKS_CACHE_TTL :: nat where "JWKS_CACHE_TTL = 3600"

record oidc_config =
  oc_issuer :: string
  oc_client_id :: string
  oc_client_secret :: string
  oc_redirect_uri :: string
  oc_scope :: string

datatype oidc_error =
    Network string
  | Discovery string
  | Token string
  | InvalidIdToken string
  | InvalidState
  | ControlFailed control_error

definition show_oidc_error :: "oidc_error \<Rightarrow> string" where
  "show_oidc_error e = (case e of
      Network m \<Rightarrow> ''oidc network error: '' @ m
    | Discovery m \<Rightarrow> ''oidc discovery error: '' @ m
    | Token m \<Rightarrow> ''oidc token exchange error: '' @ m
    | InvalidIdToken m \<Rightarrow> ''invalid OIDC ID token: '' @ m
    | InvalidState \<Rightarrow> ''invalid, expired, or reused OIDC state''
    | ControlFailed c \<Rightarrow> ''oidc control error: '' @ show_control_error c)"

record provider_metadata =
  pm_issuer :: string
  pm_authorization_endpoint :: string
  pm_token_endpoint :: string
  pm_jwks_uri :: string
  pm_algs :: "string list option"

record id_token_claims =
  ic_sub :: string
  ic_nonce :: "string option"
  ic_email :: "string option"
  ic_name :: "string option"

datatype algorithm = HS256 | HS384 | HS512 | RS256 | RS384 | RS512 | ES256 | ES384 | PS256 | PS384 | PS512 | EdDSA

definition alg_name :: "algorithm \<Rightarrow> string" where
  "alg_name a = (case a of HS256 \<Rightarrow> ''HS256'' | HS384 \<Rightarrow> ''HS384'' | HS512 \<Rightarrow> ''HS512'' | RS256 \<Rightarrow> ''RS256''
     | RS384 \<Rightarrow> ''RS384'' | RS512 \<Rightarrow> ''RS512'' | ES256 \<Rightarrow> ''ES256'' | ES384 \<Rightarrow> ''ES384'' | PS256 \<Rightarrow> ''PS256''
     | PS384 \<Rightarrow> ''PS384'' | PS512 \<Rightarrow> ''PS512'' | EdDSA \<Rightarrow> ''EdDSA'')"

text \<open>The answer of an HTTP request: a body, an error while reading it, an error status, or another failure.\<close>

datatype http_outcome = Body string | BodyFailed string | StatusFailed nat | CallFailed string

text \<open>A key of the provider's set is opaque; a decoding key is built from one of them or from the client secret.\<close>

datatype 'j decoding_key = FromJwk 'j | FromSecret string

record 'j oidc_env =
  oe_get :: "string \<Rightarrow> http_outcome"
  oe_post :: "string \<Rightarrow> (string \<times> string) list \<Rightarrow> http_outcome"
  oe_show_failure :: "http_outcome \<Rightarrow> string"
  oe_metadata :: "string \<Rightarrow> (string, provider_metadata) result"
  oe_token :: "string \<Rightarrow> (string, string) result"
  oe_jwks :: "string \<Rightarrow> (string, 'j list) result"
  oe_find_kid :: "'j list \<Rightarrow> string \<Rightarrow> 'j option"
  oe_jwk_key :: "'j \<Rightarrow> (string, 'j decoding_key) result"
  oe_header :: "string \<Rightarrow> (string, algorithm \<times> string option) result"
  oe_decode :: "string \<Rightarrow> 'j decoding_key \<Rightarrow> algorithm \<Rightarrow> string \<Rightarrow> string \<Rightarrow> (string, id_token_claims) result"
  oe_url :: "string \<Rightarrow> (string \<times> string) list \<Rightarrow> (string, string) result"

record 'j jwk_cache =
  jc_fetched_at :: nat
  jc_set :: "'j list"

record 'j oidc_client =
  ocl_config :: oidc_config
  ocl_metadata :: provider_metadata
  ocl_jwks :: "'j jwk_cache option"

section \<open>The client\<close>

definition fetch :: "'j oidc_env \<Rightarrow> string \<Rightarrow> http_outcome \<Rightarrow> (oidc_error, string) result" where
  "fetch env what oc = (case oc of
      Body b \<Rightarrow> Ok b
    | BodyFailed e \<Rightarrow> Err (Network e)
    | _ \<Rightarrow> Err (Network (what @ oe_show_failure env oc)))"

definition discover :: "'j oidc_env \<Rightarrow> oidc_config \<Rightarrow> (oidc_error, 'j oidc_client) result" where
  "discover env config =
     (if trim (oc_issuer config) = [] then Err (Discovery ''issuer must not be empty'')
      else if trim (oc_client_id config) = [] then Err (Discovery ''client id must not be empty'')
      else
        let discovery_url = rev (dropWhile (\<lambda>c. c = CHR ''/'') (rev (oc_issuer config))) @ ''/.well-known/openid-configuration'' in
        bind_res (fetch env ''discovery request failed: '' (oe_get env discovery_url)) (\<lambda>body.
        bind_res (map_err (\<lambda>e. Discovery (''invalid discovery document: '' @ e)) (oe_metadata env body)) (\<lambda>metadata.
        if pm_issuer metadata \<noteq> oc_issuer config
        then Err (Discovery (''issuer mismatch: configured `'' @ oc_issuer config @ ''` but provider advertises `'' @ pm_issuer metadata @ ''`''))
        else if pm_authorization_endpoint metadata = [] \<or> pm_token_endpoint metadata = []
        then Err (Discovery ''discovery document is missing authorization or token endpoint'')
        else Ok \<lparr>ocl_config = config, ocl_metadata = metadata, ocl_jwks = None\<rparr>)))"

definition authorization_url :: "'j oidc_env \<Rightarrow> 'j oidc_client \<Rightarrow> string \<Rightarrow> string \<Rightarrow> (oidc_error, string) result" where
  "authorization_url env cl state nonce =
     map_err (\<lambda>e. Discovery (''invalid authorization endpoint: '' @ e))
       (oe_url env (pm_authorization_endpoint (ocl_metadata cl))
         [(''response_type'', ''code''), (''client_id'', oc_client_id (ocl_config cl)),
          (''redirect_uri'', oc_redirect_uri (ocl_config cl)), (''scope'', oc_scope (ocl_config cl)),
          (''state'', state), (''nonce'', nonce)])"

definition exchange_code :: "'j oidc_env \<Rightarrow> 'j oidc_client \<Rightarrow> string \<Rightarrow> (oidc_error, string) result" where
  "exchange_code env cl code =
     (let form = [(''grant_type'', ''authorization_code''), (''code'', code), (''redirect_uri'', oc_redirect_uri (ocl_config cl)),
            (''client_id'', oc_client_id (ocl_config cl)), (''client_secret'', oc_client_secret (ocl_config cl))];
          answer = oe_post env (pm_token_endpoint (ocl_metadata cl)) form in
      bind_res (case answer of
          StatusFailed st \<Rightarrow> Err (Token (''provider returned HTTP '' @ dec_str st @ '' during code exchange''))
        | _ \<Rightarrow> fetch env ''token request failed: '' answer) (\<lambda>body.
      bind_res (map_err (\<lambda>e. Token (''invalid token response: '' @ e)) (oe_token env body)) (\<lambda>id_token.
      if id_token = [] then Err (Token ''token response contains no id_token'') else Ok id_token)))"

text \<open>
  \<^verbatim>\<open>fetched_at.elapsed().ok() < Some(TTL)\<close>: a clock that went back makes \<^verbatim>\<open>elapsed\<close> an error, and \<^verbatim>\<open>None\<close> is less than
  every \<^verbatim>\<open>Some\<close>.
\<close>

definition cache_fresh :: "nat \<Rightarrow> 'j jwk_cache \<Rightarrow> bool" where
  "cache_fresh now c \<longleftrightarrow> now < jc_fetched_at c \<or> now - jc_fetched_at c < JWKS_CACHE_TTL"

definition fetch_jwks :: "'j oidc_env \<Rightarrow> nat \<Rightarrow> 'j oidc_client \<Rightarrow> (oidc_error, 'j list) result \<times> 'j oidc_client" where
  "fetch_jwks env now cl =
     (if pm_jwks_uri (ocl_metadata cl) = []
      then (Err (InvalidIdToken ''provider did not advertise a JWKS URI''), cl)
      else case bind_res (fetch env ''JWKS request failed: '' (oe_get env (pm_jwks_uri (ocl_metadata cl))))
          (\<lambda>body. map_err (\<lambda>e. InvalidIdToken (''invalid JWKS: '' @ e)) (oe_jwks env body)) of
        Inl e \<Rightarrow> (Err e, cl)
      | Inr keys \<Rightarrow>
          if keys = [] then (Err (InvalidIdToken ''JWKS contains no keys''), cl)
          else (Ok keys, cl\<lparr>ocl_jwks := Some \<lparr>jc_fetched_at = now, jc_set = keys\<rparr>\<rparr>))"

definition jwks :: "'j oidc_env \<Rightarrow> nat \<Rightarrow> 'j oidc_client \<Rightarrow> (oidc_error, 'j list) result \<times> 'j oidc_client" where
  "jwks env now cl =
     (if (case ocl_jwks cl of Some cached \<Rightarrow> cache_fresh now cached | None \<Rightarrow> False)
      then (Ok (jc_set (the (ocl_jwks cl))), cl)
      else fetch_jwks env now cl)"

text \<open>An outstanding flow.\<close>

record oidc_flow =
  fl_auth_id :: string
  fl_nonce :: string
  fl_expires_at :: int

definition rsa_key :: "'j oidc_env \<Rightarrow> string option \<Rightarrow> 'j list \<Rightarrow> (oidc_error, 'j decoding_key) result" where
  "rsa_key env kid keys =
     (case kid of
        None \<Rightarrow> Err (InvalidIdToken ''RSA token missing kid'')
      | Some kid \<Rightarrow>
          (case oe_find_kid env keys kid of
             None \<Rightarrow> Err (InvalidIdToken (''no JWK for kid '' @ kid))
           | Some jwk \<Rightarrow> map_err (\<lambda>e. InvalidIdToken (''bad JWK: '' @ e)) (oe_jwk_key env jwk)))"

definition signing_key ::
  "'j oidc_env \<Rightarrow> nat \<Rightarrow> 'j oidc_client \<Rightarrow> algorithm \<times> string option \<Rightarrow> (oidc_error, 'j decoding_key) result \<times> 'j oidc_client" where
  "signing_key env now cl h = (case h of (alg, kid) \<Rightarrow>
     (if alg \<in> {RS256, RS384, RS512}
      then (case jwks env now cl of
          (Inl e, cl') \<Rightarrow> (Err e, cl')
        | (Inr keys, cl') \<Rightarrow> (rsa_key env kid keys, cl'))
      else if alg = HS256 then (Ok (FromSecret (oc_client_secret (ocl_config cl))), cl)
      else (Err (InvalidIdToken (''unsupported signing algorithm '' @ alg_name alg)), cl)))"

definition profile_of_claims :: "id_token_claims \<Rightarrow> oidc_profile" where
  "profile_of_claims claims =
     (let email = (case ic_email claims of Some e \<Rightarrow> if e \<noteq> [] then e else ic_sub claims | None \<Rightarrow> ic_sub claims);
          display_name = (case ic_name claims of Some n \<Rightarrow> if n \<noteq> [] then n else email | None \<Rightarrow> email) in
      \<lparr>op_subject = ic_sub claims, op_email = email, op_display_name = display_name\<rparr>)"

definition check_claims ::
  "'j oidc_env \<Rightarrow> 'j oidc_client \<Rightarrow> oidc_flow \<Rightarrow> string \<Rightarrow> 'j decoding_key \<Rightarrow> algorithm \<Rightarrow> (oidc_error, oidc_profile) result" where
  "check_claims env cl flow id_token key alg =
     (if (case pm_algs (ocl_metadata cl) of Some supported \<Rightarrow> alg_name alg \<notin> set supported | None \<Rightarrow> False)
      then Err (InvalidIdToken (''provider does not support algorithm '' @ alg_name alg))
      else bind_res (map_err (\<lambda>e. InvalidIdToken (''token validation failed: '' @ e))
          (oe_decode env id_token key alg (oc_client_id (ocl_config cl)) (pm_issuer (ocl_metadata cl)))) (\<lambda>claims.
        if ic_nonce claims \<noteq> Some (fl_nonce flow) then Err (InvalidIdToken ''nonce mismatch'')
        else Ok (profile_of_claims claims)))"

definition validate_id_token ::
  "'j oidc_env \<Rightarrow> nat \<Rightarrow> oidc_flow \<Rightarrow> string \<Rightarrow> 'j oidc_client \<Rightarrow> (oidc_error, oidc_profile) result \<times> 'j oidc_client" where
  "validate_id_token env now flow id_token cl =
     (case oe_header env id_token of
        Inl e \<Rightarrow> (Err (InvalidIdToken (''cannot parse header: '' @ e)), cl)
      | Inr h \<Rightarrow>
          (case signing_key env now cl h of
             (Inl e, cl') \<Rightarrow> (Err e, cl')
           | (Inr key, cl') \<Rightarrow> (check_claims env cl' flow id_token key (fst h), cl')))"

definition oidc_complete ::
  "'j oidc_env \<Rightarrow> nat \<Rightarrow> oidc_flow \<Rightarrow> string \<Rightarrow> 'j oidc_client \<Rightarrow> (oidc_error, oidc_profile) result \<times> 'j oidc_client" where
  "oidc_complete env now flow code cl =
     (case exchange_code env cl code of
        Inl e \<Rightarrow> (Err e, cl)
      | Inr id_token \<Rightarrow> validate_id_token env now flow id_token cl)"

section \<open>The flow store\<close>

record flow_store =
  fs_entries :: "(string, oidc_flow) mapping"
  fs_order :: "string list"
  fs_limit :: nat
  fs_ttl_seconds :: int

definition flow_store_new :: "nat \<Rightarrow> int \<Rightarrow> flow_store" where
  "flow_store_new limit ttl = \<lparr>fs_entries = Mapping.empty, fs_order = [], fs_limit = limit, fs_ttl_seconds = ttl\<rparr>"

definition flow_len :: "flow_store \<Rightarrow> nat" where
  "flow_len s = Mapping.size (fs_entries s)"

definition flow_touch :: "string \<Rightarrow> flow_store \<Rightarrow> flow_store" where
  "flow_touch state s = (if state \<in> set (fs_order s)
     then s\<lparr>fs_order := remove1 state (fs_order s) @ [state]\<rparr> else s)"

definition flow_evict :: "flow_store \<Rightarrow> flow_store" where
  "flow_evict s = (if fs_limit s \<le> flow_len s
     then (case fs_order s of
         [] \<Rightarrow> s
       | oldest # order \<Rightarrow> s\<lparr>fs_order := order, fs_entries := Mapping.delete oldest (fs_entries s)\<rparr>)
     else s)"

definition flow_insert :: "string \<Rightarrow> oidc_flow \<Rightarrow> flow_store \<Rightarrow> flow_store" where
  "flow_insert state flow s =
     (if Mapping.lookup (fs_entries s) state \<noteq> None
      then flow_touch state (s\<lparr>fs_entries := Mapping.update state flow (fs_entries s)\<rparr>)
      else let s = flow_evict s in
        s\<lparr>fs_order := fs_order s @ [state], fs_entries := Mapping.update state flow (fs_entries s)\<rparr>)"

text \<open>The state and the nonce are two fresh secrets, given as arguments.\<close>

definition flow_begin :: "string \<Rightarrow> string \<Rightarrow> string \<Rightarrow> int \<Rightarrow> flow_store \<Rightarrow> oidc_flow \<times> flow_store" where
  "flow_begin state nonce auth_id now s =
     (let flow = \<lparr>fl_auth_id = auth_id, fl_nonce = nonce, fl_expires_at = now + fs_ttl_seconds s\<rparr> in
      (flow, flow_insert state flow s))"

definition flow_take :: "string \<Rightarrow> int \<Rightarrow> flow_store \<Rightarrow> oidc_flow option \<times> flow_store" where
  "flow_take state now s =
     (case Mapping.lookup (fs_entries s) state of
        None \<Rightarrow> (None, s)
      | Some flow \<Rightarrow>
          let s = s\<lparr>fs_entries := Mapping.delete state (fs_entries s), fs_order := filter (\<lambda>x. x \<noteq> state) (fs_order s)\<rparr> in
          if fl_expires_at flow \<le> now then (None, s) else (Some flow, s))"

section \<open>The store is bounded and its states are single-use\<close>

abbreviation flow_map :: "flow_store \<Rightarrow> string \<Rightarrow> oidc_flow option" where
  "flow_map s \<equiv> Mapping.lookup (fs_entries s)"

lemma flow_len_card: "flow_len s = card (dom (flow_map s))"
  by (simp add: flow_len_def Mapping.size_def keys_dom_lookup)

definition flow_inv :: "flow_store \<Rightarrow> bool" where
  "flow_inv s \<longleftrightarrow> distinct (fs_order s) \<and> set (fs_order s) = dom (flow_map s) \<and> flow_len s \<le> max 1 (fs_limit s)"

lemma flow_inv_len: "flow_inv s \<Longrightarrow> flow_len s = length (fs_order s)"
  unfolding flow_inv_def flow_len_card by (metis distinct_card)

lemma flow_inv_new [inv_intros]: "flow_inv (flow_store_new limit ttl)"
  by (simp add: flow_inv_def flow_store_new_def flow_len_card)

lemma flow_inv_take [inv_intros]:
  assumes "flow_inv s"
  shows "flow_inv (snd (flow_take state now s))"
proof (cases "flow_map s state")
  case (Some flow)
  have "card (dom (flow_map s) - {state}) \<le> card (dom (flow_map s))" by (rule card_Diff1_le)
  then show ?thesis using Some assms by (auto simp: flow_take_def flow_inv_def flow_len_card Let_def)
qed (simp add: flow_take_def assms)

lemma flow_evict_props:
  assumes "flow_inv s"
  shows "distinct (fs_order (flow_evict s))" "set (fs_order (flow_evict s)) = dom (flow_map (flow_evict s))"
    "flow_len (flow_evict s) < max 1 (fs_limit s)" "fs_limit (flow_evict s) = fs_limit s"
    "flow_map (flow_evict s) k = Some f \<Longrightarrow> flow_map s k = Some f"
proof -
  have inv: "distinct (fs_order s)" "set (fs_order s) = dom (flow_map s)" "flow_len s \<le> max 1 (fs_limit s)"
    using assms by (simp_all add: flow_inv_def)
  have "distinct (fs_order (flow_evict s)) \<and> set (fs_order (flow_evict s)) = dom (flow_map (flow_evict s)) \<and>
      flow_len (flow_evict s) < max 1 (fs_limit s)"
  proof (cases "fs_order s")
    case Nil
    then have "flow_len s = 0" using inv(2) by (simp add: flow_len_card)
    then show ?thesis using Nil inv by (simp add: flow_evict_def)
  next
    case (Cons x xs)
    have "set xs = dom (flow_map s) - {x}" using inv(1,2) Cons by auto
    moreover have "card (dom (flow_map s) - {x}) < card (dom (flow_map s))"
      using inv(2) Cons by (intro card_Diff1_less) (auto simp flip: inv(2))
    ultimately show ?thesis using Cons inv by (auto simp: flow_evict_def flow_len_card)
  qed
  then show "distinct (fs_order (flow_evict s))" "set (fs_order (flow_evict s)) = dom (flow_map (flow_evict s))"
    "flow_len (flow_evict s) < max 1 (fs_limit s)" by auto
  show "fs_limit (flow_evict s) = fs_limit s" by (simp add: flow_evict_def split: list.split)
  show "flow_map s k = Some f" if "flow_map (flow_evict s) k = Some f"
    using that by (auto simp: flow_evict_def split: if_splits list.splits)
qed

lemma flow_inv_insert [inv_intros]:
  assumes "flow_inv s"
  shows "flow_inv (flow_insert state flow s)"
proof (cases "flow_map s state")
  case None
  note e = flow_evict_props [OF assms]
  have "flow_map (flow_evict s) state = None" using None e(5) by (cases "flow_map (flow_evict s) state") auto
  then have n: "state \<notin> dom (flow_map (flow_evict s))" by auto
  have "finite (dom (flow_map (flow_evict s)))" unfolding e(2) [symmetric] by simp
  then have "card (insert state (dom (flow_map (flow_evict s)))) \<le> max 1 (fs_limit s)"
    using e(3) n by (simp add: flow_len_card)
  then show ?thesis using None e(1,2,4) n by (simp add: flow_insert_def flow_inv_def Let_def flow_len_card)
next
  case (Some old)
  then show ?thesis using assms by (auto simp: flow_insert_def flow_inv_def flow_touch_def flow_len_card insert_absorb)
qed

text \<open>A state that was consumed is gone until it is issued again.\<close>

lemma flow_take_gone: "flow_map (snd (flow_take state now s)) state = None"
  by (cases "flow_map s state") (auto simp: flow_take_def Let_def)

lemma flow_take_other: "k \<noteq> state \<Longrightarrow> flow_map (snd (flow_take state now s)) k = flow_map s k"
  by (cases "flow_map s state") (auto simp: flow_take_def Let_def)

lemma flow_take_Some: "fst (flow_take state now s) = Some flow \<Longrightarrow> flow_map s state = Some flow \<and> now < fl_expires_at flow"
  by (auto simp: flow_take_def Let_def split: option.splits if_splits)

lemma flow_insert_entries:
  assumes "flow_inv s" "flow_map (flow_insert state flow s) k = Some f"
  shows "(k = state \<and> f = flow) \<or> (k \<noteq> state \<and> flow_map s k = Some f)"
  using assms flow_evict_props(5) [OF assms(1), of k f]
  by (cases "flow_map s state") (auto simp: flow_insert_def flow_touch_def Let_def split: if_splits)

end
