(* ===== verification/Transport_Stream.thy ===== *)
theory Transport_Stream
  imports Transport_Record
begin

text \<open>
  The Noise-framed byte stream, \<^verbatim>\<open>crabscale-transport/src/stream.rs\<close>, over an inner transport given by what its polls return,
  and the bounded body reader of \<^verbatim>\<open>http2.rs\<close>. A panic of the record cipher is the value \<^verbatim>\<open>None\<close>.
\<close>

text \<open>One read of the inner transport delivers some bytes, at most the 4096 of the chunk it is given; none is its end of file.\<close>

datatype inner_read = InnerData bytes | InnerReadFailed | InnerReadPending

datatype inner_write = Wrote nat | InnerWriteFailed | InnerWritePending

datatype 'a noise_poll = NoisePending | NoiseFailed string | NoiseReady 'a

record noise_stream =
  ns_reader :: record_decoder
  ns_writer :: record_cipher
  ns_read_buf :: bytes
  ns_read_pos :: nat
  ns_write_buf :: bytes
  ns_write_pos :: nat
  ns_write_acked :: nat
  ns_written :: bytes

definition noise_stream_new :: "bytes \<Rightarrow> bytes \<Rightarrow> noise_stream" where
  "noise_stream_new read_key write_key =
     \<lparr>ns_reader = record_decoder_new read_key, ns_writer = record_cipher_new write_key, ns_read_buf = [], ns_read_pos = 0,
      ns_write_buf = [], ns_write_pos = 0, ns_write_acked = 0, ns_written = []\<rparr>"

section \<open>Reading\<close>

definition unread :: "noise_stream \<Rightarrow> bytes" where
  "unread s = drop (ns_read_pos s) (ns_read_buf s)"

definition hand_out :: "nat \<Rightarrow> noise_stream \<Rightarrow> noise_stream \<times> bytes" where
  "hand_out remaining s =
     (let n = min (length (ns_read_buf s) - ns_read_pos s) remaining in
      (s\<lparr>ns_read_pos := ns_read_pos s + n\<rparr>, take n (drop (ns_read_pos s) (ns_read_buf s))))"

definition noise_poll_read ::
  "aead \<Rightarrow> nat \<Rightarrow> noise_stream \<Rightarrow> inner_read list \<Rightarrow> (noise_stream \<times> inner_read list \<times> bytes noise_poll) option" where
  "noise_poll_read a remaining s polls =
     (if ns_read_pos s < length (ns_read_buf s) then
        let (s, out) = hand_out remaining s in Some (s, polls, NoiseReady out)
      else
        let s = s\<lparr>ns_read_buf := [], ns_read_pos := 0\<rparr> in
        case polls of
          [] \<Rightarrow> Some (s, [], NoisePending)
        | InnerReadPending # rest \<Rightarrow> Some (s, rest, NoisePending)
        | InnerReadFailed # rest \<Rightarrow> Some (s, rest, NoiseFailed ''inner'')
        | InnerData b # rest \<Rightarrow>
            if b = [] then Some (s, rest, NoiseReady [])
            else (case record_feed a (ns_reader s) b of
               None \<Rightarrow> None
             | Some (d, Inl e) \<Rightarrow> Some (s\<lparr>ns_reader := d\<rparr>, rest, NoiseFailed (show_transport_error e))
             | Some (d, Inr plaintext) \<Rightarrow>
                 let (s, out) = hand_out remaining (s\<lparr>ns_reader := d, ns_read_buf := plaintext\<rparr>) in
                 Some (s, rest, NoiseReady out)))"

text \<open>\<^verbatim>\<open>read_exact\<close> of \<^verbatim>\<open>want\<close> more bytes: unlike \<^verbatim>\<open>poll_read\<close> it keeps reading while a record is incomplete. A pending inner
  read only suspends the task, so it does not show here.\<close>

fun noise_read_exact ::
  "aead \<Rightarrow> nat \<Rightarrow> bytes \<Rightarrow> noise_stream \<Rightarrow> inner_read list \<Rightarrow> (noise_stream \<times> bytes noise_poll) option" where
  "noise_read_exact a want out s polls =
     (let (s, got) = hand_out want s; out = out @ got; want = want - length got in
      if want = 0 then Some (s, NoiseReady out)
      else
        let s = s\<lparr>ns_read_buf := [], ns_read_pos := 0\<rparr> in
        case polls of
          [] \<Rightarrow> Some (s, NoisePending)
        | InnerReadPending # rest \<Rightarrow> noise_read_exact a want out s rest
        | InnerReadFailed # rest \<Rightarrow> Some (s, NoiseFailed ''inner'')
        | InnerData b # rest \<Rightarrow>
            if b = [] then Some (s, NoiseFailed ''noise stream closed'')
            else (case record_feed a (ns_reader s) b of
               None \<Rightarrow> None
             | Some (d, Inl e) \<Rightarrow> Some (s\<lparr>ns_reader := d\<rparr>, NoiseFailed (show_transport_error e))
             | Some (d, Inr plaintext) \<Rightarrow>
                 noise_read_exact a want out (s\<lparr>ns_reader := d, ns_read_buf := plaintext, ns_read_pos := 0\<rparr>) rest))"

declare noise_read_exact.simps [simp del]

section \<open>Writing\<close>

fun flush_pending :: "noise_stream \<Rightarrow> inner_write list \<Rightarrow> noise_stream \<times> inner_write list \<times> unit noise_poll" where
  "flush_pending s polls =
     (if ns_write_pos s < length (ns_write_buf s) then
        (case polls of
           [] \<Rightarrow> (s, [], NoisePending)
         | InnerWritePending # rest \<Rightarrow> (s, rest, NoisePending)
         | InnerWriteFailed # rest \<Rightarrow> (s, rest, NoiseFailed ''inner'')
         | Wrote n # rest \<Rightarrow>
             if n = 0 then (s, rest, NoiseFailed ''noise stream write returned zero'')
             else
               let m = min n (length (ns_write_buf s) - ns_write_pos s) in
               flush_pending (s\<lparr>ns_write_pos := ns_write_pos s + m,
                 ns_written := ns_written s @ take m (drop (ns_write_pos s) (ns_write_buf s))\<rparr>) rest)
      else (s\<lparr>ns_write_buf := [], ns_write_pos := 0\<rparr>, polls, NoiseReady ()))"

declare flush_pending.simps [simp del]

definition finish_write :: "noise_stream \<Rightarrow> inner_write list \<Rightarrow> noise_stream \<times> inner_write list \<times> nat noise_poll" where
  "finish_write s polls =
     (case flush_pending s polls of
        (s, polls, NoiseReady _) \<Rightarrow> (s\<lparr>ns_write_acked := 0\<rparr>, polls, NoiseReady (ns_write_acked s))
      | (s, polls, NoiseFailed e) \<Rightarrow> (s, polls, NoiseFailed e)
      | (s, polls, NoisePending) \<Rightarrow> (s, polls, NoisePending))"

definition noise_poll_write ::
  "aead \<Rightarrow> bytes \<Rightarrow> noise_stream \<Rightarrow> inner_write list \<Rightarrow> (noise_stream \<times> inner_write list \<times> nat noise_poll) option" where
  "noise_poll_write a buf s polls =
     (if ns_write_acked s > 0 then Some (finish_write s polls)
      else case record_encode a (ns_writer s) buf of
        None \<Rightarrow> None
      | Some (framed, w) \<Rightarrow>
          Some (finish_write (s\<lparr>ns_writer := w, ns_write_buf := framed, ns_write_pos := 0, ns_write_acked := length buf\<rparr>) polls))"

text \<open>\<^verbatim>\<open>poll_flush\<close> and \<^verbatim>\<open>poll_shutdown\<close> up to the inner call they end with.\<close>

definition noise_poll_flush :: "noise_stream \<Rightarrow> inner_write list \<Rightarrow> noise_stream \<times> inner_write list \<times> unit noise_poll" where
  "noise_poll_flush s polls =
     (case flush_pending s polls of
        (s, polls, NoiseReady _) \<Rightarrow> (s\<lparr>ns_write_acked := 0\<rparr>, polls, NoiseReady ())
      | other \<Rightarrow> other)"

section \<open>Bodies with a limit\<close>

definition MAX_INNER_BODY_LEN :: nat where "MAX_INNER_BODY_LEN = 1024 * 1024"

fun read_body_limited :: "nat \<Rightarrow> (string, bytes) result list \<Rightarrow> bytes \<Rightarrow> (transport_error, bytes) result" where
  "read_body_limited limit [] out = Ok out"
| "read_body_limited limit (Inl e # _) out = Err (Http2 e)"
| "read_body_limited limit (Inr chunk # rest) out =
     (if length out + length chunk > limit then Err BodyTooLarge else read_body_limited limit rest (out @ chunk))"

lemma read_body_limited_bound:
  "length out \<le> limit \<Longrightarrow> read_body_limited limit cs out = Ok b \<Longrightarrow> length b \<le> limit"
  by (induction limit cs out rule: read_body_limited.induct) (auto split: if_splits)

lemma read_body_limited_whole:
  "read_body_limited limit (map Inr cs) out =
     (if length out + length (concat cs) \<le> limit \<or> cs = [] then Ok (out @ concat cs) else Err BodyTooLarge)"
proof (induction cs arbitrary: out)
  case (Cons c cs)
  then show ?case by (cases "cs = []") auto
qed simp

section \<open>What reaches the other side\<close>

lemma take_drop_shift: "take k (drop p xs) @ drop (p + k) xs = drop p xs"
  by (metis add.commute append_take_drop_id drop_drop)

lemma hand_out_unread: "hand_out n s = (s', out) \<Longrightarrow> out @ unread s' = unread s \<and> (unread s \<noteq> [] \<and> 0 < n \<longrightarrow> out \<noteq> [])"
  using take_drop_shift [of "min (length (ns_read_buf s) - ns_read_pos s) n" "ns_read_pos s" "ns_read_buf s"]
  by (auto simp: hand_out_def unread_def Let_def)

text \<open>Flushing hands the pending bytes to the inner transport in order, and exactly those.\<close>

definition unsent :: "noise_stream \<Rightarrow> bytes" where
  "unsent s = drop (ns_write_pos s) (ns_write_buf s)"

lemma flush_pending_sends:
  "flush_pending s polls = (s', polls', res) \<Longrightarrow>
     ns_written s' @ unsent s' = ns_written s @ unsent s \<and> ns_write_acked s' = ns_write_acked s \<and> ns_writer s' = ns_writer s
     \<and> (res = NoiseReady () \<longrightarrow> unsent s' = [])"
proof (induction s polls rule: flush_pending.induct)
  case (1 s polls)
  show ?case
  proof (cases "ns_write_pos s < length (ns_write_buf s)")
    case False
    then show ?thesis using "1.prems" by (auto simp: flush_pending.simps [of s polls] unsent_def)
  next
    case True
    show ?thesis
    proof (cases "\<exists>n rest. polls = Wrote n # rest \<and> n \<noteq> 0")
      case False
      then show ?thesis
        using "1.prems" True by (auto simp: flush_pending.simps [of s polls] unsent_def split: list.splits inner_write.splits if_splits)
    next
      case w: True
      then obtain n rest where polls: "polls = Wrote n # rest" "n \<noteq> 0" by blast
      define m where "m = min n (length (ns_write_buf s) - ns_write_pos s)"
      let ?s = "s\<lparr>ns_write_pos := ns_write_pos s + m, ns_written := ns_written s @ take m (drop (ns_write_pos s) (ns_write_buf s))\<rparr>"
      have "flush_pending ?s rest = (s', polls', res)"
        using "1.prems" True polls by (subst (asm) flush_pending.simps) (simp add: m_def Let_def)
      moreover have "ns_written ?s @ unsent ?s = ns_written s @ unsent s"
        by (simp add: unsent_def take_drop_shift)
      ultimately show ?thesis using "1.IH" [OF True polls(1) refl polls(2) m_def] by simp
    qed
  qed
qed

text \<open>A write that is acknowledged has passed exactly its encoding on.\<close>

lemma noise_poll_write_sends:
  assumes "noise_poll_write a buf s polls = Some (s', polls', NoiseReady n)" "ns_write_acked s = 0" "unsent s = []"
    and "record_encode a (ns_writer s) buf = Some (framed, w)"
  shows "n = length buf \<and> ns_written s' = ns_written s @ framed \<and> ns_writer s' = w \<and> ns_write_acked s' = 0 \<and> unsent s' = []"
proof -
  let ?s = "s\<lparr>ns_writer := w, ns_write_buf := framed, ns_write_pos := 0, ns_write_acked := length buf\<rparr>"
  obtain s1 p1 r1 where f: "flush_pending ?s polls = (s1, p1, r1)" by (metis prod_cases3)
  then have "r1 = NoiseReady () \<and> s' = s1\<lparr>ns_write_acked := 0\<rparr> \<and> n = ns_write_acked s1"
    using assms by (cases r1) (auto simp: noise_poll_write_def finish_write_def)
  then show ?thesis using flush_pending_sends [OF f] by (auto simp: unsent_def)
qed

section \<open>Limits of the stream\<close>

text \<open>A read that brings only part of a record is ready with no bytes, which its caller takes for the end of the stream.\<close>

lemma partial_record_reads_as_end:
  assumes "b \<noteq> []" "length b < 3" "0 < remaining"
  shows "\<exists>s'. noise_poll_read a remaining (noise_stream_new rk wk) [InnerData b] = Some (s', [], NoiseReady [])"
proof -
  have "record_feed a (record_decoder_new rk) b = Some (\<lparr>rd_cipher = record_cipher_new rk, rd_buf = b\<rparr>, Ok [])"
    using assms(2) by (simp add: record_feed_def record_decoder_new_def decode_loop.simps decode_one_def)
  then show ?thesis
    using assms by (simp add: noise_poll_read_def noise_stream_new_def Let_def hand_out_def)
qed

text \<open>When a flush completes a write that was pending, the write is not acknowledged any more: a retry encodes and sends its
  bytes again.\<close>

lemma flush_forgets_pending_write:
  assumes "noise_poll_write a buf s [InnerWritePending] = Some (s1, [], NoisePending)"
    and "noise_poll_flush s1 polls = (s2, [], NoiseReady ())"
  shows "ns_write_acked s2 = 0 \<and> ns_written s2 = ns_written s1 @ unsent s1"
proof -
  obtain s3 p3 r3 where f: "flush_pending s1 polls = (s3, p3, r3)" by (metis prod_cases3)
  then have "r3 = NoiseReady () \<and> s2 = s3\<lparr>ns_write_acked := 0\<rparr>"
    using assms(2) by (cases r3) (auto simp: noise_poll_flush_def)
  then show ?thesis using flush_pending_sends [OF f] by auto
qed

end
