(* ===== verification/Server_Router.thy ===== *)
theory Server_Router
  imports Server_Query Server_Rate Server_Boot Server_Oidc Transport_Stream Control_Map
begin

text \<open>
  Model of \<^verbatim>\<open>crabscale-server/src/router.rs\<close>: the outer endpoints and the inner \<^verbatim>\<open>/machine\<close> endpoints, composed from
  the control plane, the rate limiters, the OIDC client and the bootstrap names. A handler returns the response and the
  router after it, or \<^verbatim>\<open>None\<close> where the control plane does not return. The JSON codecs are the fields of \<^verbatim>\<open>server_env\<close>.
\<close>

section \<open>Responses\<close>

record web_response =
  ws_status :: nat
  ws_headers :: "(string \<times> string) list"
  ws_body :: bytes

definition plain_response :: "nat \<Rightarrow> string \<Rightarrow> web_response" where
  "plain_response status' text = \<lparr>ws_status = status', ws_headers = [(''Content-Type'', ''text/plain'')], ws_body = as_bytes text\<rparr>"

definition json_response :: "nat \<Rightarrow> bytes \<Rightarrow> web_response" where
  "json_response status' body = \<lparr>ws_status = status', ws_headers = [(''Content-Type'', ''application/json'')], ws_body = body\<rparr>"

definition bytes_response :: "nat \<Rightarrow> bytes \<Rightarrow> web_response" where
  "bytes_response status' body = \<lparr>ws_status = status', ws_headers = [(''Content-Type'', ''application/octet-stream'')], ws_body = body\<rparr>"

definition empty_response :: "nat \<Rightarrow> web_response" where
  "empty_response status' = \<lparr>ws_status = status', ws_headers = [], ws_body = []\<rparr>"

definition html_response :: "string \<Rightarrow> web_response" where
  "html_response html = \<lparr>ws_status = 200, ws_headers = [(''Content-Type'', ''text/html; charset=utf-8'')], ws_body = as_bytes html\<rparr>"

definition rate_limited_response :: "nat \<Rightarrow> web_response" where
  "rate_limited_response retry = \<lparr>ws_status = 429,
     ws_headers = [(''Content-Type'', ''text/plain''), (''Retry-After'', dec_str retry)], ws_body = as_bytes ''rate limit exceeded''\<rparr>"

definition key_bad_request :: web_response where
  "key_bad_request = plain_response 400 ''missing or unsupported capability version''"

section \<open>The router\<close>

definition VERIFY_MAX_BODY_LEN :: nat where "VERIFY_MAX_BODY_LEN = 4096"
definition KEEPALIVE_INTERVAL :: nat where "KEEPALIVE_INTERVAL = 50"
definition REAP_INTERVAL :: nat where "REAP_INTERVAL = 1"

record 'j server_env =
  sv_oidc :: "'j oidc_env"
  sv_version :: string
  sv_read_register :: "bytes \<Rightarrow> register_request option"
  sv_read_map :: "bytes \<Rightarrow> map_request option"
  sv_read_logout :: "bytes \<Rightarrow> raw_key option"
  sv_read_verify :: "bytes \<Rightarrow> raw_key option"
  sv_write_register :: "register_response \<Rightarrow> bytes option"
  sv_write_verify :: "bool \<Rightarrow> bytes option"
  sv_write_ssh :: "ssh_action \<Rightarrow> bytes option"
  sv_write_bootstrap :: "bootstrap_dns \<Rightarrow> bytes option"
  sv_header_value :: "string \<Rightarrow> bool"

record 'j router =
  rt_machine_key :: raw_key
  rt_plane :: plane
  rt_oidc :: "'j oidc_client option"
  rt_flows :: flow_store
  rt_bootstrap :: "bootstrap_dns option"
  rt_ts2021 :: rate_limiter
  rt_register :: rate_limiter

definition with_rate_limits :: "rate_limit_config \<Rightarrow> 'j router \<Rightarrow> 'j router" where
  "with_rate_limits cfg r = r\<lparr>
     rt_ts2021 := rate_limiter_new (ts2021_per_min cfg) (ts2021_burst cfg) (max_entries cfg),
     rt_register := rate_limiter_new (register_per_min cfg) (register_burst cfg) (max_entries cfg)\<rparr>"

definition with_control :: "raw_key \<Rightarrow> plane \<Rightarrow> 'j router" where
  "with_control machine_key control =
     with_rate_limits rate_limit_config_default
       \<lparr>rt_machine_key = machine_key, rt_plane = control, rt_oidc = None,
        rt_flows = flow_store_new DEFAULT_OIDC_FLOW_LIMIT DEFAULT_OIDC_FLOW_TTL_SECONDS, rt_bootstrap = None,
        rt_ts2021 = rate_limiter_new 0 0 0, rt_register = rate_limiter_new 0 0 0\<rparr>"

definition with_oidc :: "'j oidc_client \<Rightarrow> 'j router \<Rightarrow> 'j router" where
  "with_oidc oidc r = r\<lparr>rt_oidc := Some oidc\<rparr>"

definition with_oidc_flow_ttl :: "int \<Rightarrow> 'j router \<Rightarrow> 'j router" where
  "with_oidc_flow_ttl ttl r = r\<lparr>rt_flows := flow_store_new DEFAULT_OIDC_FLOW_LIMIT ttl\<rparr>"

definition with_bootstrap_dns :: "bootstrap_dns \<Rightarrow> 'j router \<Rightarrow> 'j router" where
  "with_bootstrap_dns dns r = r\<lparr>rt_bootstrap := Some dns\<rparr>"

definition check_ts2021_rate :: "nat \<Rightarrow> string list \<Rightarrow> ip_addr \<Rightarrow> 'j router \<Rightarrow> nat option \<times> 'j router" where
  "check_ts2021_rate now ord ip r = (let (l, retry) = rate_check now ord (show_ip ip) (rt_ts2021 r) in (retry, r\<lparr>rt_ts2021 := l\<rparr>))"

definition check_register_rate :: "nat \<Rightarrow> string list \<Rightarrow> raw_key \<Rightarrow> 'j router \<Rightarrow> nat option \<times> 'j router" where
  "check_register_rate now ord machine_key r =
     (let (l, retry) = rate_check now ord (to_key_string MKEY machine_key) (rt_register r) in (retry, r\<lparr>rt_register := l\<rparr>))"

definition on_plane :: "'a plane_op \<Rightarrow> 'j router \<Rightarrow> ((control_error, 'a) result \<times> 'j router) option" where
  "on_plane op r = map_option (\<lambda>(x, p). (x, r\<lparr>rt_plane := p\<rparr>)) (op (rt_plane r))"

text \<open>\<^verbatim>\<open>spawn_reaper\<close>: whether this call starts the background tasks.\<close>

definition spawn_reaper :: "'j router \<Rightarrow> (bool \<times> 'j router) option" where
  "spawn_reaper r = map_option (\<lambda>(x, r). (case x of Inr first \<Rightarrow> first | Inl _ \<Rightarrow> False, r)) (on_plane claim_reaper r)"

section \<open>Outer endpoints\<close>

definition quoted :: "string \<Rightarrow> string" where
  "quoted s = [CHR 0x22] @ s @ [CHR 0x22]"

definition handle_key :: "string option \<Rightarrow> 'j router \<Rightarrow> web_response" where
  "handle_key capver r =
     (let supported = (case Option.bind capver (parse_unsigned (2 ^ 32 - 1)) of Some v \<Rightarrow> MIN_SUPPORTED_CAPVER \<le> v | None \<Rightarrow> False) in
      if \<not> supported then key_bad_request
      else json_response 200 (as_bytes (''{'' @ quoted ''legacyPublicKey'' @ '':'' @ quoted '''' @ '','' @ quoted ''publicKey'' @ '':''
        @ quoted (to_key_string MKEY (rt_machine_key r)) @ ''}'')))"

definition handle_verify :: "'j server_env \<Rightarrow> bytes \<Rightarrow> 'j router \<Rightarrow> web_response" where
  "handle_verify env body r =
     (if length body > VERIFY_MAX_BODY_LEN then plain_response 413 ''body too large''
      else case sv_read_verify env body of
        None \<Rightarrow> plain_response 400 ''invalid verify request''
      | Some node_public \<Rightarrow>
          json_response 200 (case sv_write_verify env (node_is_authorized node_public (rt_plane r)) of
            Some b \<Rightarrow> b | None \<Rightarrow> as_bytes (''{'' @ quoted ''Allow'' @ '':false}'')))"

definition handle_bootstrap_dns :: "'j server_env \<Rightarrow> string option \<Rightarrow> 'j router \<Rightarrow> web_response" where
  "handle_bootstrap_dns env q r =
     (case rt_bootstrap r of
        None \<Rightarrow> plain_response 404 ''bootstrap DNS not configured''
      | Some dns \<Rightarrow> \<lparr>ws_status = 200, ws_headers = [(''Content-Type'', ''application/json''), (''Connection'', ''close'')],
          ws_body = (case sv_write_bootstrap env (bootstrap_body dns q) of Some b \<Rightarrow> b | None \<Rightarrow> as_bytes ''{}'')\<rparr>)"

definition handle_health :: web_response where
  "handle_health = json_response 200 (as_bytes (''{'' @ quoted ''status'' @ '':'' @ quoted ''ok'' @ ''}''))"

definition handle_version :: "'j server_env \<Rightarrow> 'j router \<Rightarrow> web_response" where
  "handle_version env r = json_response 200 (as_bytes (''{'' @ quoted ''name'' @ '':'' @ quoted ''crabscale-server'' @ '',''
     @ quoted ''protocol_version'' @ '':'' @ dec_str (cc_protocol_version (pl_config (rt_plane r))) @ '',''
     @ quoted ''version'' @ '':'' @ quoted (sv_version env) @ ''}''))"

definition handle_metrics :: "metrics \<Rightarrow> web_response" where
  "handle_metrics m = \<lparr>ws_status = 200, ws_headers = [(''Content-Type'', ''text/plain; version=0.0.4; charset=utf-8'')],
     ws_body = as_bytes (render_prometheus m)\<rparr>"

definition redirect_response :: "'j server_env \<Rightarrow> string \<Rightarrow> web_response" where
  "redirect_response env location =
     (if \<not> sv_header_value env location then plain_response 500 ''invalid redirect target''
      else \<lparr>ws_status = 302, ws_headers = [(''Location'', location)], ws_body = []\<rparr>)"

definition page_head :: "string \<Rightarrow> string" where
  "page_head title = ''<!doctype html><html><head><meta charset='' @ quoted ''utf-8'' @ ''><title>'' @ title @ ''</title></head>''"

definition register_page :: "string \<Rightarrow> pending_registration \<Rightarrow> string" where
  "register_page auth_id pending =
     (let hostname = (case pr_hostinfo pending of Some h \<Rightarrow> hi_hostname h | None \<Rightarrow> ''unknown'');
          gap = replicate 13 CHR '' '' in
      page_head ''Pending registration'' @ gap @ ''<body><h1>Pending registration</h1>'' @ gap
        @ ''<p>Auth id: <code>'' @ escape_html auth_id @ ''</code></p>'' @ gap
        @ ''<p>Hostname: <code>'' @ escape_html hostname @ ''</code></p>'' @ gap
        @ ''<p>Expires: <code>'' @ escape_html (pr_expires_at pending) @ ''</code></p>'' @ gap
        @ ''<p>Approve or reject this registration with the <code>crabscale auth</code> CLI.</p>'' @ gap @ ''</body></html>'')"

definition approved_page :: "string \<Rightarrow> string" where
  "approved_page email = page_head ''Registration approved'' @ ''<body><h1>Registration approved</h1>''
     @ ''<p>The node is now authorized to join the tailnet.</p><p>Login: <code>'' @ escape_html email @ ''</code></p></body></html>''"

text \<open>The secrets drawn for a new flow are arguments.\<close>

definition handle_register_page ::
  "'j server_env \<Rightarrow> world \<Rightarrow> string \<Rightarrow> string \<Rightarrow> string \<Rightarrow> 'j router \<Rightarrow> (web_response \<times> 'j router) option" where
  "handle_register_page env w state nonce auth_id r =
     map_option (\<lambda>(found, r). case found of
         Inr None \<Rightarrow> (plain_response 404 ''pending registration not found'', r)
       | Inl _ \<Rightarrow> (plain_response 500 ''internal error'', r)
       | Inr (Some pending) \<Rightarrow>
           (case rt_oidc r of
              Some oidc \<Rightarrow>
                (let (flow, flows) = flow_begin state nonce auth_id (now_unix w) (rt_flows r); r = r\<lparr>rt_flows := flows\<rparr> in
                 case authorization_url (sv_oidc env) oidc state (fl_nonce flow) of
                   Inr location \<Rightarrow> (redirect_response env location, r)
                 | Inl _ \<Rightarrow> (plain_response 500 ''failed to start OIDC authorization'', r))
            | None \<Rightarrow> (html_response (register_page auth_id pending), r)))
       (on_plane (pending_info w auth_id) r)"

text \<open>The last part of the callback: the profile is recorded and the registration approved.\<close>

definition approve_profile :: "world \<Rightarrow> oidc_flow \<Rightarrow> oidc_profile \<Rightarrow> 'j router \<Rightarrow> (web_response \<times> 'j router) option" where
  "approve_profile w flow profile r =
     (case on_plane (upsert_oidc_user w profile) r of
        None \<Rightarrow> None
      | Some (Inl _, r) \<Rightarrow> Some (plain_response 500 ''failed to record OIDC identity'', r)
      | Some (Inr _, r) \<Rightarrow>
          map_option (\<lambda>(x, r). case x of
              Inr _ \<Rightarrow> (html_response (approved_page (op_email profile)), r)
            | Inl _ \<Rightarrow> (plain_response 400 ''registration is no longer pending'', r))
            (on_plane (approve_pending w (fl_auth_id flow) (op_email profile)) r))"

definition exchange_and_approve ::
  "'j server_env \<Rightarrow> world \<Rightarrow> nat \<Rightarrow> bool \<Rightarrow> oidc_flow \<Rightarrow> string \<Rightarrow> 'j oidc_client \<Rightarrow> 'j router \<Rightarrow> (web_response \<times> 'j router) option" where
  "exchange_and_approve env w now task_ok flow code oidc r =
     (if \<not> task_ok then Some (plain_response 500 ''OIDC exchange task failed'', r)
      else let (exchanged, oidc') = oidc_complete (sv_oidc env) now flow code oidc; r = r\<lparr>rt_oidc := Some oidc'\<rparr> in
        case exchanged of
          Inl _ \<Rightarrow> Some (plain_response 400 ''OIDC callback validation failed'', r)
        | Inr profile \<Rightarrow> approve_profile w flow profile r)"

definition handle_oidc_callback ::
  "'j server_env \<Rightarrow> world \<Rightarrow> nat \<Rightarrow> bool \<Rightarrow> string \<Rightarrow> 'j router \<Rightarrow> (web_response \<times> 'j router) option" where
  "handle_oidc_callback env w now task_ok query r =
     (case rt_oidc r of
        None \<Rightarrow> Some (plain_response 404 ''oidc not configured'', r)
      | Some oidc \<Rightarrow>
          let params = parse_query query in
          if bt_get params ''error'' \<noteq> None then Some (plain_response 400 ''oidc provider reported an error'', r)
          else case (bt_get params ''state'', bt_get params ''code'') of
            (Some state, Some code) \<Rightarrow>
              (let (taken, flows) = flow_take state (now_unix w) (rt_flows r); r = r\<lparr>rt_flows := flows\<rparr> in
               case taken of
                 None \<Rightarrow> Some (plain_response 400 ''invalid, expired, or reused OIDC state'', r)
               | Some flow \<Rightarrow>
                   (case on_plane (pending_info w (fl_auth_id flow)) r of
                      None \<Rightarrow> None
                    | Some (Inr (Some _), r) \<Rightarrow> exchange_and_approve env w now task_ok flow code oidc r
                    | Some (_, r) \<Rightarrow> Some (plain_response 400 ''registration is no longer pending'', r)))
          | _ \<Rightarrow> Some (plain_response 400 ''missing state or code'', r))"

section \<open>Inner endpoints\<close>

record stream_session =
  st_first_frame :: bytes
  st_keep_alive :: bool
  st_compress :: bool
  st_session_id :: int
  st_node_id :: int
  st_last_sent :: session_peers
  st_client_version :: nat

text \<open>A request is answered at once, or its map is streamed.\<close>

datatype inner_reply = Reply web_response | Streaming stream_session

definition map_error_status :: "control_error \<Rightarrow> nat" where
  "map_error_status err = (case err of
      NotFound \<Rightarrow> 404
    | UnsupportedVersion _ \<Rightarrow> 400
    | InvalidEndpointTypes \<Rightarrow> 400
    | _ \<Rightarrow> 500)"

definition inner_map :: "'j server_env \<Rightarrow> world \<Rightarrow> raw_key \<Rightarrow> bytes \<Rightarrow> 'j router \<Rightarrow> (inner_reply \<times> 'j router) option" where
  "inner_map env w machine_key body r =
     (case sv_read_map env body of
        None \<Rightarrow> Some (Reply (plain_response 400 ''invalid map request''), r)
      | Some request \<Rightarrow>
          map_option (\<lambda>(x, r). (case x of
              Inr LiteUpdate \<Rightarrow> Reply (empty_response 200)
            | Inr (FullFrame frame) \<Rightarrow> Reply (bytes_response 200 frame)
            | Inr (StreamFrames first keep compress sid nid peers version) \<Rightarrow>
                Streaming \<lparr>st_first_frame = first, st_keep_alive = keep, st_compress = compress, st_session_id = sid,
                  st_node_id = nid, st_last_sent = peers, st_client_version = version\<rparr>
            | Inl err \<Rightarrow> Reply (plain_response (map_error_status err) (case err of
                  NotFound \<Rightarrow> ''node not found''
                | UnsupportedVersion _ \<Rightarrow> ''unsupported capability version''
                | InvalidEndpointTypes \<Rightarrow> ''endpoint_types length does not match endpoints length''
                | _ \<Rightarrow> ''internal error'')), r))
            (on_plane (handle_map w machine_key request) r))"

definition inner_logout :: "'j server_env \<Rightarrow> world \<Rightarrow> raw_key \<Rightarrow> bytes \<Rightarrow> 'j router \<Rightarrow> (inner_reply \<times> 'j router) option" where
  "inner_logout env w machine_key body r =
     (case sv_read_logout env body of
        None \<Rightarrow> Some (Reply (plain_response 400 ''invalid logout request''), r)
      | Some node_key \<Rightarrow>
          map_option (\<lambda>(x, r). (Reply (case x of
              Inr response \<Rightarrow> json_response 200 (case sv_write_register env response of Some b \<Rightarrow> b | None \<Rightarrow> as_bytes ''{}'')
            | Inl NotFound \<Rightarrow> plain_response 404 ''node not found''
            | Inl _ \<Rightarrow> plain_response 500 ''internal error''), r))
            (on_plane (logout w machine_key node_key) r))"

definition inner_register ::
  "'j server_env \<Rightarrow> world \<Rightarrow> nat \<Rightarrow> string list \<Rightarrow> raw_key \<Rightarrow> bytes \<Rightarrow> 'j router \<Rightarrow> (inner_reply \<times> 'j router) option" where
  "inner_register env w now ord machine_key body r =
     (case check_register_rate now ord machine_key r of
        (Some retry, r) \<Rightarrow> Some (Reply (rate_limited_response retry), r)
      | (None, r) \<Rightarrow>
          (case sv_read_register env body of
             None \<Rightarrow> Some (Reply (plain_response 400 ''invalid register request''), r)
           | Some request \<Rightarrow>
               map_option (\<lambda>(response, p). (Reply (json_response 200
                   (case sv_write_register env response of Some b \<Rightarrow> b | None \<Rightarrow> as_bytes ''{}'')), r\<lparr>rt_plane := p\<rparr>))
                 (register w machine_key request (rt_plane r))))"

definition inner_ssh_action ::
  "'j server_env \<Rightarrow> world \<Rightarrow> poll list \<Rightarrow> raw_key \<Rightarrow> string option \<Rightarrow> nat \<Rightarrow> nat \<Rightarrow> 'j router \<Rightarrow> (inner_reply \<times> 'j router) option" where
  "inner_ssh_action env w rounds machine_key query src dst r =
     (let params = parse_query (case query of Some q \<Rightarrow> q | None \<Rightarrow> []);
          get = (\<lambda>k. case bt_get params k of Some v \<Rightarrow> v | None \<Rightarrow> []) in
      map_option (\<lambda>(x, r). (Reply (case x of
          Inr action \<Rightarrow> json_response 200 (case sv_write_ssh env action of Some b \<Rightarrow> b | None \<Rightarrow> [])
        | Inl NotFound \<Rightarrow> plain_response 404 ''node or auth not found''
        | Inl Unauthorized \<Rightarrow> plain_response 401 ''unauthorized''
        | Inl (SshBinding _) \<Rightarrow> plain_response 400 ''ssh binding mismatch''
        | Inl Timeout \<Rightarrow> plain_response 408 ''ssh approval timed out''
        | Inl _ \<Rightarrow> plain_response 500 ''internal error''), r))
        (on_plane (handle_ssh_action w machine_key src dst (bt_get params ''auth_id'') (get ''ssh_user'') (get ''local_user'') rounds) r))"

definition not_implemented :: "(string \<times> string) list" where
  "not_implemented = [(''POST'', ''/machine/set-dns''), (''PATCH'', ''/machine/set-device-attr''), (''POST'', ''/machine/audit-log''),
     (''POST'', ''/machine/id-token''), (''POST'', ''/machine/feature/query''), (''POST'', ''/machine/update-health''), (''POST'', ''/machine/c2n'')]"

definition whoami :: "raw_key \<Rightarrow> 'j router \<Rightarrow> web_response" where
  "whoami machine_key r = json_response 200 (as_bytes (''{'' @ quoted ''machineKey'' @ '':'' @ quoted (to_key_string MKEY machine_key) @ '',''
     @ quoted ''protocolVersion'' @ '':'' @ dec_str (cc_protocol_version (pl_config (rt_plane r))) @ ''}''))"

record inner_request =
  ir_method :: string
  ir_path :: string
  ir_query :: "string option"
  ir_body :: "(string, bytes) result list"

definition handle_inner ::
  "'j server_env \<Rightarrow> world \<Rightarrow> nat \<Rightarrow> string list \<Rightarrow> poll list \<Rightarrow> inner_request \<Rightarrow> raw_key \<Rightarrow> 'j router \<Rightarrow> (inner_reply \<times> 'j router) option" where
  "handle_inner env w now ord rounds req machine_key r =
     (case read_body_limited MAX_INNER_BODY_LEN (ir_body req) [] of
        Inl BodyTooLarge \<Rightarrow> Some (Reply (plain_response 413 ''body too large''), r)
      | Inl _ \<Rightarrow> Some (Reply (plain_response 400 ''invalid request body''), r)
      | Inr body \<Rightarrow>
          let route = (ir_method req, ir_path req) in
          if route = (''GET'', ''/machine/whoami'') then Some (Reply (whoami machine_key r), r)
          else if route = (''POST'', ''/machine/register'') then inner_register env w now ord machine_key body r
          else if route = (''POST'', ''/machine/map'') then inner_map env w machine_key body r
          else if route = (''POST'', ''/machine/logout'') then inner_logout env w machine_key body r
          else if ir_method req = ''GET'' \<and> parse_ssh_action_path (ir_path req) \<noteq> None
          then (case the (parse_ssh_action_path (ir_path req)) of (src, dst) \<Rightarrow>
            inner_ssh_action env w rounds machine_key (ir_query req) src dst r)
          else if route \<in> set not_implemented then Some (Reply (plain_response 501 ''not implemented''), r)
          else Some (Reply (plain_response 404 ''not found''), r))"

end
