(* ===== verification/Server_Approval.thy ===== *)
theory Server_Approval
  imports Server_Router Control_Sample
begin

text \<open>
  What an OIDC callback can approve: only the registration its state was issued for, only on an identity
  token that the provider's key verifies and that carries the nonce of the flow, and only once.
\<close>

section \<open>One callback\<close>

lemma find_snoc_new: "\<forall>x\<in>set xs. \<not> P x \<Longrightarrow> find P (xs @ [y]) = (if P y then Some y else None)"
  by (induction xs) auto

lemma resolve_user_id_Ok:
  assumes "resolve_user_id w name p = Some (Ok uid, q)"
  shows "\<exists>u. db_get_user_by_login_name (pl_db q) name = Some u \<and> u_id u = uid"
  using assms
  by (auto simp: resolve_user_id_def bind_op_Some reads_db_def reads_def ret_def store_op_def db_create_user_def Let_def
      db_get_user_by_login_name_def find_snoc_new find_None_iff split: option.splits prod.splits sum.splits if_splits)

lemma db_users_save_pending: "db_users (db_save_pending e d) = db_users d"
  by (simp add: db_save_pending_def split_def Let_def)

text \<open>Recording a user leaves the stored registrations alone.\<close>

definition keeps_pending :: "plane \<Rightarrow> plane \<Rightarrow> bool" where
  "keeps_pending p q \<longleftrightarrow> db_pending (pl_db q) = db_pending (pl_db p)"

interpretation kp: step_relation keeps_pending
  by unfold_locales (auto simp: keeps_pending_def)

lemma keeps_pending_users:
  "steps keeps_pending (store_op w (db_create_user u))" "steps keeps_pending (store_op w (db_create_login l))"
  "steps keeps_pending (store_op w (db_update_user_display_name i name))"
  by (intro steps_store_op; simp add: keeps_pending_def db_create_user_def db_create_login_def db_update_user_display_name_def Let_def)+

lemma keeps_pending_resolve: "steps keeps_pending (resolve_user_id w name)"
  unfolding resolve_user_id_def by (intro kp.composed keeps_pending_users)

lemma keeps_pending_upsert: "steps keeps_pending (upsert_oidc_user w profile)"
  unfolding upsert_oidc_user_def by (intro kp.composed keeps_pending_users)

lemma pending_info_found: "pending_info w a p = Some (Inr (Some e), q) \<Longrightarrow> pl_db q = pl_db p"
  by (auto simp: pending_info_def bind_op_Some ret_def split: option.splits if_splits dest!: get_pending_entry_result)

lemma approve_pending_Ok:
  assumes "approve_pending w a name p = Some (Ok x, q)"
  shows "\<exists>e uid tags u. db_get_pending (pl_db p) a = Some e \<and> \<not> is_past w (pr_expires_at e) (now_rfc3339 w) \<and>
    (\<forall>k. db_get_pending (pl_db q) k = (if k = a then Some (e\<lparr>pr_verdict := VApproved uid tags\<rparr>) else db_get_pending (pl_db p) k)) \<and>
    db_get_user_by_login_name (pl_db q) name = Some u \<and> u_id u = uid"
proof -
  from assms obtain found p1 where g: "get_pending_entry a p = Some (Inr found, p1)"
    and rest: "(case found of None \<Rightarrow> throw NotFound | Some entry \<Rightarrow>
       if is_past w (pr_expires_at entry) (now_rfc3339 w) then bind_op (remove_pending_entry a) (\<lambda>_. throw NotFound)
       else bind_op (resolve_user_id w name) (\<lambda>user_id. let requested = requested_tags (pr_hostinfo entry) in
         bind_op (if requested = [] then ret None
            else bind_op (reads (\<lambda>p. cc_policy (pl_config p))) (\<lambda>pol.
              bind_op (of_opt (unauthorized_tags pol (Some name) requested)) (\<lambda>rejected.
                if rejected \<noteq> [] then throw (UnauthorizedTags rejected) else ret (Some requested))))
           (\<lambda>approved_tags. store_pending_entry (entry\<lparr>pr_verdict := VApproved user_id approved_tags\<rparr>)))) p1 = Some (Ok x, q)"
    unfolding approve_pending_def bind_op_Some [of "get_pending_entry a"] by blast
  from get_pending_entry_result [OF g] have f: "found = db_get_pending (pl_db p) a" "pl_db p1 = pl_db p" by auto
  from rest obtain e where "found = Some e" by (cases found) (auto simp: throw_def)
  with f have e: "db_get_pending (pl_db p) a = Some e" by simp
  have np: "\<not> is_past w (pr_expires_at e) (now_rfc3339 w)"
    using rest f e by (auto simp: bind_op_Some throw_def)
  with rest f e obtain uid p2 tags p3 where u: "resolve_user_id w name p1 = Some (Ok uid, p2)"
    and t: "pl_db p3 = pl_db p2" and s: "store_pending_entry (e\<lparr>pr_verdict := VApproved uid tags\<rparr>) p3 = Some (Ok x, q)"
    by (fastforce simp: bind_op_Some Let_def reads_def of_opt_def ret_def throw_def split: if_splits)
  have k: "pr_auth_id e = a" using e by (rule pend.get_key)
  have "pl_db q = db_save_pending (e\<lparr>pr_verdict := VApproved uid tags\<rparr>) (pl_db p3)"
    using s by (auto simp: store_pending_entry_def bind_op_Some updates_def updates_db_def)
  moreover have "db_pending (pl_db p2) = db_pending (pl_db p1)"
    using steps_elim [OF keeps_pending_resolve u] by (simp add: keeps_pending_def)
  ultimately have "db_get_pending (pl_db q) x = (if x = a then Some (e\<lparr>pr_verdict := VApproved uid tags\<rparr>) else db_get_pending (pl_db p) x)"
    "db_users (pl_db q) = db_users (pl_db p3)" for x
    using k t f(2) by (simp_all add: pend.get_put db_users_save_pending) (simp add: db_get_pending_def)
  moreover obtain u where "db_get_user_by_login_name (pl_db p2) name = Some u" "u_id u = uid"
    using resolve_user_id_Ok [OF u] by blast
  ultimately show ?thesis using e np t by (auto simp: db_get_user_by_login_name_def)
qed

text \<open>
  What the exchange of a code established when it yields a profile, in terms of what the provider answered: the keys of the
  provider are those of the cache within an hour of its fetch, and those its key URI serves otherwise; the key that verifies
  a token is the one its header names among them, or the client secret.
\<close>

definition provider_keys :: "'j oidc_env \<Rightarrow> nat \<Rightarrow> 'j oidc_client \<Rightarrow> 'j list \<Rightarrow> bool" where
  "provider_keys env now cl keys \<longleftrightarrow>
     (case ocl_jwks cl of
        Some c \<Rightarrow> (now < jc_fetched_at c \<or> now - jc_fetched_at c < 3600) \<and> keys = jc_set c
      | None \<Rightarrow> False) \<or>
     (\<exists>body. oe_get env (pm_jwks_uri (ocl_metadata cl)) = Body body \<and> oe_jwks env body = Ok keys \<and>
        (case ocl_jwks cl of Some c \<Rightarrow> jc_fetched_at c + 3600 \<le> now | None \<Rightarrow> True))"

definition verifying_key :: "'j oidc_env \<Rightarrow> nat \<Rightarrow> 'j oidc_client \<Rightarrow> algorithm \<Rightarrow> string option \<Rightarrow> 'j decoding_key \<Rightarrow> bool" where
  "verifying_key env now cl alg kid key \<longleftrightarrow>
     (alg = HS256 \<and> key = FromSecret (oc_client_secret (ocl_config cl))) \<or>
     (alg \<in> {RS256, RS384, RS512} \<and> (\<exists>k keys jwk. kid = Some k \<and> provider_keys env now cl keys \<and>
        oe_find_kid env keys k = Some jwk \<and> oe_jwk_key env jwk = Ok key))"

definition token_verified :: "'j oidc_env \<Rightarrow> nat \<Rightarrow> 'j oidc_client \<Rightarrow> oidc_flow \<Rightarrow> string \<Rightarrow> oidc_profile \<Rightarrow> bool" where
  "token_verified env now cl flow code profile \<longleftrightarrow> (\<exists>body id_token alg kid key claims.
     oe_post env (pm_token_endpoint (ocl_metadata cl))
       [(''grant_type'', ''authorization_code''), (''code'', code), (''redirect_uri'', oc_redirect_uri (ocl_config cl)),
        (''client_id'', oc_client_id (ocl_config cl)), (''client_secret'', oc_client_secret (ocl_config cl))] = Body body \<and>
     oe_token env body = Ok id_token \<and> oe_header env id_token = Ok (alg, kid) \<and> verifying_key env now cl alg kid key \<and>
     (\<forall>algs. pm_algs (ocl_metadata cl) = Some algs \<longrightarrow> alg_name alg \<in> set algs) \<and>
     oe_decode env id_token key alg (oc_client_id (ocl_config cl)) (pm_issuer (ocl_metadata cl)) = Ok claims \<and>
     ic_nonce claims = Some (fl_nonce flow) \<and> op_subject profile = ic_sub claims \<and>
     op_email profile = (case ic_email claims of Some e \<Rightarrow> if e = [] then ic_sub claims else e | None \<Rightarrow> ic_sub claims))"

lemma map_err_Ok_iff: "map_err f x = Inr y \<longleftrightarrow> x = Inr y"
  by (cases x) simp_all

lemma fetch_Ok: "fetch env what oc = Inr b \<longleftrightarrow> oc = Body b"
  by (cases oc) (simp_all add: fetch_def)

lemma exchange_code_Ok:
  "exchange_code env cl code = Inr id_token \<Longrightarrow> \<exists>body. oe_post env (pm_token_endpoint (ocl_metadata cl))
       [(''grant_type'', ''authorization_code''), (''code'', code), (''redirect_uri'', oc_redirect_uri (ocl_config cl)),
        (''client_id'', oc_client_id (ocl_config cl)), (''client_secret'', oc_client_secret (ocl_config cl))] = Body body
     \<and> oe_token env body = Ok id_token"
  by (auto simp: exchange_code_def Let_def bind_res_Ok_iff map_err_Ok_iff fetch_Ok split: http_outcome.splits if_splits)

lemma jwks_Ok:
  assumes "jwks env now cl = (Inr keys, cl')"
  shows "provider_keys env now cl keys" "ocl_config cl' = ocl_config cl" "ocl_metadata cl' = ocl_metadata cl"
  using assms
  by (auto simp: jwks_def fetch_jwks_def provider_keys_def cache_fresh_def JWKS_CACHE_TTL_def bind_res_Ok_iff map_err_Ok_iff fetch_Ok
      split: option.splits if_splits sum.splits)

lemma signing_key_Ok:
  assumes "signing_key env now cl (alg, kid) = (Inr key, cl')"
  shows "verifying_key env now cl alg kid key" "ocl_config cl' = ocl_config cl" "ocl_metadata cl' = ocl_metadata cl"
proof -
  have "verifying_key env now cl alg kid key \<and> ocl_config cl' = ocl_config cl \<and> ocl_metadata cl' = ocl_metadata cl"
  proof (cases "alg \<in> {RS256, RS384, RS512}")
    case True
    then obtain keys where j: "jwks env now cl = (Inr keys, cl')" and k: "rsa_key env kid keys = Inr key"
      using assms by (auto simp: signing_key_def split: prod.splits sum.splits)
    from k obtain i jwk where "kid = Some i" "oe_find_kid env keys i = Some jwk" "oe_jwk_key env jwk = Ok key"
      by (auto simp: rsa_key_def map_err_Ok_iff split: option.splits)
    then show ?thesis using True jwks_Ok [OF j] unfolding verifying_key_def by blast
  next
    case False
    then show ?thesis using assms by (auto simp: signing_key_def verifying_key_def split: if_splits)
  qed
  then show "verifying_key env now cl alg kid key" "ocl_config cl' = ocl_config cl" "ocl_metadata cl' = ocl_metadata cl" by simp_all
qed

lemma complete_verifies:
  assumes "oidc_complete env now flow code cl = (Inr profile, cl')"
  shows "token_verified env now cl flow code profile"
proof -
  from assms obtain id_token where x: "exchange_code env cl code = Inr id_token"
    and v: "validate_id_token env now flow id_token cl = (Inr profile, cl')"
    by (auto simp: oidc_complete_def split: sum.splits)
  from v obtain alg kid key where h: "oe_header env id_token = Ok (alg, kid)"
    and k: "signing_key env now cl (alg, kid) = (Inr key, cl')"
    and c: "check_claims env cl' flow id_token key alg = Inr profile"
    by (auto simp: validate_id_token_def split: sum.splits prod.splits)
  from c signing_key_Ok [OF k] obtain claims where
    "oe_decode env id_token key alg (oc_client_id (ocl_config cl)) (pm_issuer (ocl_metadata cl)) = Ok claims"
    "ic_nonce claims = Some (fl_nonce flow)" "profile = profile_of_claims claims"
    "\<forall>algs. pm_algs (ocl_metadata cl) = Some algs \<longrightarrow> alg_name alg \<in> set algs"
    by (auto simp: check_claims_def bind_res_Ok_iff map_err_Ok_iff split: if_splits option.splits)
  then show ?thesis
    unfolding token_verified_def using exchange_code_Ok [OF x] h signing_key_Ok(1) [OF k]
    by (auto simp: profile_of_claims_def Let_def split: option.split intro!: exI)
qed

lemma approve_profile_200:
  assumes "approve_profile w flow profile r = Some (resp, r')" "ws_status resp = 200"
  shows "\<exists>p. approve_pending w (fl_auth_id flow) (op_email profile) p = Some (Ok (), rt_plane r')
     \<and> db_pending (pl_db p) = db_pending (pl_db (rt_plane r)) \<and> rt_flows r' = rt_flows r"
proof -
  obtain y r1 where u: "on_plane (upsert_oidc_user w profile) r = Some (Inr y, r1)"
    using assms by (auto simp: approve_profile_def plain_response_def split: option.splits sum.splits)
  then obtain x r2 where x: "on_plane (approve_pending w (fl_auth_id flow) (op_email profile)) r1 = Some (x, r2)"
    "(case x of Inr _ \<Rightarrow> (html_response (approved_page (op_email profile)), r2)
        | Inl _ \<Rightarrow> (plain_response 400 ''registration is no longer pending'', r2)) = (resp, r')"
    using assms(1) by (auto simp: approve_profile_def)
  have "rt_flows r1 = rt_flows r" using u by (auto simp: on_plane_def)
  moreover have "db_pending (pl_db (rt_plane r1)) = db_pending (pl_db (rt_plane r))"
    using u steps_elim [OF keeps_pending_upsert] by (fastforce simp: on_plane_def keeps_pending_def)
  ultimately show ?thesis using x assms(2) by (cases x) (auto simp: plain_response_def on_plane_def)
qed

text \<open>Every way a callback can be answered other than by the approval page has an error status.\<close>

lemma callback_200:
  assumes "handle_oidc_callback env w now ok query r = Some (resp, r')" "ws_status resp = 200"
  obtains cl state code flow profile p where "rt_oidc r = Some cl"
    "bt_get (parse_query query) ''state'' = Some state" "bt_get (parse_query query) ''code'' = Some code"
    "flow_map (rt_flows r) state = Some flow" "now_unix w < fl_expires_at flow"
    "rt_flows r' = snd (flow_take state (now_unix w) (rt_flows r))"
    "token_verified (sv_oidc env) now cl flow code profile"
    "approve_pending w (fl_auth_id flow) (op_email profile) p = Some (Ok (), rt_plane r')"
    "db_pending (pl_db p) = db_pending (pl_db (rt_plane r))"
proof -
  from assms obtain cl where cl: "rt_oidc r = Some cl"
    by (auto simp: handle_oidc_callback_def plain_response_def split: option.splits)
  with assms obtain state code where q: "bt_get (parse_query query) ''state'' = Some state" "bt_get (parse_query query) ''code'' = Some code"
    "bt_get (parse_query query) ''error'' = None"
    by (auto simp: handle_oidc_callback_def plain_response_def Let_def split: option.splits if_splits)
  obtain taken flows where t: "flow_take state (now_unix w) (rt_flows r) = (taken, flows)" by fastforce
  with assms cl q obtain flow where f: "taken = Some flow"
    by (auto simp: handle_oidc_callback_def plain_response_def Let_def split: option.splits)
  from t f have fl: "flow_map (rt_flows r) state = Some flow" "now_unix w < fl_expires_at flow"
    using flow_take_Some [of state "now_unix w" "rt_flows r" flow] by auto
  obtain e r1 where p: "on_plane (pending_info w (fl_auth_id flow)) (r\<lparr>rt_flows := flows\<rparr>) = Some (Inr (Some e), r1)"
    and x: "exchange_and_approve env w now ok flow code cl r1 = Some (resp, r')"
    using assms cl q t f
    by (auto simp: handle_oidc_callback_def plain_response_def Let_def split: option.splits sum.splits prod.splits)
  have r1: "rt_flows r1 = flows" "db_pending (pl_db (rt_plane r1)) = db_pending (pl_db (rt_plane r))"
    using p by (auto simp: on_plane_def dest!: pending_info_found)
  obtain profile cl' where c: "oidc_complete (sv_oidc env) now flow code cl = (Inr profile, cl')"
    and a: "approve_profile w flow profile (r1\<lparr>rt_oidc := Some cl'\<rparr>) = Some (resp, r')"
    using x assms(2) by (auto simp: exchange_and_approve_def plain_response_def Let_def split: if_splits sum.splits prod.splits)
  from approve_profile_200 [OF a assms(2)] obtain p' where
    "approve_pending w (fl_auth_id flow) (op_email profile) p' = Some (Ok (), rt_plane r')" "rt_flows r' = flows"
    "db_pending (pl_db p') = db_pending (pl_db (rt_plane r))"
    using r1 by auto
  with that [OF cl q(1,2) fl _ complete_verifies [OF c]] t show thesis by simp
qed

text \<open>
  C9. A callback is answered with success only when its state names an outstanding, unexpired flow, and the provider
  answered the code with an identity token that decodes for this client and issuer, with an algorithm the provider declares,
  under the key its header names among the provider's keys (RS256, RS384, RS512) or under the client secret (HS256), and
  that carries the nonce of the flow; and only when the registration the flow was begun for was stored and had not expired.
  That registration is then approved for the user whose login name is the email of the token, or its subject when the
  token has no email; every other stored registration is as before, and the state is gone.
\<close>

theorem oidc_callback_approves_verified:
  assumes "handle_oidc_callback env w now ok query r = Some (resp, r')" "ws_status resp = 200"
  shows "\<exists>cl state code flow profile e uid tags u.
    rt_oidc r = Some cl \<and> bt_get (parse_query query) ''state'' = Some state \<and> bt_get (parse_query query) ''code'' = Some code \<and>
    flow_map (rt_flows r) state = Some flow \<and> now_unix w < fl_expires_at flow \<and>
    token_verified (sv_oidc env) now cl flow code profile \<and>
    db_get_pending (pl_db (rt_plane r)) (fl_auth_id flow) = Some e \<and> \<not> is_past w (pr_expires_at e) (now_rfc3339 w) \<and>
    (\<forall>k. db_get_pending (pl_db (rt_plane r')) k =
       (if k = fl_auth_id flow then Some (e\<lparr>pr_verdict := VApproved uid tags\<rparr>) else db_get_pending (pl_db (rt_plane r)) k)) \<and>
    db_get_user_by_login_name (pl_db (rt_plane r')) (op_email profile) = Some u \<and> u_id u = uid \<and>
    flow_map (rt_flows r') state = None"
proof -
  obtain cl state code flow profile p where c: "rt_oidc r = Some cl"
    "bt_get (parse_query query) ''state'' = Some state" "bt_get (parse_query query) ''code'' = Some code"
    "flow_map (rt_flows r) state = Some flow" "now_unix w < fl_expires_at flow"
    "rt_flows r' = snd (flow_take state (now_unix w) (rt_flows r))"
    "token_verified (sv_oidc env) now cl flow code profile"
    "approve_pending w (fl_auth_id flow) (op_email profile) p = Some (Ok (), rt_plane r')"
    "db_pending (pl_db p) = db_pending (pl_db (rt_plane r))"
    using assms by (rule callback_200)
  have "db_get_pending (pl_db p) = db_get_pending (pl_db (rt_plane r))" using c(9) by (intro ext) (simp add: db_get_pending_def)
  with approve_pending_Ok [OF c(8)] obtain e uid tags u where
    "db_get_pending (pl_db (rt_plane r)) (fl_auth_id flow) = Some e" "\<not> is_past w (pr_expires_at e) (now_rfc3339 w)"
    "\<forall>k. db_get_pending (pl_db (rt_plane r')) k =
       (if k = fl_auth_id flow then Some (e\<lparr>pr_verdict := VApproved uid tags\<rparr>) else db_get_pending (pl_db (rt_plane r)) k)"
    "db_get_user_by_login_name (pl_db (rt_plane r')) (op_email profile) = Some u" "u_id u = uid"
    by metis
  moreover have "flow_map (rt_flows r') state = None" using c(6) flow_take_gone [of state "now_unix w" "rt_flows r"] by simp
  ultimately show ?thesis using c(1-5,7) by blast
qed

section \<open>Any sequence of requests\<close>

text \<open>
  What browsers and the rest of the system do to the router: opening the page of a registration, with the
  secrets that are drawn, callbacks, and changes of the control plane made elsewhere.
\<close>

datatype oidc_op =
    OpenPage world string string string
  | Callback world nat bool string
  | Elsewhere "plane \<Rightarrow> plane"

fun oidc_step :: "'j server_env \<Rightarrow> oidc_op \<Rightarrow> 'j router \<Rightarrow> 'j router option" where
  "oidc_step env (OpenPage w state nonce auth_id) r = map_option snd (handle_register_page env w state nonce auth_id r)"
| "oidc_step env (Callback w now ok query) r = map_option snd (handle_oidc_callback env w now ok query r)"
| "oidc_step env (Elsewhere f) r = Some (r\<lparr>rt_plane := f (rt_plane r)\<rparr>)"

text \<open>The state consumed and the registration approved by a successful callback.\<close>

fun approval :: "'j server_env \<Rightarrow> oidc_op \<Rightarrow> 'j router \<Rightarrow> (string \<times> string) option" where
  "approval env (Callback w now ok query) r =
     (case handle_oidc_callback env w now ok query r of
        Some (resp, _) \<Rightarrow> if ws_status resp = 200
          then Option.bind (bt_get (parse_query query) ''state'') (\<lambda>s. map_option (\<lambda>f. (s, fl_auth_id f)) (flow_map (rt_flows r) s))
          else None
      | None \<Rightarrow> None)"
| "approval env _ r = None"

fun issued :: "oidc_op \<Rightarrow> (string \<times> string) option" where
  "issued (OpenPage w state nonce auth_id) = Some (state, auth_id)"
| "issued _ = None"

fun approvals :: "'j server_env \<Rightarrow> oidc_op list \<Rightarrow> 'j router \<Rightarrow> (string \<times> string) list" where
  "approvals env [] r = []"
| "approvals env (op # ops) r =
     (case oidc_step env op r of
        None \<Rightarrow> []
      | Some r' \<Rightarrow> (case approval env op r of Some x \<Rightarrow> [x] | None \<Rightarrow> []) @ approvals env ops r')"

definition outstanding :: "string \<Rightarrow> string \<Rightarrow> 'j router \<Rightarrow> nat" where
  "outstanding s a r = (case flow_map (rt_flows r) s of Some f \<Rightarrow> if fl_auth_id f = a then 1 else 0 | None \<Rightarrow> 0)"

lemma on_plane_flows: "on_plane op r = Some (x, r') \<Longrightarrow> rt_flows r' = rt_flows r"
  by (auto simp: on_plane_def)

lemma page_flows:
  assumes "handle_register_page env w state nonce auth_id r = Some (resp, r')"
  shows "rt_flows r' = rt_flows r \<or> (\<exists>f. fl_auth_id f = auth_id \<and> rt_flows r' = flow_insert state f (rt_flows r))"
proof -
  obtain found r1 where f: "on_plane (pending_info w auth_id) r = Some (found, r1)"
    using assms by (auto simp: handle_register_page_def)
  note k = on_plane_flows [OF f]
  show ?thesis using assms f k
    by (auto simp: handle_register_page_def flow_begin_def Let_def split: sum.splits option.splits) force+
qed

lemma approve_profile_flows: "approve_profile w flow profile r = Some (resp, r') \<Longrightarrow> rt_flows r' = rt_flows r"
  by (auto simp: approve_profile_def split: option.splits sum.splits dest!: on_plane_flows) (metis old.sum.exhaust old.unit.exhaust)

lemma exchange_flows: "exchange_and_approve env w now ok flow code cl r = Some (resp, r') \<Longrightarrow> rt_flows r' = rt_flows r"
  by (auto simp: exchange_and_approve_def Let_def split: if_splits prod.splits sum.splits dest!: approve_profile_flows)

lemma callback_flows:
  assumes "handle_oidc_callback env w now ok query r = Some (resp, r')"
  shows "rt_flows r' = rt_flows r \<or> (\<exists>s. rt_flows r' = snd (flow_take s (now_unix w) (rt_flows r)))"
  using assms
  by (auto simp: handle_oidc_callback_def Let_def split: option.splits if_splits prod.splits sum.splits
      dest!: on_plane_flows exchange_flows) (metis snd_conv)+

lemma oidc_step_budget:
  assumes "flow_inv (rt_flows r)" "oidc_step env op r = Some r'"
  shows "flow_inv (rt_flows r')"
    "(if approval env op r = Some (s, a) then 1 else 0) + outstanding s a r' \<le> outstanding s a r + (if issued op = Some (s, a) then 1 else 0)"
proof -
  have "flow_inv (rt_flows r') \<and>
    (if approval env op r = Some (s, a) then 1 else 0) + outstanding s a r' \<le> outstanding s a r + (if issued op = Some (s, a) then 1 else 0)"
  proof (cases op)
    case (OpenPage w state nonce auth_id)
    then obtain resp where "handle_register_page env w state nonce auth_id r = Some (resp, r')" using assms(2) by auto
    from page_flows [OF this] show ?thesis
    proof
      assume "\<exists>f. fl_auth_id f = auth_id \<and> rt_flows r' = flow_insert state f (rt_flows r)"
      then obtain f where f: "fl_auth_id f = auth_id" "rt_flows r' = flow_insert state f (rt_flows r)" by blast
      have "outstanding s a r' \<le> outstanding s a r + (if issued op = Some (s, a) then 1 else 0)"
        using flow_insert_entries [OF assms(1), of state f s] f OpenPage
        by (cases "flow_map (rt_flows r') s") (auto simp: outstanding_def)
      then show ?thesis using OpenPage f assms(1) by (simp add: flow_inv_insert)
    qed (use OpenPage assms(1) in \<open>simp add: outstanding_def\<close>)
  next
    case (Callback w now ok query)
    then obtain resp where h: "handle_oidc_callback env w now ok query r = Some (resp, r')" using assms(2) by auto
    from callback_flows [OF h] assms(1) have inv: "flow_inv (rt_flows r')" by (auto intro: flow_inv_take)
    have le: "outstanding s a r' \<le> outstanding s a r"
      using callback_flows [OF h]
    proof
      assume "\<exists>k. rt_flows r' = snd (flow_take k (now_unix w) (rt_flows r))"
      then obtain k where k: "rt_flows r' = snd (flow_take k (now_unix w) (rt_flows r))" ..
      show ?thesis using flow_take_gone [of k "now_unix w" "rt_flows r"] flow_take_other [of s k "now_unix w" "rt_flows r"] k
        by (cases "s = k") (auto simp: outstanding_def)
    qed (simp add: outstanding_def)
    have "1 + outstanding s a r' \<le> outstanding s a r" if ap: "approval env op r = Some (s, a)"
    proof -
      from ap Callback h have ok: "ws_status resp = 200" "bt_get (parse_query query) ''state'' = Some s"
        "map_option fl_auth_id (flow_map (rt_flows r) s) = Some a"
        by (auto split: if_splits simp: bind_eq_Some_conv)
      from callback_200 [OF h ok(1)] ok(2) have "rt_flows r' = snd (flow_take s (now_unix w) (rt_flows r))" by (metis option.inject)
      then show ?thesis using ok(3) flow_take_gone [of s "now_unix w" "rt_flows r"] by (auto simp: outstanding_def)
    qed
    with inv le show ?thesis by auto
  next
    case (Elsewhere f)
    then show ?thesis using assms by (auto simp: outstanding_def)
  qed
  then show "flow_inv (rt_flows r')"
    "(if approval env op r = Some (s, a) then 1 else 0) + outstanding s a r' \<le> outstanding s a r + (if issued op = Some (s, a) then 1 else 0)"
    by auto
qed

lemma approvals_budget:
  "flow_inv (rt_flows r) \<Longrightarrow> count_list (approvals env ops r) (s, a) \<le> outstanding s a r + count_list (map issued ops) (Some (s, a))"
proof (induction ops arbitrary: r)
  case (Cons op ops)
  show ?case
  proof (cases "oidc_step env op r")
    case (Some r')
    note b = oidc_step_budget(1) [OF Cons.prems Some] oidc_step_budget(2) [OF Cons.prems Some, where s = s and a = a]
    from Cons.IH [OF b(1)] b(2) show ?thesis using Some
      by (cases "approval env op r") (auto split: if_splits)
  qed simp
qed simp

text \<open>
  C15. In any sequence of page openings and callbacks, interleaved with arbitrary changes of the control plane, a
  registration is approved with a given state at most as often as a flow with that state was begun for that
  registration: no callback can be replayed, and no state approves another registration than its own.
\<close>

theorem oidc_states_are_single_use:
  assumes "rt_flows r = flow_store_new limit ttl"
  shows "count_list (approvals env ops r) (state, auth_id) \<le> count_list (map issued ops) (Some (state, auth_id))"
proof -
  have "flow_inv (rt_flows r)" "outstanding state auth_id r = 0"
    using assms flow_inv_new by (simp_all add: outstanding_def flow_store_new_def)
  then show ?thesis by (metis add_0 approvals_budget)
qed

section \<open>A flow that completes\<close>

definition sample_oidc_env :: "unit oidc_env" where
  "sample_oidc_env = \<lparr>oe_get = (\<lambda>_. Body ''keys''), oe_post = (\<lambda>_ _. Body ''{}''), oe_show_failure = (\<lambda>_. []),
     oe_metadata = (\<lambda>_. Inl []), oe_token = (\<lambda>_. Ok ''jwt''), oe_jwks = (\<lambda>_. Ok [()]),
     oe_find_kid = (\<lambda>keys kid. if kid = ''k1'' \<and> keys \<noteq> [] then Some (hd keys) else None),
     oe_jwk_key = (\<lambda>k. Ok (FromJwk k)), oe_header = (\<lambda>_. Ok (RS256, Some ''k1'')),
     oe_decode = (\<lambda>_ key _ _ _. if key \<noteq> FromJwk () then Inl [] else Ok \<lparr>ic_sub = ''sub'', ic_nonce = Some ''n1'', ic_email = Some ''a@b'', ic_name = None\<rparr>),
     oe_url = (\<lambda>base _. Ok base)\<rparr>"

definition sample_server_env :: "unit server_env" where
  "sample_server_env = \<lparr>sv_oidc = sample_oidc_env, sv_version = ''0.1.0'', sv_read_register = (\<lambda>_. None), sv_read_map = (\<lambda>_. None),
     sv_read_logout = (\<lambda>_. None), sv_read_verify = (\<lambda>_. None), sv_write_register = (\<lambda>_. None), sv_write_verify = (\<lambda>_. None),
     sv_write_ssh = (\<lambda>_. None), sv_write_bootstrap = (\<lambda>_. None), sv_header_value = (\<lambda>_. True)\<rparr>"

definition sample_client :: "unit oidc_client" where
  "sample_client = \<lparr>ocl_config = \<lparr>oc_issuer = ''i'', oc_client_id = ''c'', oc_client_secret = ''s'', oc_redirect_uri = ''r'', oc_scope = ''openid''\<rparr>,
     ocl_metadata = \<lparr>pm_issuer = ''i'', pm_authorization_endpoint = ''a'', pm_token_endpoint = ''t'', pm_jwks_uri = ''j'', pm_algs = Some [''RS256'']\<rparr>,
     ocl_jwks = None\<rparr>"

definition sample_pending :: pending_registration where
  "sample_pending = \<lparr>pr_auth_id = ''reg'', pr_machine_key = [], pr_node_key = [], pr_hostinfo = None, pr_expiry = [], pr_version = 130,
     pr_ephemeral = False, pr_created_at = [], pr_expires_at = ''2026-01-01T00:15:00.000Z'', pr_verdict = VPending\<rparr>"

definition sample_router :: "unit router" where
  "sample_router = (with_control [] (sample_ready\<lparr>pl_db := sample_db\<lparr>db_pending := [sample_pending]\<rparr>\<rparr>))
     \<lparr>rt_oidc := Some sample_client, rt_flows := snd (flow_begin ''s1'' ''n1'' ''reg'' 1767225600 (flow_store_new 512 600))\<rparr>"

lemma sample_callback:
  "map_option (\<lambda>(resp, r). ws_status resp) (handle_oidc_callback sample_server_env sample_world 0 True ''state=s1&code=c'' sample_router) = Some 200"
  by code_simp

theorem oidc_callback_approves_verified_witness:
  "\<exists>resp r'. handle_oidc_callback sample_server_env sample_world 0 True ''state=s1&code=c'' sample_router = Some (resp, r') \<and>
     flow_map (rt_flows r') ''s1'' = None"
proof -
  obtain resp r' where h: "handle_oidc_callback sample_server_env sample_world 0 True ''state=s1&code=c'' sample_router = Some (resp, r')"
    "ws_status resp = 200"
    using sample_callback by (auto simp: split_def)
  have "bt_get (parse_query ''state=s1&code=c'') ''state'' = Some ''s1''" by code_simp
  with oidc_callback_approves_verified [OF h] have "flow_map (rt_flows r') ''s1'' = None" by auto
  with h(1) show ?thesis by blast
qed

theorem oidc_states_are_single_use_witness:
  "count_list (approvals sample_server_env [OpenPage sample_world ''s1'' ''n1'' ''reg'', Callback sample_world 0 True ''state=s1&code=c'',
       Callback sample_world 0 True ''state=s1&code=c''] (with_oidc_flow_ttl 600 sample_router)) (''s1'', ''reg'') \<le> 1"
  using oidc_states_are_single_use [of "with_oidc_flow_ttl 600 sample_router" DEFAULT_OIDC_FLOW_LIMIT 600 sample_server_env
      "[OpenPage sample_world ''s1'' ''n1'' ''reg'', Callback sample_world 0 True ''state=s1&code=c'',
       Callback sample_world 0 True ''state=s1&code=c'']" "''s1''" "''reg''"]
  by (simp add: with_oidc_flow_ttl_def del: approvals.simps)

end
