(* ===== verification/Server_Http.thy ===== *)
theory Server_Http
  imports Server_Approval
begin

text \<open>
  The outer HTTP server, \<^verbatim>\<open>crabscale-server/src/http.rs\<close>: routing, the TS2021 upgrade and its handshake task, the HTTPS
  redirect, and the inner connection that follows an upgrade (\<^verbatim>\<open>serve_control_as\<close> of \<^verbatim>\<open>router.rs\<close>, \<^verbatim>\<open>serve_http2\<close> of
  \<^verbatim>\<open>crabscale-transport/src/http2.rs\<close>). hyper, h2 and TLS are third-party code: requests, collected bodies and the outcomes
  of the accept, upgrade and write calls are arguments.
\<close>

section \<open>Requests\<close>

text \<open>The outcome of collecting a body through \<^verbatim>\<open>http_body_util::Limited\<close> with a given limit.\<close>

datatype body_outcome = Collected bytes | LengthLimit | BodyError

record web_request =
  rq_method :: string
  rq_path :: string
  rq_query :: "string option"
  rq_path_and_query :: "string option"
  rq_headers :: headers
  rq_collect :: "nat \<Rightarrow> body_outcome"

text \<open>\<^verbatim>\<open>HeaderMap::get\<close> looks a name up without regard to case.\<close>

definition header :: "web_request \<Rightarrow> string \<Rightarrow> string option" where
  "header req name = header_str (rq_headers req) (to_ascii_lowercase name)"

record 'n server_options =
  so_trusted_proxies :: "'n list option"
  so_tls :: bool


definition https_redirect :: "(string \<Rightarrow> bool) \<Rightarrow> web_request \<Rightarrow> string \<Rightarrow> web_response" where
  "https_redirect header_value req fallback_host =
     (let host = (case header req ''host'' of Some h \<Rightarrow> h | None \<Rightarrow> fallback_host);
          path = (case rq_path_and_query req of Some p \<Rightarrow> p | None \<Rightarrow> ''/'');
          location = ''https://'' @ host @ path in
      \<lparr>ws_status = 301,
       ws_headers = [(''location'', if header_value location then location else ''https://''), (''cache-control'', ''max-age=3600''),
         (''connection'', ''close'')],
       ws_body = []\<rparr>)"

section \<open>The TS2021 upgrade\<close>


definition control_prologue :: "u16 \<Rightarrow> bytes" where
  "control_prologue version = as_bytes (''Tailscale Control Protocol v'' @ dec_str (unat version))"

definition upgrade_response :: web_response where
  "upgrade_response = \<lparr>ws_status = 101, ws_headers = [(''upgrade'', UPGRADE_HEADER_VALUE), (''connection'', ''upgrade'')], ws_body = []\<rparr>"

text \<open>The response, and the output of the responder when the handshake task is spawned.\<close>

definition handle_ts2021 ::
  "noise_crypto \<Rightarrow> (string \<Rightarrow> bytes option) \<Rightarrow> bytes \<Rightarrow> web_request \<Rightarrow> server_key \<Rightarrow> web_response \<times> responder_output option" where
  "handle_ts2021 c b64 ephemeral req key =
     (case validate_native_upgrade b64 ''POST'' (header req ''upgrade'') (header req ''connection'') (header req HANDSHAKE_HEADER) of
        Inl _ \<Rightarrow> (plain_response 400 ''invalid upgrade request'', None)
      | Inr init \<Rightarrow>
          (case parse_init_message init of
             Inl _ \<Rightarrow> (plain_response 400 ''invalid handshake'', None)
           | Inr init \<Rightarrow>
               (case respond_with_ephemeral c (sk_responder key) init (control_prologue (im_version init)) ephemeral of
                  Inl _ \<Rightarrow> (plain_response 400 ''handshake rejected'', None)
                | Inr output \<Rightarrow> (upgrade_response, Some output))))"



section \<open>The inner connection\<close>







section \<open>Routing\<close>

definition client_ip :: "'n ipnet \<Rightarrow> 'n server_options \<Rightarrow> ip_addr \<Rightarrow> web_request \<Rightarrow> ip_addr" where
  "client_ip nt options peer req = (case so_trusted_proxies options of
      Some networks \<Rightarrow> resolve_client_ip nt networks peer (rq_headers req) | None \<Rightarrow> peer)"

definition method_not_allowed :: web_response where
  "method_not_allowed = plain_response 405 ''method not allowed''"

definition answer :: "web_response \<Rightarrow> 'j router \<Rightarrow> (web_response \<times> responder_output option \<times> 'j router) option" where
  "answer resp r = Some (resp, None, r)"

definition outer_verify :: "'j server_env \<Rightarrow> web_request \<Rightarrow> 'j router \<Rightarrow> web_response" where
  "outer_verify env req r = (case rq_collect req VERIFY_MAX_BODY_LEN of
      Collected body \<Rightarrow> handle_verify env body r
    | LengthLimit \<Rightarrow> plain_response 413 ''body too large''
    | BodyError \<Rightarrow> plain_response 400 ''invalid request body'')"

text \<open>The values a request draws from its surroundings: clock, hash order, random flow, metrics and ephemeral key.\<close>

record request_world =
  rw_world :: world
  rw_now :: nat
  rw_order :: "string list"
  rw_task_ok :: bool
  rw_state :: string
  rw_nonce :: string
  rw_metrics :: metrics
  rw_ephemeral :: bytes

definition handle_request ::
  "noise_crypto \<Rightarrow> (string \<Rightarrow> bytes option) \<Rightarrow> 'n ipnet \<Rightarrow> 'j server_env \<Rightarrow> request_world \<Rightarrow> web_request \<Rightarrow> ip_addr \<Rightarrow> server_key
    \<Rightarrow> 'n server_options \<Rightarrow> 'j router \<Rightarrow> (web_response \<times> responder_output option \<times> 'j router) option" where
  "handle_request c b64 nt env rw req peer key options r =
     (let meth = rq_method req; path = rq_path req in
      if meth = ''GET'' \<and> path = ''/key'' then answer (handle_key (query_param (rq_query req) ''v'') r) r
      else if path = ''/health'' \<or> path = ''/version'' \<or> path = ''/metrics'' then
        (if meth \<noteq> ''GET'' then answer method_not_allowed r
         else answer (if path = ''/health'' then handle_health else if path = ''/version'' then handle_version env r
           else handle_metrics (rw_metrics rw)) r)
      else if meth = ''POST'' \<and> path = ''/ts2021'' then
        (case check_ts2021_rate (rw_now rw) (rw_order rw) (client_ip nt options peer req) r of
           (Some retry, r) \<Rightarrow> answer (rate_limited_response retry) r
         | (None, r) \<Rightarrow> (case handle_ts2021 c b64 (rw_ephemeral rw) req key of (resp, spawned) \<Rightarrow> Some (resp, spawned, r)))
      else if path = ''/verify'' then
        (if meth \<noteq> ''POST'' then answer method_not_allowed r else answer (outer_verify env req r) r)
      else if path = ''/bootstrap-dns'' then
        (if meth \<noteq> ''GET'' then answer method_not_allowed r
         else answer (handle_bootstrap_dns env (query_param (rq_query req) ''q'') r) r)
      else case (register_auth_id path, meth = ''GET'') of
        (Some auth_id, True) \<Rightarrow>
          map_option (\<lambda>(resp, r). (resp, None, r)) (handle_register_page env (rw_world rw) (rw_state rw) (rw_nonce rw) auth_id r)
      | _ \<Rightarrow>
          if meth = ''GET'' \<and> path = ''/oidc/callback'' then
            map_option (\<lambda>(resp, r). (resp, None, r))
              (handle_oidc_callback env (rw_world rw) (rw_now rw) (rw_task_ok rw) (case rq_query req of Some q \<Rightarrow> q | None \<Rightarrow> []) r)
          else answer (plain_response 404 ''not found'') r)"

text \<open>One HTTP/1 connection: after the TLS accept, when TLS is configured, hyper passes its requests one after the other to
  the service. The upgrades are the spawned handshake tasks.\<close>

fun serve_requests ::
  "noise_crypto \<Rightarrow> (string \<Rightarrow> bytes option) \<Rightarrow> 'n ipnet \<Rightarrow> 'j server_env \<Rightarrow> (request_world \<times> web_request) list \<Rightarrow> ip_addr \<Rightarrow> server_key
    \<Rightarrow> 'n server_options \<Rightarrow> 'j router \<Rightarrow> (web_response list \<times> responder_output list \<times> 'j router) option" where
  "serve_requests c b64 nt env [] peer key options r = Some ([], [], r)"
| "serve_requests c b64 nt env ((rw, req) # reqs) peer key options r =
     (case handle_request c b64 nt env rw req peer key options r of
        None \<Rightarrow> None
      | Some (resp, spawned, r) \<Rightarrow>
          map_option (\<lambda>(resps, tasks, r). (resp # resps, (case spawned of Some o1 \<Rightarrow> [o1] | None \<Rightarrow> []) @ tasks, r))
            (serve_requests c b64 nt env reqs peer key options r))"

definition handle_connection ::
  "noise_crypto \<Rightarrow> (string \<Rightarrow> bytes option) \<Rightarrow> 'n ipnet \<Rightarrow> 'j server_env \<Rightarrow> bool \<Rightarrow> (request_world \<times> web_request) list \<Rightarrow> ip_addr \<Rightarrow> server_key
    \<Rightarrow> 'n server_options \<Rightarrow> 'j router \<Rightarrow> (web_response list \<times> responder_output list \<times> 'j router) option" where
  "handle_connection c b64 nt env tls_accepted reqs peer key options r =
     (if so_tls options \<and> \<not> tls_accepted then Some ([], [], r)
      else serve_requests c b64 nt env reqs peer key options r)"

text \<open>The accept loop, for the control listener and for the redirect listener: the connections served before a shutdown or
  a failed accept.\<close>

datatype 's listener_event = ShutdownChanged | AcceptError string | AcceptedFrom 's

fun serve_listener :: "'s listener_event list \<Rightarrow> 's list \<times> (string, unit) result option" where
  "serve_listener [] = ([], None)"
| "serve_listener (ShutdownChanged # es) = ([], Some (Ok ()))"
| "serve_listener (AcceptError e # es) = ([], Some (Err e))"
| "serve_listener (AcceptedFrom s # es) = (let (served, res) = serve_listener es in (s # served, res))"

section \<open>Who an inner request speaks for\<close>



















end
