(* ===== verification/Server_Stream.thy ===== *)
theory Server_Stream
  imports Server_Router
begin

text \<open>
  The streaming map session, \<^verbatim>\<open>ControlRouter::send_stream\<close> of \<^verbatim>\<open>crabscale-server/src/router.rs\<close>. The loop waits for a
  keepalive timer or for a batch of the change bus; which of them fires, the state in which the control plane is by then, and
  whether a send succeeds are the events of the model.
\<close>

section \<open>The loop\<close>

datatype stream_cause = KeepaliveDue | BatchReceived change_batch | BatchLagged | BusClosed

text \<open>Between two rounds the rest of the server changes the plane; a round then runs in its own world.\<close>

record stream_event =
  ev_others :: "plane \<Rightarrow> plane"
  ev_world :: world
  ev_cause :: stream_cause
  ev_sent :: bool

datatype round_result = Sends bytes | Continues | Breaks

definition stream_batch ::
  "world \<Rightarrow> stream_session \<Rightarrow> change_batch \<Rightarrow> session_peers \<Rightarrow> plane \<Rightarrow> (round_result \<times> session_peers \<times> plane) option" where
  "stream_batch w session batch last_sent p =
     (if batch = [] then Some (Continues, last_sent, p)
      else case build_delta (st_node_id session) batch last_sent (st_client_version session) p of
        None \<Rightarrow> None
      | Some (Inl _, p) \<Rightarrow> Some (Continues, last_sent, p)
      | Some (Inr (None, last_sent), p) \<Rightarrow> Some (Continues, last_sent, p)
      | Some (Inr (Some response, last_sent), p) \<Rightarrow>
          (case plane_encode_frame w response (st_compress session) p of
             None \<Rightarrow> None
           | Some (Inl _, p) \<Rightarrow> Some (Continues, last_sent, p)
           | Some (Inr frame, p) \<Rightarrow> Some (Sends frame, last_sent, p)))"

definition stream_round ::
  "stream_session \<Rightarrow> stream_event \<Rightarrow> session_peers \<Rightarrow> plane \<Rightarrow> (round_result \<times> session_peers \<times> plane) option" where
  "stream_round session ev last_sent p =
     (case ev_cause ev of
        KeepaliveDue \<Rightarrow>
          map_option (\<lambda>(frame, p). (case frame of Inr f \<Rightarrow> Sends f | Inl _ \<Rightarrow> Breaks, last_sent, p))
            (keepalive_frame (ev_world ev) (st_compress session) (ev_others ev p))
      | BatchReceived batch \<Rightarrow> stream_batch (ev_world ev) session batch last_sent (ev_others ev p)
      | BatchLagged \<Rightarrow> Some (Continues, last_sent, ev_others ev p)
      | BusClosed \<Rightarrow> Some (Breaks, last_sent, ev_others ev p))"

text \<open>The frames sent, whether the loop was left, what was sent last, and the plane.\<close>

fun stream_loop ::
  "stream_session \<Rightarrow> stream_event list \<Rightarrow> session_peers \<Rightarrow> plane \<Rightarrow> (bytes list \<times> bool \<times> session_peers \<times> plane) option" where
  "stream_loop session [] last_sent p = Some ([], False, last_sent, p)"
| "stream_loop session (ev # evs) last_sent p =
     (case stream_round session ev last_sent p of
        None \<Rightarrow> None
      | Some (Breaks, last_sent, p) \<Rightarrow> Some ([], True, last_sent, p)
      | Some (Continues, last_sent, p) \<Rightarrow> stream_loop session evs last_sent p
      | Some (Sends frame, last_sent, p) \<Rightarrow>
          if ev_sent ev
          then map_option (\<lambda>(frames, left, last_sent, p). (frame # frames, left, last_sent, p)) (stream_loop session evs last_sent p)
          else Some ([], True, last_sent, p))"

definition end_stream :: "world \<Rightarrow> stream_session \<Rightarrow> bytes list \<Rightarrow> plane \<Rightarrow> (bytes list \<times> bool \<times> plane) option" where
  "end_stream w session frames p = map_option (\<lambda>(_, p). (frames, True, p)) (close_session w (st_session_id session) p)"

definition send_stream ::
  "world \<Rightarrow> bool \<Rightarrow> bool \<Rightarrow> stream_session \<Rightarrow> stream_event list \<Rightarrow> plane \<Rightarrow> (bytes list \<times> bool \<times> plane) option" where
  "send_stream w response_sent first_sent session evs p =
     (if \<not> response_sent then end_stream w session [] p
      else if \<not> first_sent then end_stream w session [] p
      else if \<not> st_keep_alive session then end_stream w session [st_first_frame session] p
      else case stream_loop session evs (st_last_sent session) p of
        None \<Rightarrow> None
      | Some (frames, True, _, p) \<Rightarrow> end_stream w session (st_first_frame session # frames) p
      | Some (frames, False, _, p) \<Rightarrow> Some (st_first_frame session # frames, False, p))"

section \<open>Every exit closes the session\<close>

lemma close_session_removes:
  assumes "close_session w sid p = Some (x, p')"
  shows "sg_session_to_node (pl_sessions p') sid = None"
  using assms by (auto simp: close_session_def updates_def session_close_def Let_def split: option.splits)

lemma send_stream_closes:
  assumes "send_stream w response_sent first_sent session evs p = Some (frames, True, p')"
  shows "sg_session_to_node (pl_sessions p') (st_session_id session) = None"
  using assms close_session_removes
  by (fastforce simp: send_stream_def end_stream_def split: if_splits option.splits prod.splits bool.splits)

lemma closed_bus_breaks: "ev_cause ev = BusClosed \<Longrightarrow> stream_round session ev last_sent p = Some (Breaks, last_sent, ev_others ev p)"
  by (simp add: stream_round_def)

lemma stream_waits_or_ends:
  assumes "stream_loop session evs last_sent p = Some (frames, False, last', p')" "ev \<in> set evs"
  shows "ev_cause ev \<noteq> BusClosed"
  using assms
proof (induction evs arbitrary: last_sent p frames)
  case (Cons e evs)
  show ?case
  proof (cases "stream_round session e last_sent p")
    case (Some x)
    then obtain res l q where x: "stream_round session e last_sent p = Some (res, l, q)" by (cases x) auto
    then have "ev_cause e \<noteq> BusClosed" using Cons.prems(1) closed_bus_breaks [of e session last_sent p] by auto
    moreover have "\<exists>frames. stream_loop session evs l q = Some (frames, False, last', p')"
      using Cons.prems(1) x by (cases res) (auto split: if_splits)
    ultimately show ?thesis using Cons.IH Cons.prems(2) by auto
  qed (use Cons.prems in simp)
qed simp

text \<open>A delta whose frame cannot be encoded is lost for the client: the peers count as sent although no frame was.\<close>

lemma unencodable_delta_is_lost:
  assumes "batch \<noteq> []" "build_delta (st_node_id session) batch last_sent (st_client_version session) p = Some (Inr (Some response, last'), p1)"
    and "plane_encode_frame w response (st_compress session) p1 = Some (Inl e, p2)"
  shows "stream_batch w session batch last_sent p = Some (Continues, last', p2)"
  using assms by (simp add: stream_batch_def)

end
