(* ===== verification/Spec2Isabelle.thy ===== *)
theory Spec2Isabelle
  imports Derp_Stun Derp_Presence Derp_Websocket Derp_Upgrade Policy_Hujson Control_Checks Server_Http Server_Stream
begin

text \<open>
  Crabscale is a self-hosted control server and DERP relay for Tailscale clients, a Rust workspace under \<^verbatim>\<open>src/\<close>. This
  development models its components as executable HOL functions, one theory per component, and proves the properties that
  make them correct. Names of definitions are those of the source wherever HOL leaves them free.

  \<^bold>\<open>The program.\<close> A client reaches the server over HTTP. \<^verbatim>\<open>crabscale-server\<close> routes the outer endpoints (key, health,
  metrics, registration page, OIDC callback, admission check) and upgrades \<^verbatim>\<open>/ts2021\<close> to the Noise transport of
  \<^verbatim>\<open>crabscale-transport\<close>; the inner HTTP/2 requests on it (register, map, logout, SSH checks) carry the machine key the
  handshake proved and are answered by the control plane, \<^verbatim>\<open>crabscale-control\<close>. The control plane keeps users, nodes and
  keys in SQLite, compiles the HUJSON policy (\<^verbatim>\<open>crabscale-policy\<close>) into packet filters and peer visibility, and sends
  complete maps and deltas in the types of \<^verbatim>\<open>crabscale-proto\<close>. \<^verbatim>\<open>crabscale-derp\<close> is the packet relay, with its handshake,
  WebSocket tunnel and STUN responder; it asks the control plane whom to admit.

  \<^bold>\<open>How code becomes definitions.\<close> A struct is a record, an enum a datatype, a machine integer a word where it can wrap and a
  number where the code keeps it in range, a \<^verbatim>\<open>String\<close> the list of its UTF-8 bytes as characters. \<^verbatim>\<open>Result\<close> is a sum
  (\<^verbatim>\<open>Crab_Prelude\<close>), a \<^verbatim>\<open>BTreeMap\<close> its sorted list of entries (\<^verbatim>\<open>Rust_Map\<close>), a \<^verbatim>\<open>HashMap\<close> a partial function or a
  \<^verbatim>\<open>mapping\<close>, whose iteration order is an argument. Stateful code takes and returns its state. An operation of the control
  plane (\<^verbatim>\<open>plane_op\<close>) returns an error or a value with the new plane, or \<^verbatim>\<open>None\<close> where the code does not return; elsewhere
  \<^verbatim>\<open>None\<close> in this place is a panic or a call that does not return, as the theory says. Concurrency is a sequence of steps:
  what happens while a lock is held is one step, and runs interleave steps in any order. Third-party crates, the clock, the random
  generator, the file system and the sockets are arguments; what is assumed of them is a named hypothesis
  (\<^verbatim>\<open>aead_opens\<close>, \<^verbatim>\<open>noise_sound\<close>, \<^verbatim>\<open>draws_in_range\<close>, \<^verbatim>\<open>hex_law\<close>), and a witness shows that it can hold.

  \<^bold>\<open>The library.\<close>
  \<^item> \<^verbatim>\<open>Crab_Prelude\<close>, \<^verbatim>\<open>Rust_Str\<close>, \<^verbatim>\<open>Rust_Net\<close>, \<^verbatim>\<open>Rust_Map\<close>, \<^verbatim>\<open>Rust_F64\<close>: results, bytes, strings with UTF-8 and
    number parsing, \<^verbatim>\<open>std::net\<close> addresses with their round trips, ordered maps (locale \<^verbatim>\<open>ordered_map\<close>), rounding of
    \<^verbatim>\<open>f64\<close> on rationals.
  \<^item> \<^verbatim>\<open>Stream_Decoding\<close>: the locales \<^verbatim>\<open>frame_stream\<close> and \<^verbatim>\<open>frame_codec\<close> of incremental decoders, which give once that the cutting
    of a stream into reads does not matter.
  \<^item> \<^verbatim>\<open>Control_Steps\<close>: the locale \<^verbatim>\<open>step_relation\<close>, a calculus for relations between the plane before and after an operation;
    \<^verbatim>\<open>Control_Store\<close>: the locale \<^verbatim>\<open>keyed_table\<close> of tables with a text key; \<^verbatim>\<open>Derp_Bodies\<close>: the locale \<^verbatim>\<open>body_codec\<close>,
    interpreted for each of the twelve typed frames.

  \<^bold>\<open>Relay\<close> (\<^verbatim>\<open>crabscale-derp/src\<close>, \<^verbatim>\<open>crabscale-server/src/stun.rs\<close>).
  \<^item> \<^verbatim>\<open>Derp_Frame\<close> (\<^verbatim>\<open>frame.rs\<close>, \<^verbatim>\<open>codec.rs\<close>), \<^verbatim>\<open>Derp_Bodies\<close> (\<^verbatim>\<open>frames.rs\<close>, \<^verbatim>\<open>keys.rs\<close>): streams of frames are decoded without
    loss however they are cut, and the blocking reader agrees with the buffer decoder.
  \<^item> \<^verbatim>\<open>Derp_Handshake\<close> (\<^verbatim>\<open>handshake.rs\<close>), \<^verbatim>\<open>Derp_Client\<close> (\<^verbatim>\<open>client.rs\<close>): login completes between client and relay.
  \<^item> \<^verbatim>\<open>Derp_Relay\<close> (\<^verbatim>\<open>server.rs\<close>), \<^verbatim>\<open>Derp_Presence\<close>: over every interleaving, packets carry the key of their sender and reach
    only their destination, refused keys are not registered, and presence notices add up to the registered keys.
  \<^item> \<^verbatim>\<open>Derp_Websocket\<close> (\<^verbatim>\<open>websocket.rs\<close>), \<^verbatim>\<open>Derp_Upgrade\<close> (\<^verbatim>\<open>upgrade.rs\<close>), \<^verbatim>\<open>Derp_Stun\<close> (\<^verbatim>\<open>stun.rs\<close>): WebSocket streams and
    fragmented messages, transport negotiation, STUN messages and the server loop.

  \<^bold>\<open>Policy\<close> (\<^verbatim>\<open>crabscale-policy/src\<close>).
  \<^item> \<^verbatim>\<open>Policy_Hujson\<close> (\<^verbatim>\<open>hujson.rs\<close>, \<^verbatim>\<open>lib.rs\<close>), \<^verbatim>\<open>Policy_Validate\<close> (\<^verbatim>\<open>validate.rs\<close>, \<^verbatim>\<open>error.rs\<close>): the parser returns on every
    text, validation decides well-formedness, and what is validated compiles without loss.
  \<^item> \<^verbatim>\<open>Policy_Model\<close>, \<^verbatim>\<open>Policy_Tags\<close>, \<^verbatim>\<open>Policy_Routes\<close>, \<^verbatim>\<open>Policy_Compile\<close>, \<^verbatim>\<open>Policy_Ssh\<close> (the files of these names): group and tag
    membership, with the exact condition under which the group walk does not return; the routes that are auto-approved;
    the compiled filters and peer visibility against a specification per node; the first matching SSH rule.

  \<^bold>\<open>Protocol and transport\<close> (\<^verbatim>\<open>crabscale-proto/src\<close>, \<^verbatim>\<open>crabscale-transport/src\<close>).
  \<^item> \<^verbatim>\<open>Proto_Key\<close>, \<^verbatim>\<open>Proto_Types\<close>, \<^verbatim>\<open>Proto_Frame\<close>: key texts, message types with their defaults, map frames.
  \<^item> \<^verbatim>\<open>Transport_Record\<close> (\<^verbatim>\<open>messages.rs\<close>, \<^verbatim>\<open>upgrade.rs\<close>, \<^verbatim>\<open>early.rs\<close>, \<^verbatim>\<open>record.rs\<close>), \<^verbatim>\<open>Transport_Noise\<close> (\<^verbatim>\<open>noise.rs\<close>),
    \<^verbatim>\<open>Transport_Stream\<close> (\<^verbatim>\<open>stream.rs\<close>, \<^verbatim>\<open>http2.rs\<close>): the encrypted stream is the plaintext stream, and the handshake gives
    both ends the same keys.

  \<^bold>\<open>Control plane\<close> (\<^verbatim>\<open>crabscale-control/src\<close>).
  \<^item> \<^verbatim>\<open>Control_Ip\<close>, \<^verbatim>\<open>Control_Session\<close>, \<^verbatim>\<open>Control_Pending\<close>, \<^verbatim>\<open>Control_Events\<close>, \<^verbatim>\<open>Control_Dns\<close>, \<^verbatim>\<open>Control_Model\<close>
    (\<^verbatim>\<open>ip_allocator.rs\<close>, \<^verbatim>\<open>session.rs\<close>, \<^verbatim>\<open>pending.rs\<close>, \<^verbatim>\<open>events.rs\<close>, \<^verbatim>\<open>dns.rs\<close> and \<^verbatim>\<open>derp.rs\<close>, \<^verbatim>\<open>model.rs\<close> with \<^verbatim>\<open>time.rs\<close> and
    \<^verbatim>\<open>preauth.rs\<close>): the parts with a state of their own and their contracts.
  \<^item> \<^verbatim>\<open>Control_Store\<close> (\<^verbatim>\<open>store.rs\<close>): every SQL statement as its effect on tables with their constraints.
  \<^item> \<^verbatim>\<open>Control_Plane\<close>, \<^verbatim>\<open>Control_Map\<close>, \<^verbatim>\<open>Control_Ssh\<close> (\<^verbatim>\<open>lib.rs\<close>, \<^verbatim>\<open>delta.rs\<close>, \<^verbatim>\<open>ssh.rs\<close>): registration, interactive approval,
    logout, routes, complete maps and deltas, SSH check mode.
  \<^item> \<^verbatim>\<open>Control_Addresses\<close>, \<^verbatim>\<open>Control_Reach\<close>: the invariant of every reachable plane. \<^verbatim>\<open>Control_Register\<close>, \<^verbatim>\<open>Control_Keys\<close>: who can
    become authorized and on which evidence; the life of a key. \<^verbatim>\<open>Control_Peers\<close>, \<^verbatim>\<open>Control_Delta\<close>, \<^verbatim>\<open>Control_Errors\<close>: maps against
    the policy, deltas against the client, failures. \<^verbatim>\<open>Control_Checks\<close>: why an SSH connection is accepted.
    \<^verbatim>\<open>Control_Sample\<close>: a concrete plane for the witnesses.

  \<^bold>\<open>Server\<close> (\<^verbatim>\<open>crabscale-server/src\<close>, \<^verbatim>\<open>crabscale-metrics/src\<close>).
  \<^item> \<^verbatim>\<open>Server_Rate\<close>, \<^verbatim>\<open>Server_Proxy\<close>, \<^verbatim>\<open>Server_Oidc\<close>, \<^verbatim>\<open>Server_Boot\<close> (\<^verbatim>\<open>rate_limit.rs\<close>, \<^verbatim>\<open>proxy.rs\<close>, \<^verbatim>\<open>oidc.rs\<close>, \<^verbatim>\<open>key.rs\<close>,
    \<^verbatim>\<open>bootstrap_dns.rs\<close>, metrics): token buckets with their rounding, client addresses, the OIDC client and its flows.
  \<^item> \<^verbatim>\<open>Server_Query\<close>, \<^verbatim>\<open>Server_Router\<close>, \<^verbatim>\<open>Server_Approval\<close>, \<^verbatim>\<open>Server_Stream\<close> (\<^verbatim>\<open>router.rs\<close>): URL and page text, every endpoint, what an
    OIDC callback can approve, the streaming map session.
  \<^item> \<^verbatim>\<open>Server_Http\<close> (\<^verbatim>\<open>http.rs\<close>): routing, upgrade and inner connection. Its main theorem composes the layers: from the HTTP
    upgrade through the Noise handshake and the records to the identity under which inner requests are handled.

  \<^bold>\<open>Bounds and fuel.\<close> The recursive part of the HUJSON parser takes fuel, and twice the number of characters plus one
  is proved to be enough for every text. The group walk is a \<^verbatim>\<open>partial_function\<close>, since it may not return. Reads, polls
  and ticks are lists of what the environment does, so loops over them are structural. The other loops have a termination
  proof.

  \<^bold>\<open>What is not modelled, and why.\<close>
  \<^item> Process setup and operator tools: \<^verbatim>\<open>main.rs\<close> and \<^verbatim>\<open>config.rs\<close> of the server, the command line client, \<^verbatim>\<open>tls.rs\<close>,
    backup files, the test harness and the fuzz targets. They parse arguments or files with third-party derive macros, or
    call operations modelled here.
  \<^item> Cryptographic primitives, JSON, HTTP, TLS and SQLite themselves: arguments, or their documented effect. The schema is the one
    after all migrations.
  \<^item> Interleaving below the level of one operation. \<^verbatim>\<open>create_node_from_request\<close> reads the nodes and the upsert writes one later
    without a transaction around both; the model runs them together. The awaits inside one OIDC callback, and the clock that
    \<^verbatim>\<open>rate_check\<close> reads before it takes the lock, are such gaps; the latter is why the rate bound asks for ordered instants.
  \<^item> Overflow of times and ids kept in \<^verbatim>\<open>i64\<close>: they are integers without bound, as in \<^verbatim>\<open>flow_begin\<close>. Counters of metrics
    in the control plane are left out.
  \<^item> Text in URLs that the code itself does not escape is not escaped here (\<^verbatim>\<open>build_ssh_action_url\<close> and its auth id, which is
    hexadecimal).
\<close>

end
